(* ===== verification/Prelude.thy ===== *)
theory Prelude
  imports Main "HOL-Library.Word"
begin

text \<open>
  Shared vocabulary of the development.  C \<open>int\<close> is a 32-bit word read as two's complement,
  a C string is a \<open>string\<close> (its terminating NUL is the end of the list), a Lua run-time error is
  a value of \<open>lua_err\<close>.  The rest are generic lemmas about lists, counting and words that the
  components use.
\<close>

unbundle bit_operations_syntax

named_theorems unit_simps \<open>units of the board as explicit lists of positions\<close>
named_theorems wf_intros \<open>well-formedness is kept by an operation\<close>
named_theorems refines_intros \<open>an operation only eliminates candidates\<close>

type_synonym cint = "32 word"
type_synonym byte = "8 word"

text \<open>The value of a (signed) C \<open>char\<close> after promotion to \<open>int\<close>.\<close>

definition char_int :: "char \<Rightarrow> cint" where
  "char_int c = scast (of_char c :: byte)"

text \<open>The value of a C \<open>char\<close> read through \<open>unsigned char\<close>.\<close>

definition uchar_nat :: "char \<Rightarrow> nat" where
  "uchar_nat c = of_char c"

lemma uchar_nat_less [simp]: "uchar_nat c < 256"
  by (simp add: uchar_nat_def)

lemma char_of_uchar_nat [simp]: "char_of (uchar_nat c) = c"
  by (simp add: uchar_nat_def)

lemma uchar_nat_char_of [simp]: "n < 256 \<Longrightarrow> uchar_nat (char_of n) = n"
  by (simp add: uchar_nat_def)

text \<open>Errors raised by a Lua function: \<open>error(msg, 0)\<close>, or the fuel of the model ran out
  (proved not to happen).\<close>

datatype lua_err = LuaError string | OutOfFuel

subsection \<open>C integers\<close>

lemma sint_of_nat_small [simp]: "n < 2 ^ 31 \<Longrightarrow> sint (of_nat n :: cint) = int n"
  by (simp add: signed_of_nat signed_take_bit_int_eq_self_iff)

lemma sint_of_int_small [simp]: "- (2 ^ 31) \<le> i \<Longrightarrow> i < 2 ^ 31 \<Longrightarrow> sint (of_int i :: cint) = i"
  by (simp add: signed_of_int signed_take_bit_int_eq_self_iff)

lemma cint_nonneg:
  fixes i :: cint
  assumes "0 \<le> sint i"
  shows "i = of_nat (nat (sint i))" and "unat i = nat (sint i)"
proof -
  show i: "i = of_nat (nat (sint i))" using assms by (simp add: of_nat_nat)
  have "sint i < 2 ^ 31" using sint_lt [of i] by simp
  then have "nat (sint i) < 2 ^ 32" by (simp add: nat_less_iff assms)
  then show "unat i = nat (sint i)" by (subst i) (simp add: unat_of_nat)
qed

subsection \<open>Counting and lists\<close>

text \<open>The values of the control variable of \<open>for i=1,n do\<close>, in order.\<close>

definition for1 :: "nat \<Rightarrow> nat list" where
  "for1 n = [1..<Suc n]"

lemma set_for1 [simp]: "set (for1 n) = {1..n}"
  by (auto simp: for1_def simp del: upt_Suc)

lemma length_for1 [simp]: "length (for1 n) = n"
  by (simp add: for1_def del: upt_Suc)

lemma distinct_for1 [simp]: "distinct (for1 n)"
  by (simp add: for1_def del: upt_Suc)

lemma nth_for1 [simp]: "i < n \<Longrightarrow> for1 n ! i = Suc i"
  by (simp add: for1_def del: upt_Suc)

lemma for1_Suc: "for1 (Suc n) = for1 n @ [Suc n]"
  by (simp add: for1_def)

lemma for1_0 [simp]: "for1 0 = []"
  by (simp add: for1_def)

lemma sum_list_update_le:
  fixes f :: "'a \<Rightarrow> nat"
  assumes "i < length xs" and "f y \<le> f (xs ! i)"
  shows "sum_list (map f (xs[i := y])) \<le> sum_list (map f xs)"
proof -
  have "sum_list (map f (xs[i := y])) + f (xs ! i) = sum_list (map f xs) + f y"
    using assms(1) by (induction xs arbitrary: i) (auto split: nat.splits)
  with assms(2) show ?thesis by linarith
qed

lemma sum_list_update_less:
  fixes f :: "'a \<Rightarrow> nat"
  assumes "i < length xs" and "f y < f (xs ! i)"
  shows "sum_list (map f (xs[i := y])) < sum_list (map f xs)"
proof -
  have "sum_list (map f (xs[i := y])) + f (xs ! i) = sum_list (map f xs) + f y"
    using assms(1) by (induction xs arbitrary: i) (auto split: nat.splits)
  with assms(2) show ?thesis by linarith
qed

lemma sum_list_mono_all2:
  fixes f :: "'a \<Rightarrow> nat"
  assumes "list_all2 R xs ys" and "\<And>x y. R x y \<Longrightarrow> f x \<le> f y"
  shows "sum_list (map f xs) \<le> sum_list (map f ys)"
  using assms by (induction rule: list_all2_induct) (auto intro: add_mono)

lemma sum_list_eq_all2:
  fixes f :: "'a \<Rightarrow> nat"
  assumes "list_all2 R xs ys" and "\<And>x y. R x y \<Longrightarrow> f x \<le> f y"
    and "sum_list (map f xs) = sum_list (map f ys)"
  shows "list_all2 (\<lambda>x y. R x y \<and> f x = f y) xs ys"
  using assms
proof (induction rule: list_all2_induct)
  case Nil
  then show ?case by simp
next
  case (Cons x xs y ys)
  from Cons.hyps Cons.prems(1) have "f x \<le> f y" by blast
  moreover from Cons.hyps Cons.prems(1) have "sum_list (map f xs) \<le> sum_list (map f ys)"
    by (auto intro: sum_list_mono_all2)
  moreover from Cons.prems(2) have "f x + sum_list (map f xs) = f y + sum_list (map f ys)"
    by simp
  ultimately have "f x = f y" and "sum_list (map f xs) = sum_list (map f ys)" by linarith+
  with Cons show ?case by auto
qed

lemma filter_1_unique:
  assumes "length (filter P xs) = 1" and "x \<in> set xs" "P x" and "y \<in> set xs" "P y"
  shows "x = y"
proof -
  obtain z where "filter P xs = [z]" using assms(1) by (auto simp: length_Suc_conv)
  then have "{x. x \<in> set xs \<and> P x} = {z}" by (metis list.set(1) list.set(2) set_filter)
  moreover from assms have "x \<in> {x. x \<in> set xs \<and> P x}" "y \<in> {x. x \<in> set xs \<and> P x}"
    by simp_all
  ultimately show ?thesis by simp
qed

end
