(* ===== verification/Lua_Cell.thy ===== *)
theory Lua_Cell
  imports Prelude
begin

text \<open>
  Cells of \<^verbatim>\<open>src/src/sudoku.lua\<close>.  A cell is a Lua table whose entries \<open>1..9\<close> are booleans (false when
  the digit has been eliminated) with an optional field \<open>determined\<close>.  Digits are Lua numbers; only
  the naturals occur.  Loops are folds over the index range in the order of the source, followed by
  lemmas that give their closed form.
\<close>

definition sides :: nat where
  "sides = 3"

definition digits :: nat where
  "digits = sides * sides"

definition digits2 :: nat where
  "digits2 = digits * digits"

lemma sides_simps [simp]: "sides = 3" "digits = 9" "digits2 = 81"
  by (simp_all add: sides_def digits_def digits2_def)

record cell =
  poss :: "bool list"
  determined :: bool

definition mk_cell :: cell where
  "mk_cell = \<lparr>poss = replicate digits True, determined = False\<rparr>"

text \<open>\<open>cell[d]\<close> in a condition: an absent entry is \<open>nil\<close>, hence false.\<close>

definition cget :: "cell \<Rightarrow> nat \<Rightarrow> bool" where
  "cget c d = (1 \<le> d \<and> d \<le> length (poss c) \<and> poss c ! (d - 1))"

text \<open>\<open>cell[d] = false\<close>, executed only when \<open>cell[d]\<close> is true.\<close>

definition celim :: "nat \<Rightarrow> cell \<Rightarrow> cell" where
  "celim d c = c\<lparr>poss := (poss c)[d - 1 := False]\<rparr>"

definition cell_clone :: "cell \<Rightarrow> cell" where
  "cell_clone c = \<lparr>poss = map (\<lambda>i. poss c ! (i - 1)) (for1 (length (poss c))),
                   determined = (if determined c then True else False)\<rparr>"

definition cell_same :: "cell \<Rightarrow> cell \<Rightarrow> bool" where
  "cell_same c c' = (determined c = determined c' \<and>
     list_all (\<lambda>i. i \<le> length (poss c') \<and> poss c ! (i - 1) = poss c' ! (i - 1)) (for1 (length (poss c))))"

definition cell_singleton :: "nat \<Rightarrow> cell \<Rightarrow> cell \<times> bool" where
  "cell_singleton d c =
     fold (\<lambda>i (c, e). if i \<noteq> d \<and> cget c i then (celim i c, True) else (c, e))
       (for1 (length (poss c))) (c, False)"

definition cell_unknowns :: "cell \<Rightarrow> nat" where
  "cell_unknowns c = fold (\<lambda>i n. if cget c i then n + 1 else n) (for1 (length (poss c))) 0"

definition cell_first :: "cell \<Rightarrow> lua_err + nat" where
  "cell_first c = (case find (\<lambda>i. cget c i) (for1 (length (poss c))) of
     Some i \<Rightarrow> Inr i
   | None \<Rightarrow> Inl (LuaError ''Board inconsistent''))"

definition only_pair_present :: "nat \<Rightarrow> nat \<Rightarrow> cell \<Rightarrow> bool" where
  "only_pair_present d1 d2 c =
     (if d1 = d2 then False
      else list_all (\<lambda>i. (i = d1 \<or> i = d2) = cget c i) (for1 (length (poss c))))"

definition cell_val :: "cell \<Rightarrow> int" where
  "cell_val c = fold (\<lambda>i n. 2 * n + (if cget c i then 1 else 0)) (rev (for1 (length (poss c)))) 0"

text \<open>\<open>tostring\<close> of a digit.\<close>

definition digit_char :: "nat \<Rightarrow> char" where
  "digit_char d = char_of (48 + d)"

definition cell_show :: "cell \<Rightarrow> char" where
  "cell_show c = (if determined c \<and> cell_unknowns c = 1
     then (case cell_first c of Inr d \<Rightarrow> digit_char d | Inl _ \<Rightarrow> CHR ''.'')
     else CHR ''.'')"

subsection \<open>Well-formed cells, candidates, and the closed forms of the loops\<close>

definition cell_wf :: "cell \<Rightarrow> bool" where
  "cell_wf c \<longleftrightarrow> length (poss c) = digits"

text \<open>The set of digits not yet eliminated.\<close>

definition cands :: "cell \<Rightarrow> nat set" where
  "cands c = {d. cget c d}"

lemma cget_ge: "cget c d \<Longrightarrow> Suc 0 \<le> d"
  by (simp add: cget_def)

lemma cget_le: "cget c d \<Longrightarrow> d \<le> length (poss c)"
  by (simp add: cget_def)

lemmas cget_range = cget_ge cget_le

lemma finite_cands [simp]: "finite (cands c)"
  by (rule finite_subset [of _ "{1..length (poss c)}"]) (auto simp: cands_def dest: cget_range)

lemma length_poss_celim [simp]: "length (poss (celim d c)) = length (poss c)"
  by (simp add: celim_def)

lemma determined_celim [simp]: "determined (celim d c) = determined c"
  by (simp add: celim_def)

lemma poss_determined_update [simp]: "cget (c\<lparr>determined := b\<rparr>) d = cget c d"
  by (simp add: cget_def)

lemma cget_celim: "1 \<le> d \<Longrightarrow> cget (celim d c) i \<longleftrightarrow> cget c i \<and> i \<noteq> d"
  by (cases "i = d") (auto simp: cget_def celim_def nth_list_update)

lemma cands_celim: "1 \<le> d \<Longrightarrow> cands (celim d c) = cands c - {d}"
  by (auto simp: cands_def cget_celim)

lemma cell_eqI:
  assumes "length (poss c) = length (poss c')" and "determined c = determined c'"
    and "\<And>d. cget c d = cget c' d"
  shows "c = (c' :: cell)"
proof -
  have "poss c = poss c'"
  proof (rule nth_equalityI)
    fix i assume "i < length (poss c)"
    with assms(1) assms(3) [of "Suc i"] show "poss c ! i = poss c' ! i" by (simp add: cget_def)
  qed (rule assms(1))
  with assms(2) show ?thesis by simp
qed

lemma cell_clone_id: "cell_clone c = c"
proof -
  have "map (\<lambda>i. poss c ! (i - 1)) (for1 (length (poss c))) = poss c"
    by (rule nth_equalityI) (simp_all)
  then show ?thesis by (simp add: cell_clone_def)
qed

lemma cell_same_iff:
  assumes "length (poss c) = length (poss c')"
  shows "cell_same c c' \<longleftrightarrow> c = c'"
proof
  assume s: "cell_same c c'"
  have "poss c = poss c'"
  proof (rule nth_equalityI)
    fix i assume "i < length (poss c)"
    then have "Suc i \<in> set (for1 (length (poss c)))" by (simp add: Suc_le_eq)
    with s show "poss c ! i = poss c' ! i"
      unfolding cell_same_def list_all_iff by fastforce
  qed (rule assms)
  with s show "c = c'" by (simp add: cell_same_def)
next
  assume "c = c'"
  then show "cell_same c c'" by (auto simp: cell_same_def list_all_iff)
qed

lemma singleton_fold:
  fixes c :: cell and d :: nat and e :: bool
  assumes "\<forall>i\<in>set is. 1 \<le> i"
  shows "\<exists>c' e'. fold (\<lambda>i (c, e). if i \<noteq> d \<and> cget c i then (celim i c, True) else (c, e)) is (c, e) = (c', e') \<and>
    length (poss c') = length (poss c) \<and> determined c' = determined c \<and>
    cands c' = cands c - (set is - {d}) \<and> (e' \<longleftrightarrow> e \<or> (\<exists>i\<in>set is. i \<noteq> d \<and> cget c i))"
  using assms
proof (induction "is" arbitrary: c e)
  case Nil
  then show ?case by simp
next
  case (Cons i "is")
  show ?case
  proof (cases "i \<noteq> d \<and> cget c i")
    case True
    then show ?thesis using Cons.IH [of "celim i c" True] Cons.prems
      by (auto simp: cands_celim)
  next
    case False
    then show ?thesis using Cons.IH [of c e] Cons.prems
      by (auto simp: cands_def)
  qed
qed

lemma singleton_props:
  "length (poss (fst (cell_singleton d c))) = length (poss c) \<and>
   determined (fst (cell_singleton d c)) = determined c \<and>
   cands (fst (cell_singleton d c)) = cands c \<inter> {d} \<and>
   (snd (cell_singleton d c) \<longleftrightarrow> \<not> cands c \<subseteq> {d})"
proof -
  have "\<forall>i\<in>set (for1 (length (poss c))). 1 \<le> i" by auto
  from singleton_fold [OF this, of d c False] obtain c' e' where
      r: "cell_singleton d c = (c', e')" and l: "length (poss c') = length (poss c)"
      and dt: "determined c' = determined c" and cs: "cands c' = cands c - ({1..length (poss c)} - {d})"
      and e: "e' \<longleftrightarrow> (\<exists>i\<in>{1..length (poss c)}. i \<noteq> d \<and> cget c i)"
    unfolding cell_singleton_def by auto
  from cs have "cands c' = cands c \<inter> {d}" by (auto simp: cands_def dest: cget_range)
  moreover have "\<And>i. i \<in> cands c \<longleftrightarrow> i \<in> {1..length (poss c)} \<and> cget c i"
    by (auto simp: cands_def cget_def)
  with e have "e' \<longleftrightarrow> \<not> cands c \<subseteq> {d}" by blast
  ultimately show ?thesis using r l dt by simp
qed

lemmas length_singleton [simp] = singleton_props [THEN conjunct1]
lemmas determined_singleton [simp] = singleton_props [THEN conjunct2, THEN conjunct1]
lemmas cands_singleton = singleton_props [THEN conjunct2, THEN conjunct2, THEN conjunct1]
lemmas snd_singleton = singleton_props [THEN conjunct2, THEN conjunct2, THEN conjunct2]

lemma unknowns_fold:
  "fold (\<lambda>i n. if cget c i then n + 1 else n) is n = n + length (filter (cget c) is)"
  by (induction "is" arbitrary: n) auto

lemma cell_unknowns_card: "cell_unknowns c = card (cands c)"
proof -
  have "cands c = set (filter (cget c) (for1 (length (poss c))))"
    by (auto simp: cands_def dest: cget_range)
  then show ?thesis
    by (simp add: cell_unknowns_def unknowns_fold distinct_card [symmetric])
qed

lemma cell_first_Inr: "cell_first c = Inr d \<Longrightarrow> d \<in> cands c"
  by (auto simp: cell_first_def cands_def find_Some_iff split: option.splits)

lemma cell_first_Inl: "cell_first c = Inl m \<Longrightarrow> cands c = {} \<and> m = LuaError ''Board inconsistent''"
  by (auto simp: cell_first_def cands_def find_None_iff split: option.splits dest: cget_range)

lemma cell_first_ex: "cands c \<noteq> {} \<Longrightarrow> \<exists>d. cell_first c = Inr d \<and> d \<in> cands c"
  using cell_first_Inl cell_first_Inr by (cases "cell_first c") auto

lemma only_pair_present_iff:
  assumes "cell_wf c" and "d1 \<in> {1..digits}" and "d2 \<in> {1..digits}"
  shows "only_pair_present d1 d2 c \<longleftrightarrow> d1 \<noteq> d2 \<and> cands c = {d1, d2}"
proof -
  have "\<And>i. i \<in> cands c \<longleftrightarrow> i \<in> {1..digits} \<and> cget c i"
    using assms(1) by (auto simp: cands_def cget_def cell_wf_def)
  moreover have "only_pair_present d1 d2 c \<longleftrightarrow>
      d1 \<noteq> d2 \<and> (\<forall>i\<in>{1..digits}. (i = d1 \<or> i = d2) = cget c i)"
    using assms(1) unfolding only_pair_present_def list_all_iff cell_wf_def by simp
  ultimately show ?thesis using assms(2,3) by blast
qed

lemma cands_mk_cell: "cands mk_cell = {1..digits}"
  by (auto simp: cands_def mk_cell_def cget_def)

lemma cell_wf_mk_cell [simp]: "cell_wf mk_cell"
  by (simp add: cell_wf_def mk_cell_def)

lemma cands_subset: "cell_wf c \<Longrightarrow> cands c \<subseteq> {1..digits}"
  by (auto simp: cands_def cell_wf_def cget_def)

text \<open>What \<open>Cell:val\<close> computes: bit \<open>d - 1\<close> is set exactly when digit \<open>d\<close> is possible.\<close>

lemma val_fold:
  "fold (\<lambda>i n. 2 * n + (if P i then 1 else 0)) (rev (for1 k)) n =
   (\<Sum>i\<in>{1..k}. if P i then 2 ^ (i - 1) else (0::int)) + 2 ^ k * n"
proof (induction k arbitrary: n)
  case 0
  then show ?case by simp
next
  case (Suc k)
  then show ?case by (simp add: for1_Suc algebra_simps)
qed

lemma cell_val_sum: "cell_val c = (\<Sum>d\<in>cands c. 2 ^ (d - 1))"
proof -
  have "cell_val c = (\<Sum>i\<in>{1..length (poss c)}. if cget c i then 2 ^ (i - 1) else (0::int))"
    by (simp add: cell_val_def val_fold)
  also have "\<dots> = (\<Sum>d\<in>{1..length (poss c)} \<inter> {d. cget c d}. 2 ^ (d - 1))"
    by (subst sum.inter_restrict) simp_all
  also have "{1..length (poss c)} \<inter> {d. cget c d} = cands c"
    by (auto simp: cands_def dest: cget_range)
  finally show ?thesis .
qed

end
