(* ===== verification/Lua_Refine.thy ===== *)
theory Lua_Refine
  imports Lua_Board
begin

text \<open>
  The invariant of boards, the refinement order (candidates only disappear, cells only become
  determined) and the solutions of a board; \<open>Board:determine\<close> and
  \<open>Board:propagate_elimination\<close> keep all three, report exactly whether a candidate was eliminated,
  and terminate.
\<close>

subsection \<open>Positions\<close>

lemma valid_pos_simps [simp]:
  "valid_pos (r1, c1, r2, c2) \<longleftrightarrow> r1 \<in> {1..3} \<and> c1 \<in> {1..3} \<and> r2 \<in> {1..3} \<and> c2 \<in> {1..3}"
  by (auto simp: valid_pos_def)

lemma pidx_less: "valid_pos p \<Longrightarrow> pidx p < 81"
  by (cases p) auto

lemma base3_inject:
  "y < 3 \<Longrightarrow> y' < 3 \<Longrightarrow> x * 3 + y = x' * 3 + y' \<longleftrightarrow> x = x' \<and> y = (y' :: nat)"
  by presburger

lemma pred3:
  "x \<in> {1..3} \<Longrightarrow> x - 1 < (3::nat)"
  "x \<in> {1..3} \<Longrightarrow> y \<in> {1..3} \<Longrightarrow> x - 1 = y - 1 \<longleftrightarrow> x = (y::nat)"
  by auto

lemma pidx_inject:
  assumes "valid_pos p" and "valid_pos q"
  shows "pidx p = pidx q \<longleftrightarrow> p = q"
proof -
  obtain a b c d a' b' c' d' where pq: "p = (a, b, c, d)" "q = (a', b', c', d')"
    by (cases p, cases q)
  show ?thesis
    using assms unfolding pq valid_pos_simps pidx.simps sides_simps
    by (simp only: base3_inject pred3 prod.inject conj_assoc)
qed

lemma for1_3: "for1 3 = [1, 2, 3]"
  by (simp add: for1_def upt_rec)

lemma set_square_cells: "set (square_cells r1 c1) = {(r1, c1, r2, c2) |r2 c2. r2 \<in> {1..3} \<and> c2 \<in> {1..3}}"
  by (auto simp: square_cells_def)

lemma set_row_cells: "set (row_cells r1 r2) = {(r1, c1, r2, c2) |c1 c2. c1 \<in> {1..3} \<and> c2 \<in> {1..3}}"
  by (auto simp: row_cells_def)

lemma set_column_cells: "set (column_cells c1 c2) = {(r1, c1, r2, c2) |r1 r2. r1 \<in> {1..3} \<and> r2 \<in> {1..3}}"
  by (auto simp: column_cells_def)

lemmas set_units = set_square_cells set_row_cells set_column_cells

lemma unit_length [simp]:
  "length (square_cells r1 c1) = 9" "length (row_cells r1 r2) = 9" "length (column_cells c1 c2) = 9"
  by (simp_all add: square_cells_def row_cells_def column_cells_def for1_3)

lemma unit_distinct [simp]:
  "distinct (square_cells r1 c1)" "distinct (row_cells r1 r2)" "distinct (column_cells c1 c2)"
  by (simp_all add: square_cells_def row_cells_def column_cells_def for1_3)

lemma map_pidx_storage: "map pidx storage_order = [0..<81]"
  by code_simp

lemma set_storage_order: "set storage_order = Collect valid_pos"
  unfolding storage_order_def by (auto simp: set_units)

lemma set_reading_order: "set reading_order = Collect valid_pos"
  unfolding reading_order_def by (auto simp: set_units)

lemma length_storage_order [simp]: "length storage_order = 81"
  using arg_cong [OF map_pidx_storage, of length] by simp

lemma length_reading_order [simp]: "length reading_order = 81"
  by code_simp

lemma distinct_reading_order [simp]: "distinct reading_order"
  by code_simp

lemma pidx_surj: assumes "i < 81" obtains p where "valid_pos p" "pidx p = i"
proof -
  have "i \<in> set (map pidx storage_order)" using assms by (simp add: map_pidx_storage)
  then obtain p where "p \<in> set storage_order" "pidx p = i" by auto
  with that show thesis by (auto simp: set_storage_order)
qed

subsection \<open>The invariant of boards\<close>

definition cell_ok :: "cell \<Rightarrow> bool" where
  "cell_ok c \<longleftrightarrow> cell_wf c \<and> (determined c \<longrightarrow> card (cands c) \<le> 1)"

definition board_wf :: "board \<Rightarrow> bool" where
  "board_wf b \<longleftrightarrow> length b = digits2 \<and> (\<forall>c\<in>set b. cell_ok c)"

lemma board_wf_length: "board_wf b \<Longrightarrow> length b = 81"
  by (simp add: board_wf_def)

lemma bget_ok: "board_wf b \<Longrightarrow> valid_pos p \<Longrightarrow> cell_ok (bget b p)"
  using pidx_less by (auto simp: board_wf_def bget_def)

lemma bget_wf: "board_wf b \<Longrightarrow> valid_pos p \<Longrightarrow> cell_wf (bget b p)"
  using bget_ok by (auto simp: cell_ok_def)

lemma bset_wf [wf_intros]: "board_wf b \<Longrightarrow> cell_ok c \<Longrightarrow> board_wf (bset b p c)"
  by (auto simp: board_wf_def bset_def dest: set_update_subset_insert [THEN subsetD])

lemma bget_bset:
  "board_wf b \<Longrightarrow> valid_pos p \<Longrightarrow> valid_pos q \<Longrightarrow> bget (bset b p c) q = (if q = p then c else bget b q)"
  using pidx_less [of p] by (auto simp: bget_def bset_def board_wf_length nth_list_update pidx_inject)

lemma celim_ok: "cell_ok c \<Longrightarrow> 1 \<le> d \<Longrightarrow> cell_ok (celim d c)"
proof -
  have "card (cands c - {d}) \<le> card (cands c)" by (rule card_mono) auto
  then show "cell_ok c \<Longrightarrow> 1 \<le> d \<Longrightarrow> cell_ok (celim d c)"
    by (auto simp: cell_ok_def cell_wf_def cands_celim)
qed

lemma singleton_ok: "cell_wf c \<Longrightarrow> cell_ok (fst (cell_singleton d c))"
proof -
  have "card (cands c \<inter> {d}) \<le> card {d}" by (rule card_mono) auto
  then show "cell_wf c \<Longrightarrow> ?thesis" by (simp add: cell_ok_def cell_wf_def cands_singleton)
qed

lemma mk_board_wf [wf_intros]: "board_wf mk_board"
proof -
  have "cell_ok mk_cell" unfolding cell_ok_def by (simp, simp add: mk_cell_def)
  then show ?thesis by (simp add: board_wf_def mk_board_def)
qed

lemma bget_mk_board: "valid_pos p \<Longrightarrow> bget mk_board p = mk_cell"
  using pidx_less [of p] by (simp add: bget_def mk_board_def)

lemma board_eqI:
  assumes "length b = 81" "length b' = 81" and "\<And>p. valid_pos p \<Longrightarrow> bget b p = bget b' p"
  shows "b = b'"
proof (rule nth_equalityI)
  fix i assume "i < length b"
  then obtain p where "valid_pos p" "pidx p = i" using assms(1) pidx_surj by metis
  with assms(3) [of p] show "b ! i = b' ! i" by (simp add: bget_def)
qed (simp add: assms)

lemma board_clone_id:
  assumes "length b = 81" shows "board_clone b = b"
proof -
  have "board_clone b = map (\<lambda>i. b ! i) (map pidx storage_order)"
    by (simp add: board_clone_def cell_clone_id bget_def comp_def)
  also have "\<dots> = b" using assms map_nth [of b] by (simp add: map_pidx_storage)
  finally show ?thesis .
qed

lemma board_same_iff:
  assumes "board_wf b" and "\<And>b'. other = Some b' \<Longrightarrow> board_wf b'"
  shows "board_same b other \<longleftrightarrow> other = Some b"
proof (cases other)
  case None
  then show ?thesis by (simp add: board_same_def)
next
  case (Some b')
  have "cell_same (bget b p) (bget b' p) \<longleftrightarrow> bget b p = bget b' p" if "valid_pos p" for p
    using bget_wf [OF assms(1) that] bget_wf [OF assms(2) [OF Some] that]
    by (intro cell_same_iff) (simp add: cell_wf_def)
  then have "board_same b other \<longleftrightarrow> (\<forall>p. valid_pos p \<longrightarrow> bget b p = bget b' p)"
    using Some by (auto simp: board_same_def list_all_iff set_storage_order)
  also have "\<dots> \<longleftrightarrow> b = b'"
    using board_eqI assms Some board_wf_length by metis
  finally show ?thesis using Some by auto
qed

subsection \<open>The refinement order\<close>

definition cell_le :: "cell \<Rightarrow> cell \<Rightarrow> bool" where
  "cell_le c' c \<longleftrightarrow> cands c' \<subseteq> cands c \<and> (determined c \<longrightarrow> determined c')"

definition refines :: "board \<Rightarrow> board \<Rightarrow> bool" where
  "refines b' b \<longleftrightarrow> list_all2 cell_le b' b"

text \<open>The number of candidates left on the board.\<close>

definition ncands :: "board \<Rightarrow> nat" where
  "ncands b = sum_list (map (\<lambda>c. card (cands c)) b)"

lemma cell_le_refl [simp]: "cell_le c c"
  by (simp add: cell_le_def)

lemma refines_refl [simp, refines_intros]: "refines b b"
  by (simp add: refines_def list_all2_same)

lemma refines_trans: "refines b2 b1 \<Longrightarrow> refines b1 b \<Longrightarrow> refines b2 b"
  unfolding refines_def by (rule list_all2_trans [of cell_le cell_le]) (auto simp: cell_le_def)

lemma refines_bset [refines_intros]: "cell_le c (bget b p) \<Longrightarrow> refines (bset b p c) b"
  unfolding refines_def bset_def bget_def
  by (cases "pidx p < length b")
    (auto simp: list_all2_conv_all_nth nth_list_update cell_le_def)

lemma refines_length: "refines b' b \<Longrightarrow> length b' = length b"
  by (auto simp: refines_def dest: list_all2_lengthD)

lemma refines_bget: "refines b' b \<Longrightarrow> board_wf b \<Longrightarrow> valid_pos p \<Longrightarrow> cell_le (bget b' p) (bget b p)"
  using pidx_less [of p] by (auto simp: refines_def bget_def board_wf_length list_all2_conv_all_nth)

lemma refines_ncands: "refines b' b \<Longrightarrow> ncands b' \<le> ncands b"
  unfolding refines_def ncands_def
  by (erule sum_list_mono_all2) (simp add: cell_le_def card_mono)

lemma refines_undetermined: "refines b' b \<Longrightarrow> undetermined b' \<le> undetermined b"
  unfolding refines_def undetermined_def
  by (induction rule: list_all2_induct) (auto simp: cell_le_def)

lemma refines_same_cands:
  assumes "refines b' b" and "ncands b' = ncands b"
  shows "list_all2 (\<lambda>c' c. cands c' = cands c) b' b"
proof -
  have "list_all2 (\<lambda>c' c. cell_le c' c \<and> card (cands c') = card (cands c)) b' b"
    using assms unfolding refines_def ncands_def
    by (intro sum_list_eq_all2) (assumption, simp add: cell_le_def card_mono)
  then show ?thesis
    by (rule list_all2_mono) (auto simp: cell_le_def dest: card_subset_eq [rotated])
qed

lemma refines_bget_same: "refines b' b \<Longrightarrow> ncands b' = ncands b \<Longrightarrow> board_wf b \<Longrightarrow> valid_pos p \<Longrightarrow> cands (bget b' p) = cands (bget b p)"
  using list_all2_nthD2 [OF refines_same_cands, of b' b "pidx p"] pidx_less [of p] by (simp add: bget_def board_wf_length)

lemma belim_refines [refines_intros]: "1 \<le> d \<Longrightarrow> refines (belim p d b) b"
  unfolding belim_def by (rule refines_bset) (auto simp: cell_le_def cands_celim)

lemma belim_wf [wf_intros]: "board_wf b \<Longrightarrow> valid_pos p \<Longrightarrow> 1 \<le> d \<Longrightarrow> board_wf (belim p d b)"
  unfolding belim_def by (intro bset_wf celim_ok bget_ok)

lemma ncands_bset_less:
  assumes "board_wf b" "valid_pos p" "cands c \<subset> cands (bget b p)"
  shows "ncands (bset b p c) < ncands b"
  unfolding ncands_def bset_def
proof (rule sum_list_update_less)
  show "pidx p < length b" using assms pidx_less board_wf_length by metis
  show "card (cands c) < card (cands (b ! pidx p))"
    using assms(3) by (simp add: bget_def psubset_card_mono)
qed

lemma ncands_belim:
  assumes "board_wf b" and "valid_pos p" and "cget (bget b p) d"
  shows "ncands (belim p d b) < ncands b"
  unfolding belim_def
proof (rule ncands_bset_less [OF assms(1,2)])
  from cget_ge [OF assms(3)] have "cands (celim d (bget b p)) = cands (bget b p) - {d}"
    by (simp add: cands_celim)
  moreover from assms(3) have "d \<in> cands (bget b p)" by (simp add: cands_def)
  ultimately show "cands (celim d (bget b p)) \<subset> cands (bget b p)" by blast
qed

lemma ncands_bset_eq:
  assumes "board_wf b" "valid_pos p" "cands c = cands (bget b p)"
  shows "ncands (bset b p c) = ncands b"
proof -
  have "map (\<lambda>c. card (cands c)) (bset b p c) = map (\<lambda>c. card (cands c)) b"
    using assms pidx_less [of p] board_wf_length [OF assms(1)]
    by (auto simp: bset_def bget_def list_eq_iff_nth_eq nth_list_update)
  then show ?thesis by (simp add: ncands_def)
qed

declare valid_pos_simps [simp del]

end
