(* ===== verification/Lua_Determine.thy ===== *)
theory Lua_Determine
  imports Lua_Refine
begin

text \<open>
  The contract of the board-changing functions of \<^verbatim>\<open>src/src/sudoku.lua\<close> as a locale, the solutions of a
  board, and the proofs that \<open>Board:determine\<close> and \<open>Board:propagate_elimination\<close> satisfy the
  contract, with termination of their mutual recursion.
\<close>

subsection \<open>Outcomes\<close>

text \<open>\<open>shrink_to e b out\<close>: running from board \<open>b\<close> with the flag \<open>e\<close> so far, the board stays
  well formed and only loses candidates, the flag returned tells whether \<open>e\<close> was set or a candidate
  was lost, and the only error is the one of a cell without candidates (so the fuel did not run out).\<close>

definition shrink_to :: "bool \<Rightarrow> board \<Rightarrow> bool outcome \<Rightarrow> bool" where
  "shrink_to e b out \<longleftrightarrow> board_wf (snd out) \<and> refines (snd out) b \<and> (\<forall>m. fst out = Inl m \<longrightarrow> m = LuaError ''Board inconsistent'') \<and>
     (\<forall>e'. fst out = Inr e' \<longrightarrow> (e' \<longleftrightarrow> e \<or> ncands (snd out) < ncands b))"

lemma shrink_to_refl: "board_wf b \<Longrightarrow> shrink_to e b (Inr e, b)"
  by (simp add: shrink_to_def)

lemma shrink_to_trans:
  assumes "shrink_to e b (Inr e1, b1)" and "shrink_to e1 b1 out"
  shows "shrink_to e b out"
proof -
  have "ncands (snd out) \<le> ncands b1" "ncands b1 \<le> ncands b"
    using assms by (auto simp: shrink_to_def intro: refines_ncands)
  with assms show ?thesis
    by (auto simp: shrink_to_def intro: refines_trans)
qed

lemma shrink_to_Inl: "shrink_to e b (Inl m, b1) \<Longrightarrow> shrink_to e' b (Inl m, b1)"
  by (simp add: shrink_to_def)

lemma shrink_to_or:
  assumes "shrink_to False b out"
  shows "shrink_to e b (case out of (Inl m, b') \<Rightarrow> (Inl m, b') | (Inr e', b') \<Rightarrow> (Inr (e' \<or> e), b'))"
  using assms by (cases out) (auto simp: shrink_to_def split: sum.splits)

lemma shrink_to_undetermined: "shrink_to e b (r, b') \<Longrightarrow> undetermined b' \<le> undetermined b"
  by (auto simp: shrink_to_def intro: refines_undetermined)

lemma shrink_to_wf: "shrink_to e b (r, b') \<Longrightarrow> board_wf b'"
  by (simp add: shrink_to_def)

lemma shrink_to_belim:
  assumes "board_wf b" "valid_pos q" "cget (bget b q) d"
  shows "shrink_to e b (Inr True, belim q d b)"
proof -
  have "1 \<le> d" using cget_ge [OF assms(3)] by simp
  with assms ncands_belim [OF assms] show ?thesis
    by (auto simp: shrink_to_def intro: belim_wf belim_refines)
qed

subsection \<open>Solutions\<close>

type_synonym grid = "pos \<Rightarrow> nat"

definition units :: "pos list set" where
  "units = {square_cells r1 c1 |r1 c1. r1 \<in> {1..3} \<and> c1 \<in> {1..3}} \<union>
           {row_cells r1 r2 |r1 r2. r1 \<in> {1..3} \<and> r2 \<in> {1..3}} \<union>
           {column_cells c1 c2 |c1 c2. c1 \<in> {1..3} \<and> c2 \<in> {1..3}}"

text \<open>A completed Sudoku: every row, column and square contains the digits one through nine.\<close>

definition valid_grid :: "grid \<Rightarrow> bool" where
  "valid_grid g \<longleftrightarrow> (\<forall>unit\<in>units. g ` set unit = {1..digits})"

text \<open>A completed Sudoku none of whose entries has been eliminated from the board.\<close>

definition solution_of :: "grid \<Rightarrow> board \<Rightarrow> bool" where
  "solution_of g b \<longleftrightarrow> valid_grid g \<and> (\<forall>p. valid_pos p \<longrightarrow> g p \<in> cands (bget b p))"

definition sound_to :: "grid \<Rightarrow> bool outcome \<Rightarrow> bool" where
  "sound_to g out \<longleftrightarrow> (\<exists>e. fst out = Inr e) \<and> solution_of g (snd out)"

lemma units_valid: "unit \<in> units \<Longrightarrow> p \<in> set unit \<Longrightarrow> valid_pos p"
  by (auto simp: units_def set_units valid_pos_simps)

lemma units_length: "unit \<in> units \<Longrightarrow> length unit = 9"
  by (auto simp: units_def)

lemma units_distinct: "unit \<in> units \<Longrightarrow> distinct unit"
  by (auto simp: units_def)

lemma valid_grid_inj:
  assumes "valid_grid g" and "unit \<in> units"
  shows "inj_on g (set unit)"
proof (rule eq_card_imp_inj_on)
  show "card (g ` set unit) = card (set unit)"
    using assms by (simp add: valid_grid_def units_length distinct_card units_distinct)
qed simp

lemma valid_grid_onto:
  assumes "valid_grid g" and "unit \<in> units" and "d \<in> {1..9}"
  obtains p where "p \<in> set unit" "g p = d"
proof -
  have "d \<in> g ` set unit" using assms by (simp add: valid_grid_def)
  with that show thesis by blast
qed

lemma square_units: "r1 \<in> {1..3} \<Longrightarrow> c1 \<in> {1..3} \<Longrightarrow> square_cells r1 c1 \<in> units"
  unfolding units_def by blast

lemma row_units: "r1 \<in> {1..3} \<Longrightarrow> r2 \<in> {1..3} \<Longrightarrow> row_cells r1 r2 \<in> units"
  unfolding units_def by blast

lemma column_units: "c1 \<in> {1..3} \<Longrightarrow> c2 \<in> {1..3} \<Longrightarrow> column_cells c1 c2 \<in> units"
  unfolding units_def by blast

lemma unit_mem:
  assumes "valid_pos (r1, c1, r2, c2)"
  shows "(r1, c1, r2, c2) \<in> set (square_cells r1 c1)" "(r1, c1, r2, c2) \<in> set (row_cells r1 r2)"
    "(r1, c1, r2, c2) \<in> set (column_cells c1 c2)"
  using assms by (simp_all add: set_units valid_pos_simps)

lemma units_of_pos:
  assumes "valid_pos (r1, c1, r2, c2)"
  shows "square_cells r1 c1 \<in> units" "row_cells r1 r2 \<in> units" "column_cells c1 c2 \<in> units"
  using assms by (simp_all only: valid_pos_simps square_units row_units column_units)

lemma solution_cands: "solution_of g b \<Longrightarrow> valid_pos p \<Longrightarrow> g p \<in> cands (bget b p)"
  unfolding solution_of_def by blast

lemma solution_cget: "solution_of g b \<Longrightarrow> valid_pos p \<Longrightarrow> cget (bget b p) (g p)"
  by (drule (1) solution_cands) (simp add: cands_def)

lemma solution_bset:
  assumes "solution_of g b" "board_wf b" "valid_pos p" "g p \<in> cands c"
  shows "solution_of g (bset b p c)"
  unfolding solution_of_def
proof (intro conjI allI impI)
  show "valid_grid g" using assms(1) by (simp add: solution_of_def)
  fix q assume "valid_pos q"
  with assms show "g q \<in> cands (bget (bset b p c) q)"
    by (simp add: bget_bset solution_cands)
qed

lemma solution_belim:
  assumes "solution_of g b" "board_wf b" "valid_pos p" "1 \<le> d" "g p \<noteq> d"
  shows "solution_of g (belim p d b)"
  unfolding belim_def
  by (rule solution_bset) (use assms solution_cands in \<open>simp_all add: cands_celim\<close>)

subsection \<open>Sequencing and loops\<close>

lemma and_then_simps [simp]:
  "and_then (Inl m, b) k = (Inl m, b)" "and_then (Inr x, b) k = k x b"
  by (simp_all add: and_then_def)

lemma shrink_to_and_then:
  assumes "shrink_to e b out"
    and "\<And>e' b'. out = (Inr e', b') \<Longrightarrow> board_wf b' \<Longrightarrow> undetermined b' \<le> undetermined b \<Longrightarrow> shrink_to e' b' (k e' b')"
  shows "shrink_to e b (and_then out k)"
proof -
  obtain r b' where out: "out = (r, b')" by (cases out)
  show ?thesis
  proof (cases r)
    case (Inr e')
    with out assms show ?thesis
      by (auto intro: shrink_to_trans shrink_to_wf shrink_to_undetermined)
  qed (use out assms in simp)
qed

lemma sound_to_and_then:
  assumes "shrink_to e b out" and "sound_to g out"
    and "\<And>e' b'. board_wf b' \<Longrightarrow> undetermined b' \<le> undetermined b \<Longrightarrow> solution_of g b' \<Longrightarrow> sound_to g (k e' b')"
  shows "sound_to g (and_then out k)"
proof -
  from assms(2) obtain e' b' where "out = (Inr e', b')" "solution_of g b'"
    by (cases out) (auto simp: sound_to_def)
  with assms show ?thesis by (auto intro: shrink_to_wf shrink_to_undetermined)
qed

lemma and_then_cong:
  assumes "shrink_to e b out"
    and "\<And>e' b'. board_wf b' \<Longrightarrow> undetermined b' \<le> undetermined b \<Longrightarrow> k' e' b' = k e' b'"
  shows "and_then out k' = and_then out k"
proof -
  obtain r b' where out: "out = (r, b')" by (cases out)
  with assms shrink_to_wf shrink_to_undetermined show ?thesis by (cases r) auto
qed

lemma shrink_to_flag:
  assumes "shrink_to False b (f p b)" "board_wf b"
  shows "shrink_to e b (and_then (f p b) (\<lambda>e' b. (Inr (e' \<or> e), b)))"
  using shrink_to_or [OF assms(1)] by (simp add: and_then_def)

lemma loop_or_Cons:
  "loop_or f (p # ps) e b = and_then (and_then (f p b) (\<lambda>e' b. (Inr (e' \<or> e), b))) (loop_or f ps)"
  by (cases "f p b", cases "fst (f p b)") (auto simp: and_then_def)

lemma loop_or_shrink:
  assumes "board_wf b" and "undetermined b < k"
    and "\<And>q b'. q \<in> set ps \<Longrightarrow> board_wf b' \<Longrightarrow> undetermined b' < k \<Longrightarrow> shrink_to False b' (f q b')"
  shows "shrink_to e b (loop_or f ps e b)"
  using assms
proof (induction ps arbitrary: e b)
  case Nil
  then show ?case by (simp add: shrink_to_refl)
next
  case (Cons p ps)
  then show ?case unfolding loop_or_Cons
    by (intro shrink_to_and_then shrink_to_flag) auto
qed

lemma loop_or_sound:
  assumes "board_wf b" and "undetermined b < k" and "solution_of g b"
    and "\<And>q b'. q \<in> set ps \<Longrightarrow> board_wf b' \<Longrightarrow> undetermined b' < k \<Longrightarrow> shrink_to False b' (f q b')"
    and "\<And>q b'. q \<in> set ps \<Longrightarrow> board_wf b' \<Longrightarrow> undetermined b' < k \<Longrightarrow> solution_of g b' \<Longrightarrow> sound_to g (f q b')"
  shows "sound_to g (loop_or f ps e b)"
  using assms
proof (induction ps arbitrary: e b)
  case Nil
  then show ?case by (simp add: sound_to_def)
next
  case (Cons p ps)
  have "shrink_to False b (f p b)" and "sound_to g (f p b)" using Cons.prems by auto
  then have "sound_to g (and_then (f p b) (\<lambda>e' b. loop_or f ps (e' \<or> e) b))"
  proof (rule sound_to_and_then)
    fix e' b'
    assume b': "board_wf b'" "undetermined b' \<le> undetermined b" "solution_of g b'"
    show "sound_to g (loop_or f ps (e' \<or> e) b')"
      by (rule Cons.IH) (use b' Cons.prems in auto)
  qed
  then show ?case by simp
qed

lemma loop_or_cong:
  assumes "board_wf b" and "undetermined b < k"
    and "\<And>q b'. q \<in> set ps \<Longrightarrow> board_wf b' \<Longrightarrow> undetermined b' < k \<Longrightarrow> shrink_to False b' (f q b')"
    and "\<And>q b'. q \<in> set ps \<Longrightarrow> board_wf b' \<Longrightarrow> undetermined b' < k \<Longrightarrow> f' q b' = f q b'"
  shows "loop_or f' ps e b = loop_or f ps e b"
  using assms
proof (induction ps arbitrary: e b)
  case Nil
  then show ?case by simp
next
  case (Cons p ps)
  have "shrink_to False b (f p b)" using Cons.prems by auto
  then have "and_then (f p b) (\<lambda>e' b. loop_or f' ps (e' \<or> e) b) = and_then (f p b) (\<lambda>e' b. loop_or f ps (e' \<or> e) b)"
  proof (rule and_then_cong)
    fix e' b'
    assume b': "board_wf b'" "undetermined b' \<le> undetermined b"
    show "loop_or f' ps (e' \<or> e) b' = loop_or f ps (e' \<or> e) b'"
      by (rule Cons.IH) (use b' Cons.prems in auto)
  qed
  with Cons.prems show ?case by simp
qed

subsection \<open>Influence of a singleton on a unit\<close>

lemma influence_aux:
  assumes "board_wf b" and "\<forall>q\<in>set unit. valid_pos q"
    and "fold (\<lambda>q (b, e, m).
        let (b, e) = (if q \<noteq> p \<and> cget (bget b q) d then (belim q d b, True) else (b, e))
        in (b, e, if determined (bget b q) then m + 1 else m)) unit (b, e, m) = (b', e', m')"
  shows "shrink_to e b (Inr e', b') \<and>
    (solution_of g b \<longrightarrow> (\<forall>q\<in>set unit. q \<noteq> p \<longrightarrow> g q \<noteq> d) \<longrightarrow> solution_of g b')"
  using assms
proof (induction unit arbitrary: b e m)
  case Nil
  then show ?case by (simp add: shrink_to_refl)
next
  case (Cons q unit)
  show ?case
  proof (cases "q \<noteq> p \<and> cget (bget b q) d")
    case True
    then have d: "1 \<le> d" using cget_ge by fastforce
    let ?b = "belim q d b"
    have s: "shrink_to e b (Inr True, ?b)" using Cons.prems True by (auto intro: shrink_to_belim)
    have "shrink_to True ?b (Inr e', b') \<and>
        (solution_of g ?b \<longrightarrow> (\<forall>q\<in>set unit. q \<noteq> p \<longrightarrow> g q \<noteq> d) \<longrightarrow> solution_of g b')"
      using Cons.prems True shrink_to_wf [OF s] by (intro Cons.IH) (auto simp: Let_def)
    moreover have "solution_of g b \<Longrightarrow> g q \<noteq> d \<Longrightarrow> solution_of g ?b"
      using Cons.prems d by (intro solution_belim) auto
    ultimately show ?thesis using shrink_to_trans [OF s] True by simp
  next
    case False
    have "shrink_to e b (Inr e', b') \<and>
        (solution_of g b \<longrightarrow> (\<forall>q\<in>set unit. q \<noteq> p \<longrightarrow> g q \<noteq> d) \<longrightarrow> solution_of g b')"
      using Cons.prems False by (intro Cons.IH) (auto simp: Let_def)
    then show ?thesis by simp
  qed
qed

lemma influence_shrink:
  assumes "board_wf b" and "\<forall>q\<in>set unit. valid_pos q" and "influence p d unit e b = (b', e', m)"
  shows "shrink_to e b (Inr e', b')"
  using influence_aux [OF assms(1,2)] assms(3) unfolding influence_def by blast

lemma influence_sound:
  assumes "board_wf b" and "unit \<in> units" and "p \<in> set unit" and "influence p d unit e b = (b', e', m)"
    and "solution_of g b" and "g p = d"
  shows "solution_of g b'"
proof -
  have "inj_on g (set unit)"
    using assms(2,5) valid_grid_inj by (auto simp: solution_of_def)
  then have "\<forall>q\<in>set unit. q \<noteq> p \<longrightarrow> g q \<noteq> d"
    using assms(3,6) by (auto dest: inj_onD)
  moreover have "\<forall>q\<in>set unit. valid_pos q" using assms(2) units_valid by blast
  ultimately show ?thesis
    using influence_aux [OF assms(1) _ assms(4) [unfolded influence_def], of g] assms(5) by blast
qed

lemma influence_finish_shrink:
  assumes "board_wf b" and "undetermined b < k" and "\<forall>q\<in>set unit. valid_pos q"
    and pr: "\<And>q b'. valid_pos q \<Longrightarrow> board_wf b' \<Longrightarrow> undetermined b' < k \<Longrightarrow> shrink_to False b' (prop q b')"
  shows "shrink_to e b (influence_finish prop p d unit e b)"
proof -
  obtain b1 e1 m where i: "influence p d unit e b = (b1, e1, m)" by (metis prod_cases3)
  from influence_shrink [OF assms(1,3) i] have s: "shrink_to e b (Inr e1, b1)" .
  have "shrink_to e1 b1 (loop_or (\<lambda>q b. if \<not> determined (bget b q) then prop q b else (Inr False, b)) unit e1 b1)"
    using assms shrink_to_wf [OF s] shrink_to_undetermined [OF s]
    by (intro loop_or_shrink [where k = k]) (auto simp: shrink_to_refl)
  with s i show ?thesis by (auto simp: influence_finish_def intro: shrink_to_trans)
qed

lemma influence_finish_cong:
  assumes "board_wf b" and "undetermined b < k" and "\<forall>q\<in>set unit. valid_pos q"
    and "\<And>q b'. valid_pos q \<Longrightarrow> board_wf b' \<Longrightarrow> undetermined b' < k \<Longrightarrow> shrink_to False b' (prop q b')"
    and "\<And>q b'. valid_pos q \<Longrightarrow> board_wf b' \<Longrightarrow> undetermined b' < k \<Longrightarrow> prop' q b' = prop q b'"
  shows "influence_finish prop' p d unit e b = influence_finish prop p d unit e b"
proof -
  obtain b1 e1 m where i: "influence p d unit e b = (b1, e1, m)" by (metis prod_cases3)
  from influence_shrink [OF assms(1,3) i] have s: "shrink_to e b (Inr e1, b1)" .
  have "loop_or (\<lambda>q b. if \<not> determined (bget b q) then prop' q b else (Inr False, b)) unit e1 b1 =
      loop_or (\<lambda>q b. if \<not> determined (bget b q) then prop q b else (Inr False, b)) unit e1 b1"
    using assms shrink_to_wf [OF s] shrink_to_undetermined [OF s]
    by (intro loop_or_cong [where k = k]) (auto simp: shrink_to_refl)
  with i show ?thesis by (simp add: influence_finish_def)
qed

lemma influence_finish_sound:
  assumes "board_wf b" and "undetermined b < k" and "unit \<in> units" and "p \<in> set unit"
    and "solution_of g b" and "g p = d"
    and "\<And>q b'. valid_pos q \<Longrightarrow> board_wf b' \<Longrightarrow> undetermined b' < k \<Longrightarrow> shrink_to False b' (prop q b')"
    and "\<And>q b'. valid_pos q \<Longrightarrow> board_wf b' \<Longrightarrow> undetermined b' < k \<Longrightarrow> solution_of g b' \<Longrightarrow> sound_to g (prop q b')"
  shows "sound_to g (influence_finish prop p d unit e b)"
proof -
  have v: "\<forall>q\<in>set unit. valid_pos q" using assms(3) units_valid by blast
  obtain b1 e1 m where i: "influence p d unit e b = (b1, e1, m)" by (metis prod_cases3)
  from influence_shrink [OF assms(1) v i] have s: "shrink_to e b (Inr e1, b1)" .
  from influence_sound [OF assms(1,3,4) i assms(5,6)] have sol: "solution_of g b1" .
  have "sound_to g (loop_or (\<lambda>q b. if \<not> determined (bget b q) then prop q b else (Inr False, b)) unit e1 b1)"
    using assms(2,7,8) v sol shrink_to_wf [OF s] shrink_to_undetermined [OF s]
    by (intro loop_or_sound [where k = k]) (auto simp: shrink_to_refl sound_to_def)
  with sol i show ?thesis by (simp add: influence_finish_def sound_to_def)
qed

subsection \<open>Determining a cell\<close>

lemma undetermined_sum: "undetermined b = sum_list (map (\<lambda>c. if determined c then 0 else 1) b)"
  unfolding undetermined_def by (induction b) auto

lemma undetermined_bset:
  assumes "board_wf b" "valid_pos p" "\<not> determined (bget b p)" "determined c"
  shows "undetermined (bset b p c) < undetermined b"
  unfolding undetermined_sum bset_def
  using assms pidx_less [of p] board_wf_length [of b]
  by (intro sum_list_update_less) (auto simp: bget_def)

text \<open>The first step of \<open>determine\<close>: the cell itself.\<close>

lemma determine_cell:
  assumes "board_wf b" "valid_pos p" "cget (bget b p) d" "\<not> determined (bget b p)"
    and sing: "cell_singleton d ((bget b p)\<lparr>determined := True\<rparr>) = (c, e)"
  shows "shrink_to False b (Inr e, bset b p c) \<and> undetermined (bset b p c) < undetermined b \<and>
    cands c = {d} \<and> determined c"
proof -
  let ?c = "(bget b p)\<lparr>determined := True\<rparr>"
  have wf: "cell_wf ?c" using bget_wf [OF assms(1,2)] by (simp add: cell_wf_def)
  have same: "cands ?c = cands (bget b p)" by (simp add: cands_def)
  have c: "c = fst (cell_singleton d ?c)" and e: "e = snd (cell_singleton d ?c)" using sing by simp_all
  have d: "d \<in> cands (bget b p)" using assms(3) by (simp add: cands_def)
  have cc: "cands c = {d}" and det: "determined c"
    using d same by (auto simp: c cands_singleton)
  have flag: "e \<longleftrightarrow> cands (bget b p) \<noteq> {d}" using d same by (auto simp: e snd_singleton)
  have nc: "e \<longleftrightarrow> ncands (bset b p c) < ncands b"
  proof (cases e)
    case True
    then have "cands c \<subset> cands (bget b p)" using flag cc d by auto
    then show ?thesis using ncands_bset_less [OF assms(1,2)] True by simp
  next
    case False
    then have "cands c = cands (bget b p)" using flag cc by simp
    then show ?thesis using ncands_bset_eq [OF assms(1,2)] False by simp
  qed
  have "board_wf (bset b p c)" unfolding c by (intro bset_wf assms singleton_ok wf)
  moreover have "refines (bset b p c) b" using cc d det by (intro refines_bset) (auto simp: cell_le_def)
  moreover have "undetermined (bset b p c) < undetermined b"
    using assms det by (intro undetermined_bset)
  ultimately show ?thesis using nc cc det by (simp add: shrink_to_def)
qed

lemma determine_body_noop:
  "\<not> cget (bget b p) d \<or> determined (bget b p) \<Longrightarrow> determine_body prop p d b = (Inr False, b)"
  by (cases p) (simp add: determine_body.simps Let_def)

lemma determine_body_set:
  "cget (bget b (r1, c1, r2, c2)) d \<Longrightarrow> \<not> determined (bget b (r1, c1, r2, c2)) \<Longrightarrow>
   cell_singleton d ((bget b (r1, c1, r2, c2))\<lparr>determined := True\<rparr>) = (c, e) \<Longrightarrow>
   determine_body prop (r1, c1, r2, c2) d b =
     and_then (influence_finish prop (r1, c1, r2, c2) d (square_cells r1 c1) e (bset b (r1, c1, r2, c2) c)) (\<lambda>e b.
     and_then (influence_finish prop (r1, c1, r2, c2) d (row_cells r1 r2) e b) (\<lambda>e b.
     influence_finish prop (r1, c1, r2, c2) d (column_cells c1 c2) e b))"
  by (simp add: determine_body.simps Let_def)

lemma determine_body_tail:
  assumes b: "board_wf b" and p: "valid_pos p" and c: "cget (bget b p) d" "\<not> determined (bget b p)"
    and s: "cell_singleton d ((bget b p)\<lparr>determined := True\<rparr>) = (c, e)"
    and pr: "\<And>q b'. valid_pos q \<Longrightarrow> board_wf b' \<Longrightarrow> undetermined b' < undetermined b \<Longrightarrow> shrink_to False b' (prop q b')"
  shows "shrink_to e (bset b p c) (determine_body prop p d b)"
proof -
  obtain r1 c1 r2 c2 where pp: "p = (r1, c1, r2, c2)" by (cases p)
  from determine_cell [OF b p c s]
  have sh: "shrink_to False b (Inr e, bset b p c)" and less: "undetermined (bset b p c) < undetermined b"
    by auto
  have fin: "shrink_to e' b' (influence_finish prop p d unit e' b')"
    if "board_wf b'" "undetermined b' < undetermined b" "unit \<in> units" for e' b' unit
    using that units_valid by (intro influence_finish_shrink [where k = "undetermined b"] pr) auto
  note U = units_of_pos [OF p [unfolded pp]]
  show ?thesis
    using c s less shrink_to_wf [OF sh] unfolding pp
    by (subst determine_body_set) (auto intro!: shrink_to_and_then fin [unfolded pp] U)
qed

lemma determine_body_shrink:
  assumes b: "board_wf b" and p: "valid_pos p"
    and pr: "\<And>q b'. valid_pos q \<Longrightarrow> board_wf b' \<Longrightarrow> undetermined b' < undetermined b \<Longrightarrow> shrink_to False b' (prop q b')"
  shows "shrink_to False b (determine_body prop p d b)"
proof (cases "\<not> cget (bget b p) d \<or> determined (bget b p)")
  case True
  then show ?thesis using b by (simp add: determine_body_noop shrink_to_refl)
next
  case False
  obtain c e where s: "cell_singleton d ((bget b p)\<lparr>determined := True\<rparr>) = (c, e)" by fastforce
  from False have c: "cget (bget b p) d" "\<not> determined (bget b p)" by auto
  have "shrink_to e (bset b p c) (determine_body prop p d b)"
    by (rule determine_body_tail [OF b p c s]) (rule pr)
  with determine_cell [OF b p c s] show ?thesis
    by (blast intro: shrink_to_trans)
qed

lemma determine_body_cong:
  assumes b: "board_wf b" and p: "valid_pos p"
    and pr: "\<And>q b'. valid_pos q \<Longrightarrow> board_wf b' \<Longrightarrow> undetermined b' < undetermined b \<Longrightarrow> shrink_to False b' (prop q b')"
    and eq: "\<And>q b'. valid_pos q \<Longrightarrow> board_wf b' \<Longrightarrow> undetermined b' < undetermined b \<Longrightarrow> prop' q b' = prop q b'"
  shows "determine_body prop' p d b = determine_body prop p d b"
proof (cases "\<not> cget (bget b p) d \<or> determined (bget b p)")
  case True
  then show ?thesis by (simp add: determine_body_noop)
next
  case False
  obtain r1 c1 r2 c2 where pp: "p = (r1, c1, r2, c2)" by (cases p)
  obtain c e where s: "cell_singleton d ((bget b p)\<lparr>determined := True\<rparr>) = (c, e)" by fastforce
  from False determine_cell [OF b p _ _ s]
  have sh: "shrink_to False b (Inr e, bset b p c)" and less: "undetermined (bset b p c) < undetermined b"
    by auto
  have fin: "shrink_to e' b' (influence_finish prop p d unit e' b')"
    and fin_eq: "influence_finish prop' p d unit e' b' = influence_finish prop p d unit e' b'"
    if "board_wf b'" "undetermined b' < undetermined b" "unit \<in> units" for e' b' unit
    using that units_valid pr eq
    by (auto intro!: influence_finish_shrink [where k = "undetermined b"] influence_finish_cong [where k = "undetermined b"])
  note U = units_of_pos [OF p [unfolded pp]]
  have "determine_body prop' p d b =
     and_then (influence_finish prop p d (square_cells r1 c1) e (bset b p c)) (\<lambda>e b.
     and_then (influence_finish prop' p d (row_cells r1 r2) e b) (\<lambda>e b.
     influence_finish prop' p d (column_cells c1 c2) e b))"
    using False s unfolding pp
    by (subst determine_body_set) (auto simp: fin_eq [unfolded pp, OF shrink_to_wf [OF sh [unfolded pp]] less [unfolded pp] U(1)])
  also have "\<dots> = and_then (influence_finish prop p d (square_cells r1 c1) e (bset b p c)) (\<lambda>e b.
     and_then (influence_finish prop p d (row_cells r1 r2) e b) (\<lambda>e b.
     influence_finish prop p d (column_cells c1 c2) e b))"
  proof (rule and_then_cong [OF fin [OF shrink_to_wf [OF sh] less U(1)]])
    fix e' b'
    assume b': "board_wf b'" "undetermined b' \<le> undetermined (bset b p c)"
    with less have k: "undetermined b' < undetermined b" by simp
    show "and_then (influence_finish prop' p d (row_cells r1 r2) e' b') (influence_finish prop' p d (column_cells c1 c2)) =
       and_then (influence_finish prop p d (row_cells r1 r2) e' b') (influence_finish prop p d (column_cells c1 c2))"
      unfolding fin_eq [OF b'(1) k U(2)]
      by (rule and_then_cong [OF fin [OF b'(1) k U(2)]]) (use k in \<open>auto intro!: fin_eq U(3)\<close>)
  qed
  also have "\<dots> = determine_body prop p d b"
    using False s unfolding pp by (subst determine_body_set) auto
  finally show ?thesis .
qed

lemma determine_body_sound:
  assumes b: "board_wf b" and p: "valid_pos p" and sol: "solution_of g b" and gp: "g p = d"
    and pr: "\<And>q b'. valid_pos q \<Longrightarrow> board_wf b' \<Longrightarrow> undetermined b' < undetermined b \<Longrightarrow> shrink_to False b' (prop q b')"
    and so: "\<And>q b'. valid_pos q \<Longrightarrow> board_wf b' \<Longrightarrow> undetermined b' < undetermined b \<Longrightarrow> solution_of g b' \<Longrightarrow> sound_to g (prop q b')"
  shows "sound_to g (determine_body prop p d b)"
proof (cases "\<not> cget (bget b p) d \<or> determined (bget b p)")
  case True
  then show ?thesis using sol by (auto simp: determine_body_noop sound_to_def)
next
  case False
  obtain r1 c1 r2 c2 where pp: "p = (r1, c1, r2, c2)" by (cases p)
  obtain c e where s: "cell_singleton d ((bget b p)\<lparr>determined := True\<rparr>) = (c, e)" by fastforce
  from False determine_cell [OF b p _ _ s]
  have sh: "shrink_to False b (Inr e, bset b p c)" and less: "undetermined (bset b p c) < undetermined b"
    and c: "cands c = {d}" by auto
  note U = units_of_pos [OF p [unfolded pp]] and M = unit_mem [OF p [unfolded pp]]
  have fin: "shrink_to e' b' (influence_finish prop p d unit e' b')"
    if "board_wf b'" "undetermined b' < undetermined b" "unit \<in> units" for e' b' unit
    using that units_valid by (intro influence_finish_shrink [where k = "undetermined b"] pr) auto
  have snd: "sound_to g (influence_finish prop p d unit e' b')"
    if "board_wf b'" "undetermined b' < undetermined b" "solution_of g b'" "unit \<in> units" "p \<in> set unit" for e' b' unit
    using that gp by (intro influence_finish_sound [where k = "undetermined b"] pr so)
  have b1: "solution_of g (bset b p c)" using sol b p gp c by (intro solution_bset) auto
  have "sound_to g (and_then (influence_finish prop p d (square_cells r1 c1) e (bset b p c)) (\<lambda>e b.
     and_then (influence_finish prop p d (row_cells r1 r2) e b) (\<lambda>e b.
     influence_finish prop p d (column_cells c1 c2) e b)))"
  proof (rule sound_to_and_then [OF fin [OF shrink_to_wf [OF sh] less U(1)]
        snd [OF shrink_to_wf [OF sh] less b1 U(1) M(1) [folded pp]]])
    fix e' b'
    assume b': "board_wf b'" "undetermined b' \<le> undetermined (bset b p c)" "solution_of g b'"
    with less have k: "undetermined b' < undetermined b" by simp
    show "sound_to g (and_then (influence_finish prop p d (row_cells r1 r2) e' b') (influence_finish prop p d (column_cells c1 c2)))"
      by (rule sound_to_and_then [OF fin [OF b'(1) k U(2)] snd [OF b'(1) k b'(3) U(2) M(2) [folded pp]]])
        (use k in \<open>auto intro!: snd U(3) M(3) [folded pp]\<close>)
  qed
  then show ?thesis using False s unfolding pp by (subst determine_body_set) auto
qed

lemma propagate_with_shrink:
  "board_wf b \<Longrightarrow> (\<And>d. shrink_to False b (det p d b)) \<Longrightarrow> shrink_to False b (propagate_with det p b)"
  by (auto simp: propagate_with_def Let_def shrink_to_refl split: sum.splits)
    (auto simp: shrink_to_def dest: cell_first_Inl)

lemma propagate_with_sound:
  assumes "solution_of g b" and "valid_pos p"
    and "\<And>d. g p = d \<Longrightarrow> sound_to g (det p d b)"
  shows "sound_to g (propagate_with det p b)"
proof (cases "cell_unknowns (bget b p) > 1 \<or> determined (bget b p)")
  case True
  then show ?thesis using assms(1) by (auto simp: propagate_with_def sound_to_def)
next
  case False
  have gp: "g p \<in> cands (bget b p)" by (rule solution_cands [OF assms(1,2)])
  then obtain d where d: "cell_first (bget b p) = Inr d" "d \<in> cands (bget b p)"
    using cell_first_ex by blast
  from False have "card (cands (bget b p)) \<le> Suc 0" by (simp add: cell_unknowns_card)
  with gp d(2) have "g p = d" by (auto simp: card_le_Suc0_iff_eq)
  with False d(1) assms(3) show ?thesis by (simp add: propagate_with_def)
qed

subsection \<open>The recursion is well founded\<close>

lemma determine_fuel_shrink:
  "board_wf b \<Longrightarrow> valid_pos p \<Longrightarrow> undetermined b < n \<Longrightarrow> shrink_to False b (determine_fuel n p d b)"
proof (induction n arbitrary: p d b)
  case (Suc n)
  then show ?case by (auto intro!: determine_body_shrink propagate_with_shrink)
qed simp

lemma determine_fuel_more:
  "board_wf b \<Longrightarrow> valid_pos p \<Longrightarrow> undetermined b < n \<Longrightarrow> n \<le> n' \<Longrightarrow> determine_fuel n' p d b = determine_fuel n p d b"
proof (induction n arbitrary: n' p d b)
  case (Suc n)
  then obtain k where n': "n' = Suc k" and k: "n \<le> k" by (cases n') auto
  have "determine_body (propagate_with (determine_fuel k)) p d b = determine_body (propagate_with (determine_fuel n)) p d b"
  proof (rule determine_body_cong [OF Suc.prems(1,2)])
    fix q b'
    assume q: "valid_pos q" "board_wf b'" "undetermined b' < undetermined b"
    then have "undetermined b' < n" using Suc.prems(3) by simp
    with q Suc.IH [OF q(2,1) _ k] show "propagate_with (determine_fuel k) q b' = propagate_with (determine_fuel n) q b'"
      by (auto simp: propagate_with_def Let_def split: sum.splits)
    show "shrink_to False b' (propagate_with (determine_fuel n) q b')"
      using q \<open>undetermined b' < n\<close> by (intro propagate_with_shrink determine_fuel_shrink)
  qed
  with n' show ?case by simp
qed simp

lemma determine_shrink: "board_wf b \<Longrightarrow> valid_pos p \<Longrightarrow> shrink_to False b (determine p d b)"
  by (simp add: determine_def determine_fuel_shrink del: determine_fuel.simps)

lemma propagate_shrink: "board_wf b \<Longrightarrow> valid_pos p \<Longrightarrow> shrink_to False b (propagate_elimination p b)"
  unfolding propagate_elimination_def by (intro propagate_with_shrink determine_shrink)

text \<open>The recursive equation of the source, with no fuel.\<close>

lemma determine_eq:
  assumes "board_wf b" and "valid_pos p"
  shows "determine p d b = determine_body propagate_elimination p d b"
proof -
  have "determine p d b = determine_body (propagate_with (determine_fuel (undetermined b))) p d b"
    by (simp add: determine_def)
  also have "\<dots> = determine_body propagate_elimination p d b"
  proof (rule determine_body_cong [OF assms])
    fix q b'
    assume q: "valid_pos q" "board_wf b'" "undetermined b' < undetermined b"
    then have "determine_fuel (undetermined b) q d b' = determine q d b'" for d
      using determine_fuel_more [OF q(2,1), of "Suc (undetermined b')" "undetermined b" d] by (simp add: determine_def)
    then show "propagate_with (determine_fuel (undetermined b)) q b' = propagate_elimination q b'"
      by (auto simp: propagate_elimination_def propagate_with_def Let_def split: sum.splits)
    show "shrink_to False b' (propagate_elimination q b')" by (rule propagate_shrink [OF q(2,1)])
  qed
  finally show ?thesis .
qed

lemma determine_sound:
  assumes "board_wf b" "valid_pos p" "solution_of g b" "g p = d"
  shows "sound_to g (determine p d b)"
  using assms
proof (induction "undetermined b" arbitrary: b p d rule: less_induct)
  case less
  have "sound_to g (determine_body propagate_elimination p d b)"
  proof (rule determine_body_sound [OF less.prems])
    fix q b'
    assume q: "valid_pos q" "board_wf b'" "undetermined b' < undetermined b"
    show "shrink_to False b' (propagate_elimination q b')" by (rule propagate_shrink [OF q(2,1)])
    assume "solution_of g b'"
    with q less.hyps show "sound_to g (propagate_elimination q b')"
      unfolding propagate_elimination_def by (intro propagate_with_sound) auto
  qed
  with determine_eq [OF less.prems(1,2)] show ?case by simp
qed

lemma propagate_sound:
  "board_wf b \<Longrightarrow> valid_pos p \<Longrightarrow> solution_of g b \<Longrightarrow> sound_to g (propagate_elimination p b)"
  unfolding propagate_elimination_def by (intro propagate_with_sound determine_sound)

text \<open>The effect of \<open>determine\<close> on its own cell.\<close>

lemma refines_singleton:
  assumes "refines b' b" "board_wf b" "valid_pos p" "determined (bget b p)" "cands (bget b p) = {d}"
  shows "determined (bget b' p) \<and> cands (bget b' p) \<subseteq> {d}"
  using refines_bget [OF assms(1-3)] assms(4,5) by (auto simp: cell_le_def)

lemma determine_refines_first:
  assumes "board_wf b" "valid_pos p" "cget (bget b p) d" "\<not> determined (bget b p)"
    and "cell_singleton d ((bget b p)\<lparr>determined := True\<rparr>) = (c, e)" and "determine p d b = (r, b')"
  shows "refines b' (bset b p c)"
proof -
  have "shrink_to e (bset b p c) (determine_body propagate_elimination p d b)"
    by (rule determine_body_tail [OF assms(1-5)]) (rule propagate_shrink)
  with determine_eq [OF assms(1,2)] assms(6) show ?thesis by (simp add: shrink_to_def)
qed

end
