(* ===== verification/Lua_Rules.thy ===== *)
theory Lua_Rules
  imports Lua_Board
begin

text \<open>
  The strategies of \<^verbatim>\<open>src/src/sudoku.lua\<close>: every \<open>Board\<close> method that implements a rule, from
  \<open>propagate_all_singletons\<close> to \<open>all\<close> and \<open>hint\<close>.  A rule returns whether it eliminated a possible cell
  value, or the Lua error it raised, and the board.  The source repeats each loop for squares, rows and
  columns; here the loop is written once over the list of cells it visits.
\<close>

type_synonym rule = "board \<Rightarrow> bool outcome"

text \<open>Convert a row or column coordinate into a cell index pair.\<close>

definition spread :: "nat \<Rightarrow> lua_err + (nat \<times> nat)" where
  "spread index =
     (if index < 1 \<or> index > digits then Inl (LuaError (''Bad index number '' @ string_of_nat index))
      else Inr ((index + (sides - 1)) div sides, (index - 1) mod sides + 1))"

definition with_spread :: "nat \<Rightarrow> (nat \<Rightarrow> nat \<Rightarrow> board \<Rightarrow> 'a outcome) \<Rightarrow> board \<Rightarrow> 'a outcome" where
  "with_spread index k b = (case spread index of Inl m \<Rightarrow> (Inl m, b) | Inr (i1, i2) \<Rightarrow> k i1 i2 b)"

text \<open>\<open>repeat f = rule(); e = e or f until not f; return e\<close>.  The fuel is the number of
  candidates plus one: every round but the last eliminates a candidate.\<close>

primrec repeat_fuel :: "nat \<Rightarrow> rule \<Rightarrow> bool \<Rightarrow> rule" where
  "repeat_fuel 0 rule e b = (Inl OutOfFuel, b)"
| "repeat_fuel (Suc n) rule e b =
     and_then (rule b) (\<lambda>f b. if f then repeat_fuel n rule True b else (Inr e, b))"

definition total_cands :: "board \<Rightarrow> nat" where
  "total_cands b = sum_list (map cell_unknowns b)"

definition repeat_rule :: "rule \<Rightarrow> rule" where
  "repeat_rule rule b = repeat_fuel (Suc (total_cands b)) rule False b"

text \<open>Lua's \<open>or\<close>: the right operand is evaluated only when the left one is false.\<close>

definition or_else :: "rule \<Rightarrow> rule \<Rightarrow> rule" where
  "or_else f g b = and_then (f b) (\<lambda>e b. if e then (Inr True, b) else g b)"

subsection \<open>Singletons and one-place rules\<close>

definition propagate_all_singletons :: rule where
  "propagate_all_singletons = repeat_rule (loop_or propagate_elimination reading_order False)"

definition one_place_in_unit :: "nat \<Rightarrow> pos list \<Rightarrow> rule" where
  "one_place_in_unit d unit b =
     (let m = length (filter (\<lambda>p. cget (bget b p) d) unit)
      in if m = 1
         then loop_or (\<lambda>p b. if cget (bget b p) d then determine p d b else (Inr False, b)) unit False b
         else (Inr False, b))"

definition one_place_in_square :: "nat \<Rightarrow> nat \<Rightarrow> nat \<Rightarrow> rule" where
  "one_place_in_square d row col =
     with_spread row (\<lambda>r1 _. with_spread col (\<lambda>c1 _. one_place_in_unit d (square_cells r1 c1)))"

definition one_place_in_row :: "nat \<Rightarrow> nat \<Rightarrow> rule" where
  "one_place_in_row d row = with_spread row (\<lambda>r1 r2. one_place_in_unit d (row_cells r1 r2))"

definition one_place_in_column :: "nat \<Rightarrow> nat \<Rightarrow> rule" where
  "one_place_in_column d col = with_spread col (\<lambda>c1 c2. one_place_in_unit d (column_cells c1 c2))"

definition one_place_in_all_squares :: rule where
  "one_place_in_all_squares =
     loop_or (\<lambda>(d, r1, c1). one_place_in_square d (r1 * sides) (c1 * sides))
       (List.product (for1 digits) (List.product (for1 sides) (for1 sides))) False"

definition one_place_in_all_rows :: rule where
  "one_place_in_all_rows =
     loop_or (\<lambda>(d, row). one_place_in_row d row) (List.product (for1 digits) (for1 digits)) False"

definition one_place_in_all_columns :: rule where
  "one_place_in_all_columns =
     loop_or (\<lambda>(d, col). one_place_in_column d col) (List.product (for1 digits) (for1 digits)) False"

definition board_simp :: rule where
  "board_simp = repeat_rule
     (or_else propagate_all_singletons
       (or_else one_place_in_all_squares
         (or_else one_place_in_all_rows one_place_in_all_columns)))"

subsection \<open>Elimination loops\<close>

text \<open>In the cells \<open>ps\<close> that satisfy the guard, eliminate the digits \<open>ds\<close>.\<close>

definition eliminate_digits :: "nat list \<Rightarrow> pos \<Rightarrow> board \<times> bool \<Rightarrow> board \<times> bool" where
  "eliminate_digits ds p =
     fold (\<lambda>d (b, e). if cget (bget b p) d then (belim p d b, True) else (b, e)) ds"

definition eliminate_in :: "(cell \<Rightarrow> bool) \<Rightarrow> nat list \<Rightarrow> pos list \<Rightarrow> rule" where
  "eliminate_in guard ds ps b =
     (case fold (\<lambda>p (b, e). if guard (bget b p) then eliminate_digits ds p (b, e) else (b, e)) ps (b, False)
      of (b, e) \<Rightarrow> (Inr e, b))"

text \<open>The cells of a square outside one of its rows or columns, and of a row or column outside one
  of its squares, in loop order.\<close>

definition square_but_row :: "nat \<Rightarrow> nat \<Rightarrow> nat \<Rightarrow> pos list" where
  "square_but_row r1 c1 r2 =
     concat (map (\<lambda>rr2. if rr2 \<noteq> r2 then map (\<lambda>c2. (r1, c1, rr2, c2)) (for1 sides) else []) (for1 sides))"

definition square_but_column :: "nat \<Rightarrow> nat \<Rightarrow> nat \<Rightarrow> pos list" where
  "square_but_column r1 c1 c2 =
     concat (map (\<lambda>cc2. if cc2 \<noteq> c2 then map (\<lambda>r2. (r1, c1, r2, cc2)) (for1 sides) else []) (for1 sides))"

definition row_but_square :: "nat \<Rightarrow> nat \<Rightarrow> nat \<Rightarrow> pos list" where
  "row_but_square r1 r2 c1 =
     concat (map (\<lambda>cc1. if cc1 \<noteq> c1 then map (\<lambda>c2. (r1, cc1, r2, c2)) (for1 sides) else []) (for1 sides))"

definition column_but_square :: "nat \<Rightarrow> nat \<Rightarrow> nat \<Rightarrow> pos list" where
  "column_but_square c1 c2 r1 =
     concat (map (\<lambda>rr1. if rr1 \<noteq> r1 then map (\<lambda>r2. (rr1, c1, r2, c2)) (for1 sides) else []) (for1 sides))"

text \<open>The shape shared by the four rules: not applicable when \<open>d\<close> is possible in a cell of \<open>check\<close>,
  otherwise eliminate \<open>d\<close> from the cells of \<open>clear\<close>.\<close>

definition confined :: "nat \<Rightarrow> pos list \<Rightarrow> pos list \<Rightarrow> rule" where
  "confined d check clear b =
     (if list_ex (\<lambda>p. cget (bget b p) d) check then (Inr False, b)
      else eliminate_in (\<lambda>_. True) [d] clear b)"

definition one_row_in_square :: "nat \<Rightarrow> nat \<Rightarrow> nat \<Rightarrow> rule" where
  "one_row_in_square d row col =
     with_spread row (\<lambda>r1 r2. with_spread col (\<lambda>c1 _. confined d (square_but_row r1 c1 r2) (row_but_square r1 r2 c1)))"

definition one_column_in_square :: "nat \<Rightarrow> nat \<Rightarrow> nat \<Rightarrow> rule" where
  "one_column_in_square d row col =
     with_spread row (\<lambda>r1 _. with_spread col (\<lambda>c1 c2. confined d (square_but_column r1 c1 c2) (column_but_square c1 c2 r1)))"

definition one_square_for_row :: "nat \<Rightarrow> nat \<Rightarrow> nat \<Rightarrow> rule" where
  "one_square_for_row d row col =
     with_spread row (\<lambda>r1 r2. with_spread col (\<lambda>c1 _. confined d (row_but_square r1 r2 c1) (square_but_row r1 c1 r2)))"

definition one_square_for_column :: "nat \<Rightarrow> nat \<Rightarrow> nat \<Rightarrow> rule" where
  "one_square_for_column d row col =
     with_spread row (\<lambda>r1 _. with_spread col (\<lambda>c1 c2. confined d (column_but_square c1 c2 r1) (square_but_column r1 c1 c2)))"

subsection \<open>Pairs\<close>

definition has_either :: "nat \<Rightarrow> nat \<Rightarrow> cell \<Rightarrow> bool" where
  "has_either d1 d2 c = (cget c d1 \<or> cget c d2)"

definition two_places_in_unit :: "nat \<Rightarrow> nat \<Rightarrow> pos list \<Rightarrow> rule" where
  "two_places_in_unit d1 d2 unit b =
     (if d1 = d2 then (Inr False, b)
      else if length (filter (\<lambda>p. has_either d1 d2 (bget b p)) unit) \<noteq> 2 then (Inr False, b)
      else eliminate_in (has_either d1 d2) (filter (\<lambda>d. d \<noteq> d1 \<and> d \<noteq> d2) (for1 digits)) unit b)"

definition same_pair_in_unit :: "nat \<Rightarrow> nat \<Rightarrow> pos list \<Rightarrow> rule" where
  "same_pair_in_unit d1 d2 unit b =
     (if d1 = d2 then (Inr False, b)
      else if length (filter (\<lambda>p. only_pair_present d1 d2 (bget b p)) unit) \<noteq> 2 then (Inr False, b)
      else eliminate_in (\<lambda>c. \<not> only_pair_present d1 d2 c) [d1, d2] unit b)"

definition two_places_for_pair_in_square :: "nat \<Rightarrow> nat \<Rightarrow> nat \<Rightarrow> nat \<Rightarrow> rule" where
  "two_places_for_pair_in_square d1 d2 row col =
     with_spread row (\<lambda>r1 _. with_spread col (\<lambda>c1 _. two_places_in_unit d1 d2 (square_cells r1 c1)))"

definition two_places_for_pair_in_row :: "nat \<Rightarrow> nat \<Rightarrow> nat \<Rightarrow> rule" where
  "two_places_for_pair_in_row d1 d2 row =
     with_spread row (\<lambda>r1 r2. two_places_in_unit d1 d2 (row_cells r1 r2))"

definition two_places_for_pair_in_column :: "nat \<Rightarrow> nat \<Rightarrow> nat \<Rightarrow> rule" where
  "two_places_for_pair_in_column d1 d2 col =
     with_spread col (\<lambda>c1 c2. two_places_in_unit d1 d2 (column_cells c1 c2))"

definition same_pair_in_square :: "nat \<Rightarrow> nat \<Rightarrow> nat \<Rightarrow> nat \<Rightarrow> rule" where
  "same_pair_in_square d1 d2 row col =
     with_spread row (\<lambda>r1 _. with_spread col (\<lambda>c1 _. same_pair_in_unit d1 d2 (square_cells r1 c1)))"

definition same_pair_in_row :: "nat \<Rightarrow> nat \<Rightarrow> nat \<Rightarrow> rule" where
  "same_pair_in_row d1 d2 row = with_spread row (\<lambda>r1 r2. same_pair_in_unit d1 d2 (row_cells r1 r2))"

definition same_pair_in_column :: "nat \<Rightarrow> nat \<Rightarrow> nat \<Rightarrow> rule" where
  "same_pair_in_column d1 d2 col = with_spread col (\<lambda>c1 c2. same_pair_in_unit d1 d2 (column_cells c1 c2))"

subsection \<open>Trying all rules\<close>

text \<open>Attempts in order; the first one that makes progress ends the search with its message.\<close>

fun first_success :: "(rule \<times> string) list \<Rightarrow> board \<Rightarrow> (bool \<times> string option) outcome" where
  "first_success [] b = (Inr (False, None), b)"
| "first_success ((rule, msg) # rest) b =
     and_then (rule b) (\<lambda>e b. if e then (Inr (True, Some msg), b) else first_success rest b)"

definition at_pos :: "string \<Rightarrow> nat \<Rightarrow> nat \<Rightarrow> string" where
  "at_pos what row col = what @ '' at ('' @ string_of_nat row @ '', '' @ string_of_nat col @ '')''"

definition at_line :: "string \<Rightarrow> nat \<Rightarrow> string" where
  "at_line what n = what @ '' at '' @ string_of_nat n"

definition square_attempts :: "(rule \<times> string) list" where
  "square_attempts = concat (map (\<lambda>(d, row, col).
     [(one_row_in_square d row col, at_pos ''one row in square'' row col),
      (one_column_in_square d row col, at_pos ''one column in square'' row col),
      (one_square_for_row d row col, at_pos ''one square for row'' row col),
      (one_square_for_column d row col, at_pos ''one square for column'' row col)])
     (List.product (for1 digits) (List.product (for1 digits) (for1 digits))))"

definition pair_attempts :: "nat \<Rightarrow> nat \<Rightarrow> (rule \<times> string) list" where
  "pair_attempts d1 d2 =
     concat (map (\<lambda>col.
       [(two_places_for_pair_in_column d1 d2 col, at_line ''two places for pair in column'' col),
        (same_pair_in_column d1 d2 col, at_line ''same pair in column'' col)]) (for1 digits)) @
     concat (map (\<lambda>row.
       [(two_places_for_pair_in_row d1 d2 row, at_line ''two places for pair in row'' row),
        (same_pair_in_row d1 d2 row, at_line ''same pair in row'' row)] @
       concat (map (\<lambda>col.
         [(two_places_for_pair_in_square d1 d2 row col, at_pos ''two places for pair in square'' row col),
          (same_pair_in_square d1 d2 row col, at_pos ''same pair in square'' row col)]) (for1 digits)))
       (for1 digits))"

definition all_pair_attempts :: "(rule \<times> string) list" where
  "all_pair_attempts = concat (map (\<lambda>(d1, d2). if d1 \<noteq> d2 then pair_attempts d1 d2 else [])
     (List.product (for1 digits) (for1 digits)))"

definition board_all :: "board \<Rightarrow> (bool \<times> string option) outcome" where
  "board_all b = and_then (board_simp b) (\<lambda>e b.
     if e then (Inr (e, Some ''simp''), b) else first_success (square_attempts @ all_pair_attempts) b)"

definition board_all_flag :: rule where
  "board_all_flag b = and_then (board_all b) (\<lambda>(e, _) b. (Inr e, b))"

definition board_solve :: rule where
  "board_solve = repeat_rule board_all_flag"

subsection \<open>Hints\<close>

definition hint_places :: "board \<Rightarrow> nat \<Rightarrow> pos list \<Rightarrow> pos list" where
  "hint_places b d unit = filter (\<lambda>p. \<not> determined (bget b p) \<and> cget (bget b p) d) unit"

definition hint_at :: "nat \<Rightarrow> pos \<Rightarrow> string" where
  "hint_at d p = (case p of (r1, c1, r2, c2) \<Rightarrow>
     ''look at '' @ string_of_nat d @ '' in ('' @ string_of_nat ((r1 - 1) * sides + r2) @ '', '' @
       string_of_nat ((c1 - 1) * sides + c2) @ '')'')"

definition hint_square :: "board \<Rightarrow> nat \<times> nat \<times> nat \<Rightarrow> string option" where
  "hint_square b = (\<lambda>(r1, c1, d). case hint_places b d (square_cells r1 c1) of [p] \<Rightarrow> Some (hint_at d p) | _ \<Rightarrow> None)"

definition hint_row :: "board \<Rightarrow> nat \<times> nat \<times> nat \<Rightarrow> string option" where
  "hint_row b = (\<lambda>(r1, r2, d). if length (hint_places b d (row_cells r1 r2)) = 1
     then Some (''look at '' @ string_of_nat d @ '' in row '' @ string_of_nat ((r1 - 1) * sides + r2)) else None)"

definition hint_column :: "board \<Rightarrow> nat \<times> nat \<times> nat \<Rightarrow> string option" where
  "hint_column b = (\<lambda>(c1, c2, d). if length (hint_places b d (column_cells c1 c2)) = 1
     then Some (''look at '' @ string_of_nat d @ '' in column '' @ string_of_nat ((c1 - 1) * sides + c2)) else None)"

definition hint_cell :: "board \<Rightarrow> pos \<Rightarrow> string option" where
  "hint_cell b p = (if \<not> determined (bget b p) \<and> cell_unknowns (bget b p) = 1
     then (case cell_first (bget b p) of Inr d \<Rightarrow> Some (hint_at d p) | Inl _ \<Rightarrow> None) else None)"

fun first_Some :: "('a \<Rightarrow> 'b option) \<Rightarrow> 'a list \<Rightarrow> 'b option" where
  "first_Some f [] = None"
| "first_Some f (x # xs) = (case f x of Some y \<Rightarrow> Some y | None \<Rightarrow> first_Some f xs)"

definition board_hint :: "board \<Rightarrow> string" where
  "board_hint b =
     (let triples = List.product (for1 sides) (List.product (for1 sides) (for1 digits))
      in case first_Some (hint_square b) triples of Some s \<Rightarrow> s | None \<Rightarrow>
        (case first_Some (hint_row b) triples of Some s \<Rightarrow> s | None \<Rightarrow>
        (case first_Some (hint_column b) triples of Some s \<Rightarrow> s | None \<Rightarrow>
        (case first_Some (hint_cell b) storage_order of Some s \<Rightarrow> s | None \<Rightarrow> ''No hint available''))))"

end
