(* ===== verification/Lua_Sound.thy ===== *)
theory Lua_Sound
  imports Lua_Determine Lua_Rules
begin

text \<open>
  Correctness of the strategies.  The locale \<open>board_rule\<close> states what a rule promises: it only
  eliminates candidates, it reports exactly whether it did, it terminates, and it neither fails nor
  loses a solution on a board that has one.  The closure lemmas (loops, \<open>or\<close>, repetition, first
  success) are proved once in the locale's context; the locale is interpreted on the rules of the source.
\<close>

locale board_rule =
  fixes rule :: rule
  assumes shrinks: "board_wf b \<Longrightarrow> shrink_to False b (rule b)"
    and sound: "board_wf b \<Longrightarrow> solution_of g b \<Longrightarrow> sound_to g (rule b)"

lemma total_cands_ncands: "total_cands b = ncands b"
  by (simp add: total_cands_def ncands_def cell_unknowns_card [abs_def])

context board_rule
begin

lemma repeat_fuel_shrink:
  "board_wf b \<Longrightarrow> ncands b < n \<Longrightarrow> shrink_to e b (repeat_fuel n rule e b)"
proof (induction n arbitrary: e b)
  case (Suc n)
  obtain r b' where r: "rule b = (r, b')" by (cases "rule b")
  with shrinks [OF Suc.prems(1)] have s: "shrink_to False b (r, b')" by simp
  show ?case
  proof (cases r)
    case (Inl m)
    with r s show ?thesis by (auto intro: shrink_to_Inl)
  next
    case (Inr f)
    show ?thesis
    proof (cases f)
      case True
      with s Inr have "ncands b' < ncands b" and t: "shrink_to e b (Inr True, b')"
        by (auto simp: shrink_to_def)
      with Suc have "shrink_to True b' (repeat_fuel n rule True b')" using shrink_to_wf [OF s] by simp
      from shrink_to_trans [OF t this] show ?thesis using r Inr True by simp
    next
      case False
      with s Inr r show ?thesis by (auto simp: shrink_to_def)
    qed
  qed
qed simp

lemma repeat_fuel_sound:
  "board_wf b \<Longrightarrow> ncands b < n \<Longrightarrow> solution_of g b \<Longrightarrow> sound_to g (repeat_fuel n rule e b)"
proof (induction n arbitrary: e b)
  case (Suc n)
  obtain f b' where r: "rule b = (Inr f, b')" and sol: "solution_of g b'"
    using sound [OF Suc.prems(1,3)] by (cases "rule b") (auto simp: sound_to_def)
  with shrinks [OF Suc.prems(1)] have s: "shrink_to False b (Inr f, b')" by simp
  show ?case
  proof (cases f)
    case True
    with s have "ncands b' < ncands b" by (auto simp: shrink_to_def)
    with Suc sol shrink_to_wf [OF s] True r show ?thesis by simp
  next
    case False
    with r sol show ?thesis by (simp add: sound_to_def)
  qed
qed simp

lemma repeat_fuel_done:
  "board_wf b \<Longrightarrow> ncands b < n \<Longrightarrow> repeat_fuel n rule e b = (Inr e', b') \<Longrightarrow>
   \<exists>b0. board_wf b0 \<and> rule b0 = (Inr False, b')"
proof (induction n arbitrary: e b)
  case (Suc n)
  obtain r b1 where r: "rule b = (r, b1)" by (cases "rule b")
  with Suc.prems obtain f where f: "r = Inr f" by (cases r) auto
  from shrinks [OF Suc.prems(1)] r f have s: "shrink_to False b (Inr f, b1)" by simp
  show ?case
  proof (cases f)
    case True
    with s have "ncands b1 < ncands b" by (auto simp: shrink_to_def)
    with True Suc r f shrink_to_wf [OF s] show ?thesis by auto
  next
    case False
    with Suc.prems r f show ?thesis by auto
  qed
qed simp

text \<open>Repetition terminates, is again a rule, and ends where the body makes no progress.\<close>

lemma repeat_rule: "board_rule (repeat_rule rule)"
  by unfold_locales
    (auto simp: repeat_rule_def total_cands_ncands intro!: repeat_fuel_shrink repeat_fuel_sound
      simp del: repeat_fuel.simps)

lemma repeat_done:
  "board_wf b \<Longrightarrow> repeat_rule rule b = (Inr e, b') \<Longrightarrow> \<exists>b0. board_wf b0 \<and> rule b0 = (Inr False, b')"
  unfolding repeat_rule_def total_cands_ncands by (erule repeat_fuel_done [rotated 2]) simp_all

lemma or_else_rule:
  assumes "board_rule r2"
  shows "board_rule (or_else rule r2)"
proof
  fix b
  assume b: "board_wf b"
  have second: "shrink_to e' b' (if e' then (Inr True, b') else r2 b')" if "board_wf b'" for e' b'
    using that assms by (cases e') (auto simp: shrink_to_refl board_rule_def)
  show "shrink_to False b (or_else rule r2 b)"
    unfolding or_else_def by (rule shrink_to_and_then [OF shrinks [OF b]]) (rule second)
  fix g
  assume "solution_of g b"
  from sound [OF b this] show "sound_to g (or_else rule r2 b)"
    unfolding or_else_def using assms
    by (intro sound_to_and_then [OF shrinks [OF b]]) (auto simp: sound_to_def board_rule_def)
qed

end

lemma board_rule_noop: "board_rule (\<lambda>b. (Inr False, b))"
  by unfold_locales (auto simp: shrink_to_refl sound_to_def)

lemma loop_rule:
  assumes "\<And>x. x \<in> set xs \<Longrightarrow> board_rule (f x)"
  shows "board_rule (loop_or f xs False)"
proof
  fix b
  assume b: "board_wf b"
  then show "shrink_to False b (loop_or f xs False b)"
    using assms by (intro loop_or_shrink [where k = "Suc (undetermined b)"]) (auto simp: board_rule_def)
  fix g
  assume "solution_of g b"
  with b show "sound_to g (loop_or f xs False b)"
    using assms by (intro loop_or_sound [where k = "Suc (undetermined b)"]) (auto simp: board_rule_def)
qed

lemma spread_ok:
  assumes "i \<in> {1..9}"
  obtains i1 i2 where "spread i = Inr (i1, i2)" "i1 \<in> {1..3}" "i2 \<in> {1..3}" "i = 3 * (i1 - 1) + i2"
proof -
  obtain n where n: "i = Suc n" "n < 9" using assms by (cases i) auto
  have "spread i = Inr (n div 3 + 1, n mod 3 + 1)" using n by (simp add: spread_def)
  moreover have "n div 3 < 3" using n(2) by (simp add: less_mult_imp_div_less)
  moreover have "i = 3 * (n div 3 + 1 - 1) + (n mod 3 + 1)" using n(1) by simp
  moreover have "n mod 3 < 3" by simp
  ultimately show thesis by (intro that [of "n div 3 + 1" "n mod 3 + 1"]) simp_all
qed

lemma with_spread_rule:
  assumes "i \<in> {1..9}" and "\<And>i1 i2. i1 \<in> {1..3} \<Longrightarrow> i2 \<in> {1..3} \<Longrightarrow> board_rule (k i1 i2)"
  shows "board_rule (with_spread i k)"
proof -
  obtain i1 i2 where s: "spread i = Inr (i1, i2)" "i1 \<in> {1..3}" "i2 \<in> {1..3}"
    using spread_ok [OF assms(1)] by metis
  then have "with_spread i k = k i1 i2" by (intro ext) (simp add: with_spread_def)
  with assms(2) s show ?thesis by simp
qed

subsection \<open>Singletons and one-place rules\<close>

lemma propagate_rule: "valid_pos p \<Longrightarrow> board_rule (propagate_elimination p)"
  by unfold_locales (rule propagate_shrink propagate_sound; assumption)+

lemma cget_digit: "board_wf b \<Longrightarrow> valid_pos p \<Longrightarrow> cget (bget b p) d \<Longrightarrow> d \<in> {1..9}"
  using bget_wf [of b p] by (auto simp: cell_wf_def cget_def)

text \<open>A digit possible in a single cell of a unit is there in every solution.\<close>

lemma only_place:
  assumes "board_wf b" "unit \<in> units" "solution_of g b"
    and one: "length (filter (\<lambda>p. cget (bget b p) d) unit) = 1"
    and q: "q \<in> set unit" "cget (bget b q) d"
  shows "g q = d"
proof -
  have "d \<in> {1..9}" using assms q units_valid cget_digit by blast
  then obtain p where p: "p \<in> set unit" "g p = d"
    using valid_grid_onto assms by (metis solution_of_def)
  have "cget (bget b p) d"
    using solution_cget [OF assms(3) units_valid [OF assms(2) p(1)]] p(2) by simp
  with filter_1_unique [OF one q p(1)] p(2) show ?thesis by simp
qed

lemma refines_cget: "refines b' b \<Longrightarrow> board_wf b \<Longrightarrow> valid_pos p \<Longrightarrow> cget (bget b' p) d \<Longrightarrow> cget (bget b p) d"
  using refines_bget [of b' b p] by (auto simp: cell_le_def cands_def)

lemma one_place_loop_sound:
  assumes "board_wf b" "unit \<in> units"
    and only: "\<And>q. q \<in> set unit \<Longrightarrow> cget (bget b q) d \<Longrightarrow> g q = d"
  shows "set ps \<subseteq> set unit \<Longrightarrow> board_wf b' \<Longrightarrow> solution_of g b' \<Longrightarrow> refines b' b \<Longrightarrow>
    sound_to g (loop_or (\<lambda>p b. if cget (bget b p) d then determine p d b else (Inr False, b)) ps e b')"
    (is "_ \<Longrightarrow> _ \<Longrightarrow> _ \<Longrightarrow> _ \<Longrightarrow> sound_to g (loop_or ?f ps e b')")
proof (induction ps arbitrary: e b')
  case (Cons q ps)
  have q: "valid_pos q" and qu: "q \<in> set unit" using Cons.prems(1) assms(2) units_valid by auto
  have "sound_to g (?f q b')"
  proof (cases "cget (bget b' q) d")
    case True
    from only [OF qu refines_cget [OF Cons.prems(4) assms(1) q True]] have "g q = d" .
    with True Cons.prems q show ?thesis by (simp add: determine_sound)
  qed (use Cons.prems in \<open>auto simp: sound_to_def\<close>)
  moreover have "shrink_to False b' (?f q b')"
    using Cons.prems q by (auto simp: shrink_to_refl intro: determine_shrink)
  ultimately obtain e1 b1 where "?f q b' = (Inr e1, b1)" "solution_of g b1" "board_wf b1" "refines b1 b'"
    by (cases "?f q b'") (auto simp: sound_to_def shrink_to_def)
  with Cons show ?case by (auto intro: refines_trans)
qed (simp add: sound_to_def)

lemma one_place_unit_rule:
  assumes "unit \<in> units"
  shows "board_rule (one_place_in_unit d unit)"
proof
  fix b
  assume b: "board_wf b"
  let ?f = "\<lambda>p b. if cget (bget b p) d then determine p d b else (Inr False, b)"
  have "shrink_to False b' (?f p b')" if "p \<in> set unit" "board_wf b'" for p b'
    using that units_valid [OF assms that(1)] by (auto simp: shrink_to_refl intro: determine_shrink)
  then show "shrink_to False b (one_place_in_unit d unit b)"
    unfolding one_place_in_unit_def Let_def
    using b loop_or_shrink [OF b, of "Suc (undetermined b)" unit ?f False] by (auto simp: shrink_to_refl)
  fix g
  assume sol: "solution_of g b"
  show "sound_to g (one_place_in_unit d unit b)"
  proof (cases "length (filter (\<lambda>p. cget (bget b p) d) unit) = 1")
    case True
    have "sound_to g (loop_or ?f unit False b)"
      using b sol by (intro one_place_loop_sound [OF b assms]) (auto intro: only_place [OF b assms sol True])
    with True show ?thesis by (simp add: one_place_in_unit_def)
  next
    case False
    then show ?thesis using sol by (auto simp: one_place_in_unit_def sound_to_def)
  qed
qed

lemma one_place_in_square_rule:
  "row \<in> {1..9} \<Longrightarrow> col \<in> {1..9} \<Longrightarrow> board_rule (one_place_in_square d row col)"
  unfolding one_place_in_square_def by (intro with_spread_rule one_place_unit_rule square_units)

lemma one_place_in_row_rule: "row \<in> {1..9} \<Longrightarrow> board_rule (one_place_in_row d row)"
  unfolding one_place_in_row_def by (intro with_spread_rule one_place_unit_rule row_units)

lemma one_place_in_column_rule: "col \<in> {1..9} \<Longrightarrow> board_rule (one_place_in_column d col)"
  unfolding one_place_in_column_def by (intro with_spread_rule one_place_unit_rule column_units)

lemma one_place_all_rules:
  "board_rule one_place_in_all_squares" "board_rule one_place_in_all_rows" "board_rule one_place_in_all_columns"
  unfolding one_place_in_all_squares_def one_place_in_all_rows_def one_place_in_all_columns_def
  by (rule loop_rule, auto intro!: one_place_in_square_rule one_place_in_row_rule one_place_in_column_rule)+

interpretation one_pass: board_rule "loop_or propagate_elimination reading_order False"
  by (rule loop_rule) (simp add: propagate_rule set_reading_order)

interpretation singletons: board_rule propagate_all_singletons
  unfolding propagate_all_singletons_def by (rule one_pass.repeat_rule)

interpretation one_round: board_rule
  "or_else propagate_all_singletons (or_else one_place_in_all_squares (or_else one_place_in_all_rows one_place_in_all_columns))"
  by (intro singletons.or_else_rule board_rule.or_else_rule one_place_all_rules)

interpretation simp_rule: board_rule board_simp
  unfolding board_simp_def by (rule one_round.repeat_rule)

subsection \<open>Elimination loops\<close>

lemma eliminate_digits_props:
  assumes "board_wf b" "valid_pos p" "eliminate_digits ds p (b, e) = (b', e')"
  shows "shrink_to e b (Inr e', b') \<and> (\<forall>q. valid_pos q \<longrightarrow> q \<noteq> p \<longrightarrow> bget b' q = bget b q) \<and>
    (solution_of g b \<longrightarrow> g p \<notin> set ds \<longrightarrow> solution_of g b')"
  using assms unfolding eliminate_digits_def
proof (induction ds arbitrary: b e)
  case Nil
  then show ?case by (simp add: shrink_to_refl)
next
  case (Cons d ds)
  show ?case
  proof (cases "cget (bget b p) d")
    case True
    let ?b = "belim p d b"
    have s: "shrink_to e b (Inr True, ?b)" by (rule shrink_to_belim [OF Cons.prems(1,2) True])
    have d: "1 \<le> d" using cget_ge [OF True] by simp
    have other: "\<forall>q. valid_pos q \<longrightarrow> q \<noteq> p \<longrightarrow> bget ?b q = bget b q"
      using Cons.prems by (simp add: belim_def bget_bset)
    have sol: "solution_of g b \<Longrightarrow> g p \<noteq> d \<Longrightarrow> solution_of g ?b"
      using Cons.prems d by (intro solution_belim)
    have "fold (\<lambda>d (b, e). if cget (bget b p) d then (belim p d b, True) else (b, e)) ds (?b, True) = (b', e')"
      using Cons.prems(3) True by simp
    note IH = Cons.IH [OF shrink_to_wf [OF s] Cons.prems(2) this]
    show ?thesis using shrink_to_trans [OF s] IH other sol by (auto simp del: split_paired_All)
  next
    case False
    then show ?thesis using Cons.IH [OF Cons.prems(1,2)] Cons.prems(3) by (auto simp del: split_paired_All)
  qed
qed

lemma eliminate_in_fold:
  assumes "board_wf b" "\<forall>p\<in>set ps. valid_pos p" "distinct ps"
    and "fold (\<lambda>p (b, e). if guard (bget b p) then eliminate_digits ds p (b, e) else (b, e)) ps (b, e) = (b', e')"
  shows "shrink_to e b (Inr e', b') \<and>
    (solution_of g b \<longrightarrow> (\<forall>p\<in>set ps. guard (bget b p) \<longrightarrow> g p \<notin> set ds) \<longrightarrow> solution_of g b')"
  using assms
proof (induction ps arbitrary: b e)
  case Nil
  then show ?case by (simp add: shrink_to_refl)
next
  case (Cons p ps)
  show ?case
  proof (cases "guard (bget b p)")
    case True
    obtain b1 e1 where el: "eliminate_digits ds p (b, e) = (b1, e1)" by fastforce
    have "valid_pos p" using Cons.prems by simp
    from eliminate_digits_props [OF Cons.prems(1) this el, of g]
    have s: "shrink_to e b (Inr e1, b1)" and other: "\<forall>q. valid_pos q \<longrightarrow> q \<noteq> p \<longrightarrow> bget b1 q = bget b q"
      and sol: "solution_of g b \<longrightarrow> g p \<notin> set ds \<longrightarrow> solution_of g b1" by blast+
    have same: "bget b1 q = bget b q" if "q \<in> set ps" for q
      using that other Cons.prems(2,3) by (auto simp del: split_paired_All)
    have IH: "shrink_to e1 b1 (Inr e', b') \<and>
        (solution_of g b1 \<longrightarrow> (\<forall>p\<in>set ps. guard (bget b1 p) \<longrightarrow> g p \<notin> set ds) \<longrightarrow> solution_of g b')"
      using Cons.prems True el shrink_to_wf [OF s] by (intro Cons.IH) auto
    with same sol True shrink_to_trans [OF s] show ?thesis by (simp del: split_paired_All)
  next
    case False
    then show ?thesis using Cons.IH [OF Cons.prems(1)] Cons.prems by (simp del: split_paired_All)
  qed
qed

lemma eliminate_in_shrink:
  assumes "board_wf b" "\<forall>p\<in>set ps. valid_pos p" "distinct ps"
  shows "shrink_to False b (eliminate_in guard ds ps b)"
  using eliminate_in_fold [OF assms] unfolding eliminate_in_def
  by (auto split: prod.splits)

lemma eliminate_in_sound:
  assumes "board_wf b" "\<forall>p\<in>set ps. valid_pos p" "distinct ps" "solution_of g b"
    and "\<And>p. p \<in> set ps \<Longrightarrow> guard (bget b p) \<Longrightarrow> g p \<notin> set ds"
  shows "sound_to g (eliminate_in guard ds ps b)"
proof -
  obtain b' e' where f: "fold (\<lambda>p (b, e). if guard (bget b p) then eliminate_digits ds p (b, e) else (b, e)) ps (b, False) = (b', e')"
    by fastforce
  from eliminate_in_fold [OF assms(1-3) f, of g] assms(4,5) have "solution_of g b'" by blast
  with f show ?thesis by (simp add: eliminate_in_def sound_to_def)
qed

subsection \<open>Confined digits\<close>

text \<open>If \<open>d\<close> is impossible in the part \<open>check\<close> of a unit, it is in the rest of it, which lies in
  another unit; so it is nowhere else in that one.\<close>

lemma confined_rule:
  assumes "U1 \<in> units" "U2 \<in> units" and "set U1 \<subseteq> set check \<union> I" "I \<subseteq> set U2"
    and "set clear \<subseteq> set U2 - I" and "distinct clear"
  shows "board_rule (confined d check clear)"
proof
  have valid: "\<forall>p\<in>set clear. valid_pos p" using assms(2,5) units_valid by blast
  fix b
  assume b: "board_wf b"
  show "shrink_to False b (confined d check clear b)"
    using eliminate_in_shrink [OF b valid assms(6)] b by (simp add: confined_def shrink_to_refl)
  fix g
  assume sol: "solution_of g b"
  show "sound_to g (confined d check clear b)"
  proof (cases "list_ex (\<lambda>p. cget (bget b p) d) check")
    case True
    then show ?thesis using sol by (auto simp: confined_def sound_to_def)
  next
    case False
    have "g p \<noteq> d" if p: "p \<in> set clear" for p
    proof
      assume gp: "g p = d"
      have pU: "p \<in> set U2" using p assms(5) by blast
      have grid: "valid_grid g" using sol by (simp add: solution_of_def)
      have "g ` set U2 = {1..9}" using grid assms(2) by (simp add: valid_grid_def)
      with gp pU have "d \<in> {1..9}" by blast
      then obtain q where q: "q \<in> set U1" "g q = d" using valid_grid_onto grid assms(1) by metis
      have "cget (bget b q) d" using solution_cget [OF sol units_valid [OF assms(1) q(1)]] q(2) by simp
      with False have "q \<notin> set check" by (auto simp: list_ex_iff)
      with q assms(3) have "q \<in> I" by blast
      with assms(4) have "q = p" using valid_grid_inj [OF grid assms(2)] pU gp q(2) by (auto dest: inj_onD)
      with \<open>q \<in> I\<close> p assms(5) show False by blast
    qed
    then have "sound_to g (eliminate_in (\<lambda>_. True) [d] clear b)"
      by (intro eliminate_in_sound [OF b valid assms(6) sol]) simp
    with False show ?thesis by (simp add: confined_def)
  qed
qed

lemma set_but:
  "set (square_but_row r1 c1 r2) = {(r1, c1, rr2, c2) |rr2 c2. rr2 \<in> {1..3} \<and> rr2 \<noteq> r2 \<and> c2 \<in> {1..3}}"
  "set (square_but_column r1 c1 c2) = {(r1, c1, r2, cc2) |r2 cc2. cc2 \<in> {1..3} \<and> cc2 \<noteq> c2 \<and> r2 \<in> {1..3}}"
  "set (row_but_square r1 r2 c1) = {(r1, cc1, r2, c2) |cc1 c2. cc1 \<in> {1..3} \<and> cc1 \<noteq> c1 \<and> c2 \<in> {1..3}}"
  "set (column_but_square c1 c2 r1) = {(rr1, c1, r2, c2) |rr1 r2. rr1 \<in> {1..3} \<and> rr1 \<noteq> r1 \<and> r2 \<in> {1..3}}"
  by (auto simp: square_but_row_def square_but_column_def row_but_square_def column_but_square_def split: if_splits)

lemma distinct_but:
  "distinct (square_but_row r1 c1 r2)" "distinct (square_but_column r1 c1 c2)"
  "distinct (row_but_square r1 r2 c1)" "distinct (column_but_square c1 c2 r1)"
  by (simp_all add: square_but_row_def square_but_column_def row_but_square_def column_but_square_def for1_3
      disjoint_iff)

lemma one_row_in_square_rule:
  "row \<in> {1..9} \<Longrightarrow> col \<in> {1..9} \<Longrightarrow> board_rule (one_row_in_square d row col)"
  unfolding one_row_in_square_def
proof (intro with_spread_rule)
  fix r1 r2 c1 c2 :: nat
  assume r: "r1 \<in> {1..3}" "r2 \<in> {1..3}" "c1 \<in> {1..3}"
  show "board_rule (confined d (square_but_row r1 c1 r2) (row_but_square r1 r2 c1))"
    by (rule confined_rule [OF square_units [OF r(1,3)] row_units [OF r(1,2)],
          of _ "{(r1, c1, r2, c2) |c2. c2 \<in> {1..3}}", OF _ _ _ distinct_but(3)])
      (use r in \<open>auto simp: set_units set_but\<close>)
qed

lemma one_column_in_square_rule:
  "row \<in> {1..9} \<Longrightarrow> col \<in> {1..9} \<Longrightarrow> board_rule (one_column_in_square d row col)"
  unfolding one_column_in_square_def
proof (intro with_spread_rule)
  fix r1 r2 c1 c2 :: nat
  assume r: "r1 \<in> {1..3}" "c1 \<in> {1..3}" "c2 \<in> {1..3}"
  show "board_rule (confined d (square_but_column r1 c1 c2) (column_but_square c1 c2 r1))"
    by (rule confined_rule [OF square_units [OF r(1,2)] column_units [OF r(2,3)],
          of _ "{(r1, c1, r2, c2) |r2. r2 \<in> {1..3}}", OF _ _ _ distinct_but(4)])
      (use r in \<open>auto simp: set_units set_but\<close>)
qed

lemma one_square_for_row_rule:
  "row \<in> {1..9} \<Longrightarrow> col \<in> {1..9} \<Longrightarrow> board_rule (one_square_for_row d row col)"
  unfolding one_square_for_row_def
proof (intro with_spread_rule)
  fix r1 r2 c1 c2 :: nat
  assume r: "r1 \<in> {1..3}" "r2 \<in> {1..3}" "c1 \<in> {1..3}"
  show "board_rule (confined d (row_but_square r1 r2 c1) (square_but_row r1 c1 r2))"
    by (rule confined_rule [OF row_units [OF r(1,2)] square_units [OF r(1,3)],
          of _ "{(r1, c1, r2, c2) |c2. c2 \<in> {1..3}}", OF _ _ _ distinct_but(1)])
      (use r in \<open>auto simp: set_units set_but\<close>)
qed

lemma one_square_for_column_rule:
  "row \<in> {1..9} \<Longrightarrow> col \<in> {1..9} \<Longrightarrow> board_rule (one_square_for_column d row col)"
  unfolding one_square_for_column_def
proof (intro with_spread_rule)
  fix r1 r2 c1 c2 :: nat
  assume r: "r1 \<in> {1..3}" "c1 \<in> {1..3}" "c2 \<in> {1..3}"
  show "board_rule (confined d (column_but_square c1 c2 r1) (square_but_column r1 c1 c2))"
    by (rule confined_rule [OF column_units [OF r(2,3)] square_units [OF r(1,2)],
          of _ "{(r1, c1, r2, c2) |r2. r2 \<in> {1..3}}", OF _ _ _ distinct_but(2)])
      (use r in \<open>auto simp: set_units set_but\<close>)
qed

subsection \<open>Pairs\<close>

lemma filter_2_obtain:
  assumes "length (filter P xs) = 2" and "distinct xs"
  obtains x y where "x \<noteq> y" "x \<in> set xs" "y \<in> set xs" "{z \<in> set xs. P z} = {x, y}"
proof -
  obtain x y where f: "filter P xs = [x, y]"
    using assms(1) by (auto simp: length_Suc_conv numeral_2_eq_2)
  then have "{z \<in> set xs. P z} = {x, y}" by (metis list.set(1) list.set(2) set_filter)
  moreover have "x \<noteq> y" using distinct_filter [OF assms(2), of P] f by simp
  ultimately show thesis using that by blast
qed

text \<open>Two cells that are the only places for two digits hold these digits.\<close>

lemma two_places:
  assumes "valid_grid g" "unit \<in> units" "d1 \<in> {1..9}" "d2 \<in> {1..9}" "d1 \<noteq> d2"
    and pl: "\<And>p. p \<in> set unit \<Longrightarrow> g p \<in> {d1, d2} \<Longrightarrow> P p"
    and two: "length (filter P unit) = 2"
    and p: "p \<in> set unit" "P p"
  shows "g p \<in> {d1, d2}"
proof -
  obtain x y where xy: "x \<noteq> y" "{z \<in> set unit. P z} = {x, y}"
    using filter_2_obtain [OF two units_distinct [OF assms(2)]] by metis
  obtain q1 where q1: "q1 \<in> set unit" "g q1 = d1" using valid_grid_onto assms(1-3) by metis
  obtain q2 where q2: "q2 \<in> set unit" "g q2 = d2" using valid_grid_onto assms(1,2,4) by metis
  have "q1 \<in> {x, y}" "q2 \<in> {x, y}" using pl q1 q2 xy(2) by blast+
  moreover have "q1 \<noteq> q2" using q1 q2 assms(5) by auto
  moreover have "p \<in> {x, y}" using p xy(2) by blast
  ultimately show ?thesis using q1 q2 by auto
qed

text \<open>Two cells that hold two digits leave these digits to no other cell of the unit.\<close>

lemma same_pair:
  assumes "valid_grid g" "unit \<in> units"
    and pl: "\<And>p. p \<in> set unit \<Longrightarrow> P p \<Longrightarrow> g p \<in> {d1, d2}"
    and two: "length (filter P unit) = 2"
    and p: "p \<in> set unit" "\<not> P p"
  shows "g p \<notin> {d1, d2}"
proof -
  have inj: "inj_on g (set unit)" by (rule valid_grid_inj [OF assms(1,2)])
  obtain x y where xy: "x \<noteq> y" "x \<in> set unit" "y \<in> set unit" "{z \<in> set unit. P z} = {x, y}"
    by (rule filter_2_obtain [OF two units_distinct [OF assms(2)]])
  have Pxy: "P x" "P y" using xy(4) by blast+
  have neq: "g u \<noteq> g v" if "u \<in> set unit" "v \<in> set unit" "u \<noteq> v" for u v
    using inj that by (simp add: inj_on_eq_iff)
  have "p \<noteq> x" "p \<noteq> y" using Pxy p(2) by auto
  with p(1) xy neq have "g p \<noteq> g x" "g p \<noteq> g y" "g x \<noteq> g y" by simp_all
  moreover have "g x = d1 \<or> g x = d2" "g y = d1 \<or> g y = d2" using pl [OF xy(2) Pxy(1)] pl [OF xy(3) Pxy(2)] by simp_all
  ultimately show ?thesis by (elim disjE) simp_all
qed

lemma two_places_rule:
  assumes "unit \<in> units" "d1 \<in> {1..9}" "d2 \<in> {1..9}"
  shows "board_rule (two_places_in_unit d1 d2 unit)"
proof
  have valid: "\<forall>p\<in>set unit. valid_pos p" using assms(1) units_valid by blast
  note dist = units_distinct [OF assms(1)]
  fix b
  assume b: "board_wf b"
  show "shrink_to False b (two_places_in_unit d1 d2 unit b)"
    using eliminate_in_shrink [OF b valid dist] b by (simp add: two_places_in_unit_def shrink_to_refl)
  fix g
  assume sol: "solution_of g b"
  show "sound_to g (two_places_in_unit d1 d2 unit b)"
  proof (cases "d1 \<noteq> d2 \<and> length (filter (\<lambda>p. has_either d1 d2 (bget b p)) unit) = 2")
    case True
    have "g p \<notin> set (filter (\<lambda>d. d \<noteq> d1 \<and> d \<noteq> d2) (for1 digits))"
      if "p \<in> set unit" "has_either d1 d2 (bget b p)" for p
    proof -
      have "g p \<in> {d1, d2}"
      proof (rule two_places [where P = "\<lambda>p. has_either d1 d2 (bget b p)", OF _ assms])
        show "valid_grid g" using sol by (simp add: solution_of_def)
        fix q assume "q \<in> set unit" "g q \<in> {d1, d2}"
        then show "has_either d1 d2 (bget b q)"
          using solution_cget [OF sol, of q] valid by (auto simp: has_either_def)
      qed (use True that in auto)
      then show ?thesis by auto
    qed
    then have "sound_to g (eliminate_in (has_either d1 d2) (filter (\<lambda>d. d \<noteq> d1 \<and> d \<noteq> d2) (for1 digits)) unit b)"
      by (intro eliminate_in_sound [OF b valid dist sol])
    with True show ?thesis by (simp add: two_places_in_unit_def)
  next
    case False
    then show ?thesis using sol by (auto simp: two_places_in_unit_def sound_to_def)
  qed
qed

lemma same_pair_rule:
  assumes "unit \<in> units" "d1 \<in> {1..9}" "d2 \<in> {1..9}"
  shows "board_rule (same_pair_in_unit d1 d2 unit)"
proof
  have valid: "\<forall>p\<in>set unit. valid_pos p" using assms(1) units_valid by blast
  note dist = units_distinct [OF assms(1)]
  fix b
  assume b: "board_wf b"
  show "shrink_to False b (same_pair_in_unit d1 d2 unit b)"
    using eliminate_in_shrink [OF b valid dist] b by (simp add: same_pair_in_unit_def shrink_to_refl)
  fix g
  assume sol: "solution_of g b"
  show "sound_to g (same_pair_in_unit d1 d2 unit b)"
  proof (cases "d1 \<noteq> d2 \<and> length (filter (\<lambda>p. only_pair_present d1 d2 (bget b p)) unit) = 2")
    case True
    have "g p \<notin> set [d1, d2]" if "p \<in> set unit" "\<not> only_pair_present d1 d2 (bget b p)" for p
    proof -
      have "g p \<notin> {d1, d2}"
      proof (rule same_pair [where P = "\<lambda>p. only_pair_present d1 d2 (bget b p)", OF _ assms(1)])
        show "valid_grid g" using sol by (simp add: solution_of_def)
        fix q assume q: "q \<in> set unit" "only_pair_present d1 d2 (bget b q)"
        have "cell_wf (bget b q)" using bget_wf [OF b] valid q(1) by blast
        then have "cands (bget b q) = {d1, d2}" using q(2) assms(2,3) by (simp add: only_pair_present_iff)
        then show "g q \<in> {d1, d2}" using solution_cands [OF sol, of q] valid q(1) by blast
      qed (use True that in auto)
      then show ?thesis by simp
    qed
    then have "sound_to g (eliminate_in (\<lambda>c. \<not> only_pair_present d1 d2 c) [d1, d2] unit b)"
      by (intro eliminate_in_sound [OF b valid dist sol])
    with True show ?thesis by (simp add: same_pair_in_unit_def)
  next
    case False
    then show ?thesis using sol by (auto simp: same_pair_in_unit_def sound_to_def)
  qed
qed

lemma pair_in_square_rules:
  assumes "d1 \<in> {1..9}" "d2 \<in> {1..9}" "row \<in> {1..9}" "col \<in> {1..9}"
  shows "board_rule (two_places_for_pair_in_square d1 d2 row col)" "board_rule (same_pair_in_square d1 d2 row col)"
  unfolding two_places_for_pair_in_square_def same_pair_in_square_def
  by (intro with_spread_rule two_places_rule same_pair_rule square_units assms; assumption)+

lemma pair_in_row_rules:
  assumes "d1 \<in> {1..9}" "d2 \<in> {1..9}" "row \<in> {1..9}"
  shows "board_rule (two_places_for_pair_in_row d1 d2 row)" "board_rule (same_pair_in_row d1 d2 row)"
  unfolding two_places_for_pair_in_row_def same_pair_in_row_def
  by (intro with_spread_rule two_places_rule same_pair_rule row_units assms; assumption)+

lemma pair_in_column_rules:
  assumes "d1 \<in> {1..9}" "d2 \<in> {1..9}" "col \<in> {1..9}"
  shows "board_rule (two_places_for_pair_in_column d1 d2 col)" "board_rule (same_pair_in_column d1 d2 col)"
  unfolding two_places_for_pair_in_column_def same_pair_in_column_def
  by (intro with_spread_rule two_places_rule same_pair_rule column_units assms; assumption)+

subsection \<open>All rules\<close>

lemma first_success_rule:
  assumes "\<And>r m. (r, m) \<in> set rs \<Longrightarrow> board_rule r"
  shows "board_rule (\<lambda>b. and_then (first_success rs b) (\<lambda>(e, _) b. (Inr e, b)))"
  using assms
proof (induction rs)
  case Nil
  then show ?case by (simp add: board_rule_noop)
next
  case (Cons rm rs)
  obtain r m where rm: "rm = (r, m)" by (cases rm)
  have "board_rule (or_else r (\<lambda>b. and_then (first_success rs b) (\<lambda>(e, _) b. (Inr e, b))))"
    using Cons rm by (intro board_rule.or_else_rule Cons.IH) auto
  moreover have "and_then (first_success (rm # rs) b) (\<lambda>(e, _) b. (Inr e, b)) =
      or_else r (\<lambda>b. and_then (first_success rs b) (\<lambda>(e, _) b. (Inr e, b))) b" for b
    by (cases "r b", cases "fst (r b)") (auto simp: rm or_else_def and_then_def)
  ultimately show ?case by presburger
qed

lemma square_attempts_rules: "(r, m) \<in> set square_attempts \<Longrightarrow> board_rule r"
  unfolding square_attempts_def
  by (auto intro!: one_row_in_square_rule one_column_in_square_rule one_square_for_row_rule one_square_for_column_rule)

lemma pair_attempts_rules:
  assumes "d1 \<in> {1..9}" "d2 \<in> {1..9}"
  shows "(r, m) \<in> set (pair_attempts d1 d2) \<Longrightarrow> board_rule r"
  unfolding pair_attempts_def
  using assms pair_in_square_rules pair_in_row_rules pair_in_column_rules by auto

lemma all_pair_attempts_rules: "(r, m) \<in> set all_pair_attempts \<Longrightarrow> board_rule r"
  unfolding all_pair_attempts_def using pair_attempts_rules by (auto split: if_splits)

lemma board_all_flag_eq:
  "board_all_flag = or_else board_simp (\<lambda>b. and_then (first_success (square_attempts @ all_pair_attempts) b) (\<lambda>(e, _) b. (Inr e, b)))"
proof
  fix b
  show "board_all_flag b = or_else board_simp (\<lambda>b. and_then (first_success (square_attempts @ all_pair_attempts) b) (\<lambda>(e, _) b. (Inr e, b))) b"
    by (cases "board_simp b", cases "fst (board_simp b)")
      (auto simp: board_all_flag_def board_all_def or_else_def and_then_def)
qed

interpretation all_rules: board_rule board_all_flag
  unfolding board_all_flag_eq
  by (rule simp_rule.or_else_rule, rule first_success_rule) (auto intro: square_attempts_rules all_pair_attempts_rules)

interpretation solve: board_rule board_solve
  unfolding board_solve_def by (rule all_rules.repeat_rule)

end
