(* ===== verification/Lua_Read.thy ===== *)
theory Lua_Read
  imports Lua_Sound
begin

text \<open>
  Reading a puzzle with \<open>board(s)\<close> and printing it with \<open>Board:__tostring\<close> and \<open>Board:show\<close>
  (\<^verbatim>\<open>src/src/sudoku.lua\<close>): the reader keeps every solution that agrees with the givens, never
  leaves a given undetermined on a puzzle that has a solution, and reloading a saved board keeps what
  was determined.
\<close>

subsection \<open>Characters of the text form\<close>

lemma translator_pairs:
  "map (\<lambda>i. (''123456789'' ! (i - 1), i)) (for1 (length ''123456789'')) =
   [(CHR ''1'', 1), (CHR ''2'', 2), (CHR ''3'', 3), (CHR ''4'', 4), (CHR ''5'', 5),
    (CHR ''6'', 6), (CHR ''7'', 7), (CHR ''8'', 8), (CHR ''9'', 9)]"
  by code_simp

lemma digit_translator_map:
  "digit_translator c = map_of [(CHR ''1'', 1), (CHR ''2'', 2), (CHR ''3'', 3), (CHR ''4'', 4), (CHR ''5'', 5),
    (CHR ''6'', 6), (CHR ''7'', 7), (CHR ''8'', 8), (CHR ''9'', 9)] c"
  unfolding digit_translator_def translator_pairs ..

lemma digit_char_values:
  "digit_char (Suc 0) = CHR ''1''" "digit_char 2 = CHR ''2''" "digit_char 3 = CHR ''3''" "digit_char 4 = CHR ''4''"
  "digit_char 5 = CHR ''5''" "digit_char 6 = CHR ''6''" "digit_char 7 = CHR ''7''" "digit_char 8 = CHR ''8''"
  "digit_char 9 = CHR ''9''"
  by code_simp+

lemma digit_cases:
  assumes "d \<in> {1..9::nat}"
  obtains "d = 1" | "d = 2" | "d = 3" | "d = 4" | "d = 5" | "d = 6" | "d = 7" | "d = 8" | "d = 9"
proof -
  have "d = 1 \<or> d = 2 \<or> d = 3 \<or> d = 4 \<or> d = 5 \<or> d = 6 \<or> d = 7 \<or> d = 8 \<or> d = 9"
    using assms by (simp, presburger)
  with that show thesis by blast
qed

lemma digit_translator_digit_char: "d \<in> {1..9} \<Longrightarrow> digit_translator (digit_char d) = Some d"
  by (erule digit_cases) (simp_all add: digit_translator_map digit_char_values)

lemma digit_translator_Some:
  assumes "digit_translator c = Some d"
  shows "d \<in> {1..9} \<and> c = digit_char d"
  using assms unfolding digit_translator_map
  by (auto simp: digit_char_values split: if_splits)

lemma digit_translator_dot [simp]: "digit_translator CHR ''.'' = None"
  by (simp add: digit_translator_map)

definition board_char :: "char \<Rightarrow> bool" where
  "board_char c \<longleftrightarrow> c = CHR ''.'' \<or> (48 < uchar_nat c \<and> uchar_nat c < 58)"

lemma strip_string_filter: "strip_string s = filter board_char s"
  unfolding strip_string_def board_char_def ..

lemma board_char_digit: "d \<in> {1..9} \<Longrightarrow> board_char (digit_char d)"
  by (simp add: board_char_def digit_char_def uchar_nat_def)

lemma board_char_cases:
  assumes "board_char c" shows "c = CHR ''.'' \<or> (\<exists>d\<in>{1..9}. c = digit_char d)"
proof (cases "c = CHR ''.''")
  case False
  with assms have n: "48 < uchar_nat c" "uchar_nat c < 58" by (auto simp: board_char_def)
  then have "c = digit_char (uchar_nat c - 48)" by (simp add: digit_char_def)
  moreover have "uchar_nat c - 48 \<in> {1..9}" using n by auto
  ultimately show ?thesis by blast
qed simp

lemma board_char_cell_show: "cell_wf c \<Longrightarrow> board_char (cell_show c)"
proof -
  assume wf: "cell_wf c"
  have dot: "board_char CHR ''.''" by (simp add: board_char_def)
  show ?thesis
  proof (cases "determined c \<and> cell_unknowns c = 1")
    case True
    then have "cands c \<noteq> {}" by (auto simp: cell_unknowns_card)
    then obtain d where d: "cell_first c = Inr d" "d \<in> cands c" using cell_first_ex by blast
    then have "d \<in> {1..9}" using cands_subset [OF wf] by auto
    with d True show ?thesis by (simp add: cell_show_def board_char_digit)
  qed (use dot in \<open>auto simp: cell_show_def\<close>)
qed

lemma cell_show_digit:
  assumes "determined c" "cands c = {d}"
  shows "cell_show c = digit_char d"
proof -
  obtain d' where "cell_first c = Inr d'" "d' \<in> cands c" using cell_first_ex assms(2) by blast
  with assms show ?thesis by (simp add: cell_show_def cell_unknowns_card)
qed

subsection \<open>Reading a board\<close>

text \<open>The clue list agrees with a completed grid.\<close>

definition agrees :: "grid \<Rightarrow> (pos \<times> char) list \<Rightarrow> bool" where
  "agrees g clues \<longleftrightarrow> (\<forall>pc\<in>set clues. \<forall>d. digit_translator (snd pc) = Some d \<longrightarrow> g (fst pc) = d)"

lemma board_step_shrink:
  assumes "board_wf b" "valid_pos p" "board_step (p, c) b = (r, b')"
  shows "board_wf b' \<and> refines b' b \<and> (\<forall>m. r = Inl m \<longrightarrow> m = LuaError ''Board inconsistent'')"
proof (cases "digit_translator c")
  case None
  then show ?thesis using assms by (auto simp: board_step_def)
next
  case (Some d)
  let ?b = "bset b p (fst (cell_singleton d (bget b p)))"
  have wf: "board_wf ?b" using assms(1,2) by (intro bset_wf singleton_ok bget_wf)
  have "refines ?b b" by (rule refines_bset) (auto simp: cell_le_def cands_singleton)
  moreover have "shrink_to False ?b (r, b')"
    using determine_shrink [OF wf assms(2), of d] assms(3) Some by (simp add: board_step_def)
  ultimately show ?thesis by (auto simp: shrink_to_def intro: refines_trans)
qed

lemma board_step_sound:
  assumes "board_wf b" "valid_pos p" "solution_of g b" and "\<And>d. digit_translator c = Some d \<Longrightarrow> g p = d"
  shows "sound_to g (board_step (p, c) b)"
proof (cases "digit_translator c")
  case None
  then show ?thesis using assms by (auto simp: board_step_def sound_to_def)
next
  case (Some d)
  then have gp: "g p = d" by (rule assms(4))
  let ?b = "bset b p (fst (cell_singleton d (bget b p)))"
  have wf: "board_wf ?b" using assms(1,2) by (intro bset_wf singleton_ok bget_wf)
  have "solution_of g ?b"
    using assms gp solution_cands [OF assms(3,2)] by (intro solution_bset) (auto simp: cands_singleton)
  with wf assms(2) gp Some show ?thesis by (simp add: board_step_def determine_sound)
qed

text \<open>A step on a digit that is not possible any more leaves its cell without candidates.\<close>

lemma board_step_impossible:
  assumes "board_wf b" "valid_pos p" "digit_translator c = Some d" "d \<notin> cands (bget b p)" and "board_step (p, c) b = (r, b')"
  shows "cands (bget b' p) = {}"
proof -
  let ?c = "fst (cell_singleton d (bget b p))"
  let ?b = "bset b p ?c"
  have wf: "board_wf ?b" using assms(1,2) by (intro bset_wf singleton_ok bget_wf)
  have "cands (bget ?b p) = {}" using assms(4) by (auto simp: bget_bset assms(1,2) cands_singleton)
  moreover have "refines b' ?b" using determine_shrink [OF wf assms(2), of d] assms(3,5) by (auto simp: board_step_def shrink_to_def)
  ultimately show ?thesis using refines_bget [OF _ wf assms(2)] by (fastforce simp: cell_le_def)
qed

text \<open>A step on a digit leaves its cell determined, when the digit was still possible there.\<close>

lemma board_step_determined:
  assumes "board_wf b" "valid_pos p" "digit_translator c = Some d" "d \<in> cands (bget b p)"
    and "board_step (p, c) b = (Inr e, b')"
  shows "determined (bget b' p) \<and> cands (bget b' p) \<subseteq> {d}"
proof -
  let ?c = "fst (cell_singleton d (bget b p))"
  let ?b = "bset b p ?c"
  have wf: "board_wf ?b" using assms(1,2) by (intro bset_wf singleton_ok bget_wf)
  have c: "bget ?b p = ?c" by (simp add: bget_bset assms)
  have cc: "cands ?c = {d}" using assms(4) by (auto simp: cands_singleton)
  have det: "determine p d ?b = (Inr e, b')" using assms(3,5) by (simp add: board_step_def)
  show ?thesis
  proof (cases "determined ?c")
    case True
    then have "b' = ?b" using det determine_eq [OF wf assms(2)] c by (simp add: determine_body_noop)
    with True cc c show ?thesis by simp
  next
    case False
    have d: "cget (bget ?b p) d" using cc c by (auto simp: cands_def)
    obtain c1 e1 where s: "cell_singleton d ((bget ?b p)\<lparr>determined := True\<rparr>) = (c1, e1)" by fastforce
    from determine_cell [OF wf assms(2) d _ s] False c
    have d1: "shrink_to False ?b (Inr e1, bset ?b p c1)" "cands c1 = {d}" "determined c1"
      and less: "undetermined (bset ?b p c1) < undetermined ?b" by auto
    have "refines b' (bset ?b p c1)"
      using determine_refines_first [OF wf assms(2) d _ s det] False c by simp
    from refines_singleton [OF this shrink_to_wf [OF d1(1)] assms(2)] d1(2,3)
    show ?thesis by (simp add: bget_bset [OF wf assms(2,2)])
  qed
qed

lemma board_loop_wf:
  assumes "board_wf b" "\<forall>pc\<in>set clues. valid_pos (fst pc)" "loop_or board_step clues e b = (r, b')"
  shows "board_wf b' \<and> refines b' b \<and> (\<forall>m. r = Inl m \<longrightarrow> m = LuaError ''Board inconsistent'')"
  using assms
proof (induction clues arbitrary: e b)
  case (Cons pc clues)
  obtain p c where pc: "pc = (p, c)" by (cases pc)
  obtain r1 b1 where s: "board_step (p, c) b = (r1, b1)" by fastforce
  have st: "board_wf b1 \<and> refines b1 b \<and> (\<forall>m. r1 = Inl m \<longrightarrow> m = LuaError ''Board inconsistent'')"
    using board_step_shrink [OF Cons.prems(1) _ s] Cons.prems(2) pc by simp
  show ?case
  proof (cases r1)
    case (Inr e1)
    then have "loop_or board_step clues (e1 \<or> e) b1 = (r, b')" using Cons.prems(3) pc s by simp
    from Cons.IH [OF _ _ this] st Cons.prems(2) show ?thesis by (auto intro: refines_trans)
  qed (use Cons.prems(3) pc s st in auto)
qed auto

text \<open>After reading, the cell of every digit is determined with it or has no candidates.\<close>

lemma board_loop_given:
  assumes "board_wf b" "\<forall>pc\<in>set clues. valid_pos (fst pc)" "loop_or board_step clues e b = (Inr e', b')"
    and "pc \<in> set clues" "digit_translator (snd pc) = Some d"
  shows "determined (bget b' (fst pc)) \<and> cands (bget b' (fst pc)) = {d} \<or> cands (bget b' (fst pc)) = {}"
  using assms
proof (induction clues arbitrary: e b)
  case (Cons pc1 clues)
  obtain p c where pc: "pc1 = (p, c)" by (cases pc1)
  obtain e1 b1 where s: "board_step (p, c) b = (Inr e1, b1)" and l: "loop_or board_step clues (e1 \<or> e) b1 = (Inr e', b')"
    using Cons.prems(3) pc by (auto split: prod.splits sum.splits simp: and_then_def)
  have p: "valid_pos p" "\<forall>pc\<in>set clues. valid_pos (fst pc)" using Cons.prems(2) pc by simp_all
  have wf1: "board_wf b1" using board_step_shrink [OF Cons.prems(1) p(1) s] by simp
  show ?case
  proof (cases "pc \<in> set clues")
    case True
    from Cons.IH [OF wf1 p(2) l True Cons.prems(5)] show ?thesis .
  next
    case False
    then have e: "pc = (p, c)" using Cons.prems(4) pc by simp
    have d: "digit_translator c = Some d" using Cons.prems(5) e by simp
    have "refines b' b1" using board_loop_wf [OF wf1 p(2) l] by simp
    from refines_bget [OF this wf1 p(1)] have le: "cell_le (bget b' p) (bget b1 p)" .
    show ?thesis
      using board_step_impossible [OF Cons.prems(1) p(1) d _ s] board_step_determined [OF Cons.prems(1) p(1) d _ s] le
      unfolding e by (cases "d \<in> cands (bget b p)") (auto simp: cell_le_def)
  qed
qed simp

lemma board_loop_sound:
  assumes "board_wf b" "\<forall>pc\<in>set clues. valid_pos (fst pc)" "solution_of g b" "agrees g clues"
  shows "\<exists>e' b'. loop_or board_step clues e b = (Inr e', b') \<and> solution_of g b' \<and>
    (\<forall>pc\<in>set clues. \<forall>d. digit_translator (snd pc) = Some d \<longrightarrow>
      determined (bget b' (fst pc)) \<and> cands (bget b' (fst pc)) = {d})"
  using assms
proof (induction clues arbitrary: e b)
  case Nil
  then show ?case by simp
next
  case (Cons pc clues)
  obtain p c where pc: "pc = (p, c)" by (cases pc)
  have p: "valid_pos p" using Cons.prems(2) pc by simp
  have gp: "\<And>d. digit_translator c = Some d \<Longrightarrow> g p = d" using Cons.prems(4) pc by (simp add: agrees_def)
  obtain e1 b1 where s: "board_step (p, c) b = (Inr e1, b1)" and sol1: "solution_of g b1"
    using board_step_sound [OF Cons.prems(1) p Cons.prems(3), of c] gp
    by (cases "board_step (p, c) b") (auto simp: sound_to_def)
  have wf1: "board_wf b1" using board_step_shrink [OF Cons.prems(1) p s] by simp
  have tl: "\<forall>pc\<in>set clues. valid_pos (fst pc)" "agrees g clues"
    using Cons.prems(2,4) by (simp_all add: agrees_def)
  obtain e' b' where l: "loop_or board_step clues (e1 \<or> e) b1 = (Inr e', b')" and sol': "solution_of g b'"
    and rest: "\<forall>pc\<in>set clues. \<forall>d. digit_translator (snd pc) = Some d \<longrightarrow>
      determined (bget b' (fst pc)) \<and> cands (bget b' (fst pc)) = {d}"
    using Cons.IH [OF wf1 tl(1) sol1 tl(2), of "e1 \<or> e"] by blast
  have "determined (bget b' p) \<and> cands (bget b' p) = {d}" if d: "digit_translator c = Some d" for d
  proof -
    have "d \<in> cands (bget b p)" using solution_cands [OF Cons.prems(3) p] gp [OF d] by simp
    from board_step_determined [OF Cons.prems(1) p d this s]
    have "determined (bget b1 p)" "cands (bget b1 p) \<subseteq> {d}" by simp_all
    moreover have "refines b' b1" using board_loop_wf [OF wf1 tl(1) l] by simp
    from refines_bget [OF this wf1 p] have "cell_le (bget b' p) (bget b1 p)" .
    moreover have "d \<in> cands (bget b' p)" using solution_cands [OF sol' p] gp [OF d] by simp
    ultimately show ?thesis by (auto simp: cell_le_def)
  qed
  with rest have "\<forall>pc\<in>set (pc # clues). \<forall>d. digit_translator (snd pc) = Some d \<longrightarrow>
      determined (bget b' (fst pc)) \<and> cands (bget b' (fst pc)) = {d}" by (simp add: pc)
  moreover have "loop_or board_step (pc # clues) e b = (Inr e', b')" using s l pc by simp
  ultimately show ?case using sol' by blast
qed

subsection \<open>The text form\<close>

lemma length_board_tostring: "length (board_tostring b) = 81"
  by (simp add: board_tostring_def)

lemma strip_board_tostring: "board_wf b \<Longrightarrow> strip_string (board_tostring b) = board_tostring b"
  unfolding strip_string_filter board_tostring_def filter_id_conv
  using bget_wf board_char_cell_show by (auto simp: set_reading_order)

lemma strip_board_show: "board_wf b \<Longrightarrow> strip_string (board_show b) = board_tostring b"
proof -
  assume wf: "board_wf b"
  have row: "filter board_char (map (\<lambda>p. cell_show (bget b p)) (row_cells r1 r2) @ [CHR 0x0A]) =
      map (\<lambda>p. cell_show (bget b p)) (row_cells r1 r2)" if "r1 \<in> {1..3}" "r2 \<in> {1..3}" for r1 r2
  proof -
    have "\<forall>p\<in>set (row_cells r1 r2). board_char (cell_show (bget b p))"
      using units_valid [OF row_units [OF that]] bget_wf [OF wf] board_char_cell_show by blast
    then show ?thesis by (simp add: filter_id_conv, simp add: board_char_def uchar_nat_def)
  qed
  have "strip_string (board_show b) = concat (map (\<lambda>r1. concat (map (\<lambda>r2.
     filter board_char (map (\<lambda>p. cell_show (bget b p)) (row_cells r1 r2) @ [CHR 0x0A])) (for1 3))) (for1 3))"
    unfolding strip_string_filter board_show_def by (simp add: filter_concat comp_def)
  also have "\<dots> = concat (map (\<lambda>r1. concat (map (\<lambda>r2. map (\<lambda>p. cell_show (bget b p)) (row_cells r1 r2)) (for1 3))) (for1 3))"
    by (intro arg_cong [of _ _ concat] map_cong refl row) auto
  also have "\<dots> = board_tostring b"
    by (simp add: board_tostring_def reading_order_def map_concat comp_def)
  finally show ?thesis .
qed

text \<open>The clues of a text: each cell of the board, in reading order, with its character.\<close>

definition clues_of :: "string \<Rightarrow> (pos \<times> char) list" where
  "clues_of s = zip reading_order (strip_string s)"

lemma clues_valid: "\<forall>pc\<in>set (clues_of s). valid_pos (fst pc)"
  by (auto simp: clues_of_def set_reading_order dest: set_zip_leftD)

lemma show_digit_cands:
  assumes "cell_wf c" "digit_translator (cell_show c) = Some d"
  shows "determined c \<and> cands c = {d}"
proof (cases "determined c \<and> cell_unknowns c = 1")
  case True
  then obtain d' where d': "cands c = {d'}" by (auto simp: cell_unknowns_card card_1_singleton_iff)
  then have "cell_show c = digit_char d'" using True by (simp add: cell_show_digit)
  moreover have "d' \<in> {1..9}" using cands_subset [OF assms(1)] d' by auto
  ultimately have "d = d'" using assms(2) by (simp add: digit_translator_digit_char)
  with True d' show ?thesis by simp
next
  case False
  then show ?thesis using assms(2) by (auto simp: cell_show_def)
qed

lemma clue_of_board:
  assumes "strip_string s = board_tostring b" "pc \<in> set (clues_of s)"
  shows "valid_pos (fst pc) \<and> snd pc = cell_show (bget b (fst pc))"
proof -
  have "clues_of s = map (\<lambda>p. (p, cell_show (bget b p))) reading_order"
    unfolding clues_of_def assms(1) board_tostring_def by (simp add: zip_map2 zip_same_conv_map)
  with assms(2) show ?thesis by (auto simp: set_reading_order simp del: split_paired_All)
qed

lemma agrees_board:
  assumes "board_wf b" "solution_of g b" "strip_string s = board_tostring b"
  shows "agrees g (clues_of s)"
  unfolding agrees_def
proof (intro ballI allI impI)
  fix pc d
  assume pc: "pc \<in> set (clues_of s)" and d: "digit_translator (snd pc) = Some d"
  from clue_of_board [OF assms(3) pc] d have p: "valid_pos (fst pc)"
    and "digit_translator (cell_show (bget b (fst pc))) = Some d" by simp_all
  with show_digit_cands [OF bget_wf [OF assms(1)]] have "cands (bget b (fst pc)) = {d}" by blast
  with solution_cands [OF assms(2) p] show "g (fst pc) = d" by simp
qed

text \<open>Reading succeeds on a puzzle with a solution, and the givens are determined.\<close>

lemma solution_of_mk_board:
  assumes "valid_grid g"
  shows "solution_of g mk_board"
proof -
  have "g p \<in> {1..9}" if p: "valid_pos p" for p
  proof -
    obtain r1 c1 r2 c2 where pp: "p = (r1, c1, r2, c2)" by (cases p)
    have "g ` set (row_cells r1 r2) = {1..9}"
      using assms units_of_pos(2) p by (auto simp: valid_grid_def pp)
    with unit_mem(2) p pp show ?thesis by blast
  qed
  then show ?thesis using assms by (simp add: solution_of_def bget_mk_board cands_mk_cell)
qed

lemma board_of_string_sound:
  assumes len: "length (strip_string s) = 81" and g: "valid_grid g" "agrees g (clues_of s)"
  obtains b where "board_of_string s = Inr b" "board_wf b" "solution_of g b"
    "\<forall>pc\<in>set (clues_of s). \<forall>d. digit_translator (snd pc) = Some d \<longrightarrow>
      determined (bget b (fst pc)) \<and> cands (bget b (fst pc)) = {d}"
proof -
  from board_loop_sound [OF mk_board_wf clues_valid solution_of_mk_board [OF g(1)] g(2), of False] obtain e b where
    l: "loop_or board_step (clues_of s) False mk_board = (Inr e, b)" and sol: "solution_of g b"
    and given: "\<forall>pc\<in>set (clues_of s). \<forall>d. digit_translator (snd pc) = Some d \<longrightarrow>
      determined (bget b (fst pc)) \<and> cands (bget b (fst pc)) = {d}" by blast
  have "board_wf b" using board_loop_wf [OF mk_board_wf clues_valid l] by simp
  moreover have "board_of_string s = Inr b" using len l by (simp add: board_of_string_def clues_of_def)
  ultimately show thesis using that sol given by blast
qed

lemma board_of_string_wf: "board_of_string s = Inr b \<Longrightarrow> board_wf b"
  using board_loop_wf [OF mk_board_wf clues_valid [of s], of False]
  by (auto simp: board_of_string_def clues_of_def Let_def split: if_splits prod.splits sum.splits)

lemma board_of_string_no_fuel: "board_of_string s \<noteq> Inl OutOfFuel"
  using board_loop_wf [OF mk_board_wf clues_valid [of s], of False]
  by (fastforce simp: board_of_string_def clues_of_def Let_def split: if_splits prod.splits sum.splits)

text \<open>The text form of a board has the digit of every cell that is determined.\<close>

lemma board_show_given:
  assumes wf: "board_wf b" and s: "strip_string s = board_tostring b" and p: "valid_pos p" "determined (bget b p)" "cands (bget b p) \<noteq> {}"
  obtains d where "cands (bget b p) = {d}" "(p, cell_show (bget b p)) \<in> set (clues_of s)" "digit_translator (cell_show (bget b p)) = Some d"
proof -
  have c: "card (cands (bget b p)) \<le> 1" "cell_wf (bget b p)" using bget_ok [OF wf p(1)] p(2) by (auto simp: cell_ok_def)
  then have "card (cands (bget b p)) = 1" using p(3) by (simp add: le_Suc_eq)
  then obtain d where d: "cands (bget b p) = {d}" by (auto simp: card_1_singleton_iff)
  then have "d \<in> {1..9}" using cands_subset [OF c(2)] by auto
  then have "digit_translator (cell_show (bget b p)) = Some d" using d p(2) by (simp add: cell_show_digit digit_translator_digit_char)
  moreover have "(p, cell_show (bget b p)) \<in> set (clues_of s)"
    unfolding clues_of_def s board_tostring_def using p(1) by (simp add: zip_map2 zip_same_conv_map set_reading_order image_iff)
  ultimately show thesis using that d by blast
qed

text \<open>Reading back the text form of a solvable board keeps its solutions and its determined cells.\<close>

lemma board_of_string_tostring:
  assumes wf: "board_wf b" and g: "solution_of g b" and s: "strip_string s = board_tostring b"
  shows "\<exists>b'. board_of_string s = Inr b' \<and> board_wf b' \<and> solution_of g b' \<and>
    (\<forall>p. valid_pos p \<longrightarrow> determined (bget b p) \<longrightarrow> determined (bget b' p) \<and> cands (bget b' p) = cands (bget b p))"
proof -
  have len: "length (strip_string s) = 81" by (simp add: s length_board_tostring)
  have "valid_grid g" using g by (simp add: solution_of_def)
  then obtain b' where b': "board_of_string s = Inr b'" "board_wf b'" "solution_of g b'"
    and clues: "\<forall>pc\<in>set (clues_of s). \<forall>d. digit_translator (snd pc) = Some d \<longrightarrow>
      determined (bget b' (fst pc)) \<and> cands (bget b' (fst pc)) = {d}"
    using board_of_string_sound [OF len _ agrees_board [OF wf g s]] by blast
  have "determined (bget b' p) \<and> cands (bget b' p) = cands (bget b p)"
    if p: "valid_pos p" and d: "determined (bget b p)" for p
  proof -
    have "cands (bget b p) \<noteq> {}" using solution_cands [OF g p] by auto
    from board_show_given [OF wf s p d this] obtain d where "cands (bget b p) = {d}" "(p, cell_show (bget b p)) \<in> set (clues_of s)"
      "digit_translator (cell_show (bget b p)) = Some d" .
    with clues show ?thesis by force
  qed
  with b' show ?thesis by blast
qed

text \<open>Reading back the text form of any board.\<close>

lemma board_of_string_board:
  assumes wf: "board_wf b" and s: "strip_string s = board_tostring b"
  shows "case board_of_string s of
     Inl m \<Rightarrow> m = LuaError ''Board inconsistent'' \<and> (\<forall>g. \<not> solution_of g b)
   | Inr b' \<Rightarrow> board_wf b' \<and> (\<forall>g. solution_of g b \<longrightarrow> solution_of g b') \<and>
       (\<forall>p. valid_pos p \<longrightarrow> determined (bget b p) \<longrightarrow> cands (bget b p) \<noteq> {} \<longrightarrow>
          determined (bget b' p) \<and> cands (bget b' p) = cands (bget b p) \<or> cands (bget b' p) = {} \<and> (\<forall>g. \<not> solution_of g b))"
proof -
  have sol: "\<exists>b'. board_of_string s = Inr b' \<and> solution_of g b'" if "solution_of g b" for g
    using board_of_string_tostring [OF wf that s] by blast
  obtain r b' where l: "loop_or board_step (clues_of s) False mk_board = (r, b')" by fastforce
  have b: "board_of_string s = (case r of Inl m \<Rightarrow> Inl m | Inr _ \<Rightarrow> Inr b')"
    using l by (simp add: board_of_string_def clues_of_def s length_board_tostring)
  note w = board_loop_wf [OF mk_board_wf clues_valid l]
  show ?thesis
  proof (cases r)
    case (Inl m)
    then show ?thesis using b w sol by force
  next
    case (Inr e)
    have "determined (bget b' p) \<and> cands (bget b' p) = cands (bget b p) \<or> cands (bget b' p) = {} \<and> (\<forall>g. \<not> solution_of g b)"
      if p: "valid_pos p" "determined (bget b p)" "cands (bget b p) \<noteq> {}" for p
    proof -
      obtain d where d: "cands (bget b p) = {d}" "(p, cell_show (bget b p)) \<in> set (clues_of s)" "digit_translator (cell_show (bget b p)) = Some d"
        by (rule board_show_given [OF wf s p])
      have "cands (bget b' p) \<noteq> {}" if "solution_of g b" for g
        using sol [OF that] b Inr solution_cands [of g b' p] p(1) by auto
      then show ?thesis using board_loop_given [OF mk_board_wf clues_valid l [unfolded Inr] d(2)] d(1,3) by auto
    qed
    moreover have "solution_of g b'" if "solution_of g b" for g using sol [OF that] b Inr by simp
    ultimately show ?thesis using b Inr w by simp
  qed
qed

subsection \<open>A completed Sudoku\<close>

fun sample_grid :: grid where
  "sample_grid (r1, c1, r2, c2) = (3 * (r2 - 1) + (r1 - 1) + 3 * (c1 - 1) + (c2 - 1)) mod 9 + 1"

lemma sample_grid_valid: "valid_grid sample_grid"
proof -
  have "\<forall>i\<in>set (for1 3). \<forall>j\<in>set (for1 3). set (map sample_grid (square_cells i j)) = set [1..<10] \<and>
      set (map sample_grid (row_cells i j)) = set [1..<10] \<and> set (map sample_grid (column_cells i j)) = set [1..<10]"
    by code_simp
  moreover have "set [1..<10] = {1..9::nat}" by auto
  ultimately show ?thesis by (auto simp: valid_grid_def units_def simp del: set_upt)
qed

end
