(* ===== verification/Lua_Session.thy ===== *)
theory Lua_Session
  imports Lua_Read
begin

text \<open>
  The command interpreter of \<^verbatim>\<open>src/src/sudoku.lua\<close>: the current board \<open>it\<close>, the history of boards, the print
  mode, and the functions \<open>push\<close>, \<open>back\<close>, \<open>swap\<close>, \<open>new\<close>, \<open>load\<close>, \<open>save\<close>, \<open>do_edit\<close>, \<open>do_help\<close> and \<open>eval\<close> with its
  command table.  Calls of the C functions \<open>set_val\<close> and \<open>show\<close> are collected in a list of effects; the C
  function \<open>edit\<close> (the editor dialog) is an argument.  A help text is represented by its name.
\<close>

datatype lua_val = LStr string | LNum int

datatype help_text = intro_help | commands_help | board_help | history_help | basic_help |
  advanced_help | pair_help | impatient_help | index_text

datatype effect = SetVal set_val_call | ShowText help_text

record session =
  it :: "board option"
  history :: "board list"
  details :: bool

text \<open>The state after the script has been loaded.\<close>

definition session_init :: session where
  "session_init = \<lparr>it = None, history = [], details = False\<rparr>"

subsection \<open>Board histories\<close>

definition last_option :: "'a list \<Rightarrow> 'a option" where
  "last_option xs = (if xs = [] then None else Some (last xs))"

definition push :: "session \<Rightarrow> session" where
  "push s = (case it s of
     None \<Rightarrow> s
   | Some b \<Rightarrow> if board_same b (last_option (history s)) then s
              else s\<lparr>history := history s @ [board_clone b]\<rparr>)"

definition back_board :: "session \<Rightarrow> session \<times> bool" where
  "back_board s = (case last_option (history s) of
     None \<Rightarrow> (s, False)
   | Some top1 \<Rightarrow>
      (let s = s\<lparr>history := butlast (history s)\<rparr>
       in if \<not> board_same top1 (it s) then (s\<lparr>it := Some top1\<rparr>, True)
          else (case last_option (history s) of
              None \<Rightarrow> (s, False)
            | Some top1 \<Rightarrow> (s\<lparr>history := butlast (history s), it := Some top1\<rparr>, True))))"

definition swap :: "session \<Rightarrow> session \<times> bool" where
  "swap s =
     (let penultimate = it s;
          s = fst (back_board s);
          ultimate = it s;
          s = push (s\<lparr>it := penultimate\<rparr>)
      in (s\<lparr>it := ultimate\<rparr>, True))"

definition new_board :: "session \<Rightarrow> session \<times> bool" where
  "new_board s = ((push s)\<lparr>it := Some mk_board\<rparr>, True)"

subsection \<open>Loading, saving and editing\<close>

definition load :: "string \<Rightarrow> session \<Rightarrow> (lua_err + unit) \<times> session \<times> effect list" where
  "load str s = (case board_of_string str of
     Inl m \<Rightarrow> (Inl m, s, [])
   | Inr b \<Rightarrow> (Inr (), s\<lparr>it := Some b, history := []\<rparr>, map SetVal (print_all (details s) b)))"

definition save :: "session \<Rightarrow> lua_err + string" where
  "save s = (case it s of Some b \<Rightarrow> Inr (board_show b) | None \<Rightarrow> Inl (LuaError ''nothing to save''))"

type_synonym reply = "(lua_err + string option) \<times> session \<times> effect list"

definition do_edit :: "(string option \<Rightarrow> string option) \<Rightarrow> session \<Rightarrow> reply" where
  "do_edit edit s = (case edit (map_option board_tostring (it s)) of
     None \<Rightarrow> (Inr (Some ''edit canceled''), s, [])
   | Some str \<Rightarrow>
      (let s = push s
       in case board_of_string str of
            Inl m \<Rightarrow> (Inl m, s, [])
          | Inr b \<Rightarrow> (Inr None, s\<lparr>it := Some b\<rparr>, map SetVal (print_all (details s) b))))"

subsection \<open>Help\<close>

definition topics :: "(string \<times> help_text) list" where
  "topics =
    [(''intro'', intro_help), (''commands'', commands_help), (''board'', board_help), (''history'', history_help),
     (''basic'', basic_help), (''advanced'', advanced_help), (''pair'', pair_help), (''impatient'', impatient_help),
     (''back'', history_help), (''swap'', history_help), (''new'', history_help),
     (''details'', intro_help), (''normal'', intro_help),
     (''s'', basic_help), (''r'', basic_help), (''c'', basic_help), (''d'', basic_help),
     (''rs'', advanced_help), (''cs'', advanced_help), (''sr'', advanced_help), (''sc'', advanced_help),
     (''ps'', pair_help), (''pr'', pair_help), (''pc'', pair_help), (''sps'', pair_help), (''spr'', pair_help),
     (''spc'', pair_help), (''hist'', basic_help), (''p'', impatient_help), (''simp'', impatient_help),
     (''all'', impatient_help), (''solve'', impatient_help), (''index'', index_text)]"

text \<open>Lua's conversion of a value to a string in a concatenation.\<close>

definition string_of_int :: "int \<Rightarrow> string" where
  "string_of_int i = (if i < 0 then ''-'' @ string_of_nat (nat (- i)) else string_of_nat (nat i))"

fun lua_tostring :: "lua_val \<Rightarrow> string" where
  "lua_tostring (LStr s) = s"
| "lua_tostring (LNum i) = string_of_int i"

definition topic_lookup :: "lua_val \<Rightarrow> help_text option" where
  "topic_lookup v = (case v of LStr n \<Rightarrow> map_of topics n | LNum _ \<Rightarrow> None)"

definition do_help :: "lua_val option \<Rightarrow> session \<Rightarrow> reply" where
  "do_help topic s = (case topic of
     None \<Rightarrow> (Inr None, s, [ShowText intro_help])
   | Some t \<Rightarrow> (case topic_lookup t of
        None \<Rightarrow> (Inr (Some (''no help entry for '' @ lua_tostring t)), s, [])
      | Some txt \<Rightarrow> (Inr None, s, [ShowText txt])))"

subsection \<open>The command table\<close>

record cmd =
  nargs :: nat
  cmd_help :: string

definition cmds :: "(string \<times> cmd) list" where
  "cmds =
    [(''back'', \<lparr>nargs = 0, cmd_help = ''back -- replace the current board with the one most recently saved''\<rparr>),
     (''swap'', \<lparr>nargs = 0, cmd_help = ''swap -- swap the current board with the one most recently saved''\<rparr>),
     (''new'', \<lparr>nargs = 0, cmd_help = ''new -- make a blank board''\<rparr>),
     (''details'', \<lparr>nargs = 0, cmd_help = ''details -- show detailed cell view''\<rparr>),
     (''normal'', \<lparr>nargs = 0, cmd_help = ''normal -- show normal cell view''\<rparr>),
     (''s'', \<lparr>nargs = 3, cmd_help = ''s <digit> <row> <col> -- square determines digit''\<rparr>),
     (''r'', \<lparr>nargs = 2, cmd_help = ''r <digit> <row> -- row determines digit''\<rparr>),
     (''c'', \<lparr>nargs = 2, cmd_help = ''c <digit> <col> -- column determines digit''\<rparr>),
     (''d'', \<lparr>nargs = 3, cmd_help = ''d <digit> <row> <col> -- determine digit''\<rparr>),
     (''rs'', \<lparr>nargs = 3, cmd_help = ''rs <digit> <row> <col> -- digit in one row in square''\<rparr>),
     (''cs'', \<lparr>nargs = 3, cmd_help = ''cs <digit> <row> <col> -- digit in one column in square''\<rparr>),
     (''sr'', \<lparr>nargs = 3, cmd_help = ''sr <digit> <row> <col> -- digit in one square of row''\<rparr>),
     (''sc'', \<lparr>nargs = 3, cmd_help = ''sc <digit> <row> <col> -- digit in one square of column''\<rparr>),
     (''ps'', \<lparr>nargs = 4, cmd_help = ''ps <digit> <digit> <row> <col> -- two places for pair in square''\<rparr>),
     (''pr'', \<lparr>nargs = 3, cmd_help = ''pr <digit> <digit> <row> -- two places for pair in row''\<rparr>),
     (''pc'', \<lparr>nargs = 3, cmd_help = ''pc <digit> <digit> <col> -- two places for pair in column''\<rparr>),
     (''sps'', \<lparr>nargs = 4, cmd_help = ''sps <digit> <digit> <row> <col> -- same pair in square''\<rparr>),
     (''spr'', \<lparr>nargs = 3, cmd_help = ''spr <digit> <digit> <row> -- same pair in row''\<rparr>),
     (''spc'', \<lparr>nargs = 3, cmd_help = ''spc <digit> <digit> <col> -- same pair in column''\<rparr>),
     (''hint'', \<lparr>nargs = 0, cmd_help = ''hint -- print a simple hint''\<rparr>),
     (''p'', \<lparr>nargs = 0, cmd_help = ''p -- propagate all singletons''\<rparr>),
     (''simp'', \<lparr>nargs = 0, cmd_help = ''simp -- repeatly apply simple rules''\<rparr>),
     (''all'', \<lparr>nargs = 0, cmd_help = ''all -- try all rules''\<rparr>),
     (''solve'', \<lparr>nargs = 0, cmd_help = ''solve -- repeatly apply all rules''\<rparr>)]"

text \<open>What a command's \<open>op\<close> returns under \<open>pcall\<close>: the error, or the flag and the optional message.\<close>

type_synonym op_result = "(lua_err + (bool \<times> string option)) \<times> session"

text \<open>An \<open>op\<close> that calls a method of the current board: the mutations stay even when it fails.\<close>

definition on_it :: "(board \<Rightarrow> (bool \<times> string option) outcome) \<Rightarrow> session \<Rightarrow> op_result" where
  "on_it f s = (case it s of
     None \<Rightarrow> (Inl (LuaError ''attempt to index upvalue 'it' (a nil value)''), s)
   | Some b \<Rightarrow> (case f b of (r, b') \<Rightarrow> (r, s\<lparr>it := Some b'\<rparr>)))"

definition flag_only :: "rule \<Rightarrow> board \<Rightarrow> (bool \<times> string option) outcome" where
  "flag_only rule b = and_then (rule b) (\<lambda>e b. (Inr (e, None), b))"

text \<open>\<open>cmds.d.op(d, row, col)\<close> passes \<open>d\<close> as a fifth argument, which \<open>propagate_elimination\<close> does not have.\<close>

definition d_op :: "nat \<Rightarrow> nat \<Rightarrow> nat \<Rightarrow> rule" where
  "d_op d row col = with_spread row (\<lambda>r1 r2. with_spread col (\<lambda>c1 c2. propagate_elimination (r1, c1, r2, c2)))"

text \<open>The rule a command applies to the current board; \<open>None\<close> for the other commands.\<close>

definition rule_of :: "string \<Rightarrow> nat list \<Rightarrow> rule option" where
  "rule_of name args =
     (if name = ''s'' then Some (one_place_in_square (args ! 0) (args ! 1) (args ! 2))
      else if name = ''r'' then Some (one_place_in_row (args ! 0) (args ! 1))
      else if name = ''c'' then Some (one_place_in_column (args ! 0) (args ! 1))
      else if name = ''d'' then Some (d_op (args ! 0) (args ! 1) (args ! 2))
      else if name = ''rs'' then Some (one_row_in_square (args ! 0) (args ! 1) (args ! 2))
      else if name = ''cs'' then Some (one_column_in_square (args ! 0) (args ! 1) (args ! 2))
      else if name = ''sr'' then Some (one_square_for_row (args ! 0) (args ! 1) (args ! 2))
      else if name = ''sc'' then Some (one_square_for_column (args ! 0) (args ! 1) (args ! 2))
      else if name = ''ps'' then Some (two_places_for_pair_in_square (args ! 0) (args ! 1) (args ! 2) (args ! 3))
      else if name = ''pr'' then Some (two_places_for_pair_in_row (args ! 0) (args ! 1) (args ! 2))
      else if name = ''pc'' then Some (two_places_for_pair_in_column (args ! 0) (args ! 1) (args ! 2))
      else if name = ''sps'' then Some (same_pair_in_square (args ! 0) (args ! 1) (args ! 2) (args ! 3))
      else if name = ''spr'' then Some (same_pair_in_row (args ! 0) (args ! 1) (args ! 2))
      else if name = ''spc'' then Some (same_pair_in_column (args ! 0) (args ! 1) (args ! 2))
      else if name = ''p'' then Some propagate_all_singletons
      else if name = ''simp'' then Some board_simp
      else if name = ''solve'' then Some board_solve
      else None)"

definition run_op :: "string \<Rightarrow> nat list \<Rightarrow> session \<Rightarrow> op_result" where
  "run_op name args s = (case rule_of name args of
     Some rule \<Rightarrow> on_it (flag_only rule) s
   | None \<Rightarrow>
      if name = ''back'' then (case back_board s of (s, e) \<Rightarrow> (Inr (e, None), s))
      else if name = ''swap'' then (case swap s of (s, e) \<Rightarrow> (Inr (e, None), s))
      else if name = ''new'' then (case new_board s of (s, e) \<Rightarrow> (Inr (e, None), s))
      else if name = ''details'' then (Inr (False, Some ''detailed view enabled''), s\<lparr>details := True\<rparr>)
      else if name = ''normal'' then (Inr (False, Some ''detailed view disabled''), s\<lparr>details := False\<rparr>)
      else if name = ''hint'' then on_it (\<lambda>b. (Inr (False, Some (board_hint b)), b)) s
      else on_it board_all s)"

subsection \<open>Command processing\<close>

fun is_digit_arg :: "lua_val \<Rightarrow> bool" where
  "is_digit_arg (LNum i) = (\<not> (i < 1 \<or> i > 9))"
| "is_digit_arg (LStr _) = False"

fun arg_nat :: "lua_val \<Rightarrow> nat" where
  "arg_nat (LNum i) = nat i"
| "arg_nat (LStr _) = 0"

text \<open>The message of an error value, as the status line receives it.\<close>

fun err_msg :: "lua_err \<Rightarrow> string" where
  "err_msg (LuaError m) = m"
| "err_msg OutOfFuel = []"

definition cmd_lookup :: "lua_val \<Rightarrow> (string \<times> cmd) option" where
  "cmd_lookup v = (case v of LStr n \<Rightarrow> map_option (Pair n) (map_of cmds n) | LNum _ \<Rightarrow> None)"

definition eval :: "(string option \<Rightarrow> string option) \<Rightarrow> lua_val \<Rightarrow> lua_val list \<Rightarrow> session \<Rightarrow> reply" where
  "eval edit name args s = (case cmd_lookup name of
     None \<Rightarrow>
       if name = LStr ''edit'' then do_edit edit s
       else if name = LStr ''help'' then do_help (case args of [] \<Rightarrow> None | t # _ \<Rightarrow> Some t) s
       else if name = LStr ''index'' then do_help (Some name) s
       else (Inr (Some (''command '' @ lua_tostring name @ '' unknown'')), s, [])
   | Some (n, cmd) \<Rightarrow>
       if (case args of [] \<Rightarrow> False | a # _ \<Rightarrow> a = LStr ''help'') then do_help (Some name) s
       else if length args \<noteq> nargs cmd then (Inr (Some (cmd_help cmd)), s, [])
       else if \<not> list_all is_digit_arg args then (Inr (Some (cmd_help cmd)), s, [])
       else if it s = None then (Inr (Some ''no board''), s, map SetVal print_blank_board)
       else (case run_op n (map arg_nat args) (push s) of (r, s) \<Rightarrow>
         (let effs = (case it s of Some b \<Rightarrow> map SetVal (print_all (details s) b) | None \<Rightarrow> [])
          in case r of
               Inl m \<Rightarrow> (Inr (Some (err_msg m)), s, effs)
             | Inr (e, msg) \<Rightarrow> (Inr (Some (case msg of Some m \<Rightarrow> m | None \<Rightarrow> if e then ''yes'' else ''no'')), s, effs))))"

end
