(* ===== verification/Board_Chars.thy ===== *)
theory Board_Chars
  imports Prelude
begin

text \<open>
  \<^verbatim>\<open>src/src/board.c\<close> and the constants of \<^verbatim>\<open>src/src/gtksudoku.h\<close>: boards as character strings.  A set of digits is
  a C \<open>int\<close> whose bit \<open>d - 1\<close> stands for digit \<open>d\<close>.
\<close>

definition SIDES :: nat where
  "SIDES = 3"

definition DIGITS :: nat where
  "DIGITS = SIDES * SIDES"

definition ALL_bits :: cint where
  "ALL_bits = push_bit DIGITS 1 - 1"

lemma DIGITS_simps [simp]: "SIDES = 3" "DIGITS = 9"
  by (simp_all add: SIDES_def DIGITS_def)

lemma ALL_bits_eq: "ALL_bits = 511"
  by (simp add: ALL_bits_def)

definition isboardchar :: "cint \<Rightarrow> bool" where
  "isboardchar c = (c = 46 \<or> (49 \<le>s c \<and> c \<le>s 57))"

text \<open>A null pointer is \<open>None\<close>; the loop stops at the first NUL character or at the end.\<close>

fun boardlen_loop :: "string \<Rightarrow> nat \<Rightarrow> nat" where
  "boardlen_loop [] n = n"
| "boardlen_loop (c # s) n =
     (if char_int c = 0 then n else boardlen_loop s (if isboardchar (char_int c) then n + 1 else n))"

definition boardlen :: "string option \<Rightarrow> nat" where
  "boardlen p = (case p of None \<Rightarrow> 0 | Some s \<Rightarrow> boardlen_loop s 0)"

definition boardchar2val :: "cint \<Rightarrow> cint" where
  "boardchar2val c = (if 49 \<le>s c \<and> c \<le>s 57 then push_bit (unat (c - 49)) 1 else ALL_bits)"

definition val2boardchar :: "cint \<Rightarrow> cint" where
  "val2boardchar val = (case find (\<lambda>d. val = push_bit d 1) [0..<DIGITS] of
     Some d \<Rightarrow> 49 + word_of_nat d
   | None \<Rightarrow> 46)"

subsection \<open>Properties\<close>

lemma upt_9: "[0..<9] = [0, 1, 2, 3, 4, 5, 6, 7, 8::nat]"
  by (simp add: upt_rec)

lemma sle_range_iff:
  "49 \<le>s c \<and> c \<le>s (57 :: cint) \<longleftrightarrow> c \<in> {49, 50, 51, 52, 53, 54, 55, 56, 57}"
proof
  assume "49 \<le>s c \<and> c \<le>s (57 :: cint)"
  then have "sint c \<in> {49..57}" by (simp add: word_sle_eq)
  moreover have "{49..57::int} = {49, 50, 51, 52, 53, 54, 55, 56, 57}" by auto
  ultimately have "sint c \<in> {49, 50, 51, 52, 53, 54, 55, 56, 57}" by simp
  moreover have "c = word_of_int (sint c)" by simp
  ultimately show "c \<in> {49, 50, 51, 52, 53, 54, 55, 56, 57}" by (elim insertE) auto
qed (auto simp: word_sle_eq)

text \<open>A valid cell descriptor survives the trip through a set of digits, and so does the set of
  digits of a numeral or of a blank cell.\<close>

lemma boardchar_cases:
  assumes "isboardchar c"
  obtains "c = 46" | "c = 49" | "c = 50" | "c = 51" | "c = 52" | "c = 53" | "c = 54" | "c = 55" | "c = 56" | "c = 57"
  using assms unfolding isboardchar_def sle_range_iff by blast

lemma val2boardchar_boardchar2val: "isboardchar c \<Longrightarrow> val2boardchar (boardchar2val c) = c"
  by (erule boardchar_cases)
    (simp_all add: boardchar2val_def val2boardchar_def ALL_bits_eq sle_range_iff upt_9 word_sle_eq)

lemma val2boardchar_numeral:
  "d < 9 \<Longrightarrow> val2boardchar (push_bit d 1) = 49 + word_of_nat d"
proof -
  assume "d < 9"
  then consider "d = 0" | "d = 1" | "d = 2" | "d = 3" | "d = 4" | "d = 5" | "d = 6" | "d = 7" | "d = 8"
    by linarith
  then show ?thesis by cases (simp_all add: val2boardchar_def upt_9)
qed

lemma isboardchar_val2boardchar: "isboardchar (val2boardchar val)"
proof (cases "find (\<lambda>d. val = push_bit d 1) [0..<DIGITS]")
  case None
  then show ?thesis by (simp add: val2boardchar_def isboardchar_def)
next
  case (Some d)
  then have "d < 9" by (auto simp: find_Some_iff)
  then consider "d = 0" | "d = 1" | "d = 2" | "d = 3" | "d = 4" | "d = 5" | "d = 6" | "d = 7" | "d = 8"
    by linarith
  then show ?thesis using Some by cases (simp_all add: val2boardchar_def isboardchar_def sle_range_iff)
qed

lemma boardlen_loop_filter:
  "\<forall>c\<in>set s. char_int c \<noteq> 0 \<Longrightarrow> boardlen_loop s n = n + length (filter (\<lambda>c. isboardchar (char_int c)) s)"
  by (induction s arbitrary: n) auto

end
