(* ===== verification/Widget_Cell.thy ===== *)
theory Widget_Cell
  imports Complex_Main "HOL-Library.Signed_Division" Board_Chars
begin

text \<open>
  \<^verbatim>\<open>src/src/sudokucell.c\<close>: the widget that draws one cell.  The private instance data is a record, together
  with what the code asks GTK to keep for the widget (background colour, whether it has a window, focus,
  the events it listens to) and a count of the redraws requested.  Drawing is the list of cairo calls made, with
  coordinates as real numbers (a \<open>double\<close> without its rounding); the text metrics, which cairo
  provides, are an argument.
\<close>

datatype colour = White | Gray

record scell =
  s_row :: cint
  s_col :: cint
  s_val :: cint
  s_mode :: cint
  s_editable :: bool
  s_bg :: colour
  s_window :: bool
  s_focus :: bool
  s_can_focus :: bool
  s_redraws :: nat

text \<open>The signal emitted on the parent board: row, column, value and mode.\<close>

type_synonym board_changed = "cint \<times> cint \<times> cint \<times> cint"

definition sudoku_cell_init :: "scell \<Rightarrow> scell" where
  "sudoku_cell_init c = c\<lparr>s_val := ALL_bits, s_mode := 0, s_bg := White\<rparr>"

text \<open>\<open>g_object_new\<close> gives zeroed private data and then runs \<open>sudoku_cell_init\<close>.\<close>

definition zero_cell :: scell where
  "zero_cell = \<lparr>s_row = 0, s_col = 0, s_val = 0, s_mode = 0, s_editable = False, s_bg = White,
     s_window = False, s_focus = False, s_can_focus = False, s_redraws = 0\<rparr>"

definition sudoku_cell_new :: "cint \<Rightarrow> cint \<Rightarrow> bool \<Rightarrow> scell" where
  "sudoku_cell_new row col editable =
     (let c = (sudoku_cell_init zero_cell)\<lparr>s_row := row, s_col := col, s_editable := editable\<rparr>
      in if editable then c\<lparr>s_can_focus := True\<rparr> else c)"

text \<open>The height of the default font's layout, from pango, gives both preferred sizes.\<close>

definition sudoku_cell_size_request :: "cint \<Rightarrow> cint \<times> cint" where
  "sudoku_cell_size_request height = (3 * height, 3 * height)"

definition sudoku_cell_get_preferred_width :: "cint \<Rightarrow> cint \<times> cint" where
  "sudoku_cell_get_preferred_width height =
     (let w = fst (sudoku_cell_size_request height) in (w, w))"

definition sudoku_cell_get_preferred_height :: "cint \<Rightarrow> cint \<times> cint" where
  "sudoku_cell_get_preferred_height height =
     (let h = snd (sudoku_cell_size_request height) in (h, h))"

definition sudoku_cell_redraw_canvas :: "scell \<Rightarrow> scell" where
  "sudoku_cell_redraw_canvas c = (if \<not> s_window c then c else c\<lparr>s_redraws := s_redraws c + 1\<rparr>)"

definition sudoku_cell_set_val :: "scell \<Rightarrow> cint \<Rightarrow> cint \<Rightarrow> scell" where
  "sudoku_cell_set_val c val mode =
     (let val = val AND ALL_bits
      in if s_val c \<noteq> val \<or> s_mode c \<noteq> mode
         then sudoku_cell_redraw_canvas (c\<lparr>s_val := val, s_mode := mode\<rparr>)
         else c)"

definition sudoku_cell_get_val :: "scell \<Rightarrow> cint" where
  "sudoku_cell_get_val c = s_val c"

definition sudoku_cell_focus_in :: "scell \<Rightarrow> scell \<times> bool" where
  "sudoku_cell_focus_in c = (sudoku_cell_redraw_canvas (c\<lparr>s_bg := Gray\<rparr>), False)"

definition sudoku_cell_focus_out :: "scell \<Rightarrow> scell \<times> bool" where
  "sudoku_cell_focus_out c = (sudoku_cell_redraw_canvas (c\<lparr>s_bg := White\<rparr>), False)"

definition sudoku_cell_button_press :: "scell \<Rightarrow> scell \<times> bool" where
  "sudoku_cell_button_press c = (if s_can_focus c then c\<lparr>s_focus := True\<rparr> else c, False)"

subsection \<open>Keys\<close>

definition pressed_key :: "scell \<Rightarrow> cint \<Rightarrow> scell \<times> board_changed list \<times> bool" where
  "pressed_key c digit =
     (let digit = (if 1 \<le>s digit \<and> digit \<le>s 9 then push_bit (unat (digit - 1)) 1 else ALL_bits);
          old = s_val c;
          c = sudoku_cell_set_val c digit 0
      in (c, if digit \<noteq> old then [(s_row c, s_col c, s_val c, s_mode c)] else [], False))"

datatype keyval = GDK_KEY_1 | GDK_KEY_2 | GDK_KEY_3 | GDK_KEY_4 | GDK_KEY_5 | GDK_KEY_6 |
  GDK_KEY_7 | GDK_KEY_8 | GDK_KEY_9 | GDK_KEY_period | GDK_KEY_space | GDK_KEY_other nat

text \<open>The key bindings of GTK (\<open>gtk_bindings_activate_event\<close>) are an argument.\<close>

definition sudoku_cell_key_press ::
    "(keyval \<Rightarrow> bool) \<Rightarrow> scell \<Rightarrow> keyval \<Rightarrow> scell \<times> board_changed list \<times> bool" where
  "sudoku_cell_key_press bindings c key =
     (if s_editable c then
        (case key of
           GDK_KEY_1 \<Rightarrow> pressed_key c 1
         | GDK_KEY_2 \<Rightarrow> pressed_key c 2
         | GDK_KEY_3 \<Rightarrow> pressed_key c 3
         | GDK_KEY_4 \<Rightarrow> pressed_key c 4
         | GDK_KEY_5 \<Rightarrow> pressed_key c 5
         | GDK_KEY_6 \<Rightarrow> pressed_key c 6
         | GDK_KEY_7 \<Rightarrow> pressed_key c 7
         | GDK_KEY_8 \<Rightarrow> pressed_key c 8
         | GDK_KEY_9 \<Rightarrow> pressed_key c 9
         | GDK_KEY_period \<Rightarrow> pressed_key c 0
         | GDK_KEY_space \<Rightarrow> pressed_key c 0
         | GDK_KEY_other _ \<Rightarrow> (c, [], bindings key))
      else (c, [], bindings key))"

subsection \<open>Drawing\<close>

datatype cairo =
    cairo_set_line_width real
  | cairo_move_to real real
  | cairo_line_to real real
  | cairo_rectangle real real real real
  | cairo_stroke
  | cairo_translate real real
  | cairo_scale real real
  | cairo_set_source_rgb real real real
  | cairo_show_text string
  | cairo_arc real real real real real
  | cairo_fill

record extents =
  e_width :: real
  e_height :: real
  x_bearing :: real
  y_bearing :: real

definition DELTA :: real where "DELTA = 1 / 2"
definition OUTSIDE :: real where "OUTSIDE = 4"
definition INSIDE :: real where "INSIDE = 2"
definition OFFSET :: real where "OFFSET = 1"

text \<open>\<open>atan2(1, 1)\<close> of the C library.\<close>

definition atan2_1_1 :: real where "atan2_1_1 = arctan (1 / 1)"

definition scale_zero :: "(string \<Rightarrow> extents) \<Rightarrow> real \<Rightarrow> real \<Rightarrow> cairo list" where
  "scale_zero text_extents cell_w cell_h =
     (let zero_h = e_height (text_extents ''0'');
          sx = DELTA * cell_w / zero_h;
          sy = DELTA * cell_h / zero_h
      in [cairo_scale sx sy])"

definition draw_centered :: "(string \<Rightarrow> extents) \<Rightarrow> string \<Rightarrow> cairo list" where
  "draw_centered text_extents utf8 =
     (let ext = text_extents utf8; zero_w = e_width ext; zero_h = e_height ext
      in [cairo_move_to (- (zero_w / 2 + x_bearing ext)) (- (zero_h / 2 + y_bearing ext)),
          cairo_show_text utf8])"

text \<open>The lines needed for each cell of a 3x3 square.  \<open>row\<close> and \<open>col\<close> come from C's \<open>%\<close>, which
  truncates towards zero.\<close>

definition draw_square :: "scell \<Rightarrow> real \<Rightarrow> real \<Rightarrow> real \<Rightarrow> cairo list" where
  "draw_square c cell_w cell_h line_w =
     (let row = sint (s_row c) smod int SIDES; col = sint (s_col c) smod int SIDES
      in [cairo_set_line_width (INSIDE * line_w)] @
         (if row = 0 then
            (if col = 0 then
               [cairo_move_to 0 cell_h, cairo_line_to 0 0, cairo_line_to cell_w 0, cairo_stroke]
             else if col = 1 then
               [cairo_move_to 0 cell_h, cairo_line_to 0 0, cairo_line_to cell_w 0, cairo_line_to cell_w cell_h, cairo_stroke]
             else if col = 2 then
               [cairo_move_to 0 0, cairo_line_to cell_w 0, cairo_line_to cell_w cell_h, cairo_stroke]
             else [])
          else if row = 1 then
            (if col = 0 then
               [cairo_move_to cell_w 0, cairo_line_to 0 0, cairo_line_to 0 cell_h, cairo_line_to cell_w cell_h, cairo_stroke]
             else if col = 1 then
               [cairo_rectangle 0 0 cell_w cell_h, cairo_stroke]
             else if col = 2 then
               [cairo_move_to 0 0, cairo_line_to cell_w 0, cairo_line_to cell_w cell_h, cairo_line_to 0 cell_h, cairo_stroke]
             else [])
          else if row = 2 then
            (if col = 0 then
               [cairo_move_to 0 0, cairo_line_to 0 cell_h, cairo_line_to cell_w cell_h, cairo_stroke]
             else if col = 1 then
               [cairo_move_to 0 0, cairo_line_to 0 cell_h, cairo_line_to cell_w cell_h, cairo_line_to cell_w 0, cairo_stroke]
             else if col = 2 then
               [cairo_move_to cell_w 0, cairo_line_to cell_w cell_h, cairo_line_to 0 cell_h, cairo_stroke]
             else [])
          else []) @
         [cairo_set_line_width line_w])"

text \<open>The first \<open>switch\<close> of \<open>draw\<close>: the outer lines of the board at the top and the bottom, and the
  vertical position of the glyph.\<close>

definition draw_rows :: "scell \<Rightarrow> real \<Rightarrow> real \<Rightarrow> real \<Rightarrow> cairo list \<times> real" where
  "draw_rows c cell_w cell_h line_w =
     (let y = cell_h / 2; row = sint (s_row c)
      in if row = 0 then
           ([cairo_set_line_width (OUTSIDE * line_w), cairo_move_to 0 0, cairo_line_to cell_w 0, cairo_stroke,
             cairo_set_line_width line_w], y + OFFSET * line_w)
         else if row = 3 \<or> row = 6 then ([], y + 1 / 2 * OFFSET * line_w)
         else if row = 8 then
           ([cairo_set_line_width (OUTSIDE * line_w), cairo_move_to 0 cell_h, cairo_line_to cell_w cell_h, cairo_stroke,
             cairo_set_line_width line_w], y - OFFSET * line_w)
         else if row = 5 \<or> row = 2 then ([], y - 1 / 2 * OFFSET * line_w)
         else ([], y))"

text \<open>The second \<open>switch\<close>: the same for the columns.\<close>

definition draw_columns :: "scell \<Rightarrow> real \<Rightarrow> real \<Rightarrow> real \<Rightarrow> cairo list \<times> real" where
  "draw_columns c cell_w cell_h line_w =
     (let x = cell_w / 2; col = sint (s_col c)
      in if col = 0 then
           ([cairo_set_line_width (OUTSIDE * line_w), cairo_move_to 0 0, cairo_line_to 0 cell_h, cairo_stroke,
             cairo_set_line_width line_w], x + OFFSET * line_w)
         else if col = 3 \<or> col = 6 then ([], x + 1 / 2 * OFFSET * line_w)
         else if col = 8 then
           ([cairo_set_line_width (OUTSIDE * line_w), cairo_move_to cell_w 0, cairo_line_to cell_w cell_h, cairo_stroke,
             cairo_set_line_width line_w], x - OFFSET * line_w)
         else if col = 5 \<or> col = 2 then ([], x - 1 / 2 * OFFSET * line_w)
         else ([], x))"

text \<open>The glyph: a red question mark, a numeral, nothing, or the dot pattern.\<close>

definition draw_dots :: "real \<Rightarrow> cint \<Rightarrow> cairo list" where
  "draw_dots angle val = concat (map (\<lambda>d.
     if val AND push_bit d 1 \<noteq> 0
     then [cairo_arc (of_int (int d mod int SIDES - 1)) (of_int (int d div int SIDES - 1)) (1 / 4) 0 angle, cairo_fill]
     else []) [0..<DIGITS])"

definition draw_glyph :: "(string \<Rightarrow> extents) \<Rightarrow> scell \<Rightarrow> real \<Rightarrow> real \<Rightarrow> cairo list" where
  "draw_glyph text_extents c cell_w cell_h =
     (let val = s_val c
      in if val = 0 then
           [cairo_set_source_rgb 1 0 0] @ scale_zero text_extents cell_w cell_h @ draw_centered text_extents ''?''
         else (case (if s_mode c = 0 then find (\<lambda>d. val = push_bit d 1) [0..<DIGITS] else None) of
             Some d \<Rightarrow> scale_zero text_extents cell_w cell_h @ draw_centered text_extents [char_of (49 + d)]
           | None \<Rightarrow>
             if val = ALL_bits then []
             else [cairo_scale (cell_w / 4) (cell_h / 4)] @ draw_dots (8 * atan2_1_1) val))"

definition draw :: "(string \<Rightarrow> extents) \<Rightarrow> scell \<Rightarrow> cint \<Rightarrow> cint \<Rightarrow> real \<Rightarrow> cairo list" where
  "draw text_extents c width height line_w =
     (let cell_w = of_int (sint width); cell_h = of_int (sint height)
      in case draw_rows c cell_w cell_h line_w of (lines_r, y) \<Rightarrow>
         (case draw_columns c cell_w cell_h line_w of (lines_c, x) \<Rightarrow>
           lines_r @ lines_c @ draw_square c cell_w cell_h line_w @ [cairo_translate x y] @
           draw_glyph text_extents c cell_w cell_h))"

definition sudoku_cell_draw :: "(string \<Rightarrow> extents) \<Rightarrow> scell \<Rightarrow> cint \<Rightarrow> cint \<Rightarrow> real \<Rightarrow> cairo list \<times> bool" where
  "sudoku_cell_draw text_extents c width height line_w =
     (draw text_extents c width height line_w, False)"

subsection \<open>Values and signals\<close>

lemma redraw_canvas_fields [simp]:
  "s_row (sudoku_cell_redraw_canvas c) = s_row c" "s_col (sudoku_cell_redraw_canvas c) = s_col c"
  "s_val (sudoku_cell_redraw_canvas c) = s_val c" "s_mode (sudoku_cell_redraw_canvas c) = s_mode c"
  "s_editable (sudoku_cell_redraw_canvas c) = s_editable c" "s_window (sudoku_cell_redraw_canvas c) = s_window c"
  "s_can_focus (sudoku_cell_redraw_canvas c) = s_can_focus c"
  by (simp_all add: sudoku_cell_redraw_canvas_def)

lemma set_val_fields [simp]:
  "s_row (sudoku_cell_set_val c v m) = s_row c" "s_col (sudoku_cell_set_val c v m) = s_col c"
  "s_editable (sudoku_cell_set_val c v m) = s_editable c" "s_window (sudoku_cell_set_val c v m) = s_window c"
  "s_val (sudoku_cell_set_val c v m) = v AND ALL_bits" "s_mode (sudoku_cell_set_val c v m) = m"
  by (simp_all add: sudoku_cell_set_val_def Let_def)

lemma set_val_redraws:
  "s_redraws (sudoku_cell_set_val c v m) =
     s_redraws c + (if s_window c \<and> (s_val c \<noteq> v AND ALL_bits \<or> s_mode c \<noteq> m) then 1 else 0)"
  by (simp add: sudoku_cell_set_val_def sudoku_cell_redraw_canvas_def Let_def)

lemma ALL_bits_mask: "ALL_bits = mask 9"
  by (simp add: ALL_bits_def mask_eq_exp_minus_1)

lemma and_ALL_bits [simp]: "(v AND ALL_bits) AND ALL_bits = v AND ALL_bits"
  by (simp add: and.assoc)

lemma bit_and_ALL [simp]: "d < 9 \<Longrightarrow> push_bit d 1 AND ALL_bits = (push_bit d 1 :: cint)"
  by (rule bit_eqI) (auto simp: ALL_bits_mask bit_simps)

lemma push_bit_1_neq: "d < 9 \<Longrightarrow> push_bit d (1 :: cint) \<noteq> 0" "d < 9 \<Longrightarrow> push_bit d (1 :: cint) \<noteq> ALL_bits"
proof -
  assume "d < 9"
  then have bit: "bit (push_bit d (1 :: cint)) e \<longleftrightarrow> e = d" for e by (auto simp: bit_simps)
  show "push_bit d (1 :: cint) \<noteq> 0" using bit [of d] by (metis bit_0_eq bot_apply bot_bool_def)
  have "bit ALL_bits 0" "bit ALL_bits (Suc 0)" by (simp_all add: ALL_bits_mask bit_simps)
  with bit [of 0] bit [of "Suc 0"] show "push_bit d (1 :: cint) \<noteq> ALL_bits" by (metis n_not_Suc_n)
qed

lemma push_bit_1_inj: "d < 9 \<Longrightarrow> push_bit d (1 :: cint) = push_bit e 1 \<longleftrightarrow> d = e"
proof
  assume d: "d < 9" and eq: "push_bit d (1 :: cint) = push_bit e 1"
  from d have "bit (push_bit d (1 :: cint)) d" by (simp add: bit_simps)
  with eq show "d = e" by (auto simp: bit_simps)
qed simp

lemma pow2_inj: "d < 9 \<Longrightarrow> (2 :: cint) ^ d = 2 ^ e \<longleftrightarrow> d = e"
  using push_bit_1_inj [of d e] by simp

lemma find_push_bit:
  "d < 9 \<Longrightarrow> find (\<lambda>e. push_bit d (1 :: cint) = push_bit e 1) [0..<DIGITS] = Some d"
  unfolding find_Some_iff by (rule exI [of _ d]) (auto simp: pow2_inj)

text \<open>The set of digits a key stands for.\<close>

definition key_digits :: "keyval \<Rightarrow> cint option" where
  "key_digits key = (case key of
     GDK_KEY_1 \<Rightarrow> Some 1 | GDK_KEY_2 \<Rightarrow> Some 2 | GDK_KEY_3 \<Rightarrow> Some 4 | GDK_KEY_4 \<Rightarrow> Some 8
   | GDK_KEY_5 \<Rightarrow> Some 16 | GDK_KEY_6 \<Rightarrow> Some 32 | GDK_KEY_7 \<Rightarrow> Some 64 | GDK_KEY_8 \<Rightarrow> Some 128
   | GDK_KEY_9 \<Rightarrow> Some 256 | GDK_KEY_period \<Rightarrow> Some 511 | GDK_KEY_space \<Rightarrow> Some 511 | GDK_KEY_other _ \<Rightarrow> None)"

lemma key_press_editable:
  assumes "s_editable c"
  shows "sudoku_cell_key_press bindings c key = (case key_digits key of
     None \<Rightarrow> (c, [], bindings key)
   | Some v \<Rightarrow> (sudoku_cell_set_val c v 0, if s_val c \<noteq> v then [(s_row c, s_col c, v, 0)] else [], False))"
  using assms
  by (cases key)
    (auto simp: sudoku_cell_key_press_def key_digits_def pressed_key_def ALL_bits_eq Let_def word_sle_eq)

subsection \<open>Lines\<close>

text \<open>What a sequence of cairo calls strokes: the line segments (as pairs of points without
  direction), each with the line width in force, from the current width, point and path.\<close>

type_synonym segment = "(real \<times> real) set"

fun strokes :: "real \<Rightarrow> real \<times> real \<Rightarrow> segment list \<Rightarrow> cairo list \<Rightarrow> (real \<times> segment) list" where
  "strokes w p path [] = []"
| "strokes w p path (cairo_set_line_width w' # cs) = strokes w' p path cs"
| "strokes w p path (cairo_move_to x y # cs) = strokes w (x, y) path cs"
| "strokes w p path (cairo_line_to x y # cs) = strokes w (x, y) (path @ [{p, (x, y)}]) cs"
| "strokes w p path (cairo_rectangle x y dx dy # cs) =
     strokes w (x, y) (path @ [{(x, y), (x + dx, y)}, {(x + dx, y), (x + dx, y + dy)},
       {(x + dx, y + dy), (x, y + dy)}, {(x, y + dy), (x, y)}]) cs"
| "strokes w p path (cairo_stroke # cs) = map (Pair w) path @ strokes w p [] cs"
| "strokes w p path (cairo_fill # cs) = strokes w p [] cs"
| "strokes w p path (_ # cs) = strokes w p path cs"

text \<open>The four sides of a cell.\<close>

definition top_side :: "real \<Rightarrow> real \<Rightarrow> segment" where "top_side w h = {(0, 0), (w, 0)}"
definition bottom_side :: "real \<Rightarrow> real \<Rightarrow> segment" where "bottom_side w h = {(0, h), (w, h)}"
definition left_side :: "real \<Rightarrow> real \<Rightarrow> segment" where "left_side w h = {(0, 0), (0, h)}"
definition right_side :: "real \<Rightarrow> real \<Rightarrow> segment" where "right_side w h = {(w, 0), (w, h)}"

lemmas side_defs = top_side_def bottom_side_def left_side_def right_side_def

text \<open>Which sides of a cell are lines between the cells of a square (a line inside a square is left
  to the middle cell), and which are the border of the board.\<close>

definition inner_sides :: "int \<Rightarrow> int \<Rightarrow> real \<Rightarrow> real \<Rightarrow> segment set" where
  "inner_sides row col w h =
     (if row mod 3 \<noteq> 2 then {top_side w h} else {}) \<union> (if row mod 3 \<noteq> 0 then {bottom_side w h} else {}) \<union>
     (if col mod 3 \<noteq> 2 then {left_side w h} else {}) \<union> (if col mod 3 \<noteq> 0 then {right_side w h} else {})"

definition border_sides :: "int \<Rightarrow> int \<Rightarrow> real \<Rightarrow> real \<Rightarrow> segment set" where
  "border_sides row col w h =
     (if row = 0 then {top_side w h} else {}) \<union> (if row = 8 then {bottom_side w h} else {}) \<union>
     (if col = 0 then {left_side w h} else {}) \<union> (if col = 8 then {right_side w h} else {})"

lemma smod_3: "0 \<le> r \<Longrightarrow> r smod 3 = r mod (3 :: int)"
  by (simp add: signed_modulo_int_def sgn_if)

lemma mod_3_cases: "(r :: int) mod 3 = 0 \<or> r mod 3 = 1 \<or> r mod 3 = 2"
  by presburger

lemma strokes_square:
  assumes "0 \<le> sint (s_row c)" "0 \<le> sint (s_col c)" and "\<And>p. strokes lw p [] cs = []"
  shows "set (strokes lw p [] (draw_square c w h lw @ cs)) =
    Pair (INSIDE * lw) ` inner_sides (sint (s_row c)) (sint (s_col c)) w h"
  using mod_3_cases [of "sint (s_row c)"] mod_3_cases [of "sint (s_col c)"]
  by (elim disjE)
    (simp_all add: draw_square_def smod_3 assms inner_sides_def side_defs Let_def insert_commute)

lemma strokes_dots: "strokes w p path (draw_dots a v @ cs) = strokes w p (if draw_dots a v = [] then path else []) cs"
proof -
  have "strokes w p path (concat (map (\<lambda>d. if P d then [cairo_arc (x d) (y d) r a b, cairo_fill] else []) ds) @ cs) =
      strokes w p (if concat (map (\<lambda>d. if P d then [cairo_arc (x d) (y d) r a b, cairo_fill] else []) ds) = []
        then path else []) cs"
    for P :: "nat \<Rightarrow> bool" and x y r a b ds by (induction ds arbitrary: path) auto
  then show ?thesis unfolding draw_dots_def .
qed

lemma strokes_glyph: "strokes w p [] (draw_glyph te c cw ch) = []"
  using strokes_dots [of w p "[]" "8 * atan2_1_1" "s_val c" "[]"]
  by (auto simp: draw_glyph_def scale_zero_def draw_centered_def Let_def split: option.split)

lemma strokes_rows:
  "draw_rows c w h lw = (ls, y) \<Longrightarrow>
    \<exists>p'. strokes lw p [] (ls @ cs) =
      (if sint (s_row c) = 0 then [(OUTSIDE * lw, top_side w h)] else []) @
      (if sint (s_row c) = 8 then [(OUTSIDE * lw, bottom_side w h)] else []) @ strokes lw p' [] cs"
  by (auto simp: draw_rows_def side_defs Let_def simp del: split_paired_Ex split: if_splits)

lemma strokes_columns:
  "draw_columns c w h lw = (ls, x) \<Longrightarrow>
    \<exists>p'. strokes lw p [] (ls @ cs) =
      (if sint (s_col c) = 0 then [(OUTSIDE * lw, left_side w h)] else []) @
      (if sint (s_col c) = 8 then [(OUTSIDE * lw, right_side w h)] else []) @ strokes lw p' [] cs"
  by (auto simp: draw_columns_def side_defs Let_def simp del: split_paired_Ex split: if_splits)

lemma strokes_draw:
  fixes width height :: cint
  assumes "0 \<le> sint (s_row c)" "0 \<le> sint (s_col c)"
  defines "w \<equiv> of_int (sint width)" and "h \<equiv> of_int (sint height)"
  shows "set (strokes lw p [] (draw te c width height lw)) =
    Pair (OUTSIDE * lw) ` border_sides (sint (s_row c)) (sint (s_col c)) w h \<union>
    Pair (INSIDE * lw) ` inner_sides (sint (s_row c)) (sint (s_col c)) w h"
proof -
  obtain ls y where r: "draw_rows c w h lw = (ls, y)" by (cases "draw_rows c w h lw")
  obtain ls' x where k: "draw_columns c w h lw = (ls', x)" by (cases "draw_columns c w h lw")
  let ?rest = "draw_square c w h lw @ [cairo_translate x y] @ draw_glyph te c w h"
  from strokes_rows [OF r] obtain p' where p': "strokes lw p [] (ls @ ls' @ ?rest) =
      (if sint (s_row c) = 0 then [(OUTSIDE * lw, top_side w h)] else []) @
      (if sint (s_row c) = 8 then [(OUTSIDE * lw, bottom_side w h)] else []) @ strokes lw p' [] (ls' @ ?rest)"
    by blast
  from strokes_columns [OF k] obtain q where q: "strokes lw p' [] (ls' @ ?rest) =
      (if sint (s_col c) = 0 then [(OUTSIDE * lw, left_side w h)] else []) @
      (if sint (s_col c) = 8 then [(OUTSIDE * lw, right_side w h)] else []) @ strokes lw q [] ?rest"
    by blast
  have "set (strokes lw q [] ?rest) = Pair (INSIDE * lw) ` inner_sides (sint (s_row c)) (sint (s_col c)) w h"
    by (rule strokes_square) (simp_all add: assms(1,2) strokes_glyph)
  with p' q show ?thesis
    unfolding draw_def Let_def w_def [symmetric] h_def [symmetric] r k prod.case border_sides_def by auto
qed

subsection \<open>Glyphs\<close>

text \<open>The texts shown and the centres of the dots drawn, after the translation to the centre.\<close>

fun texts :: "cairo list \<Rightarrow> string list" where
  "texts [] = []"
| "texts (cairo_show_text s # cs) = s # texts cs"
| "texts (_ # cs) = texts cs"

fun dots :: "cairo list \<Rightarrow> (real \<times> real) list" where
  "dots [] = []"
| "dots (cairo_arc x y r a b # cs) = (x, y) # dots cs"
| "dots (_ # cs) = dots cs"

lemma texts_append [simp]: "texts (xs @ ys) = texts xs @ texts ys"
  by (induction xs rule: texts.induct) auto

lemma dots_append [simp]: "dots (xs @ ys) = dots xs @ dots ys"
  by (induction xs rule: dots.induct) auto

text \<open>The place of a digit in the dot pattern: the digits fill the 3x3 pattern row by row.\<close>

definition dot_place :: "nat \<Rightarrow> real \<times> real" where
  "dot_place d = (of_int (int ((d - 1) mod 3) - 1), of_int (int ((d - 1) div 3) - 1))"

lemma draw_dots_dots: "dots (draw_dots a v) = map (\<lambda>d. dot_place (Suc d)) (filter (bit v) [0..<9])"
proof -
  have nz: "v AND push_bit d 1 \<noteq> 0 \<longleftrightarrow> bit v d" for d
    by (simp add: and_exp_eq_0_iff_not_bit push_bit_eq_mult)
  have "dots (concat (map (\<lambda>d. if bit v d then [cairo_arc (x d) (y d) r s t, cairo_fill] else []) ds)) =
      map (\<lambda>d. (x d, y d)) (filter (bit v) ds)" for x y r s t ds by (induction ds) auto
  then show ?thesis unfolding draw_dots_def nz dot_place_def by (simp add: zmod_int zdiv_int)
qed

lemma draw_dots_texts: "texts (draw_dots a v) = []"
proof -
  have "texts (concat (map (\<lambda>d. if P d then [cairo_arc (x d) (y d) r s t, cairo_fill] else []) ds)) = []"
    for P :: "nat \<Rightarrow> bool" and x y r s t ds by (induction ds) auto
  then show ?thesis unfolding draw_dots_def .
qed

lemma find_None_push_bit:
  "find (\<lambda>d. v = push_bit d (1 :: cint)) [0..<DIGITS] = None \<longleftrightarrow> (\<forall>d<9. v \<noteq> push_bit d 1)"
  by (auto simp: find_None_iff)

lemma glyph_numeral:
  assumes "s_val c = push_bit d 1" "d < 9" "s_mode c = 0"
  shows "draw_glyph te c w h = scale_zero te w h @ draw_centered te [char_of (49 + d)]"
  using assms find_push_bit [OF assms(2)] push_bit_1_neq [OF assms(2)] by (simp add: draw_glyph_def Let_def)

lemma glyph_dots:
  assumes "s_val c \<noteq> 0" "s_val c \<noteq> ALL_bits" "s_mode c \<noteq> 0 \<or> (\<forall>d<9. s_val c \<noteq> push_bit d 1)"
  shows "draw_glyph te c w h = cairo_scale (w / 4) (h / 4) # draw_dots (8 * atan2_1_1) (s_val c)"
proof -
  have "(if s_mode c = 0 then find (\<lambda>d. s_val c = push_bit d 1) [0..<DIGITS] else None) = None"
    using assms(3) find_None_push_bit [of "s_val c"] by auto
  then show ?thesis using assms(1,2) unfolding draw_glyph_def Let_def by simp
qed

lemma glyph_blank: "s_val c = ALL_bits \<Longrightarrow> draw_glyph te c w h = []"
proof -
  assume v: "s_val c = ALL_bits"
  have "(if s_mode c = 0 then find (\<lambda>d. s_val c = push_bit d 1) [0..<DIGITS] else None) = None"
    using v push_bit_1_neq(2) find_None_push_bit [of "s_val c"] by force
  then show ?thesis using v unfolding draw_glyph_def Let_def by (simp add: ALL_bits_eq)
qed

lemma draw_texts_dots:
  "texts (draw te c width height lw) = texts (draw_glyph te c (of_int (sint width)) (of_int (sint height)))"
  "dots (draw te c width height lw) = dots (draw_glyph te c (of_int (sint width)) (of_int (sint height)))"
  by (simp_all add: draw_def draw_rows_def draw_columns_def draw_square_def Let_def)

lemma full_circle: "8 * atan2_1_1 = 2 * pi"
  by (simp add: atan2_1_1_def arctan_one)

subsection \<open>Claims\<close>

text \<open>C40: Key presses.  In an editable cell a digit key, period or space sets the value to the digits the key
  stands for, in numeral mode, and signals the change to the board exactly when the value changed; every other key, and every
  key in a cell that is not editable, changes nothing and is left to the key bindings.\<close>

theorem key_press_effect:
  "sudoku_cell_key_press bindings c key = (c', signals, handled) \<Longrightarrow>
    (case (if s_editable c then key_digits key else None) of
       None \<Rightarrow> c' = c \<and> signals = [] \<and> handled = bindings key
     | Some v \<Rightarrow> s_val c' = v \<and> s_mode c' = 0 \<and> s_row c' = s_row c \<and> s_col c' = s_col c \<and> \<not> handled \<and>
         signals = (if v = s_val c then [] else [(s_row c, s_col c, v, 0)]))"
proof (cases "s_editable c")
  case True
  have masked: "v AND ALL_bits = v" if "key_digits key = Some v" for v
    using that by (cases key) (auto simp: key_digits_def ALL_bits_eq)
  assume "sudoku_cell_key_press bindings c key = (c', signals, handled)"
  then show ?thesis using True masked unfolding key_press_editable [OF True]
    by (auto split: option.splits if_splits)
qed (simp add: sudoku_cell_key_press_def)

theorem key_press_effect_witness:
  "s_val (fst (sudoku_cell_key_press (\<lambda>_. False) (sudoku_cell_new 3 4 True) GDK_KEY_5)) = 16"
proof -
  obtain c' signals handled where e: "sudoku_cell_key_press (\<lambda>_. False) (sudoku_cell_new 3 4 True) GDK_KEY_5 = (c', signals, handled)"
    by (metis surj_pair)
  from key_press_effect [OF this] show ?thesis unfolding e
    by (simp add: key_digits_def sudoku_cell_new_def Let_def)
qed

text \<open>Lines.  A cell strokes, at double width, its top side unless it is in the last row of its square, its bottom side
  unless it is in the first, and likewise its left and right sides: so a line inside a square is stroked by one of the two
  cells it separates, and a line between squares by both.  At four times the width it strokes exactly its sides on the border of
  the board.\<close>

theorem draw_lines:
  fixes width height :: cint
  assumes "0 \<le> sint (s_row c)" "0 \<le> sint (s_col c)"
  shows "set (strokes lw p [] (draw te c width height lw)) =
    Pair (OUTSIDE * lw) ` border_sides (sint (s_row c)) (sint (s_col c)) (of_int (sint width)) (of_int (sint height)) \<union>
    Pair (INSIDE * lw) ` inner_sides (sint (s_row c)) (sint (s_col c)) (of_int (sint width)) (of_int (sint height))"
  by (rule strokes_draw [OF assms])

theorem draw_lines_witness:
  "set (strokes 2 (0, 0) [] (draw (\<lambda>_. \<lparr>e_width = 1, e_height = 1, x_bearing = 0, y_bearing = 0\<rparr>) (zero_cell\<lparr>s_row := 8, s_col := 4\<rparr>) 30 30 2)) =
    {(8, bottom_side 30 30), (4, bottom_side 30 30), (4, left_side 30 30), (4, right_side 30 30)}"
  by (subst draw_lines)
    (auto simp: zero_cell_def border_sides_def inner_sides_def OUTSIDE_def INSIDE_def)

end
