(* ===== verification/Widget_Board.thy ===== *)
theory Widget_Board
  imports Widget_Cell
begin

text \<open>
  \<^verbatim>\<open>src/src/sudokuboard.c\<close>: the board widget, a 9x9 table of cell widgets.  A value of \<open>sboard\<close> is the private
  array \<open>board[DIGITS][DIGITS]\<close>, with the attachments made in the GTK table.  The guards
  \<open>g_return_if_fail\<close> and \<open>g_return_val_if_fail\<close> are branches.  The locale \<open>cell_store\<close> is what the clients of the widget rely on:
  a value stored in a cell is read back, normalised, and the other cells keep theirs.
\<close>

record sboard =
  sb_cells :: "scell list list"
  sb_attached :: "(nat \<times> nat \<times> nat \<times> nat) list"

definition sb_cell :: "sboard \<Rightarrow> nat \<Rightarrow> nat \<Rightarrow> scell" where
  "sb_cell b row col = sb_cells b ! row ! col"

definition in_board :: "cint \<Rightarrow> bool" where
  "in_board i = (0 \<le> sint i \<and> sint i < int DIGITS)"

definition sb_update :: "sboard \<Rightarrow> nat \<Rightarrow> nat \<Rightarrow> scell \<Rightarrow> sboard" where
  "sb_update b row col c = b\<lparr>sb_cells := (sb_cells b)[row := (sb_cells b ! row)[col := c]]\<rparr>"

definition sudoku_board_set_val :: "sboard \<Rightarrow> cint \<Rightarrow> cint \<Rightarrow> cint \<Rightarrow> cint \<Rightarrow> sboard" where
  "sudoku_board_set_val b row col val mode =
     (if \<not> in_board row then b
      else if \<not> in_board col then b
      else sb_update b (unat row) (unat col) (sudoku_cell_set_val (sb_cell b (unat row) (unat col)) val mode))"

definition sudoku_board_get_val :: "sboard \<Rightarrow> cint \<Rightarrow> cint \<Rightarrow> cint" where
  "sudoku_board_get_val b row col =
     (if \<not> in_board row then -1
      else if \<not> in_board col then -1
      else sudoku_cell_get_val (sb_cell b (unat row) (unat col)))"

definition sudoku_board_new :: "bool \<Rightarrow> sboard" where
  "sudoku_board_new editable =
     \<lparr>sb_cells = map (\<lambda>row. map (\<lambda>col. sudoku_cell_new (of_nat row) (of_nat col) editable) [0..<DIGITS]) [0..<DIGITS],
      sb_attached = concat (map (\<lambda>row. map (\<lambda>col. (col, col + 1, row, row + 1)) [0..<DIGITS]) [0..<DIGITS])\<rparr>"

text \<open>A key press delivered by GTK to the cell that has the focus.\<close>

definition sudoku_board_key :: "(keyval \<Rightarrow> bool) \<Rightarrow> nat \<Rightarrow> nat \<Rightarrow> keyval \<Rightarrow> sboard \<Rightarrow> sboard \<times> board_changed list" where
  "sudoku_board_key bindings row col key b =
     (case sudoku_cell_key_press bindings (sb_cell b row col) key of
        (c, signals, _) \<Rightarrow> (sb_update b row col c, signals))"

subsection \<open>Invariant\<close>

definition sboard_wf :: "bool \<Rightarrow> sboard \<Rightarrow> bool" where
  "sboard_wf editable b \<longleftrightarrow> length (sb_cells b) = 9 \<and> (\<forall>cs\<in>set (sb_cells b). length cs = 9) \<and>
     (\<forall>row<9. \<forall>col<9. s_row (sb_cell b row col) = of_nat row \<and> s_col (sb_cell b row col) = of_nat col \<and>
        s_editable (sb_cell b row col) = editable \<and>
        s_val (sb_cell b row col) AND ALL_bits = s_val (sb_cell b row col))"

lemma sboard_wf_cell:
  assumes "sboard_wf e b" "row < 9" "col < 9"
  shows "s_row (sb_cell b row col) = of_nat row" "s_col (sb_cell b row col) = of_nat col"
    "s_editable (sb_cell b row col) = e" "s_val (sb_cell b row col) AND ALL_bits = s_val (sb_cell b row col)"
  using assms unfolding sboard_wf_def by blast+

lemma sb_cell_update:
  assumes "sboard_wf e b" "row < 9" "col < 9" "row' < 9" "col' < 9"
  shows "sb_cell (sb_update b row col c) row' col' = (if row' = row \<and> col' = col then c else sb_cell b row' col')"
proof -
  have "length (sb_cells b) = 9" "length (sb_cells b ! row) = 9" using assms by (auto simp: sboard_wf_def)
  then show ?thesis using assms(2-) by (auto simp: sb_cell_def sb_update_def nth_list_update)
qed

lemma sboard_wf_update:
  assumes wf: "sboard_wf e b" and rc: "row < 9" "col < 9"
    and c: "s_row c = of_nat row" "s_col c = of_nat col" "s_editable c = e" "s_val c AND ALL_bits = s_val c"
  shows "sboard_wf e (sb_update b row col c)"
proof -
  have len: "length (sb_cells b) = 9" "length (sb_cells b ! row) = 9" "\<forall>cs\<in>set (sb_cells b). length cs = 9"
    using wf rc by (auto simp: sboard_wf_def)
  then have "length (sb_cells (sb_update b row col c)) = 9"
      "\<forall>cs\<in>set (sb_cells (sb_update b row col c)). length cs = 9"
    using set_update_subset_insert by (fastforce simp: sb_update_def)+
  moreover have "s_row (sb_cell (sb_update b row col c) r k) = of_nat r \<and>
      s_col (sb_cell (sb_update b row col c) r k) = of_nat k \<and> s_editable (sb_cell (sb_update b row col c) r k) = e \<and>
      s_val (sb_cell (sb_update b row col c) r k) AND ALL_bits = s_val (sb_cell (sb_update b row col c) r k)"
    if "r < 9" "k < 9" for r k
    using that sb_cell_update [OF wf rc that] c sboard_wf_cell [OF wf that] by auto
  ultimately show ?thesis unfolding sboard_wf_def by blast
qed

lemma cell_new_fields [simp]:
  "s_row (sudoku_cell_new r k e) = r" "s_col (sudoku_cell_new r k e) = k" "s_editable (sudoku_cell_new r k e) = e"
  "s_val (sudoku_cell_new r k e) = ALL_bits" "s_mode (sudoku_cell_new r k e) = 0"
  "s_can_focus (sudoku_cell_new r k e) = e"
  by (simp_all add: sudoku_cell_new_def sudoku_cell_init_def zero_cell_def Let_def)

lemma sb_cell_new: "row < 9 \<Longrightarrow> col < 9 \<Longrightarrow>
    sb_cell (sudoku_board_new e) row col = sudoku_cell_new (of_nat row) (of_nat col) e"
  by (simp add: sb_cell_def sudoku_board_new_def)

lemma sboard_wf_new: "sboard_wf e (sudoku_board_new e)"
  unfolding sboard_wf_def by (auto simp: sb_cell_new) (auto simp: sudoku_board_new_def)

lemma in_board_of_nat: "n < 9 \<Longrightarrow> in_board (of_nat n) \<and> unat (of_nat n :: cint) = n"
  by (simp add: in_board_def unat_of_nat)

lemma in_board_unat: "in_board i \<Longrightarrow> unat i < 9 \<and> i = of_nat (unat i)"
  using cint_nonneg [of i] by (simp add: in_board_def nat_less_iff)

lemma set_val_wf: "sboard_wf e b \<Longrightarrow> sboard_wf e (sudoku_board_set_val b row col val mode)"
  unfolding sudoku_board_set_val_def
  by (auto intro!: sboard_wf_update dest!: in_board_unat simp: sboard_wf_cell)

lemma board_key_wf:
  assumes "sboard_wf True b" "row < 9" "col < 9"
  shows "sboard_wf True (fst (sudoku_board_key bindings row col key b))"
  using assms sboard_wf_cell [OF assms]
  by (auto simp: sudoku_board_key_def key_press_editable split: option.split intro!: sboard_wf_update)

subsection \<open>The widget as a store of cell values\<close>

locale cell_store =
  fixes put :: "nat \<Rightarrow> nat \<Rightarrow> 'v \<Rightarrow> 's \<Rightarrow> 's"
    and get :: "nat \<Rightarrow> nat \<Rightarrow> 's \<Rightarrow> 'v"
    and norm :: "'v \<Rightarrow> 'v"
    and ok :: "'s \<Rightarrow> bool"
  assumes ok_put: "ok s \<Longrightarrow> ok (put r c v s)"
    and get_put: "ok s \<Longrightarrow> r < 9 \<Longrightarrow> c < 9 \<Longrightarrow> r' < 9 \<Longrightarrow> c' < 9 \<Longrightarrow>
      get r' c' (put r c v s) = (if r' = r \<and> c' = c then norm v else get r' c' s)"
begin

definition put_all :: "((nat \<times> nat) \<times> 'v) list \<Rightarrow> 's \<Rightarrow> 's" where
  "put_all = fold (\<lambda>((r, c), v). put r c v)"

lemma ok_put_all: "ok s \<Longrightarrow> ok (put_all calls s)"
  by (induction calls arbitrary: s) (auto simp: put_all_def ok_put)

lemma get_put_all:
  assumes "ok s" "distinct (map fst calls)" "\<forall>((r, c), v)\<in>set calls. r < 9 \<and> c < 9" "r < 9" "c < 9"
  shows "get r c (put_all calls s) =
    (case map_of calls (r, c) of Some v \<Rightarrow> norm v | None \<Rightarrow> get r c s)"
  using assms
proof (induction calls arbitrary: s)
  case Nil
  then show ?case by (simp add: put_all_def)
next
  case (Cons call calls)
  obtain r' c' v where call: "call = ((r', c'), v)" by (metis surj_pair)
  with Cons.prems have "get r c (put_all calls (put r' c' v s)) =
      (case map_of calls (r, c) of Some v \<Rightarrow> norm v | None \<Rightarrow> get r c (put r' c' v s))"
    by (intro Cons.IH ok_put) auto
  moreover from call Cons.prems(2) have "map_of calls (r', c') = None"
    by (auto simp: map_of_eq_None_iff)
  ultimately show ?case using call Cons.prems by (auto simp: put_all_def get_put split: option.split)
qed

end

definition put_widget :: "nat \<Rightarrow> nat \<Rightarrow> cint \<times> cint \<Rightarrow> sboard \<Rightarrow> sboard" where
  "put_widget row col v b = sudoku_board_set_val b (of_nat row) (of_nat col) (fst v) (snd v)"

definition get_widget :: "nat \<Rightarrow> nat \<Rightarrow> sboard \<Rightarrow> cint \<times> cint" where
  "get_widget row col b = (s_val (sb_cell b row col), s_mode (sb_cell b row col))"

interpretation widget: cell_store put_widget get_widget "\<lambda>v. (fst v AND ALL_bits, snd v)" "sboard_wf e"
proof (unfold_locales, goal_cases put other)
  case put
  then show ?case by (simp add: put_widget_def set_val_wf)
next
  case other
  then show ?case
    by (auto simp: put_widget_def get_widget_def in_board_of_nat sudoku_board_set_val_def sb_cell_update)
qed

lemma board_get_val: "r < 9 \<Longrightarrow> c < 9 \<Longrightarrow> sudoku_board_get_val b (of_nat r) (of_nat c) = fst (get_widget r c b)"
  by (simp add: sudoku_board_get_val_def sudoku_cell_get_val_def get_widget_def in_board_of_nat)

lemma board_key:
  assumes "sboard_wf True b" "row < 9" "col < 9"
  shows "sudoku_board_key bindings row col key b = (case key_digits key of
     None \<Rightarrow> (b, [])
   | Some v \<Rightarrow> (put_widget row col (v, 0) b,
                if fst (get_widget row col b) \<noteq> v then [(of_nat row, of_nat col, v, 0)] else []))"
proof -
  have "sb_update b row col (sb_cell b row col) = b" by (simp add: sb_update_def sb_cell_def)
  then show ?thesis
    using assms sboard_wf_cell [OF assms]
    by (auto simp: sudoku_board_key_def key_press_editable put_widget_def get_widget_def sudoku_board_set_val_def
        in_board_of_nat split: option.split)
qed

end
