(* ===== verification/Widget_Edit.thy ===== *)
theory Widget_Edit
  imports Widget_Board
begin

text \<open>
  \<^verbatim>\<open>src/src/sudokuedit.c\<close>: the editor dialog.  \<open>gtk_dialog_run\<close> lets the user press keys in cells before choosing a
  button; the key presses and the choice are arguments.  Allocation succeeds.
\<close>

text \<open>The loop of \<open>sudoku_dialog_set\<close>: \<open>board\<close> advances by one for every cell.\<close>

definition board_head :: "string \<Rightarrow> cint" where
  "board_head board = (case board of [] \<Rightarrow> 0 | c # _ \<Rightarrow> char_int c)"

fun dialog_loop :: "(nat \<times> nat) list \<Rightarrow> string \<Rightarrow> sboard \<Rightarrow> sboard" where
  "dialog_loop [] board widget = widget"
| "dialog_loop ((row, col) # rcs) board widget =
     dialog_loop rcs (tl board)
       (if isboardchar (board_head board)
        then sudoku_board_set_val widget (of_nat row) (of_nat col) (boardchar2val (board_head board)) 0
        else widget)"

definition all_cells :: "(nat \<times> nat) list" where
  "all_cells = concat (map (\<lambda>row. map (\<lambda>col. (row, col)) [0..<DIGITS]) [0..<DIGITS])"

definition sudoku_dialog_set :: "sboard \<Rightarrow> string option \<Rightarrow> sboard" where
  "sudoku_dialog_set widget board =
     (if boardlen board \<noteq> DIGITS * DIGITS then widget
      else (case board of Some s \<Rightarrow> dialog_loop all_cells s widget | None \<Rightarrow> widget))"

text \<open>The \<open>char\<close> stored for an \<open>int\<close>.\<close>

definition int_char :: "cint \<Rightarrow> char" where
  "int_char c = char_of (unat c)"

definition dialog_read :: "sboard \<Rightarrow> string" where
  "dialog_read grid =
     map (\<lambda>(row, col). int_char (val2boardchar (sudoku_board_get_val grid (of_nat row) (of_nat col)))) all_cells"

datatype response = GTK_RESPONSE_APPLY | GTK_RESPONSE_CANCEL

definition dialog_run ::
    "(keyval \<Rightarrow> bool) \<Rightarrow> (nat \<times> nat \<times> keyval) list \<Rightarrow> sboard \<Rightarrow> sboard" where
  "dialog_run bindings keys = fold (\<lambda>(row, col, key) b. fst (sudoku_board_key bindings row col key b)) keys"

definition sudoku_edit_dialog ::
    "(keyval \<Rightarrow> bool) \<Rightarrow> (nat \<times> nat \<times> keyval) list \<Rightarrow> response \<Rightarrow> string option \<Rightarrow> string option" where
  "sudoku_edit_dialog bindings keys response board =
     (let grid = sudoku_dialog_set (sudoku_board_new True) board;
          grid = dialog_run bindings keys grid
      in if response = GTK_RESPONSE_APPLY then Some (dialog_read grid) else None)"

subsection \<open>The dialog as an editor of text\<close>

lemma length_all_cells [simp]: "length all_cells = 81"
  by (simp add: all_cells_def upt_9)

lemma all_cells_eq: "all_cells = map (\<lambda>i. (i div 9, i mod 9)) [0..<81]"
  by (simp add: all_cells_def upt_9 upt_rec)

lemma nth_all_cells: "i < 81 \<Longrightarrow> all_cells ! i = (i div 9, i mod 9)"
  unfolding all_cells_eq by (subst nth_map) simp_all

lemma distinct_all_cells [simp]: "distinct all_cells"
  by (simp add: all_cells_def upt_9)

lemma all_cells_range: "(r, c) \<in> set all_cells \<longleftrightarrow> r < 9 \<and> c < 9"
  by (auto simp: all_cells_def image_iff)

lemma cell_index_inj:
  fixes row col r c :: nat
  assumes "col < 9" "c < 9"
  shows "9 * row + col = 9 * r + c \<longleftrightarrow> r = row \<and> c = col"
proof -
  have "(9 * row + col) div 9 = row" "(9 * row + col) mod 9 = col"
    "(9 * r + c) div 9 = r" "(9 * r + c) mod 9 = c" using assms by simp_all
  then show ?thesis by metis
qed

text \<open>What a key does to the text form of the board.\<close>

definition key_char :: "keyval \<Rightarrow> char option" where
  "key_char key = map_option (\<lambda>v. int_char (val2boardchar v)) (key_digits key)"

fun type_key :: "nat \<times> nat \<times> keyval \<Rightarrow> string \<Rightarrow> string" where
  "type_key (row, col, key) s = (case key_char key of None \<Rightarrow> s | Some ch \<Rightarrow> s[9 * row + col := ch])"

text \<open>The widget shows the text \<open>s\<close>.\<close>

definition shows_text :: "string \<Rightarrow> sboard \<Rightarrow> bool" where
  "shows_text s b \<longleftrightarrow> sboard_wf True b \<and> length s = 81 \<and>
     (\<forall>r<9. \<forall>c<9. int_char (val2boardchar (fst (get_widget r c b))) = s ! (9 * r + c))"

lemma dialog_read_shows: "shows_text s b \<Longrightarrow> dialog_read b = s"
proof (rule nth_equalityI)
  fix i assume b: "shows_text s b" and "i < length (dialog_read b)"
  then have i: "i < 81" by (simp add: dialog_read_def)
  have "i div 9 < 9" "i mod 9 < 9" "9 * (i div 9) + i mod 9 = i" using i by auto
  with b i show "dialog_read b ! i = s ! i"
    by (simp add: dialog_read_def nth_all_cells board_get_val shows_text_def)
qed (simp add: dialog_read_def shows_text_def)

lemma shows_text_key:
  assumes b: "shows_text s b" and rc: "row < 9" "col < 9"
  shows "shows_text (type_key (row, col, key) s) (fst (sudoku_board_key bindings row col key b))"
proof (cases "key_digits key")
  case None
  with b rc show ?thesis by (simp add: board_key shows_text_def key_char_def)
next
  case (Some v)
  have wf: "sboard_wf True b" using b by (simp add: shows_text_def)
  have "v AND ALL_bits = v" using Some
    by (cases key) (auto simp: key_digits_def ALL_bits_eq)
  then show ?thesis
    using cell_index_inj [OF rc(2)] b rc Some widget.get_put [OF wf rc] widget.ok_put [OF wf]
    by (simp add: board_key [OF wf rc] shows_text_def key_char_def nth_list_update)
qed

lemma shows_text_keys:
  "shows_text s b \<Longrightarrow> \<forall>(row, col, key)\<in>set keys. row < 9 \<and> col < 9 \<Longrightarrow>
    shows_text (fold type_key keys s) (dialog_run bindings keys b)"
proof (induction keys arbitrary: s b)
  case (Cons k keys)
  obtain row col key where k: "k = (row, col, key)" by (metis surj_pair)
  with Cons.prems have "shows_text (type_key k s) (fst (sudoku_board_key bindings row col key b))"
    unfolding k by (intro shows_text_key) auto
  with Cons.IH Cons.prems(2) k show ?case by (simp add: dialog_run_def)
qed (simp add: dialog_run_def)

lemma dialog_loop_put_all:
  assumes "\<forall>ch\<in>set s. isboardchar (char_int ch)" "length rcs = length s"
  shows "dialog_loop rcs s b = widget.put_all (zip rcs (map (\<lambda>ch. (boardchar2val (char_int ch), 0)) s)) b"
  using assms(2,1)
  by (induction rcs s arbitrary: b rule: list_induct2)
    (auto simp: widget.put_all_def put_widget_def board_head_def)

lemma boardchar2val_masked: "boardchar2val c AND ALL_bits = boardchar2val c"
  unfolding boardchar2val_def sle_range_iff by (auto simp: ALL_bits_eq)

lemma take_bit_scast: "take_bit 8 (scast (w :: byte) :: cint) = ucast w"
proof (rule bit_word_eqI)
  fix n assume n: "n < LENGTH(32)"
  show "bit (take_bit 8 (scast w :: cint)) n \<longleftrightarrow> bit (ucast w :: cint) n"
  proof (cases "n < 8")
    case True
    then have "min 7 n = n" by simp
    with True show ?thesis by (simp add: bit_simps)
  next
    case False
    then show ?thesis using bit_imp_le_length [of w n] by (auto simp: bit_simps)
  qed
qed

lemma unat_of_char: "unat (of_char c :: byte) = uchar_nat c"
proof -
  have "of_nat (of_char c) = (of_char c :: byte)" by (rule of_nat_of_char)
  moreover have "unat (of_nat (uchar_nat c) :: byte) = uchar_nat c"
    using uchar_nat_less [of c] by (simp add: unat_of_nat)
  ultimately show ?thesis by (simp only: uchar_nat_def)
qed

lemma int_char_char_int [simp]: "int_char (char_int c) = c"
proof -
  have "uchar_nat c < 2 ^ 32" using uchar_nat_less [of c] by (rule less_trans) simp
  then have "unat (take_bit 8 (char_int c)) = uchar_nat c"
    unfolding char_int_def take_bit_scast using unat_of_char [of c]
    by (simp add: unsigned_ucast_eq take_bit_nat_eq_self)
  then have "take_bit 8 (unat (char_int c)) = uchar_nat c" by (simp add: unsigned_take_bit_eq)
  then show ?thesis by (metis char_of_uchar_nat char_of_take_bit_eq int_char_def order_refl)
qed

lemma shows_text_set:
  assumes s: "length s = 81" "\<forall>ch\<in>set s. isboardchar (char_int ch)"
  shows "shows_text s (sudoku_dialog_set (sudoku_board_new True) (Some s))"
proof -
  let ?calls = "zip all_cells (map (\<lambda>ch. (boardchar2val (char_int ch), 0 :: cint)) s)"
  have "\<forall>ch\<in>set s. char_int ch \<noteq> 0" using s(2) by (auto simp: isboardchar_def word_sle_eq)
  then have "boardlen (Some s) = 81" using s by (simp add: boardlen_def boardlen_loop_filter)
  then have d: "sudoku_dialog_set (sudoku_board_new True) (Some s) = widget.put_all ?calls (sudoku_board_new True)"
    using s by (simp add: sudoku_dialog_set_def dialog_loop_put_all)
  have dist: "distinct (map fst ?calls)" using s(1) by simp
  have range: "\<forall>((r, c), v)\<in>set ?calls. r < 9 \<and> c < 9" by (auto dest!: set_zip_leftD simp: all_cells_range)
  have "get_widget r c (widget.put_all ?calls (sudoku_board_new True)) = (boardchar2val (char_int (s ! (9 * r + c))), 0)"
    if rc: "r < 9" "c < 9" for r c
  proof -
    have i: "9 * r + c < 81" "all_cells ! (9 * r + c) = (r, c)" using rc by (simp_all add: nth_all_cells)
    then have "?calls ! (9 * r + c) = ((r, c), (boardchar2val (char_int (s ! (9 * r + c))), 0))"
      using s(1) by simp
    then have "((r, c), (boardchar2val (char_int (s ! (9 * r + c))), 0)) \<in> set ?calls"
      using i(1) s(1) nth_mem [of "9 * r + c" ?calls] by simp
    then have "map_of ?calls (r, c) = Some (boardchar2val (char_int (s ! (9 * r + c))), 0)"
      by (rule map_of_is_SomeI [OF dist])
    then show ?thesis using widget.get_put_all [OF sboard_wf_new dist range rc] by (simp add: boardchar2val_masked)
  qed
  moreover have "9 * r + c < length s" if "r < 9" "c < 9" for r c using that s(1) by simp
  ultimately show ?thesis unfolding d shows_text_def
    using s widget.ok_put_all [OF sboard_wf_new] by (simp add: val2boardchar_boardchar2val)
qed

end
