(* ===== verification/Interp.thy ===== *)
theory Interp
  imports Lua_Session Widget_Edit
begin

text \<open>
  \<^verbatim>\<open>src/src/interp.c\<close>: the C functions that link the script with the GUI.  The state of the interpreter is the
  script's state together with the number of values on the Lua stack of the main program.  The C functions \<open>set_val\<close>, \<open>edit\<close> and
  \<open>show\<close> that the script calls act on the GUI side: the board widget of the main window and the texts shown.  A C
  string is a list of characters up to its NUL.
\<close>

subsection \<open>C strings\<close>

definition c_str :: "string \<Rightarrow> string" where
  "c_str s = takeWhile (\<lambda>c. c \<noteq> CHR 0x00) s"

text \<open>A null pointer stays null; \<open>strlen\<close> stops at the first NUL.\<close>

definition clone :: "string option \<Rightarrow> string option" where
  "clone src = map_option c_str src"

subsection \<open>The functions given to the script\<close>

datatype shown = LuaText help_text | IntroText | AboutDialog

record gui =
  g_board :: sboard
  g_shown :: "shown list"

definition interp_set_val :: "cint \<Rightarrow> cint \<Rightarrow> cint \<Rightarrow> cint \<Rightarrow> gui \<Rightarrow> gui" where
  "interp_set_val row col val mode g = g\<lparr>g_board := sudoku_board_set_val (g_board g) row col val mode\<rparr>"

text \<open>\<open>luaL_checkint\<close> converts a Lua number to an \<open>int\<close>, \<open>lua_toboolean\<close> gives 0 or 1.\<close>

fun set_val :: "set_val_call \<Rightarrow> gui \<Rightarrow> gui" where
  "set_val (row, col, val, mode) g =
     interp_set_val (of_int row) (of_int col) (of_int val) (if mode then 1 else 0) g"

definition interp_show :: "help_text \<Rightarrow> gui \<Rightarrow> gui" where
  "interp_show text g = g\<lparr>g_shown := g_shown g @ [LuaText text]\<rparr>"

fun perform :: "effect \<Rightarrow> gui \<Rightarrow> gui" where
  "perform (SetVal call) g = set_val call g"
| "perform (ShowText text) g = interp_show text g"

definition perform_all :: "effect list \<Rightarrow> gui \<Rightarrow> gui" where
  "perform_all = fold perform"

text \<open>The editor: the bindings of GTK, the keys pressed and the button chosen in the dialog.\<close>

record user =
  u_bindings :: "keyval \<Rightarrow> bool"
  u_keys :: "(nat \<times> nat \<times> keyval) list"
  u_response :: response

definition interp_edit :: "user \<Rightarrow> string option \<Rightarrow> string option" where
  "interp_edit u board = sudoku_edit_dialog (u_bindings u) (u_keys u) (u_response u) board"

definition edit :: "user \<Rightarrow> string option \<Rightarrow> string option" where
  "edit u board = interp_edit u (clone board)"

subsection \<open>Command lines\<close>

definition isdigit :: "char \<Rightarrow> bool" where
  "isdigit c = (48 \<le> uchar_nat c \<and> uchar_nat c \<le> 57)"

fun decimal :: "nat \<Rightarrow> string \<Rightarrow> nat" where
  "decimal n [] = n"
| "decimal n (c # s) = decimal (10 * n + (uchar_nat c - 48)) s"

text \<open>\<open>atoi\<close> of a string of digits.  Its result is undefined when the value does not fit an \<open>int\<close>, so
  that case is an argument.\<close>

definition atoi :: "(string \<Rightarrow> int) \<Rightarrow> string \<Rightarrow> int" where
  "atoi overflow s = (if decimal 0 s < 2 ^ 31 then int (decimal 0 s) else overflow s)"

definition push_item :: "(string \<Rightarrow> int) \<Rightarrow> string \<Rightarrow> lua_val" where
  "push_item overflow item =
     (case find (\<lambda>c. \<not> isdigit c) item of
        Some _ \<Rightarrow> LStr item
      | None \<Rightarrow> LNum (atoi overflow item))"

definition skip_spaces :: "string \<Rightarrow> string" where
  "skip_spaces cmd = dropWhile (\<lambda>c. c = CHR '' '') cmd"

text \<open>The loop of \<open>interp_eval\<close>: the values pushed after the function \<open>eval\<close>.\<close>

function eval_loop :: "(string \<Rightarrow> int) \<Rightarrow> string \<Rightarrow> lua_val list" where
  "eval_loop overflow cmd =
     (case dropWhile (\<lambda>c. c \<noteq> CHR '' '') cmd of
        [] \<Rightarrow> [push_item overflow cmd]
      | _ # rest \<Rightarrow>
          push_item overflow (takeWhile (\<lambda>c. c \<noteq> CHR '' '') cmd) #
          (let cmd = skip_spaces rest in if cmd = [] then [] else eval_loop overflow cmd))"
  by pat_completeness auto
termination
proof (relation "measure (\<lambda>(_, cmd). length cmd)")
  fix overflow :: "string \<Rightarrow> int" and cmd rest x y
  assume "dropWhile (\<lambda>c. c \<noteq> CHR '' '') cmd = x # rest" and "y = skip_spaces rest"
  then have "length (x # rest) \<le> length cmd" "length y \<le> length rest"
    by (metis length_dropWhile_le) (simp add: \<open>y = skip_spaces rest\<close> skip_spaces_def length_dropWhile_le)
  then show "((overflow, y), overflow, cmd) \<in> measure (\<lambda>(_, cmd). length cmd)" by simp
qed simp

declare eval_loop.simps [simp del]

subsection \<open>Entry points\<close>

record interp =
  lua :: session
  lua_top :: nat

text \<open>\<open>lua_pcall\<close> leaves the result or the error message on the stack, and \<open>interp_eval\<close> leaves it there.\<close>

definition interp_eval :: "(string \<Rightarrow> int) \<Rightarrow> user \<Rightarrow> string \<Rightarrow> interp \<times> gui \<Rightarrow> string option \<times> interp \<times> gui" where
  "interp_eval overflow u cmd st = (case st of (L, g) \<Rightarrow>
     let cmd = skip_spaces cmd
     in if cmd = [] then (None, L, g)
        else (case eval_loop overflow cmd of
            [] \<Rightarrow> (None, L, g)
          | name # args \<Rightarrow>
             (case eval (edit u) name args (lua L) of (r, s, effs) \<Rightarrow>
               (clone (case r of Inl e \<Rightarrow> Some (err_msg e) | Inr msg \<Rightarrow> msg),
                L\<lparr>lua := s, lua_top := lua_top L + 1\<rparr>, perform_all effs g))))"

definition interp_load :: "string \<Rightarrow> interp \<times> gui \<Rightarrow> string option \<times> interp \<times> gui" where
  "interp_load board st = (case st of (L, g) \<Rightarrow>
     (case load (c_str board) (lua L) of
        (Inl e, s, effs) \<Rightarrow> (clone (Some (err_msg e)), L\<lparr>lua := s, lua_top := lua_top L + 1\<rparr>, perform_all effs g)
      | (Inr _, s, effs) \<Rightarrow> (None, L\<lparr>lua := s\<rparr>, perform_all effs g)))"

text \<open>The message and the board: exactly one of the two pointers is null.\<close>

definition interp_save :: "interp \<Rightarrow> string option \<times> string option \<times> interp" where
  "interp_save L = (case save (lua L) of
     Inl e \<Rightarrow> (clone (Some (err_msg e)), None, L\<lparr>lua_top := lua_top L + 1\<rparr>)
   | Inr board \<Rightarrow> (None, clone (Some board), L\<lparr>lua_top := lua_top L + 1\<rparr>))"

text \<open>Creating the Lua state may fail, and so may loading the script; \<open>created\<close> and \<open>loaded\<close> say
  what the library reports.\<close>

definition interp_init :: "bool \<Rightarrow> string option \<Rightarrow> string option \<times> interp" where
  "interp_init created loaded =
     (let L = \<lparr>lua = session_init, lua_top = 0\<rparr>
      in if \<not> created then (clone (Some ''Failed to create a Lua interpreter''), L)
         else (case loaded of
             Some msg \<Rightarrow> (clone (Some msg), L\<lparr>lua_top := 1\<rparr>)
           | None \<Rightarrow> (None, L)))"

end
