(* ===== verification/Main_Window.thy ===== *)
theory Main_Window
  imports Interp
begin

text \<open>
  \<^verbatim>\<open>src/src/gtksudoku.c\<close> and \<^verbatim>\<open>src/src/showtext.c\<close>: the main window.  Its state is the interpreter, the GUI and the text of the
  status line and of the command entry.  What the file system and the user answer (the contents of a file, whether a file
  can be opened, the name chosen in a file dialog) are arguments.  A dereferenced null pointer ends the
  program: \<open>Crash\<close>.
\<close>

record window =
  w_interp :: interp
  w_gui :: gui
  w_status :: string
  w_entry :: string

datatype 'a run = Done 'a | Crash

definition NBOARD :: nat where
  "NBOARD = DIGITS * DIGITS * DIGITS"

definition set_status :: "string option \<Rightarrow> window \<Rightarrow> window" where
  "set_status malloced_message w = (case malloced_message of
     Some msg \<Rightarrow> w\<lparr>w_status := msg\<rparr>
   | None \<Rightarrow> w\<lparr>w_status := []\<rparr>)"

text \<open>What reading a file gives.\<close>

datatype file_read = CannotOpen | CannotRead | Contents string

definition load_file :: "file_read \<Rightarrow> window \<Rightarrow> window" where
  "load_file f w = (case f of
     CannotOpen \<Rightarrow> w\<lparr>w_status := ''failed to open file''\<rparr>
   | CannotRead \<Rightarrow> w\<lparr>w_status := ''failed to read file''\<rparr>
   | Contents s \<Rightarrow>
      (case interp_load (take NBOARD s) (w_interp w, w_gui w) of (msg, L, g) \<Rightarrow>
        set_status msg (w\<lparr>w_interp := L, w_gui := g\<rparr>)))"

text \<open>The result: the window and the text written to the file, if it was written.  \<open>*board\<close> reads through the
  pointer that \<open>interp_save\<close> sets.\<close>

definition save_file :: "bool \<Rightarrow> window \<Rightarrow> (window \<times> string option) run" where
  "save_file can_open w = (case interp_save (w_interp w) of (msg, board, L) \<Rightarrow>
     let w = w\<lparr>w_interp := L\<rparr>
     in case board of
          None \<Rightarrow> Crash
        | Some s \<Rightarrow>
            if s \<noteq> [] then
              if \<not> can_open then Done (w\<lparr>w_status := ''failed to open file''\<rparr>, None)
              else Done (set_status msg w, Some s)
            else Done (set_status msg w, None))"

definition entry_callback :: "(string \<Rightarrow> int) \<Rightarrow> user \<Rightarrow> window \<Rightarrow> window" where
  "entry_callback overflow u w =
     (let cmd = w_entry w
      in case interp_eval overflow u cmd (w_interp w, w_gui w) of (msg, L, g) \<Rightarrow>
           (set_status msg (w\<lparr>w_interp := L, w_gui := g\<rparr>))\<lparr>w_entry := []\<rparr>)"

text \<open>The file dialogs: \<open>None\<close> when the user cancels.\<close>

definition open_file :: "file_read option \<Rightarrow> window \<Rightarrow> window" where
  "open_file choice w = (case choice of Some f \<Rightarrow> load_file f w | None \<Rightarrow> w)"

definition save_file_as :: "bool option \<Rightarrow> window \<Rightarrow> (window \<times> string option) run" where
  "save_file_as choice w = (case choice of Some can_open \<Rightarrow> save_file can_open w | None \<Rightarrow> Done (w, None))"

definition help_intro :: "window \<Rightarrow> window" where
  "help_intro w = w\<lparr>w_gui := (w_gui w)\<lparr>g_shown := g_shown (w_gui w) @ [IntroText]\<rparr>\<rparr>"

definition help_about :: "window \<Rightarrow> window" where
  "help_about w = w\<lparr>w_gui := (w_gui w)\<lparr>g_shown := g_shown (w_gui w) @ [AboutDialog]\<rparr>\<rparr>"

subsection \<open>Events\<close>

text \<open>What the main loop delivers: a command line is typed and activated, or a menu item of
  \<open>main_entries\<close> is chosen.\<close>

datatype event =
    Activate string user
  | Open "file_read option"
  | SaveAs "bool option"
  | Intro
  | About

fun handle :: "(string \<Rightarrow> int) \<Rightarrow> event \<Rightarrow> window \<Rightarrow> window run" where
  "handle overflow (Activate cmd u) w = Done (entry_callback overflow u (w\<lparr>w_entry := cmd\<rparr>))"
| "handle overflow (Open choice) w = Done (open_file choice w)"
| "handle overflow (SaveAs choice) w =
     (case save_file_as choice w of Done (w, _) \<Rightarrow> Done w | Crash \<Rightarrow> Crash)"
| "handle overflow Intro w = Done (help_intro w)"
| "handle overflow About w = Done (help_about w)"

text \<open>\<open>main\<close> up to the main loop: the message and exit on failure, or the window.\<close>

definition main :: "bool \<Rightarrow> string option \<Rightarrow> file_read option \<Rightarrow> string + window" where
  "main created loaded argv1 =
     (let board = sudoku_board_new False
      in case interp_init created loaded of (msg, L) \<Rightarrow>
           (case msg of
              Some m \<Rightarrow> Inl m
            | None \<Rightarrow>
               (let w = \<lparr>w_interp = L, w_gui = \<lparr>g_board = board, g_shown = []\<rparr>, w_status = [], w_entry = []\<rparr>
                in Inr (case argv1 of Some f \<Rightarrow> load_file f w | None \<Rightarrow> w))))"

text \<open>The states the program can be in after \<open>main\<close> has built the window.\<close>

inductive reachable :: "(string \<Rightarrow> int) \<Rightarrow> window \<Rightarrow> bool" for overflow where
  start: "main created loaded argv1 = Inr w \<Longrightarrow> reachable overflow w"
| step: "reachable overflow w \<Longrightarrow> handle overflow e w = Done w' \<Longrightarrow> reachable overflow w'"

subsection \<open>Text dialogs\<close>

text \<open>What \<open>show_text\<close> sets up, from the font metrics in Pango units; the conversion
  \<open>PANGO_PIXELS\<close> to pixels is an argument.\<close>

record metrics =
  char_width :: cint
  ascent :: cint
  descent :: cint

record text_dialog =
  td_text :: string
  td_wrap_word :: bool
  td_editable :: bool
  td_cursor :: bool
  td_margins :: "cint \<times> cint"
  td_size :: "cint \<times> cint"

definition show_text :: "(cint \<Rightarrow> cint) \<Rightarrow> metrics \<Rightarrow> string \<Rightarrow> text_dialog" where
  "show_text pango_pixels m text =
     (let height = pango_pixels (ascent m + descent m);
          width = pango_pixels (char_width m)
      in \<lparr>td_text = text, td_wrap_word = True, td_editable = False, td_cursor = False,
          td_margins = (2 * width, 2 * width), td_size = (70 * width, 20 * height)\<rparr>)"

end
