(* ===== verification/Lua_Session_Props.thy ===== *)
theory Lua_Session_Props
  imports Lua_Session
begin

text \<open>
  The command interpreter keeps every board well formed, keeps every solution of the puzzle, answers
  ``yes'' exactly when it eliminated something, and undoes.
\<close>

definition boards :: "session \<Rightarrow> board set" where
  "boards s = set_option (it s) \<union> set (history s)"

definition session_wf :: "session \<Rightarrow> bool" where
  "session_wf s \<longleftrightarrow> (\<forall>b\<in>boards s. board_wf b)"

lemma session_wf_it: "session_wf s \<Longrightarrow> it s = Some b \<Longrightarrow> board_wf b"
  by (simp add: session_wf_def boards_def)

subsection \<open>Histories\<close>

lemma last_option_simps [simp]:
  "last_option [] = None" "last_option (xs @ [x]) = Some x"
  by (simp_all add: last_option_def)

lemma last_option_Some: "last_option xs = Some x \<Longrightarrow> xs = butlast xs @ [x]"
  by (cases xs rule: rev_cases) auto

lemma last_option_set: "last_option xs = Some x \<Longrightarrow> set xs = insert x (set (butlast xs))"
  by (cases xs rule: rev_cases) auto

lemma push_eq:
  assumes "session_wf s" "it s = Some b"
  shows "push s = (if last_option (history s) = Some b then s else s\<lparr>history := history s @ [b]\<rparr>)"
proof -
  have wf: "board_wf b" using assms by (rule session_wf_it)
  have "board_same b (last_option (history s)) \<longleftrightarrow> last_option (history s) = Some b"
    using assms(1) by (intro board_same_iff [OF wf]) (auto simp: session_wf_def boards_def last_option_set)
  then show ?thesis using assms board_clone_id [OF board_wf_length [OF wf]] by (simp add: push_def)
qed

lemma push_boards: "session_wf s \<Longrightarrow> boards (push s) = boards s"
  by (cases "it s") (auto simp: push_eq boards_def, auto simp: push_def)

lemma push_it [simp]: "it (push s) = it s" "details (push s) = details s"
  by (simp_all add: push_def split: option.split)

lemma back_board_eq:
  assumes "session_wf s"
  shows "back_board s = (case last_option (history s) of
     None \<Rightarrow> (s, False)
   | Some t \<Rightarrow> if it s \<noteq> Some t then (s\<lparr>history := butlast (history s), it := Some t\<rparr>, True)
       else (case last_option (butlast (history s)) of
           None \<Rightarrow> (s\<lparr>history := butlast (history s)\<rparr>, False)
         | Some t' \<Rightarrow> (s\<lparr>history := butlast (butlast (history s)), it := Some t'\<rparr>, True)))"
proof -
  have "board_same t (it s) \<longleftrightarrow> it s = Some t" if "last_option (history s) = Some t" for t
    using assms by (intro board_same_iff) (auto simp: session_wf_def boards_def last_option_set [OF that])
  then show ?thesis by (auto simp: back_board_def Let_def split: option.split)
qed

lemma back_boards: "boards (fst (back_board s)) \<subseteq> boards s"
  by (auto simp: back_board_def boards_def Let_def last_option_set split: option.splits if_splits
      dest: in_set_butlastD)

lemma wf_subset: "session_wf s \<Longrightarrow> boards s' \<subseteq> boards s \<Longrightarrow> session_wf s'"
  by (auto simp: session_wf_def)

lemma boards_it: "boards (s\<lparr>it := x\<rparr>) \<subseteq> set_option x \<union> boards s"
  by (auto simp: boards_def)

lemma swap_boards:
  assumes "session_wf s"
  shows "boards (fst (swap s)) \<subseteq> boards s"
proof -
  let ?s1 = "fst (back_board s)"
  let ?s2 = "?s1\<lparr>it := it s\<rparr>"
  have 1: "boards ?s1 \<subseteq> boards s" by (rule back_boards)
  then have 2: "boards ?s2 \<subseteq> boards s" by (auto simp: boards_def)
  have "boards (push ?s2) = boards ?s2" by (rule push_boards [OF wf_subset [OF assms 2]])
  with 1 2 have "boards ((push ?s2)\<lparr>it := it ?s1\<rparr>) \<subseteq> boards s" by (auto simp: boards_def)
  then show ?thesis by (simp add: swap_def Let_def)
qed

lemma new_boards: "session_wf s \<Longrightarrow> boards (fst (new_board s)) \<subseteq> insert mk_board (boards s)"
  using push_boards [of s] by (auto simp: new_board_def boards_def)

subsection \<open>Commands\<close>

lemma d_op_rule: "row \<in> {1..9} \<Longrightarrow> col \<in> {1..9} \<Longrightarrow> board_rule (d_op d row col)"
  unfolding d_op_def by (intro with_spread_rule propagate_rule) (simp_all add: valid_pos_def)

lemma nargs_table: "map_option nargs (map_of cmds n) = map_of
   [(''back'', 0), (''swap'', 0), (''new'', 0), (''details'', 0), (''normal'', 0), (''s'', 3), (''r'', 2), (''c'', 2),
    (''d'', 3), (''rs'', 3), (''cs'', 3), (''sr'', 3), (''sc'', 3), (''ps'', 4), (''pr'', 3), (''pc'', 3),
    (''sps'', 4), (''spr'', 3), (''spc'', 3), (''hint'', 0), (''p'', 0), (''simp'', 0), (''all'', 0), (''solve'', 0)] n"
proof -
  have "map_option nargs (map_of cmds n) = map_of (map (\<lambda>(k, v). (k, nargs v)) cmds) n"
    by (simp only: map_of_map comp_apply)
  then show ?thesis by (simp only: cmds_def list.map prod.case cmd.select_convs)
qed

lemma nargs_eq: "map_of cmds n = Some cmd \<Longrightarrow> map_option nargs (map_of cmds n) = Some k \<Longrightarrow> nargs cmd = k"
  by simp

lemma cmd_nargs:
  "map_of cmds ''s'' = Some cmd \<Longrightarrow> nargs cmd = 3"
  "map_of cmds ''r'' = Some cmd \<Longrightarrow> nargs cmd = 2"
  "map_of cmds ''c'' = Some cmd \<Longrightarrow> nargs cmd = 2"
  "map_of cmds ''d'' = Some cmd \<Longrightarrow> nargs cmd = 3"
  "map_of cmds ''rs'' = Some cmd \<Longrightarrow> nargs cmd = 3"
  "map_of cmds ''cs'' = Some cmd \<Longrightarrow> nargs cmd = 3"
  "map_of cmds ''sr'' = Some cmd \<Longrightarrow> nargs cmd = 3"
  "map_of cmds ''sc'' = Some cmd \<Longrightarrow> nargs cmd = 3"
  "map_of cmds ''ps'' = Some cmd \<Longrightarrow> nargs cmd = 4"
  "map_of cmds ''pr'' = Some cmd \<Longrightarrow> nargs cmd = 3"
  "map_of cmds ''pc'' = Some cmd \<Longrightarrow> nargs cmd = 3"
  "map_of cmds ''sps'' = Some cmd \<Longrightarrow> nargs cmd = 4"
  "map_of cmds ''spr'' = Some cmd \<Longrightarrow> nargs cmd = 3"
  "map_of cmds ''spc'' = Some cmd \<Longrightarrow> nargs cmd = 3"
  by (erule nargs_eq, simp add: nargs_table)+

lemmas rule_intros = one_place_in_square_rule one_place_in_row_rule one_place_in_column_rule d_op_rule
  one_row_in_square_rule one_column_in_square_rule one_square_for_row_rule one_square_for_column_rule
  pair_in_square_rules pair_in_row_rules pair_in_column_rules
  singletons.board_rule_axioms simp_rule.board_rule_axioms solve.board_rule_axioms

lemma if_SomeE:
  "(if P then Some x else y) = Some r \<Longrightarrow> (P \<Longrightarrow> r = x \<Longrightarrow> Q) \<Longrightarrow> (y = Some r \<Longrightarrow> Q) \<Longrightarrow> Q"
  by (metis option.inject)

lemma rule_of_rule:
  assumes "map_of cmds n = Some cmd" "length args = nargs cmd" "\<forall>a\<in>set args. a \<in> {1..9}" "rule_of n args = Some rule"
  shows "board_rule rule"
proof -
  have "args ! i \<in> {1..9}" if "i < nargs cmd" for i using that assms(2,3) nth_mem by metis
  then have nth: "Suc 0 \<le> args ! i" "args ! i \<le> 9" if "i < nargs cmd" for i using that by fastforce+
  show ?thesis using assms(4) assms(1) unfolding rule_of_def
    by (elim if_SomeE; simp add: rule_intros nth cmd_nargs)
qed

lemma flag_only_eq: "flag_only rule b = (map_sum id (\<lambda>e. (e, None)) (fst (rule b)), snd (rule b))"
  by (simp add: flag_only_def and_then_def split: prod.split sum.split)

lemma board_all_flag_fst: "board_all_flag b = (map_sum id fst (fst (board_all b)), snd (board_all b))"
  by (auto simp: board_all_flag_def and_then_def split: prod.split sum.split)

text \<open>The commands that change the current board by a rule, and the rule.\<close>

definition command_rule :: "string \<Rightarrow> nat list \<Rightarrow> rule option" where
  "command_rule n args = (if n = ''all'' then Some board_all_flag else rule_of n args)"

lemma command_rule_rule:
  assumes "map_of cmds n = Some cmd" "length args = nargs cmd" "\<forall>a\<in>set args. a \<in> {1..9}"
    and "command_rule n args = Some rule"
  shows "board_rule rule"
  using assms rule_of_rule [OF assms(1-3)] all_rules.board_rule_axioms
  by (auto simp: command_rule_def split: if_splits)

lemma run_op_rule:
  assumes "command_rule n args = Some rule" "it s = Some b" "map_of cmds n \<noteq> None"
  shows "\<exists>msg. run_op n args s = (map_sum id (\<lambda>e. (e, msg)) (fst (rule b)), s\<lparr>it := Some (snd (rule b))\<rparr>) \<and>
    (n \<noteq> ''all'' \<longrightarrow> msg = None)"
proof (cases "n = ''all''")
  case True
  have r: "rule_of ''all'' args = None" by (simp add: rule_of_def)
  from True assms(1) have "rule = board_all_flag" by (simp add: command_rule_def)
  moreover have "\<exists>msg. fst (board_all b) = map_sum id (\<lambda>e. (e, msg)) (map_sum id fst (fst (board_all b)))"
    by (cases "fst (board_all b)") (auto intro: exI)
  ultimately show ?thesis using True assms(2) r
    by (cases "board_all b") (auto simp: run_op_def on_it_def board_all_flag_fst)
next
  case False
  with assms(1,2) show ?thesis
    by (auto simp: command_rule_def run_op_def on_it_def flag_only_eq)
qed

lemma cmd_names: "map fst cmds =
  [''back'', ''swap'', ''new'', ''details'', ''normal'', ''s'', ''r'', ''c'', ''d'', ''rs'', ''cs'', ''sr'', ''sc'',
   ''ps'', ''pr'', ''pc'', ''sps'', ''spr'', ''spc'', ''hint'', ''p'', ''simp'', ''all'', ''solve'']"
  by (simp only: cmds_def list.map fst_conv)

lemma if_None_iff: "(if P then Some x else y) = None \<longleftrightarrow> \<not> P \<and> y = None"
  by simp

lemma set_diff_filter: "x \<in> set xs \<Longrightarrow> x \<notin> set ys \<Longrightarrow> filter (\<lambda>x. x \<notin> set ys) xs = zs \<Longrightarrow> x \<in> set zs"
  by auto

lemma other_commands:
  assumes "map_of cmds n = Some cmd" "command_rule n args = None"
  shows "n \<in> set [''back'', ''swap'', ''new'', ''details'', ''normal'', ''hint'']"
proof (rule set_diff_filter)
  show "n \<in> set (map fst cmds)" using assms(1) by (metis map_of_SomeD fst_conv image_eqI set_map)
  let ?rules = "[''all'', ''s'', ''r'', ''c'', ''d'', ''rs'', ''cs'', ''sr'', ''sc'', ''ps'', ''pr'', ''pc'', ''sps'', ''spr'', ''spc'', ''p'',
    ''simp'', ''solve'']"
  show "n \<notin> set ?rules"
    using assms(2) unfolding command_rule_def rule_of_def if_None_iff
    by (simp only: list.set insert_iff empty_iff de_Morgan_disj simp_thms)
  show "filter (\<lambda>x. x \<notin> set ?rules) (map fst cmds) = [''back'', ''swap'', ''new'', ''details'', ''normal'', ''hint'']"
    unfolding cmd_names by code_simp
qed

lemma run_op_simps:
  "run_op ''back'' args s = (Inr (snd (back_board s), None), fst (back_board s))"
  "run_op ''swap'' args s = (Inr (snd (swap s), None), fst (swap s))"
  "run_op ''new'' args s = (Inr (snd (new_board s), None), fst (new_board s))"
  "run_op ''details'' args s = (Inr (False, Some ''detailed view enabled''), s\<lparr>details := True\<rparr>)"
  "run_op ''normal'' args s = (Inr (False, Some ''detailed view disabled''), s\<lparr>details := False\<rparr>)"
  "run_op ''hint'' args s = on_it (\<lambda>b. (Inr (False, Some (board_hint b)), b)) s"
  by (simp_all add: run_op_def rule_of_def split: prod.split)

lemma run_op_other:
  assumes n: "n \<in> set [''back'', ''swap'', ''new'', ''details'', ''normal'', ''hint'']" and i: "it s = Some b"
  shows "(\<exists>e msg. fst (run_op n args s) = Inr (e, msg)) \<and> it (snd (run_op n args s)) \<noteq> None \<and>
    (session_wf s \<longrightarrow> boards (snd (run_op n args s)) \<subseteq> insert mk_board (boards s))"
proof -
  have b: "it (fst (back_board s)) \<noteq> None"
    using i by (auto simp: back_board_def Let_def split: option.split)
  then have "it (fst (swap s)) \<noteq> None" "it (fst (new_board s)) \<noteq> None"
    by (auto simp: swap_def new_board_def Let_def)
  moreover have "boards (s\<lparr>details := x\<rparr>) = boards s" "boards (s\<lparr>it := Some b\<rparr>) = boards s" for x
    using i by (simp_all add: boards_def)
  ultimately show ?thesis
    using n i b back_boards [of s] swap_boards [of s] new_boards [of s]
    unfolding list.set by (elim insertE emptyE; simp add: run_op_simps on_it_def; blast)
qed

text \<open>A grid is a solution of every board of the session, the current one and those saved.\<close>

definition admits :: "grid \<Rightarrow> session \<Rightarrow> bool" where
  "admits g s \<longleftrightarrow> (\<forall>b\<in>boards s. solution_of g b)"

lemma run_op_ok:
  assumes cmd: "map_of cmds n = Some cmd" "length args = nargs cmd" "\<forall>a\<in>set args. a \<in> {1..9}"
    and s: "session_wf s" "it s = Some b" and r: "run_op n args s = (r, s')"
  shows "session_wf s' \<and> it s' \<noteq> None \<and> r \<noteq> Inl OutOfFuel \<and>
    (valid_grid g \<longrightarrow> admits g s \<longrightarrow> (\<exists>x. r = Inr x) \<and> admits g s')"
proof (cases "command_rule n args")
  case None
  note o = run_op_other [OF other_commands [OF cmd(1) None] s(2), of args, unfolded r fst_conv snd_conv]
  with s mk_board_wf have "session_wf s'" by (auto simp: session_wf_def)
  moreover have "admits g s'" if "valid_grid g" "admits g s"
    using o that s(1) solution_of_mk_board unfolding admits_def by blast
  ultimately show ?thesis using o by auto
next
  case (Some rule)
  then have R: "board_rule rule" by (rule command_rule_rule [OF cmd])
  obtain msg where m: "r = map_sum id (\<lambda>e. (e, msg)) (fst (rule b))" "s' = s\<lparr>it := Some (snd (rule b))\<rparr>"
    using run_op_rule [OF Some s(2)] cmd(1) r by auto
  have wf: "board_wf b" using s by (rule session_wf_it)
  note shrink = board_rule.shrinks [OF R wf, unfolded shrink_to_def]
  have "session_wf s'" using s(1) shrink by (auto simp: m(2) session_wf_def boards_def)
  moreover have "r \<noteq> Inl OutOfFuel" using shrink by (cases "fst (rule b)") (auto simp: m(1))
  moreover have "(\<exists>x. r = Inr x) \<and> admits g s'" if "admits g s"
  proof -
    have "solution_of g b" using that s(2) by (simp add: admits_def boards_def)
    from board_rule.sound [OF R wf this] show ?thesis
      using that by (auto simp: m sound_to_def admits_def boards_def)
  qed
  ultimately show ?thesis by (simp add: m(2))
qed

subsection \<open>Evaluating a command\<close>

text \<open>A command line that the interpreter executes: the name of a command of the table with the
  right number of digits, and a current board.\<close>

definition well_formed_command :: "string \<Rightarrow> lua_val list \<Rightarrow> bool" where
  "well_formed_command n args \<longleftrightarrow>
     (\<exists>cmd. map_of cmds n = Some cmd \<and> length args = nargs cmd) \<and> list_all is_digit_arg args"

lemma is_digit_not_help: "is_digit_arg a \<Longrightarrow> a \<noteq> LStr h"
  by auto

lemma arg_nat_range: "list_all is_digit_arg args \<Longrightarrow> \<forall>a\<in>set (map arg_nat args). a \<in> {1..9}"
proof (induction args)
  case (Cons a args)
  then show ?case by (cases a) auto
qed simp

lemma eval_command:
  assumes c: "well_formed_command n args" and i: "it s \<noteq> None"
    and r: "run_op n (map arg_nat args) (push s) = (r, s')"
  shows "eval edit (LStr n) args s =
    (Inr (Some (case r of Inl m \<Rightarrow> err_msg m
                 | Inr (e, msg) \<Rightarrow> (case msg of Some m \<Rightarrow> m | None \<Rightarrow> if e then ''yes'' else ''no''))), s',
     case it s' of Some b \<Rightarrow> map SetVal (print_all (details s') b) | None \<Rightarrow> [])"
proof -
  from c obtain cmd where cmd: "map_of cmds n = Some cmd" "length args = nargs cmd" "list_all is_digit_arg args"
    by (auto simp: well_formed_command_def)
  have l: "cmd_lookup (LStr n) = Some (n, cmd)" using cmd(1) by (simp add: cmd_lookup_def)
  have h: "(case args of [] \<Rightarrow> False | a # _ \<Rightarrow> a = LStr ''help'') = False"
    using cmd(3) is_digit_not_help by (cases args) auto
  show ?thesis unfolding eval_def l h option.case prod.case if_False
    using cmd(2,3) i by (simp only: r not_True_eq_False if_False prod.case Let_def) (simp split: sum.split prod.split)
qed

lemma do_help_session: "fst (snd (do_help t s)) = s"
  by (simp add: do_help_def split: option.split)

lemma eval_rejected:
  assumes "\<not> (well_formed_command n args \<and> it s \<noteq> None)" and n: "n \<noteq> ''edit''"
  shows "fst (snd (eval edit (LStr n) args s)) = s"
proof (cases "map_of cmds n")
  case None
  then have "cmd_lookup (LStr n) = None" by (simp add: cmd_lookup_def)
  then show ?thesis using n by (simp add: eval_def do_help_session)
next
  case (Some cmd)
  then have l: "cmd_lookup (LStr n) = Some (n, cmd)" by (simp add: cmd_lookup_def)
  have "length args \<noteq> nargs cmd \<or> \<not> list_all is_digit_arg args \<or> it s = None"
    using assms(1) Some by (auto simp: well_formed_command_def)
  then show ?thesis unfolding eval_def l option.case prod.case
    by (simp add: do_help_session)
qed

lemma session_wf_push: "session_wf s \<Longrightarrow> session_wf (push s)"
  by (simp add: session_wf_def push_boards [unfolded session_wf_def])

lemma admits_push: "session_wf s \<Longrightarrow> admits g (push s) \<longleftrightarrow> admits g s"
  by (simp add: admits_def push_boards)

lemma eval_command_ok:
  assumes c: "well_formed_command n args" and i: "it s = Some b" and s: "session_wf s"
  obtains r s' where "run_op n (map arg_nat args) (push s) = (r, s')" "session_wf s'" "it s' \<noteq> None" "r \<noteq> Inl OutOfFuel"
    "fst (snd (eval edit (LStr n) args s)) = s'"
    "\<And>g. valid_grid g \<Longrightarrow> admits g s \<Longrightarrow> (\<exists>x. r = Inr x) \<and> admits g s'"
proof -
  obtain r s' where r: "run_op n (map arg_nat args) (push s) = (r, s')" by (cases "run_op n (map arg_nat args) (push s)")
  from c obtain cmd where cmd: "map_of cmds n = Some cmd" "length (map arg_nat args) = nargs cmd" "list_all is_digit_arg args"
    by (auto simp: well_formed_command_def)
  have i': "it (push s) = Some b" by (simp add: i)
  note ok = run_op_ok [OF cmd(1,2) arg_nat_range [OF cmd(3)] session_wf_push [OF s] i' r]
  show thesis
    using ok by (intro that [OF r]) (auto simp: eval_command [OF c _ r] i admits_push [OF s])
qed

lemma eval_edit: "eval edit (LStr ''edit'') args s = do_edit edit s"
proof -
  have "map_of cmds ''edit'' = None" using nargs_table [of "''edit''"] by simp
  then show ?thesis by (simp add: eval_def cmd_lookup_def)
qed

lemma do_edit_wf: "session_wf s \<Longrightarrow> session_wf (fst (snd (do_edit edit s)))"
  using push_boards [of s] board_of_string_wf
  by (auto simp: do_edit_def Let_def session_wf_def boards_def split: option.split sum.split)

text \<open>C7: Every command, accepted or refused, an edit included, leaves every board of the session (the
  current one and those in the history) well formed: 81 cells of nine possibilities each, and a cell marked determined has at most
  one candidate.\<close>

theorem eval_session_wf:
  assumes "session_wf s"
  shows "session_wf (fst (snd (eval edit name args s)))"
proof (cases name)
  case (LNum i)
  with assms show ?thesis by (simp add: eval_def cmd_lookup_def)
next
  case (LStr n)
  show ?thesis
  proof (cases "well_formed_command n args \<and> it s \<noteq> None")
    case True
    then obtain b where b: "it s = Some b" by blast
    show ?thesis unfolding LStr
      by (rule eval_command_ok [OF conjunct1 [OF True] b assms, of edit]) simp
  next
    case False
    show ?thesis
    proof (cases "n = ''edit''")
      case True
      with assms show ?thesis by (simp add: LStr eval_edit do_edit_wf)
    next
      case edit: False
      from eval_rejected [OF False edit] assms show ?thesis by (simp add: LStr)
    qed
  qed
qed

text \<open>A session with a blank board, and a grid that solves it.\<close>

definition blank_session :: session where
  "blank_session = session_init\<lparr>it := Some mk_board\<rparr>"

lemma blank_session_simps [simp]:
  "it blank_session = Some mk_board" "history blank_session = []" "boards blank_session = {mk_board}"
  "session_wf blank_session" "admits sample_grid blank_session"
  using mk_board_wf solution_of_mk_board [OF sample_grid_valid]
  by (simp_all add: blank_session_def session_init_def boards_def session_wf_def admits_def)

lemma well_formed_s: "well_formed_command ''s'' [LNum 1, LNum 2, LNum 3]"
  using nargs_table [of "''s''"] by (auto simp: well_formed_command_def)

theorem eval_session_wf_witness:
  "session_wf (fst (snd (eval (\<lambda>_. None) (LStr ''s'') [LNum 1, LNum 2, LNum 3] blank_session)))"
  by (rule eval_session_wf) simp

text \<open>C2: A grid that solves every board of the session still does after any command but an edit:
  no rule eliminates a digit of a solution.\<close>

theorem eval_keeps_solutions:
  assumes s: "session_wf s" and g: "valid_grid g" "admits g s" and n: "name \<noteq> LStr ''edit''"
  shows "admits g (fst (snd (eval edit name args s)))"
proof (cases name)
  case (LNum i)
  with g show ?thesis by (simp add: eval_def cmd_lookup_def)
next
  case (LStr n)
  show ?thesis
  proof (cases "well_formed_command n args \<and> it s \<noteq> None")
    case True
    then obtain b where b: "it s = Some b" by blast
    show ?thesis unfolding LStr
      by (rule eval_command_ok [OF conjunct1 [OF True] b s, of edit]) (use g in simp)
  next
    case False
    with eval_rejected [OF False, of edit] n g show ?thesis by (simp add: LStr)
  qed
qed

theorem eval_keeps_solutions_witness:
  "admits sample_grid (fst (snd (eval (\<lambda>_. None) (LStr ''solve'') [] blank_session)))"
  by (rule eval_keeps_solutions) (simp_all add: sample_grid_valid)

text \<open>C4: What the answer to a rule command means, on any board.  The candidates only shrink, and the answer is one of three:
  ``yes'', and at least one candidate was eliminated; ``no'', and the candidates of every cell are what they were; or ``Board inconsistent'', and
  the board has no solution.\<close>

theorem eval_rule_answer:
  assumes s: "session_wf s" "it s = Some b" and c: "well_formed_command n args"
    and rule: "rule_of n (map arg_nat args) = Some rule"
  shows "\<exists>msg s' b' effs. eval edit (LStr n) args s = (Inr (Some msg), s', effs) \<and> it s' = Some b' \<and>
    board_wf b' \<and> refines b' b \<and>
    (msg = ''yes'' \<and> ncands b' < ncands b \<or>
     msg = ''no'' \<and> (\<forall>p. valid_pos p \<longrightarrow> cands (bget b' p) = cands (bget b p)) \<or>
     msg = ''Board inconsistent'' \<and> (\<forall>g. \<not> solution_of g b))"
proof -
  from c obtain cmd where cmd: "map_of cmds n = Some cmd" "length (map arg_nat args) = nargs cmd" "list_all is_digit_arg args"
    by (auto simp: well_formed_command_def)
  have R: "board_rule rule" by (rule rule_of_rule [OF cmd(1,2) arg_nat_range [OF cmd(3)] rule])
  have wf: "board_wf b" using s by (rule session_wf_it)
  have op: "run_op n (map arg_nat args) (push s) =
      (map_sum id (\<lambda>e. (e, None)) (fst (rule b)), (push s)\<lparr>it := Some (snd (rule b))\<rparr>)"
    using rule s(2) by (simp add: run_op_def on_it_def flag_only_eq)
  note shrink = board_rule.shrinks [OF R wf, unfolded shrink_to_def]
  have "ncands (snd (rule b)) \<le> ncands b" using shrink by (auto intro: refines_ncands)
  then have same: "cands (bget (snd (rule b)) p) = cands (bget b p)" if "\<not> ncands (snd (rule b)) < ncands b" "valid_pos p" for p
    using refines_bget_same [of "snd (rule b)" b p] shrink wf that \<open>ncands (snd (rule b)) \<le> ncands b\<close> by simp
  show ?thesis
    using eval_command [OF c _ op, of edit] s(2) shrink board_rule.sound [OF R wf] same
    by (cases "fst (rule b)") (auto simp: sound_to_def)
qed

theorem eval_rule_answer_witness:
  "\<exists>msg s' b' effs. eval (\<lambda>_. None) (LStr ''s'') [LNum 1, LNum 2, LNum 3] blank_session = (Inr (Some msg), s', effs) \<and>
    it s' = Some b' \<and> board_wf b' \<and> refines b' mk_board \<and>
    (msg = ''yes'' \<and> ncands b' < ncands mk_board \<or>
     msg = ''no'' \<and> (\<forall>p. valid_pos p \<longrightarrow> cands (bget b' p) = cands (bget mk_board p)))"
proof -
  have "rule_of ''s'' (map arg_nat [LNum 1, LNum 2, LNum 3]) = Some (one_place_in_square 1 2 3)" by (simp add: rule_of_def)
  from eval_rule_answer [OF _ _ well_formed_s this, of blank_session mk_board "\<lambda>_. None"]
  show ?thesis using solution_of_mk_board [OF sample_grid_valid] by auto
qed

text \<open>C5: Undo.  When a rule command (``all'' included) has changed the current board, the command ``back''
  brings back the board as it was before, and answers ``yes''.\<close>

theorem back_undoes_rule:
  assumes s: "session_wf s" "it s = Some b" and c: "well_formed_command n args"
    and rule: "command_rule n (map arg_nat args) = Some rule"
    and s': "s' = fst (snd (eval edit (LStr n) args s))" "it s' \<noteq> Some b"
  shows "\<exists>effs s''. eval edit (LStr ''back'') [] s' = (Inr (Some ''yes''), s'', effs) \<and> it s'' = Some b"
proof -
  obtain msg where op: "run_op n (map arg_nat args) (push s) =
      (map_sum id (\<lambda>e. (e, msg)) (fst (rule b)), (push s)\<lparr>it := Some (snd (rule b))\<rparr>)"
    using run_op_rule [OF rule, of "push s" b] s(2) c by (auto simp: well_formed_command_def)
  have e: "s' = (push s)\<lparr>it := Some (snd (rule b))\<rparr>"
    using s'(1) eval_command [OF c _ op, of edit] s(2) by simp
  have wf': "session_wf s'"
    unfolding s'(1) by (rule eval_command_ok [OF c s(2,1), of edit]) simp
  have h: "last_option (history s') = Some b" using push_eq [OF s] by (auto simp: e)
  have i': "it s' = Some (snd (rule b))" by (simp add: e)
  have p: "push s' = s'\<lparr>history := history s' @ [snd (rule b)]\<rparr>"
    using push_eq [OF wf' i'] h s'(2) i' by simp
  have "back_board (push s') = (s'\<lparr>history := butlast (history s'), it := Some b\<rparr>, True)"
    unfolding back_board_eq [OF session_wf_push [OF wf']] by (simp add: p h i')
  moreover have "well_formed_command ''back'' []"
    using nargs_table [of "''back''"] by (auto simp: well_formed_command_def)
  ultimately show ?thesis using eval_command [of "''back''" "[]" s'] i' by (simp add: run_op_simps)
qed

text \<open>A board on which a rule makes progress: one candidate is left in the first cell.\<close>

definition single_board :: board where
  "single_board = bset mk_board (1, 1, 1, 1) (fst (cell_singleton 1 mk_cell))"

lemma single_board_wf: "board_wf single_board"
  unfolding single_board_def by (intro bset_wf mk_board_wf singleton_ok) (simp add: cell_wf_def mk_cell_def)

lemma single_board_d: "snd (d_op 1 1 1 single_board) \<noteq> single_board"
  by code_simp

theorem back_undoes_rule_witness:
  "\<exists>effs s''. eval (\<lambda>_. None) (LStr ''back'') []
     (fst (snd (eval (\<lambda>_. None) (LStr ''d'') [LNum 1, LNum 1, LNum 1] (blank_session\<lparr>it := Some single_board\<rparr>)))) =
       (Inr (Some ''yes''), s'', effs) \<and> it s'' = Some single_board"
proof (rule back_undoes_rule)
  let ?s = "blank_session\<lparr>it := Some single_board\<rparr>"
  show c: "well_formed_command ''d'' [LNum 1, LNum 1, LNum 1]"
    using nargs_table [of "''d''"] by (auto simp: well_formed_command_def)
  show r: "command_rule ''d'' (map arg_nat [LNum 1, LNum 1, LNum 1]) = Some (d_op 1 1 1)"
    by (simp add: command_rule_def rule_of_def)
  show "session_wf ?s" using single_board_wf by (simp add: session_wf_def boards_def)
  obtain msg where "run_op ''d'' (map arg_nat [LNum 1, LNum 1, LNum 1]) (push ?s) =
      (map_sum id (\<lambda>e. (e, msg)) (fst (d_op 1 1 1 single_board)), (push ?s)\<lparr>it := Some (snd (d_op 1 1 1 single_board))\<rparr>)"
    using run_op_rule [OF r, of "push ?s" single_board] c by (auto simp: well_formed_command_def)
  from eval_command [OF c _ this, of "\<lambda>_. None"]
  show "it (fst (snd (eval (\<lambda>_. None) (LStr ''d'') [LNum 1, LNum 1, LNum 1] ?s))) \<noteq> Some single_board"
    using single_board_d by simp
qed simp_all

subsection \<open>Saving and loading\<close>

text \<open>C6: Saving a board and loading the text.  Either loading succeeds, with an empty history and a board that keeps every solution of
  the saved one, and every cell that was determined is determined with the same digit again or has no candidate at all; on a board with a solution the
  former is the case for all of them.  Or the board has no solution, and loading refuses its text as inconsistent and leaves the session as it was.\<close>

theorem load_save:
  assumes s: "session_wf s" "it s = Some b"
  shows "\<exists>str. save s = Inr str \<and>
    (load str s0 = (Inl (LuaError ''Board inconsistent''), s0, []) \<and> (\<forall>g. \<not> solution_of g b) \<or>
     (\<exists>s' effs b'. load str s0 = (Inr (), s', effs) \<and> it s' = Some b' \<and> history s' = [] \<and> board_wf b' \<and>
       (\<forall>g. solution_of g b \<longrightarrow> solution_of g b') \<and>
       (\<forall>p. valid_pos p \<longrightarrow> determined (bget b p) \<longrightarrow> cands (bget b p) \<noteq> {} \<longrightarrow>
          determined (bget b' p) \<and> cands (bget b' p) = cands (bget b p) \<or> cands (bget b' p) = {} \<and> (\<forall>g. \<not> solution_of g b))))"
proof -
  have wf: "board_wf b" using s by (rule session_wf_it)
  note r = board_of_string_board [OF wf strip_board_show [OF wf]]
  show ?thesis
  proof (cases "board_of_string (board_show b)")
    case (Inl m)
    with r have "m = LuaError ''Board inconsistent''" "\<forall>g. \<not> solution_of g b" by auto
    with Inl show ?thesis using s(2) by (simp add: save_def load_def)
  next
    case (Inr b')
    with r s(2) show ?thesis by (auto simp: save_def load_def)
  qed
qed

theorem load_save_witness:
  "\<exists>str s' effs b'. save blank_session = Inr str \<and> load str session_init = (Inr (), s', effs) \<and> it s' = Some b' \<and>
    history s' = [] \<and> solution_of sample_grid b'"
  using load_save [of blank_session mk_board session_init] solution_of_mk_board [OF sample_grid_valid] by auto

subsection \<open>The history\<close>

text \<open>No board of the history is followed by an equal one.\<close>

definition history_ok :: "session \<Rightarrow> bool" where
  "history_ok s \<longleftrightarrow> (\<forall>i. Suc i < length (history s) \<longrightarrow> history s ! i \<noteq> history s ! Suc i)"

definition no_repeat :: "board list \<Rightarrow> bool" where
  "no_repeat bs \<longleftrightarrow> (\<forall>i. Suc i < length bs \<longrightarrow> bs ! i \<noteq> bs ! Suc i)"

lemma history_ok_no_repeat: "history_ok s \<longleftrightarrow> no_repeat (history s)"
  by (simp add: history_ok_def no_repeat_def)

lemma no_repeat_append:
  assumes "no_repeat bs" "last_option bs \<noteq> Some b"
  shows "no_repeat (bs @ [b])"
  unfolding no_repeat_def
proof (intro allI impI)
  fix i assume i: "Suc i < length (bs @ [b])"
  show "(bs @ [b]) ! i \<noteq> (bs @ [b]) ! Suc i"
  proof (cases "Suc i < length bs")
    case True
    then show ?thesis using assms(1) by (simp add: nth_append no_repeat_def)
  next
    case False
    with i have l: "length bs = Suc i" by simp
    then have "bs \<noteq> []" by auto
    with l have "bs ! i = last bs" by (simp add: last_conv_nth)
    with l assms(2) \<open>bs \<noteq> []\<close> show ?thesis by (auto simp: nth_append last_option_def)
  qed
qed

lemma history_ok_push:
  assumes "session_wf s" "history_ok s"
  shows "history_ok (push s)"
proof (cases "it s")
  case (Some b)
  show ?thesis using assms(2) no_repeat_append [of "history s" b]
    unfolding push_eq [OF assms(1) Some] history_ok_no_repeat by simp
qed (simp add: push_def assms(2))

lemma history_ok_butlast: "history_ok s \<Longrightarrow> history_ok (s\<lparr>history := butlast (history s)\<rparr>)"
  by (auto simp: history_ok_def nth_butlast)

lemma history_ok_it [simp]: "history_ok (s\<lparr>it := x\<rparr>) = history_ok s" "history_ok (s\<lparr>details := d\<rparr>) = history_ok s"
  by (simp_all add: history_ok_def)

lemma history_ok_back:
  assumes "session_wf s" "history_ok s"
  shows "history_ok (fst (back_board s))"
proof -
  have 1: "history_ok (s\<lparr>history := butlast (history s)\<rparr>)" by (rule history_ok_butlast [OF assms(2)])
  have 2: "history_ok (s\<lparr>history := butlast (butlast (history s))\<rparr>)" using history_ok_butlast [OF 1] by simp
  from 1 2 assms(2) show ?thesis unfolding back_board_eq [OF assms(1)]
    by (auto split: option.split simp: history_ok_def)
qed

lemma history_ok_run_op:
  assumes cmd: "map_of cmds n = Some cmd" and s: "session_wf s" "it s = Some b" "history_ok s"
  shows "history_ok (snd (run_op n args s))"
proof (cases "command_rule n args")
  case (Some rule)
  from run_op_rule [OF Some s(2)] cmd show ?thesis by (auto simp: s(3))
next
  case None
  have bk: "history_ok (fst (back_board s))" by (rule history_ok_back [OF s(1,3)])
  have "session_wf ((fst (back_board s))\<lparr>it := it s\<rparr>)"
    using wf_subset [OF s(1)] back_boards [of s] by (auto simp: boards_def session_wf_def)
  from history_ok_push [OF this] bk have "history_ok (fst (swap s))" by (simp add: swap_def Let_def)
  moreover have "history_ok (fst (new_board s))" using history_ok_push [OF s(1,3)] by (simp add: new_board_def)
  ultimately show ?thesis using other_commands [OF cmd None] bk s(2,3)
    unfolding list.set by (elim insertE emptyE; simp add: run_op_simps on_it_def)
qed

text \<open>C12: No command puts the same board on the history twice in a row.\<close>

theorem eval_history_ok:
  assumes s: "session_wf s" "history_ok s"
  shows "history_ok (fst (snd (eval edit name args s)))"
proof (cases name)
  case (LNum i)
  with s show ?thesis by (simp add: eval_def cmd_lookup_def)
next
  case (LStr n)
  consider (ok) b where "well_formed_command n args" "it s = Some b" | (edit) "n = ''edit''"
    | (no) "\<not> (well_formed_command n args \<and> it s \<noteq> None)" "n \<noteq> ''edit''" by fastforce
  then show ?thesis
  proof cases
    case ok
    then obtain cmd where cmd: "map_of cmds n = Some cmd" by (auto simp: well_formed_command_def)
    obtain r s' where r: "run_op n (map arg_nat args) (push s) = (r, s')" by (cases "run_op n (map arg_nat args) (push s)")
    have "it (push s) = Some b" using ok by simp
    from history_ok_run_op [OF cmd session_wf_push [OF s(1)] this history_ok_push [OF s]] r
    have "history_ok s'" by (metis snd_conv)
    then show ?thesis using eval_command [OF ok(1) _ r, of edit] ok(2) by (simp add: LStr)
  next
    case edit
    then show ?thesis using history_ok_push [OF s] s
      by (auto simp: LStr eval_edit do_edit_def Let_def split: option.split sum.split)
  next
    case no
    then show ?thesis using eval_rejected [OF no, of edit] s by (simp add: LStr)
  qed
qed

theorem eval_history_ok_witness:
  "history_ok (fst (snd (eval (\<lambda>_. None) (LStr ''new'') [] blank_session)))"
  by (rule eval_history_ok) (simp_all add: history_ok_def)

end
