(* ===== verification/Main_Props.thy ===== *)
theory Main_Props
  imports Main_Window Lua_Session_Props
begin

text \<open>
  Properties of the program as a whole: the board widget always shows the current board of the script, commands are
  split into words, and what loading, saving and editing do to the window.
\<close>

subsection \<open>Cell values as sets of bits\<close>

lemma cell_val_horner: "cell_val c = horner_sum of_bool 2 (poss c)"
proof -
  let ?n = "length (poss c)"
  have "map (cget c) (for1 ?n) = poss c"
    by (rule nth_equalityI) (simp_all add: cget_def)
  moreover have "cell_val c = horner_sum of_bool 2 (map (cget c) (for1 ?n))"
    unfolding cell_val_def horner_sum_foldr foldr_map foldr_conv_fold [symmetric]
    by (rule foldr_cong) (auto simp: foldr_map)
  ultimately show ?thesis by simp
qed

lemma bit_cell_val: "cell_wf c \<Longrightarrow> bit (of_int (cell_val c) :: cint) i \<longleftrightarrow> Suc i \<in> cands c"
  by (auto simp: cell_val_horner bit_simps bit_horner_sum_bit_iff cell_wf_def cands_def cget_def)

lemma cell_val_masked: "cell_wf c \<Longrightarrow> of_int (cell_val c) AND ALL_bits = (of_int (cell_val c) :: cint)"
  by (rule bit_eqI) (auto simp: bit_simps ALL_bits_mask cell_val_horner bit_horner_sum_bit_iff cell_wf_def)

lemma cell_val_0: "cell_wf c \<Longrightarrow> cell_val c = 0 \<longleftrightarrow> cands c = {}"
  by (auto simp: cell_val_sum sum_nonneg_eq_0_iff)

lemma minus_1_masked: "(- 1 :: cint) AND ALL_bits = ALL_bits"
  by simp

subsection \<open>What the widget shows\<close>

text \<open>The value and the mode that a cell of the board is shown with.\<close>

definition cell_view :: "bool \<Rightarrow> cell \<Rightarrow> cint \<times> cint" where
  "cell_view detailed c =
     (if cands c \<noteq> {} \<and> \<not> detailed \<and> \<not> determined c then ALL_bits else of_int (cell_val c),
      if determined c then 0 else 1)"

text \<open>The widget shows the current board, or is blank when there is none.\<close>

definition displays :: "session \<Rightarrow> sboard \<Rightarrow> bool" where
  "displays s w \<longleftrightarrow> (\<forall>r1 c1 r2 c2. valid_pos (r1, c1, r2, c2) \<longrightarrow>
     get_widget (3 * (r1 - 1) + (r2 - 1)) (3 * (c1 - 1) + (c2 - 1)) w =
       (case it s of Some b \<Rightarrow> cell_view (details s) (bget b (r1, c1, r2, c2)) | None \<Rightarrow> (ALL_bits, 0)))"

fun place :: "pos \<Rightarrow> nat \<times> nat" where
  "place (r1, c1, r2, c2) = (3 * (r1 - 1) + (r2 - 1), 3 * (c1 - 1) + (c2 - 1))"

lemma place_range: "valid_pos p \<Longrightarrow> fst (place p) < 9 \<and> snd (place p) < 9"
  by (cases p) (auto simp: valid_pos_def)

lemma distinct_places: "distinct (map place storage_order)"
  by code_simp

lemma place_inj: "valid_pos p \<Longrightarrow> valid_pos q \<Longrightarrow> place p = place q \<Longrightarrow> p = q"
  using distinct_places by (auto simp: distinct_map set_storage_order inj_on_def simp del: split_paired_All)

lemma zero_based_index_place:
  "valid_pos (r1, c1, r2, c2) \<Longrightarrow>
    zero_based_index r1 r2 = int (3 * (r1 - 1) + (r2 - 1)) \<and> zero_based_index c1 c2 = int (3 * (c1 - 1) + (c2 - 1))"
  by (auto simp: valid_pos_def zero_based_index_def of_nat_diff)

text \<open>The calls of \<open>set_val\<close> for all positions are a \<open>put_all\<close>.\<close>

lemma perform_set_vals:
  assumes "\<And>p. p \<in> set ps \<Longrightarrow> f p = (int (fst (place p)), int (snd (place p)), fst (v p), snd (v p))"
  shows "g_board (perform_all (map (\<lambda>p. SetVal (f p)) ps) g) =
    widget.put_all (map (\<lambda>p. (place p, (of_int (fst (v p)), if snd (v p) then 1 else 0))) ps) (g_board g)"
  using assms
proof (induction ps arbitrary: g)
  case (Cons p ps)
  obtain r c where rc: "place p = (r, c)" by (cases "place p")
  have "g_board (perform (SetVal (f p)) g) =
      put_widget r c (of_int (fst (v p)), if snd (v p) then 1 else 0) (g_board g)"
    using Cons.prems [of p] rc by (cases "v p") (simp add: put_widget_def interp_set_val_def)
  with Cons rc show ?case by (simp add: perform_all_def widget.put_all_def)
qed (simp add: perform_all_def widget.put_all_def)

lemma perform_storage:
  assumes wf: "sboard_wf e (g_board g)"
    and f: "\<And>p. valid_pos p \<Longrightarrow> f p = (int (fst (place p)), int (snd (place p)), fst (v p), snd (v p))"
    and p: "valid_pos p"
  shows "get_widget (fst (place p)) (snd (place p)) (g_board (perform_all (map (\<lambda>p. SetVal (f p)) storage_order) g)) =
    (of_int (fst (v p)) AND ALL_bits, if snd (v p) then 1 else 0)"
    and "sboard_wf e (g_board (perform_all (map (\<lambda>p. SetVal (f p)) storage_order) g))"
proof -
  let ?calls = "map (\<lambda>p. (place p, (of_int (fst (v p)) :: cint, if snd (v p) then 1 else 0 :: cint))) storage_order"
  have eq: "g_board (perform_all (map (\<lambda>p. SetVal (f p)) storage_order) g) = widget.put_all ?calls (g_board g)"
    by (rule perform_set_vals) (simp add: f set_storage_order)
  have "map fst ?calls = map place storage_order" by simp
  with distinct_places have d: "distinct (map fst ?calls)" by metis
  have "\<forall>((r, c), v)\<in>set ?calls. r < 9 \<and> c < 9"
    using place_range by (fastforce simp: set_storage_order)
  moreover have "map_of ?calls (place p) = Some (of_int (fst (v p)), if snd (v p) then 1 else 0)"
    using p by (intro map_of_is_SomeI [OF d]) (auto simp: set_storage_order)
  ultimately show "get_widget (fst (place p)) (snd (place p))
      (g_board (perform_all (map (\<lambda>p. SetVal (f p)) storage_order) g)) =
    (of_int (fst (v p)) AND ALL_bits, if snd (v p) then 1 else 0)"
    using widget.get_put_all [OF wf d, of "fst (place p)" "snd (place p)"] place_range [OF p] unfolding eq by simp
  show "sboard_wf e (g_board (perform_all (map (\<lambda>p. SetVal (f p)) storage_order) g))"
    unfolding eq by (rule widget.ok_put_all [OF wf])
qed

lemma displays_place:
  "displays s w \<longleftrightarrow> (\<forall>p. valid_pos p \<longrightarrow> get_widget (fst (place p)) (snd (place p)) w =
     (case it s of Some b \<Rightarrow> cell_view (details s) (bget b p) | None \<Rightarrow> (ALL_bits, 0)))"
  by (auto simp: displays_def)

lemma displays_cong: "it s' = it s \<Longrightarrow> details s' = details s \<Longrightarrow> displays s' w \<longleftrightarrow> displays s w"
  unfolding displays_def by (simp only:)

lemma print_item_place:
  assumes "valid_pos p" "board_wf b"
  shows "print_item d b p = (int (fst (place p)), int (snd (place p)),
      if cands (bget b p) \<noteq> {} \<and> \<not> d \<and> \<not> determined (bget b p) then - 1 else cell_val (bget b p), \<not> determined (bget b p))"
proof -
  obtain r1 c1 r2 c2 where p: "p = (r1, c1, r2, c2)" by (cases p)
  show ?thesis using assms(1) zero_based_index_place [of r1 c1 r2 c2] cell_val_0 [OF bget_wf [OF assms(2,1)]]
    unfolding p by (auto simp: Let_def)
qed

lemma displays_print_all:
  assumes g: "sboard_wf e (g_board g)" and b: "board_wf b" "it s = Some b"
  shows "displays s (g_board (perform_all (map SetVal (print_all (details s) b)) g))"
    and "sboard_wf e (g_board (perform_all (map SetVal (print_all (details s) b)) g))"
proof -
  let ?v = "\<lambda>p. (if cands (bget b p) \<noteq> {} \<and> \<not> details s \<and> \<not> determined (bget b p) then - 1
      else cell_val (bget b p), \<not> determined (bget b p))"
  have eq: "map SetVal (print_all (details s) b) = map (\<lambda>p. SetVal (print_item (details s) b p)) storage_order"
    by (simp add: print_all_def)
  note item = print_item_place [OF _ b(1), of _ "details s"]
  have "cell_view (details s) (bget b p) = (of_int (fst (?v p)) AND ALL_bits, if snd (?v p) then 1 else 0)"
    if "valid_pos p" for p
    using cell_val_masked [OF bget_wf [OF b(1) that]] by (simp add: cell_view_def)
  with perform_storage(1) [OF g, of "print_item (details s) b" ?v] item b(2)
  show "displays s (g_board (perform_all (map SetVal (print_all (details s) b)) g))"
    unfolding displays_place eq by (simp del: split_paired_All)
  have "valid_pos (1, 1, 1, 1)" by (simp add: valid_pos_def)
  from perform_storage(2) [OF g _ this, of "print_item (details s) b" ?v] item
  show "sboard_wf e (g_board (perform_all (map SetVal (print_all (details s) b)) g))"
    unfolding eq by simp
qed

lemma displays_blank:
  assumes g: "sboard_wf e (g_board g)" and s: "it s = None"
  shows "displays s (g_board (perform_all (map SetVal print_blank_board) g))"
    and "sboard_wf e (g_board (perform_all (map SetVal print_blank_board) g))"
proof -
  let ?f = "\<lambda>(r1, c1, r2, c2). (zero_based_index r1 r2, zero_based_index c1 c2, - 1, False)"
  have eq: "map SetVal print_blank_board = map (\<lambda>p. SetVal (?f p)) storage_order"
    by (simp add: print_blank_board_def)
  have f: "?f p = (int (fst (place p)), int (snd (place p)), fst (- 1, False), snd (- 1, False))" if "valid_pos p" for p
    using that zero_based_index_place by (cases p) simp
  show "displays s (g_board (perform_all (map SetVal print_blank_board) g))"
    unfolding displays_place eq using perform_storage(1) [OF g f] s by (simp del: split_paired_All)
  have "valid_pos (1, 1, 1, 1)" by (simp add: valid_pos_def)
  from perform_storage(2) [OF g f this]
  show "sboard_wf e (g_board (perform_all (map SetVal print_blank_board) g))" unfolding eq by blast
qed

lemma perform_show [simp]: "g_board (perform_all [ShowText t] g) = g_board g" "perform_all [] g = g"
  by (simp_all add: perform_all_def interp_show_def)

subsection \<open>Every command leaves the window showing the current board\<close>

lemma do_help_effs: "\<exists>r effs. do_help t s = (r, s, effs) \<and> (effs = [] \<or> (\<exists>t. effs = [ShowText t]))"
  by (simp add: do_help_def split: option.split)

lemma eval_rejected_effs:
  assumes "\<not> (well_formed_command n args \<and> it s \<noteq> None)" and n: "n \<noteq> ''edit''"
    and e: "eval ed (LStr n) args s = (r, s', effs)"
  shows "s' = s \<and> (effs = [] \<or> (\<exists>t. effs = [ShowText t]) \<or> it s = None \<and> effs = map SetVal print_blank_board)"
proof (cases "map_of cmds n")
  case None
  then have "cmd_lookup (LStr n) = None" by (simp add: cmd_lookup_def)
  then show ?thesis
    using n e do_help_effs [of "case args of [] \<Rightarrow> None | t # _ \<Rightarrow> Some t" s] do_help_effs [of "Some (LStr n)" s]
    by (auto simp: eval_def split: if_splits)
next
  case (Some cmd)
  then have l: "cmd_lookup (LStr n) = Some (n, cmd)" by (simp add: cmd_lookup_def)
  have "length args \<noteq> nargs cmd \<or> \<not> list_all is_digit_arg args \<or> it s = None"
    using assms(1) Some by (auto simp: well_formed_command_def)
  then show ?thesis using e do_help_effs [of "Some (LStr n)" s] unfolding eval_def l option.case prod.case
    by (auto split: if_splits)
qed

text \<open>The state of the script and of the widget agree.\<close>

definition in_sync :: "session \<Rightarrow> sboard \<Rightarrow> bool" where
  "in_sync s w \<longleftrightarrow> session_wf s \<and> sboard_wf False w \<and> displays s w"

lemma in_sync_print_all:
  "session_wf s \<Longrightarrow> it s = Some b \<Longrightarrow> sboard_wf False (g_board g) \<Longrightarrow>
    in_sync s (g_board (perform_all (map SetVal (print_all (details s) b)) g))"
  unfolding in_sync_def using displays_print_all session_wf_it by blast

lemma eval_in_sync:
  assumes sync: "in_sync s (g_board g)" and e: "eval ed name args s = (r, s', effs)"
  shows "in_sync s' (g_board (perform_all effs g))"
proof (cases name)
  case (LNum i)
  with assms show ?thesis by (auto simp: eval_def cmd_lookup_def)
next
  case (LStr n)
  have s: "session_wf s" and g: "sboard_wf False (g_board g)" using sync by (simp_all add: in_sync_def)
  consider (ok) b where "well_formed_command n args" "it s = Some b" | (edit) "n = ''edit''"
    | (no) "\<not> (well_formed_command n args \<and> it s \<noteq> None)" "n \<noteq> ''edit''" by fastforce
  then show ?thesis
  proof cases
    case ok
    obtain r0 s0 where r: "run_op n (map arg_nat args) (push s) = (r0, s0)" by (cases "run_op n (map arg_nat args) (push s)")
    note ev = eval_command [OF ok(1) _ r, of ed]
    show ?thesis
    proof (rule eval_command_ok [OF ok s, of ed])
      fix r1 s1 assume "session_wf s1" "it s1 \<noteq> None" "fst (snd (eval ed (LStr n) args s)) = s1"
      then obtain b1 where "session_wf s'" "it s' = Some b1" "effs = map SetVal (print_all (details s') b1)"
        using e ev ok(2) by (auto simp: LStr)
      then show ?thesis using in_sync_print_all g by blast
    qed
  next
    case edit
    then have d: "do_edit ed s = (r, s', effs)" using e by (simp add: LStr eval_edit)
    have wf': "session_wf s'" using do_edit_wf [OF s, of ed] d by simp
    show ?thesis
    proof (cases "\<exists>b. it s' = Some b \<and> effs = map SetVal (print_all (details s') b)")
      case True
      then show ?thesis using in_sync_print_all [OF wf' _ g] by blast
    next
      case False
      with d have "it s' = it s" "details s' = details s" "effs = []"
        by (auto simp: do_edit_def Let_def split: option.splits sum.splits)
      then show ?thesis using sync wf' displays_cong [of s' s] by (simp add: in_sync_def)
    qed
  next
    case no
    from eval_rejected_effs [OF no, of ed r s' effs] e show ?thesis
      using sync displays_blank [OF g] by (auto simp: LStr in_sync_def)
  qed
qed

lemma interp_eval_in_sync:
  assumes "in_sync (lua L) (g_board g)" "interp_eval ov u cmd (L, g) = (msg, L', g')"
  shows "in_sync (lua L') (g_board g')"
  using assms eval_in_sync [OF assms(1)]
  by (auto simp: interp_eval_def Let_def split: if_splits list.splits prod.splits)

lemma interp_load_in_sync:
  assumes sync: "in_sync (lua L) (g_board g)" and l: "interp_load board (L, g) = (msg, L', g')"
  shows "in_sync (lua L') (g_board g')"
proof (cases "board_of_string (c_str board)")
  case (Inl m)
  with sync l show ?thesis by (auto simp: interp_load_def load_def)
next
  case (Inr b)
  let ?s = "(lua L)\<lparr>it := Some b, history := []\<rparr>"
  have "session_wf ?s" using board_of_string_wf [OF Inr] by (simp add: session_wf_def boards_def)
  moreover have "sboard_wf False (g_board g)" using sync by (simp add: in_sync_def)
  ultimately show ?thesis using in_sync_print_all [of ?s b g] Inr l by (auto simp: interp_load_def load_def)
qed

definition window_ok :: "window \<Rightarrow> bool" where
  "window_ok w \<longleftrightarrow> in_sync (lua (w_interp w)) (g_board (w_gui w))"

lemma set_status_fields [simp]:
  "w_interp (set_status m w) = w_interp w" "w_gui (set_status m w) = w_gui w" "w_entry (set_status m w) = w_entry w"
  by (simp_all add: set_status_def split: option.split)

lemma load_file_ok: "window_ok w \<Longrightarrow> window_ok (load_file f w)"
  unfolding window_ok_def load_file_def
  by (cases f) (auto split: prod.split intro: interp_load_in_sync)

lemma entry_callback_ok: "window_ok w \<Longrightarrow> window_ok (entry_callback ov u w)"
  unfolding window_ok_def entry_callback_def
  by (auto split: prod.split intro: interp_eval_in_sync)

lemma save_file_ok: "window_ok w \<Longrightarrow> save_file f w = Done (w', t) \<Longrightarrow> window_ok w'"
  by (auto simp: window_ok_def save_file_def interp_save_def Let_def split: sum.splits option.splits if_splits)

lemma initial_ok: "main created loaded argv1 = Inr w \<Longrightarrow> window_ok w"
proof -
  assume m: "main created loaded argv1 = Inr w"
  let ?w = "\<lparr>w_interp = \<lparr>lua = session_init, lua_top = 0\<rparr>, w_gui = \<lparr>g_board = sudoku_board_new False, g_shown = []\<rparr>,
    w_status = [], w_entry = []\<rparr>"
  have "displays session_init (sudoku_board_new False)"
    unfolding displays_place using place_range
    by (auto simp: session_init_def get_widget_def sb_cell_new simp del: split_paired_All)
  then have "window_ok ?w"
    by (simp add: window_ok_def in_sync_def sboard_wf_new session_init_def session_wf_def boards_def)
  then show "window_ok w" using m load_file_ok
    by (auto simp: main_def interp_init_def clone_def Let_def split: if_splits option.splits)
qed

lemma window_ok_simps [simp]:
  "window_ok (w\<lparr>w_entry := x\<rparr>) = window_ok w" "window_ok (help_intro w) = window_ok w"
  "window_ok (help_about w) = window_ok w"
  by (simp_all add: window_ok_def help_intro_def help_about_def)

lemma handle_ok:
  assumes "window_ok w" "handle ov e w = Done w'"
  shows "window_ok w'"
proof (cases e)
  case (SaveAs choice)
  with assms show ?thesis using save_file_ok
    by (auto simp: save_file_as_def split: run.splits option.splits prod.splits)
qed (use assms in \<open>auto simp: open_file_def entry_callback_ok load_file_ok split: option.splits\<close>)

text \<open>C3: In every state the program can reach, after any sequence of commands, edits, file operations
  and help requests, the board widget shows the current board of the script: each cell of the widget has the value and the mode of the
  corresponding cell of the board (a blank one where nothing is to be shown), and the widget
  is blank when there is no board.\<close>

theorem reachable_displays:
  assumes "reachable ov w"
  shows "displays (lua (w_interp w)) (g_board (w_gui w))"
proof -
  have "window_ok w" using assms by induction (blast intro: initial_ok handle_ok)+
  then show ?thesis by (simp add: window_ok_def in_sync_def)
qed

theorem reachable_displays_witness:
  "\<exists>w. main True None None = Inr w \<and> displays (lua (w_interp w)) (g_board (w_gui w))"
proof -
  obtain w where w: "main True None None = Inr w" by (simp add: main_def interp_init_def Let_def)
  then have "reachable (\<lambda>_. 0) w" by (rule reachable.start)
  with w reachable_displays show ?thesis by blast
qed

lemma cell_val_eqI:
  assumes "cell_wf c" "\<And>i. i < 32 \<Longrightarrow> bit (w :: cint) i \<longleftrightarrow> Suc i \<in> cands c"
  shows "of_int (cell_val c) = w"
  by (rule bit_word_eqI) (simp add: bit_cell_val [OF assms(1)] assms(2))

lemma cell_val_single:
  assumes "cell_wf c" "cands c = {d}"
  shows "of_int (cell_val c) = (push_bit (d - 1) 1 :: cint) \<and> d - 1 < 9 \<and> 1 \<le> d"
proof -
  have d: "d \<in> {1..9}" using cands_subset [OF assms(1)] assms(2) by simp
  have "bit (push_bit (d - 1) (1 :: cint)) i \<longleftrightarrow> i = d - 1" if "i < 32" for i using that by (auto simp: bit_simps)
  moreover have "i = d - 1 \<longleftrightarrow> Suc i \<in> cands c" for i unfolding assms(2) using d by (cases d) simp_all
  ultimately have "of_int (cell_val c) = (push_bit (d - 1) 1 :: cint)"
    by (intro cell_val_eqI [OF assms(1)]) metis
  then show ?thesis using d by auto
qed

lemma cell_val_ALL:
  assumes wf: "cell_wf c"
  shows "of_int (cell_val c) = ALL_bits \<longleftrightarrow> cands c = {1..9}"
proof
  assume "of_int (cell_val c) = ALL_bits"
  then have S: "Suc i \<in> cands c \<longleftrightarrow> i < 9" for i using bit_cell_val [OF wf, of i] by (auto simp: ALL_bits_mask bit_simps)
  have "0 \<notin> cands c" by (simp add: cands_def cget_def)
  then have "x \<in> cands c \<longleftrightarrow> x \<in> {1..9}" for x by (cases x) (simp_all add: S Suc_le_eq)
  then show "cands c = {1..9}" by blast
next
  assume "cands c = {1..9}"
  then show "of_int (cell_val c) = ALL_bits"
    by (intro cell_val_eqI [OF wf]) (auto simp: ALL_bits_mask bit_simps)
qed

text \<open>C13: What the user sees in a cell of the widget that shows a board.  A determined cell with one
  candidate shows that digit as a numeral; a cell without candidates shows a question mark; in the normal view every other undetermined
  cell is blank; in the detailed view it shows a dot pattern with one dot for each candidate (a blank
  cell when nothing has been eliminated).  The help text of the program is simpler: it leaves out the question mark, which both views show for an
  undetermined cell without candidates, and the blank cell with all nine candidates in the detailed view.\<close>

theorem draw_shows_cell:
  assumes wf: "cell_wf c" and view: "(s_val sc, s_mode sc) = cell_view detailed c"
  shows "(determined c \<longrightarrow> cands c = {d} \<longrightarrow> texts (draw te sc width height lw) = [[digit_char d]]) \<and>
    (cands c = {} \<longrightarrow> texts (draw te sc width height lw) = [''?'']) \<and>
    (\<not> determined c \<longrightarrow> cands c \<noteq> {} \<longrightarrow> texts (draw te sc width height lw) = [] \<and>
      set (dots (draw te sc width height lw)) = (if detailed \<and> cands c \<noteq> {1..9} then dot_place ` cands c else {}))"
proof (intro conjI impI)
  assume "determined c" "cands c = {d}"
  with cell_val_single [OF wf, of d] view have "s_val sc = push_bit (d - 1) 1" "s_mode sc = 0" "d - 1 < 9" "1 \<le> d"
    by (auto simp: cell_view_def)
  then show "texts (draw te sc width height lw) = [[digit_char d]]"
    unfolding draw_texts_dots(1) by (simp add: glyph_numeral scale_zero_def draw_centered_def digit_char_def Let_def)
next
  assume e: "cands c = {}"
  then have "s_val sc = 0" using view cell_val_0 [OF wf] by (simp add: cell_view_def)
  then show "texts (draw te sc width height lw) = [''?'']"
    unfolding draw_texts_dots(1) by (simp add: draw_glyph_def scale_zero_def draw_centered_def Let_def)
next
  assume u: "\<not> determined c" "cands c \<noteq> {}"
  have glyph: "texts (draw te sc width height lw) = [] \<and>
    set (dots (draw te sc width height lw)) = (if detailed \<and> cands c \<noteq> {1..9} then dot_place ` cands c else {})"
  proof (cases "detailed \<and> cands c \<noteq> {1..9}")
    case True
    then have v: "s_val sc = of_int (cell_val c)" "s_mode sc \<noteq> 0" using view u by (auto simp: cell_view_def)
    have img: "Suc ` {i. i < 9 \<and> bit (s_val sc) i} = cands c"
      using cands_subset [OF wf] by (auto simp: v(1) bit_cell_val [OF wf] image_iff) (metis Suc_le_D Suc_le_eq atLeastAtMost_iff subsetD)
    have "s_val sc \<noteq> 0" using u(2) img by auto
    moreover have "s_val sc \<noteq> ALL_bits" using True cell_val_ALL [OF wf] v(1) by simp
    moreover have "set (map (\<lambda>d. dot_place (Suc d)) (filter (bit (s_val sc)) [0..<9])) = dot_place ` cands c"
      by (simp add: img [symmetric] image_comp comp_def)
    ultimately show ?thesis using True v(2)
      unfolding draw_texts_dots by (simp add: glyph_dots draw_dots_dots draw_dots_texts)
  next
    case False
    then have "s_val sc = ALL_bits" using view u cell_val_ALL [OF wf] by (auto simp: cell_view_def)
    with False show ?thesis unfolding draw_texts_dots by (auto simp: glyph_blank)
  qed
  then show "texts (draw te sc width height lw) = []" by simp
  from glyph show "set (dots (draw te sc width height lw)) =
      (if detailed \<and> cands c \<noteq> {1..9} then dot_place ` cands c else {})" by simp
qed

definition unit_extents :: "string \<Rightarrow> extents" where
  "unit_extents s = \<lparr>e_width = 1, e_height = 1, x_bearing = 0, y_bearing = 0\<rparr>"

definition numeral_cell :: cell where
  "numeral_cell = (fst (cell_singleton 7 mk_cell))\<lparr>determined := True\<rparr>"

lemma numeral_seven: "digit_char 7 = CHR ''7''"
  by code_simp

theorem draw_shows_cell_witness:
  "texts (draw unit_extents (zero_cell\<lparr>s_val := push_bit 6 1\<rparr>) 30 30 2) = [''7'']"
proof -
  let ?sc = "zero_cell\<lparr>s_val := push_bit 6 1\<rparr>"
  have wf: "cell_wf numeral_cell" by (simp add: numeral_cell_def cell_wf_def mk_cell_def)
  have c: "cands numeral_cell = {7}" "determined numeral_cell"
    using cands_singleton [of 7 mk_cell] cands_mk_cell by (auto simp: numeral_cell_def cands_def)
  have "(s_val ?sc, s_mode ?sc) = cell_view False numeral_cell"
    using cell_val_single [OF wf c(1)] c by (simp add: cell_view_def zero_cell_def)
  from draw_shows_cell [OF wf this, of 7 unit_extents 30 30 2] c show ?thesis
    by (simp, simp add: numeral_seven)
qed

subsection \<open>Command lines\<close>

lemma eval_loop_word: "\<forall>c\<in>set w. c \<noteq> CHR '' '' \<Longrightarrow> eval_loop ov w = [push_item ov w]"
proof -
  assume "\<forall>c\<in>set w. c \<noteq> CHR '' ''"
  then have "dropWhile (\<lambda>c. c \<noteq> CHR '' '') w = []" by simp
  then show ?thesis by (subst eval_loop.simps) (simp only: list.case)
qed

lemma eval_loop_Cons:
  assumes "\<forall>c\<in>set w. c \<noteq> CHR '' ''" and rest: "skip_spaces rest \<noteq> []"
  shows "eval_loop ov (w @ CHR '' '' # rest) = push_item ov w # eval_loop ov (skip_spaces rest)"
proof -
  have "dropWhile (\<lambda>c. c \<noteq> CHR '' '') (w @ CHR '' '' # rest) = CHR '' '' # rest"
    "takeWhile (\<lambda>c. c \<noteq> CHR '' '') (w @ CHR '' '' # rest) = w"
    using assms(1) by (simp_all add: dropWhile_append takeWhile_append)
  then show ?thesis by (subst eval_loop.simps) (simp add: rest)
qed

text \<open>Words separated by spaces: before each word but the first at least one, and any number at
  the end.\<close>

fun spaced :: "(nat \<times> string) list \<Rightarrow> string" where
  "spaced [] = []"
| "spaced ((n, w) # rest) = replicate n CHR '' '' @ w @ (if rest = [] then [] else CHR '' '' # spaced rest)"

lemma skip_replicate [simp]: "skip_spaces (replicate n CHR '' '' @ s) = skip_spaces s"
  by (induction n) (simp_all add: skip_spaces_def)

lemma skip_word: "w \<noteq> [] \<Longrightarrow> \<forall>c\<in>set w. c \<noteq> CHR '' '' \<Longrightarrow> skip_spaces (w @ s) = w @ s"
  by (cases w) (simp_all add: skip_spaces_def)

text \<open>A command line is split at its spaces: however many spaces stand before and between the words, the
  script receives exactly the words, each converted by \<open>push_item\<close>.\<close>

theorem eval_loop_words:
  assumes "ws \<noteq> []" "\<forall>(n, w)\<in>set ws. w \<noteq> [] \<and> (\<forall>c\<in>set w. c \<noteq> CHR '' '')"
  shows "eval_loop ov (skip_spaces (spaced ws)) = map (\<lambda>(n, w). push_item ov w) ws"
  using assms
proof (induction ws)
  case (Cons p ws)
  obtain n w where p: "p = (n, w)" by (cases p)
  with Cons.prems have w: "w \<noteq> []" "\<forall>c\<in>set w. c \<noteq> CHR '' ''" by auto
  show ?case
  proof (cases "ws = []")
    case True
    with p w show ?thesis using skip_word [OF w, of "[]"] by (simp add: eval_loop_word)
  next
    case False
    with Cons have IH: "eval_loop ov (skip_spaces (spaced ws)) = map (\<lambda>(n, w). push_item ov w) ws" by simp
    obtain n' w' ws' where ws: "ws = (n', w') # ws'" using False by (cases ws) auto
    with Cons.prems have "w' \<noteq> []" "\<forall>c\<in>set w'. c \<noteq> CHR '' ''" by auto
    then have "skip_spaces (spaced ws) \<noteq> []" by (simp add: ws skip_word)
    from eval_loop_Cons [OF w(2) this, of ov] IH show ?thesis
      using p False skip_word [OF w] by simp
  qed
qed simp

theorem eval_loop_words_witness:
  "eval_loop (\<lambda>_. 0) (skip_spaces (spaced [(2, ''s''), (0, ''7''), (1, ''12'')])) = [LStr ''s'', LNum 7, LNum 12]"
  by (subst eval_loop_words)
    (simp_all add: push_item_def isdigit_def uchar_nat_def atoi_def)

lemma decimal_append: "decimal k (s @ [c]) = 10 * decimal k s + (uchar_nat c - 48)"
  by (induction s arbitrary: k) auto

lemma uchar_digit_char: "d < 10 \<Longrightarrow> uchar_nat (digit_char d) = 48 + d"
  by (simp add: digit_char_def)

lemma decimal_string_of_nat: "decimal 0 (string_of_nat n) = n \<and> (\<forall>c\<in>set (string_of_nat n). isdigit c)"
proof (induction n rule: string_of_nat.induct)
  case (1 n)
  show ?case
  proof (cases "n < 10")
    case True
    then show ?thesis by (simp add: string_of_nat.simps [of n] uchar_digit_char isdigit_def)
  next
    case False
    with 1 have "decimal 0 (string_of_nat (n div 10)) = n div 10" "\<forall>c\<in>set (string_of_nat (n div 10)). isdigit c"
      by blast+
    then show ?thesis using False uchar_digit_char [of "n mod 10"]
      by (simp add: string_of_nat.simps [of n] decimal_append isdigit_def)
  qed
qed

text \<open>A number written in decimal reaches the script as that number, as long as it fits an \<open>int\<close>: the
  arguments the script prints in its messages can be typed back.\<close>

theorem push_item_number:
  assumes "n < 2 ^ 31"
  shows "push_item ov (string_of_nat n) = LNum (int n)"
proof -
  have "find (\<lambda>c. \<not> isdigit c) (string_of_nat n) = None"
    using decimal_string_of_nat [of n] by (simp add: find_None_iff)
  then show ?thesis using assms decimal_string_of_nat [of n] by (simp add: push_item_def atoi_def)
qed

theorem push_item_number_witness: "push_item (\<lambda>_. 0) (string_of_nat 9) = LNum 9"
  using push_item_number [of 9] by simp

subsection \<open>Files\<close>

text \<open>C15: Loading a file never damages the session.  When the file cannot be opened or read, or its first
  729 characters do not hold a consistent board of 81 items, the current board, the history and the
  widget are unchanged and the status line says why.\<close>

theorem load_file_failure:
  assumes "case f of Contents t \<Rightarrow> board_of_string (c_str (take NBOARD t)) = Inl (LuaError m) | _ \<Rightarrow> True"
  shows "lua (w_interp (load_file f w)) = lua (w_interp w) \<and> w_gui (load_file f w) = w_gui w \<and>
    w_status (load_file f w) = (case f of CannotOpen \<Rightarrow> ''failed to open file'' | CannotRead \<Rightarrow> ''failed to read file''
      | Contents t \<Rightarrow> c_str m)"
  using assms
  by (cases f) (auto simp: load_file_def interp_load_def load_def clone_def set_status_def)

theorem load_file_failure_witness:
  "w_status (load_file (Contents ''12'') \<lparr>w_interp = \<lparr>lua = session_init, lua_top = 0\<rparr>,
     w_gui = \<lparr>g_board = sudoku_board_new False, g_shown = []\<rparr>, w_status = [], w_entry = []\<rparr>) =
   ''bad input: expected 81 items but found 2 in '' @ [CHR 0x0A] @ ''12''"
proof -
  have b: "board_of_string (c_str (take NBOARD ''12'')) =
      Inl (LuaError (''bad input: expected 81 items but found 2 in '' @ [CHR 0x0A] @ ''12''))"
    by code_simp
  show ?thesis
    using load_file_failure [where f = "Contents ''12''" and m = "''bad input: expected 81 items but found 2 in '' @ [CHR 0x0A] @ ''12''"] b
    by (simp add: c_str_def)
qed

lemma NUL_notin_show: "board_wf b \<Longrightarrow> CHR 0x00 \<notin> set (board_show b)"
proof
  assume wf: "board_wf b" and z: "CHR 0x00 \<in> set (board_show b)"
  then obtain r1 r2 p where "r1 \<in> {1..3}" "r2 \<in> {1..3}" "p \<in> set (row_cells r1 r2)" "cell_show (bget b p) = CHR 0x00"
    unfolding board_show_def by fastforce
  then have "board_char CHR 0x00"
    using board_char_cell_show bget_wf [OF wf] units_valid [OF row_units] by metis
  then show False by (simp add: board_char_def uchar_nat_def)
qed

lemma board_show_nonempty: "board_show b \<noteq> []"
  by (simp add: board_show_def for1_3)

lemma c_str_show: "board_wf b \<Longrightarrow> c_str (board_show b) = board_show b"
  unfolding c_str_def takeWhile_eq_all_conv using NUL_notin_show by metis

text \<open>C16: \<open>save_file\<close> dereferences a null pointer exactly when there is no board to save;
  otherwise a file that can be opened receives the text form of the board and the status line is cleared, and a file that cannot be opened is reported in
  the status line.\<close>

theorem save_file_result:
  assumes "session_wf (lua (w_interp w))"
  shows "case it (lua (w_interp w)) of
     None \<Rightarrow> save_file can_open w = Crash
   | Some b \<Rightarrow> \<exists>w'. save_file can_open w = Done (w', if can_open then Some (board_show b) else None) \<and>
       w_status w' = (if can_open then [] else ''failed to open file'') \<and> lua (w_interp w') = lua (w_interp w)"
proof (cases "it (lua (w_interp w))")
  case None
  then show ?thesis by (simp add: save_file_def interp_save_def save_def Let_def)
next
  case (Some b)
  with c_str_show [OF session_wf_it [OF assms Some]] board_show_nonempty [of b] show ?thesis
    by (auto simp: save_file_def interp_save_def save_def clone_def set_status_def Let_def)
qed

definition no_board_window :: window where
  "no_board_window = \<lparr>w_interp = \<lparr>lua = session_init, lua_top = 0\<rparr>,
     w_gui = \<lparr>g_board = sudoku_board_new False, g_shown = []\<rparr>, w_status = [], w_entry = []\<rparr>"

theorem save_file_result_witness: "main True None None = Inr no_board_window \<and> save_file True no_board_window = Crash"
proof -
  have "session_wf (lua (w_interp no_board_window))" "it (lua (w_interp no_board_window)) = None"
    by (simp_all add: no_board_window_def session_init_def session_wf_def boards_def)
  with save_file_result [of no_board_window True] show ?thesis
    by (simp add: no_board_window_def main_def interp_init_def Let_def)
qed

text \<open>Every command line that is not blank leaves one more value on the Lua stack; nothing ever removes
  it.\<close>

theorem interp_eval_stack:
  "interp_eval ov u cmd (L, g) = (msg, L', g') \<Longrightarrow>
    lua_top L' = lua_top L + (if skip_spaces cmd = [] then 0 else 1)"
proof -
  have "eval_loop ov s \<noteq> []" for s by (subst eval_loop.simps) (simp split: list.split)
  then show "interp_eval ov u cmd (L, g) = (msg, L', g') \<Longrightarrow> ?thesis"
    by (auto simp: interp_eval_def Let_def split: if_splits list.splits prod.splits)
qed

theorem interp_eval_stack_witness:
  "lua_top (fst (snd (interp_eval (\<lambda>_. 0) \<lparr>u_bindings = \<lambda>_. False, u_keys = [], u_response = GTK_RESPONSE_CANCEL\<rparr>
     ''hint'' (w_interp no_board_window, w_gui no_board_window)))) = 1"
proof -
  obtain msg L' g' where e: "interp_eval (\<lambda>_. 0) \<lparr>u_bindings = \<lambda>_. False, u_keys = [], u_response = GTK_RESPONSE_CANCEL\<rparr>
     ''hint'' (w_interp no_board_window, w_gui no_board_window) = (msg, L', g')" by (metis surj_pair)
  from interp_eval_stack [OF this] show ?thesis unfolding e
    by (simp add: no_board_window_def skip_spaces_def)
qed

subsection \<open>Editing\<close>

text \<open>C14: The editor edits text.  Given an 81-character board string, the string that Apply returns is the
  given one with each key press carried out at its place: a digit key writes the digit, period and the
  space bar a period, other keys nothing.  Cancel returns no string.\<close>

theorem edit_dialog_text:
  assumes "length s = 81" "\<forall>ch\<in>set s. isboardchar (char_int ch)" "\<forall>(row, col, key)\<in>set keys. row < 9 \<and> col < 9"
  shows "sudoku_edit_dialog bindings keys response (Some s) =
    (if response = GTK_RESPONSE_APPLY then Some (fold type_key keys s) else None)"
  using dialog_read_shows [OF shows_text_keys [OF shows_text_set [OF assms(1,2)] assms(3), of bindings]]
  by (simp add: sudoku_edit_dialog_def Let_def)

lemma isboardchar_board_char: "board_char c \<Longrightarrow> isboardchar (char_int c)"
proof -
  assume "board_char c"
  from board_char_cases [OF this] have "c = CHR ''.'' \<or> c \<in> digit_char ` set [1..<10]" by auto
  moreover have "\<forall>d\<in>set [1..<10]. isboardchar (char_int (digit_char d))" "isboardchar (char_int CHR ''.'')" by code_simp+
  ultimately show ?thesis by blast
qed

theorem edit_dialog_text_witness:
  "sudoku_edit_dialog (\<lambda>_. False) [(0, 1, GDK_KEY_7)] GTK_RESPONSE_APPLY (Some (replicate 81 CHR ''.'')) =
    Some (CHR ''.'' # CHR ''7'' # replicate 79 CHR ''.'')"
proof -
  have "isboardchar (char_int CHR ''.'')" by code_simp
  moreover have "fold type_key [(0, 1, GDK_KEY_7)] (replicate 81 CHR ''.'') = CHR ''.'' # CHR ''7'' # replicate 79 CHR ''.''"
    by code_simp
  ultimately show ?thesis
    using edit_dialog_text [of "replicate 81 CHR ''.''" "[(0, 1, GDK_KEY_7)]" "\<lambda>_. False" GTK_RESPONSE_APPLY] by simp
qed

text \<open>Opening the editor on the current board and applying it without a change loses nothing: the new board
  has every solution of the old one, and its determined cells are determined with the same digits.\<close>

theorem edit_unchanged:
  assumes s: "session_wf s" "it s = Some b" and g: "solution_of g b"
    and u: "u_keys u = []" "u_response u = GTK_RESPONSE_APPLY"
  shows "\<exists>s' effs b'. eval (edit u) (LStr ''edit'') args s = (Inr None, s', effs) \<and> it s' = Some b' \<and> solution_of g b' \<and>
    (\<forall>p. valid_pos p \<longrightarrow> determined (bget b p) \<longrightarrow> determined (bget b' p) \<and> cands (bget b' p) = cands (bget b p))"
proof -
  have wf: "board_wf b" using s by (rule session_wf_it)
  have chars: "\<forall>ch\<in>set (board_tostring b). board_char ch"
    using strip_board_tostring [OF wf] unfolding strip_string_filter filter_id_conv .
  have "\<not> board_char CHR 0x00" by (simp add: board_char_def uchar_nat_def)
  with chars have ne: "\<forall>ch\<in>set (board_tostring b). ch \<noteq> CHR 0x00" by blast
  have "clone (Some (board_tostring b)) = Some (board_tostring b)"
    using ne by (simp add: clone_def c_str_def)
  moreover have "sudoku_edit_dialog (u_bindings u) [] GTK_RESPONSE_APPLY (Some (board_tostring b)) = Some (board_tostring b)"
    using dialog_read_shows [OF shows_text_set] length_board_tostring chars isboardchar_board_char
    by (simp add: sudoku_edit_dialog_def dialog_run_def)
  ultimately have e: "edit u (Some (board_tostring b)) = Some (board_tostring b)"
    using u by (simp add: edit_def interp_edit_def)
  obtain b' where "board_of_string (board_tostring b) = Inr b'" "solution_of g b'"
    "\<forall>p. valid_pos p \<longrightarrow> determined (bget b p) \<longrightarrow> determined (bget b' p) \<and> cands (bget b' p) = cands (bget b p)"
    using board_of_string_tostring [OF wf g strip_board_tostring [OF wf]] by blast
  then show ?thesis using e s(2) unfolding eval_edit by (auto simp: do_edit_def Let_def)
qed

theorem edit_unchanged_witness:
  "\<exists>s' effs b'. eval (edit \<lparr>u_bindings = \<lambda>_. False, u_keys = [], u_response = GTK_RESPONSE_APPLY\<rparr>) (LStr ''edit'') []
      blank_session = (Inr None, s', effs) \<and> it s' = Some b' \<and> solution_of sample_grid b' \<and>
    (\<forall>p. valid_pos p \<longrightarrow> determined (bget mk_board p) \<longrightarrow>
      determined (bget b' p) \<and> cands (bget b' p) = cands (bget mk_board p))"
  by (rule edit_unchanged) (simp_all add: solution_of_mk_board sample_grid_valid)

end
