(* ===== verification/Lua_Rule_Props.thy ===== *)
theory Lua_Rule_Props
  imports Lua_Sound Lua_Read
begin

text \<open>
  What the rules do: the solver as a whole keeps exactly the solutions of the board, and the elimination rules
  have the effect that their help texts promise.
\<close>

subsection \<open>The solver\<close>

lemma refines_solution:
  assumes "refines b' b" "board_wf b" "solution_of g b'"
  shows "solution_of g b"
  using assms refines_bget [OF assms(1,2)] unfolding solution_of_def cell_le_def by blast

text \<open>C1: \<open>solve\<close> terminates, and neither loses nor invents a solution: a completed grid is a solution of
  the board after \<open>solve\<close> exactly when it was one before, and if there is one, \<open>solve\<close> does not raise
  an error.\<close>

theorem board_solve_solutions:
  assumes "board_wf b"
  shows "(solution_of g (snd (board_solve b)) \<longleftrightarrow> solution_of g b) \<and> fst (board_solve b) \<noteq> Inl OutOfFuel \<and>
    (solution_of g b \<longrightarrow> (\<exists>e. fst (board_solve b) = Inr e))"
proof -
  have "refines (snd (board_solve b)) b" "fst (board_solve b) \<noteq> Inl OutOfFuel"
    using solve.shrinks [OF assms] by (auto simp: shrink_to_def)
  then show ?thesis
    using solve.sound [OF assms] refines_solution [OF _ assms] by (auto simp: sound_to_def)
qed

theorem board_solve_solutions_witness:
  "solution_of sample_grid (snd (board_solve mk_board)) \<and> (\<exists>e. fst (board_solve mk_board) = Inr e)"
  using board_solve_solutions [OF mk_board_wf, of sample_grid] solution_of_mk_board [OF sample_grid_valid] by blast

text \<open>C8: \<open>solve\<close> stops only when a whole round of all the rules eliminates nothing: the final board is what
  such a round, started with the same candidates, leaves.\<close>

theorem board_solve_exhausts:
  assumes "board_wf b" "board_solve b = (Inr e, b')"
  shows "\<exists>b0. board_wf b0 \<and> board_all_flag b0 = (Inr False, b') \<and> ncands b0 = ncands b' \<and> (e \<longleftrightarrow> ncands b' < ncands b)"
proof -
  obtain b0 where b0: "board_wf b0" "board_all_flag b0 = (Inr False, b')"
    using all_rules.repeat_done [OF assms(1)] assms(2) unfolding board_solve_def by blast
  with all_rules.shrinks [OF b0(1)] have "\<not> ncands b' < ncands b0" "refines b' b0"
    by (auto simp: shrink_to_def)
  then have "ncands b0 = ncands b'" using refines_ncands [of b' b0] by simp
  moreover have "e \<longleftrightarrow> ncands b' < ncands b"
    using solve.shrinks [OF assms(1)] assms(2) by (simp add: shrink_to_def)
  ultimately show ?thesis using b0 by blast
qed

theorem board_solve_exhausts_witness:
  "\<exists>e b' b0. board_solve mk_board = (Inr e, b') \<and> board_wf b0 \<and> board_all_flag b0 = (Inr False, b') \<and>
    ncands b0 = ncands b' \<and> (e \<longleftrightarrow> ncands b' < ncands mk_board)"
proof -
  obtain e b' where "board_solve mk_board = (Inr e, b')"
    using solve.sound [OF mk_board_wf solution_of_mk_board [OF sample_grid_valid]]
    by (cases "board_solve mk_board") (auto simp: sound_to_def)
  with board_solve_exhausts [OF mk_board_wf this] show ?thesis by blast
qed

subsection \<open>The effect of the elimination rules\<close>

text \<open>The board \<open>b'\<close> is \<open>b\<close> with the digits \<open>D p\<close> eliminated from each cell \<open>p\<close>.\<close>

definition eliminated :: "(pos \<Rightarrow> nat set) \<Rightarrow> board \<Rightarrow> board \<Rightarrow> bool" where
  "eliminated D b b' \<longleftrightarrow> (\<forall>p. valid_pos p \<longrightarrow>
     cands (bget b' p) = cands (bget b p) - D p \<and> determined (bget b' p) = determined (bget b p))"

lemma eliminate_digits_closed:
  assumes "board_wf b" "valid_pos p" "eliminate_digits ds p (b, e) = (b', e')"
  shows "board_wf b' \<and> eliminated (\<lambda>q. if q = p then set ds else {}) b b'"
  using assms unfolding eliminate_digits_def
proof (induction ds arbitrary: b e)
  case Nil
  then show ?case by (simp add: eliminated_def)
next
  case (Cons d ds)
  show ?case
  proof (cases "cget (bget b p) d")
    case True
    let ?b = "belim p d b"
    have d: "1 \<le> d" using cget_ge [OF True] by simp
    have wf: "board_wf ?b" using belim_wf [OF Cons.prems(1,2) d] .
    have other: "bget ?b q = (if q = p then celim d (bget b p) else bget b q)" if "valid_pos q" for q
      using that Cons.prems by (simp add: belim_def bget_bset)
    have "fold (\<lambda>d (b, e). if cget (bget b p) d then (belim p d b, True) else (b, e)) ds (?b, True) = (b', e')"
      using Cons.prems(3) True by simp
    from Cons.IH [OF wf Cons.prems(2) this] show ?thesis
      unfolding eliminated_def using other d
      by (auto simp: cands_celim simp del: split_paired_All)
  next
    case False
    then have "cands (bget b p) - set ds = cands (bget b p) - set (d # ds)" by (auto simp: cands_def)
    with False show ?thesis using Cons.IH [OF Cons.prems(1,2)] Cons.prems(3)
      unfolding eliminated_def by (auto simp del: split_paired_All)
  qed
qed

lemma eliminate_in_fold_closed:
  assumes "board_wf b" "\<forall>p\<in>set ps. valid_pos p" "distinct ps"
    and "fold (\<lambda>p (b, e). if guard (bget b p) then eliminate_digits ds p (b, e) else (b, e)) ps (b, e) = (b', e')"
  shows "board_wf b' \<and> eliminated (\<lambda>q. if q \<in> set ps \<and> guard (bget b q) then set ds else {}) b b'"
  using assms
proof (induction ps arbitrary: b e)
  case Nil
  then show ?case by (simp add: eliminated_def)
next
  case (Cons p ps)
  show ?case
  proof (cases "guard (bget b p)")
    case True
    obtain b1 e1 where el: "eliminate_digits ds p (b, e) = (b1, e1)" by fastforce
    have p: "valid_pos p" using Cons.prems by simp
    from eliminate_digits_closed [OF Cons.prems(1) p el]
    have b1: "board_wf b1" "eliminated (\<lambda>q. if q = p then set ds else {}) b b1" by blast+
    from eliminate_digits_props [OF Cons.prems(1) p el]
    have other: "\<forall>q. valid_pos q \<longrightarrow> q \<noteq> p \<longrightarrow> bget b1 q = bget b q" by blast
    have "board_wf b' \<and> eliminated (\<lambda>q. if q \<in> set ps \<and> guard (bget b1 q) then set ds else {}) b1 b'"
      using Cons.prems True el b1(1) by (intro Cons.IH) auto
    moreover have "p \<notin> set ps" using Cons.prems(3) by simp
    ultimately show ?thesis using b1(2) other True unfolding eliminated_def
      by (auto simp del: split_paired_All)
  next
    case False
    then show ?thesis using Cons.IH [OF Cons.prems(1)] Cons.prems unfolding eliminated_def
      by (auto simp del: split_paired_All)
  qed
qed

lemma eliminate_in_closed:
  assumes "board_wf b" "\<forall>p\<in>set ps. valid_pos p" "distinct ps"
  shows "eliminated (\<lambda>q. if q \<in> set ps \<and> guard (bget b q) then set ds else {}) b (snd (eliminate_in guard ds ps b)) \<and>
    (\<exists>e. fst (eliminate_in guard ds ps b) = Inr e)"
  using eliminate_in_fold_closed [OF assms] unfolding eliminate_in_def
  by (auto split: prod.splits)

text \<open>C9: The rules \<open>rs\<close>, \<open>cs\<close>, \<open>sr\<close> and \<open>sc\<close>, which share one body: when the digit is possible in some cell of the part
  to be checked, the board is unchanged and the answer is no; otherwise the digit, and nothing else, is
  eliminated from the part to be cleared.  Here for \<open>rs\<close>: when, within the square, the digit is confined to the row, it is
  eliminated from the rest of the row.\<close>

theorem one_row_in_square_effect:
  assumes wf: "board_wf b" and row: "spread row = Inr (r1, r2)" "r1 \<in> {1..3}" "r2 \<in> {1..3}"
    and col: "spread col = Inr (c1, c2)" "c1 \<in> {1..3}"
  shows "if \<exists>p\<in>set (square_cells r1 c1) - set (row_cells r1 r2). d \<in> cands (bget b p)
    then one_row_in_square d row col b = (Inr False, b)
    else \<exists>e b'. one_row_in_square d row col b = (Inr e, b') \<and>
      eliminated (\<lambda>q. if q \<in> set (row_cells r1 r2) - set (square_cells r1 c1) then {d} else {}) b b'"
proof -
  let ?check = "square_but_row r1 c1 r2" and ?clear = "row_but_square r1 r2 c1"
  have eq: "one_row_in_square d row col b = confined d ?check ?clear b"
    using row(1) col(1) by (simp add: one_row_in_square_def with_spread_def)
  have check: "set ?check = set (square_cells r1 c1) - set (row_cells r1 r2)"
    using col(2) by (auto simp: square_but_row_def set_units split: if_splits)
  have clear: "set ?clear = set (row_cells r1 r2) - set (square_cells r1 c1)"
    using row(3) by (auto simp: row_but_square_def set_units split: if_splits)
  have "\<forall>p\<in>set ?clear. valid_pos p" using units_valid [OF row_units [OF row(2,3)]] clear by blast
  from eliminate_in_closed [OF wf this distinct_but(3), of "\<lambda>_. True" "[d]", unfolded list.set]
  show ?thesis unfolding eq confined_def list_ex_iff check
    by (cases "eliminate_in (\<lambda>_. True) [d] ?clear b") (auto simp: clear cands_def)
qed

theorem one_row_in_square_effect_witness:
  "if \<exists>p\<in>set (square_cells 1 2) - set (row_cells 1 3). 7 \<in> cands (bget mk_board p)
    then one_row_in_square 7 3 5 mk_board = (Inr False, mk_board)
    else \<exists>e b'. one_row_in_square 7 3 5 mk_board = (Inr e, b') \<and>
      eliminated (\<lambda>q. if q \<in> set (row_cells 1 3) - set (square_cells 1 2) then {7} else {}) mk_board b'"
  by (rule one_row_in_square_effect [where ?c2.0 = 2]) (simp_all add: mk_board_wf spread_def)

lemma length_filter_card: "distinct xs \<Longrightarrow> length (filter P xs) = card {x\<in>set xs. P x}"
  by (metis distinct_card distinct_filter set_filter)

text \<open>C10: Hidden pairs (\<open>ps\<close>, \<open>pr\<close>, \<open>pc\<close>): when exactly two cells of the square, row or column can hold one of two
  different digits, all other digits, and nothing else, are eliminated from those two cells; otherwise the
  board is unchanged and the answer is no.\<close>

theorem two_places_in_unit_effect:
  fixes d1 d2 :: nat
  assumes wf: "board_wf b" and unit: "unit \<in> units"
  defines "places \<equiv> {p\<in>set unit. d1 \<in> cands (bget b p) \<or> d2 \<in> cands (bget b p)}"
  shows "if d1 \<noteq> d2 \<and> card places = 2
    then \<exists>e b'. two_places_in_unit d1 d2 unit b = (Inr e, b') \<and>
      eliminated (\<lambda>q. if q \<in> places then {1..9} - {d1, d2} else {}) b b'
    else two_places_in_unit d1 d2 unit b = (Inr False, b)"
proof -
  let ?ds = "filter (\<lambda>d. d \<noteq> d1 \<and> d \<noteq> d2) (for1 digits)"
  have ds: "set ?ds = {1..9} - {d1, d2}" by auto
  have valid: "\<forall>p\<in>set unit. valid_pos p" using units_valid [OF unit] by blast
  have len: "length (filter (\<lambda>p. has_either d1 d2 (bget b p)) unit) = card places"
    unfolding length_filter_card [OF units_distinct [OF unit]] places_def has_either_def cands_def by simp
  have places: "q \<in> places \<longleftrightarrow> q \<in> set unit \<and> has_either d1 d2 (bget b q)" for q
    by (simp add: places_def has_either_def cands_def)
  obtain e b' where "eliminate_in (has_either d1 d2) ?ds unit b = (Inr e, b')"
      "eliminated (\<lambda>q. if q \<in> places then {1..9} - {d1, d2} else {}) b b'"
    using eliminate_in_closed [OF wf valid units_distinct [OF unit], of "has_either d1 d2" ?ds]
    unfolding places [symmetric] ds by (cases "eliminate_in (has_either d1 d2) ?ds unit b") auto
  then show ?thesis unfolding two_places_in_unit_def len by auto
qed

theorem two_places_in_unit_effect_witness:
  "if 1 \<noteq> (2 :: nat) \<and> card {p\<in>set (row_cells 1 1). 1 \<in> cands (bget mk_board p) \<or> 2 \<in> cands (bget mk_board p)} = 2
    then \<exists>e b'. two_places_in_unit 1 2 (row_cells 1 1) mk_board = (Inr e, b') \<and>
      eliminated (\<lambda>q. if q \<in> {p\<in>set (row_cells 1 1). 1 \<in> cands (bget mk_board p) \<or> 2 \<in> cands (bget mk_board p)}
        then {1..9} - {1, 2} else {}) mk_board b'
    else two_places_in_unit 1 2 (row_cells 1 1) mk_board = (Inr False, mk_board)"
  by (rule two_places_in_unit_effect [OF mk_board_wf row_units]) simp_all

text \<open>C11: Naked pairs (\<open>sps\<close>, \<open>spr\<close>, \<open>spc\<close>): when exactly two cells of the square, row or column have just the
  same two candidates, those two digits, and nothing else, are eliminated from the other cells; otherwise
  the board is unchanged and the answer is no.\<close>

theorem same_pair_in_unit_effect:
  fixes d1 d2 :: nat
  assumes wf: "board_wf b" and unit: "unit \<in> units" and d: "d1 \<in> {1..9}" "d2 \<in> {1..9}"
  defines "pairs \<equiv> {p\<in>set unit. cands (bget b p) = {d1, d2}}"
  shows "if d1 \<noteq> d2 \<and> card pairs = 2
    then \<exists>e b'. same_pair_in_unit d1 d2 unit b = (Inr e, b') \<and>
      eliminated (\<lambda>q. if q \<in> set unit - pairs then {d1, d2} else {}) b b'
    else same_pair_in_unit d1 d2 unit b = (Inr False, b)"
proof (cases "d1 = d2")
  case False
  let ?guard = "\<lambda>c. \<not> only_pair_present d1 d2 c"
  have valid: "\<forall>p\<in>set unit. valid_pos p" using units_valid [OF unit] by blast
  have only: "only_pair_present d1 d2 (bget b p) \<longleftrightarrow> cands (bget b p) = {d1, d2}" if "p \<in> set unit" for p
    using only_pair_present_iff [of "bget b p" d1 d2] bget_wf [OF wf] valid that d False by auto
  have len: "length (filter (\<lambda>p. only_pair_present d1 d2 (bget b p)) unit) = card pairs"
    unfolding length_filter_card [OF units_distinct [OF unit]] pairs_def using only by metis
  have rest: "q \<in> set unit \<and> ?guard (bget b q) \<longleftrightarrow> q \<in> set unit - pairs" for q
    using only [of q] by (auto simp: pairs_def)
  obtain e b' where "eliminate_in ?guard [d1, d2] unit b = (Inr e, b')"
      "eliminated (\<lambda>q. if q \<in> set unit - pairs then {d1, d2} else {}) b b'"
    using eliminate_in_closed [OF wf valid units_distinct [OF unit], of ?guard "[d1, d2]"]
    unfolding rest list.set by (cases "eliminate_in ?guard [d1, d2] unit b") auto
  then show ?thesis unfolding same_pair_in_unit_def len using False by auto
qed (simp add: same_pair_in_unit_def)

theorem same_pair_in_unit_effect_witness:
  "if 1 \<noteq> (2 :: nat) \<and> card {p\<in>set (row_cells 1 1). cands (bget mk_board p) = {1, 2}} = 2
    then \<exists>e b'. same_pair_in_unit 1 2 (row_cells 1 1) mk_board = (Inr e, b') \<and>
      eliminated (\<lambda>q. if q \<in> set (row_cells 1 1) - {p\<in>set (row_cells 1 1). cands (bget mk_board p) = {1, 2}}
        then {1, 2} else {}) mk_board b'
    else same_pair_in_unit 1 2 (row_cells 1 1) mk_board = (Inr False, mk_board)"
  by (rule same_pair_in_unit_effect [OF mk_board_wf row_units]) simp_all

end
