(* ===== verification/Tools.thy ===== *)
theory Tools
  imports Prelude
begin

text \<open>
  The two build tools: \<^verbatim>\<open>src/src/bin2c.c\<close>, which turns the compiled script into a C array, and \<^verbatim>\<open>src/src/u2d.c\<close>, which adds carriage
  returns to a text file.  Input and output are lists of characters; what \<open>getopt\<close> and \<open>freopen\<close> return are arguments.
\<close>

subsection \<open>\<open>bin2c\<close>\<close>

definition COLUMNS :: nat where
  "COLUMNS = 18"

text \<open>The character classes of the C locale.\<close>

definition isalpha :: "char \<Rightarrow> bool" where
  "isalpha c = (uchar_nat c \<in> {65..90} \<or> uchar_nat c \<in> {97..122})"

definition isalnum :: "char \<Rightarrow> bool" where
  "isalnum c = (isalpha c \<or> uchar_nat c \<in> {48..57})"

fun emit_name :: "string \<Rightarrow> string" where
  "emit_name [] = ''_''"
| "emit_name (ch # name) =
     (if isalpha ch then ch else CHR ''_'') # map (\<lambda>ch. if isalnum ch then ch else CHR ''_'') name"

text \<open>\<open>printf("%3d,", ch)\<close> for a byte.\<close>

definition digit :: "nat \<Rightarrow> char" where
  "digit d = char_of (48 + d)"

definition printf_3d :: "nat \<Rightarrow> string" where
  "printf_3d n =
     (if n < 10 then [CHR '' '', CHR '' '', digit n]
      else if n < 100 then [CHR '' '', digit (n div 10), digit (n mod 10)]
      else [digit (n div 100), digit (n div 10 mod 10), digit (n mod 10)])"

text \<open>The loop of \<open>emit\<close>; a byte read is an \<open>unsigned char\<close>.\<close>

fun emit_loop :: "nat \<Rightarrow> char list \<Rightarrow> string" where
  "emit_loop col [] = CHR 0x0A # ''};'' @ [CHR 0x0A]"
| "emit_loop col (ch # input) =
     (if col \<ge> COLUMNS
      then CHR 0x0A # ''  '' @ printf_3d (uchar_nat ch) @ '','' @ emit_loop 1 input
      else printf_3d (uchar_nat ch) @ '','' @ emit_loop (col + 1) input)"

definition emit_header :: "string \<Rightarrow> string" where
  "emit_header name =
     ''static const char '' @ emit_name name @ ''_source[] = '' @ [CHR 0x22] @ name @ [CHR 0x22] @ '';'' @ [CHR 0x0A, CHR 0x0A] @
     ''static const unsigned char '' @ emit_name name @ ''_bytes[] = {''"

definition emit :: "string \<Rightarrow> char list \<Rightarrow> string \<times> nat" where
  "emit name input = (emit_header name @ emit_loop COLUMNS input, 0)"

text \<open>The options: each result of \<open>getopt\<close> with its argument; \<open>-v\<close> and \<open>-h\<close> return at once.\<close>

datatype bin2c_opt = Opt_n string | Opt_o string | Opt_v | Opt_h | Opt_bad

datatype bin2c_exit = Version nat | Usage nat | Parsed "string option" "string option"

fun bin2c_options :: "bin2c_opt list \<Rightarrow> string option \<Rightarrow> string option \<Rightarrow> bin2c_exit" where
  "bin2c_options [] name output = Parsed name output"
| "bin2c_options (Opt_n arg # opts) name output = bin2c_options opts (Some arg) output"
| "bin2c_options (Opt_o arg # opts) name output = bin2c_options opts name (Some arg)"
| "bin2c_options (Opt_v # opts) name output = Version 0"
| "bin2c_options (Opt_h # opts) name output = Usage 0"
| "bin2c_options (Opt_bad # opts) name output = Usage 1"

text \<open>The remaining arguments, the input file's contents (\<open>None\<close> when it cannot be opened) and whether the output file can be opened.
  The result: what is written and the exit status.\<close>

definition bin2c_main :: "bin2c_opt list \<Rightarrow> string list \<Rightarrow> (string \<Rightarrow> char list option) \<Rightarrow> (string \<Rightarrow> bool) \<Rightarrow> string \<times> nat" where
  "bin2c_main opts args read_file can_write = (case bin2c_options opts None None of
     Version st \<Rightarrow> ([], st)
   | Usage st \<Rightarrow> ([], st)
   | Parsed name output \<Rightarrow>
      (case args of
         [input] \<Rightarrow>
           (case read_file input of
              None \<Rightarrow> ([], 1)
            | Some bytes \<Rightarrow>
               if (case output of Some f \<Rightarrow> \<not> can_write f | None \<Rightarrow> False) then ([], 1)
               else emit (case name of Some n \<Rightarrow> n | None \<Rightarrow> input) bytes)
       | _ \<Rightarrow> ([], 1)))"

subsection \<open>\<open>u2d\<close>\<close>

fun u2d_loop :: "char list \<Rightarrow> char list" where
  "u2d_loop [] = []"
| "u2d_loop (c # input) =
     (if c = CHR 0x0D then u2d_loop input
      else if c = CHR 0x0A then CHR 0x0D # c # u2d_loop input
      else c # u2d_loop input)"

datatype u2d_opt = U2d_o string | U2d_h | U2d_bad

fun u2d_options :: "u2d_opt list \<Rightarrow> string option \<Rightarrow> nat + string option" where
  "u2d_options [] output = Inr output"
| "u2d_options (U2d_o arg # opts) output = u2d_options opts (Some arg)"
| "u2d_options (U2d_h # opts) output = Inl 0"
| "u2d_options (U2d_bad # opts) output = Inl 1"

definition u2d_main ::
    "u2d_opt list \<Rightarrow> string list \<Rightarrow> char list \<Rightarrow> (string \<Rightarrow> char list option) \<Rightarrow> (string \<Rightarrow> bool) \<Rightarrow> char list \<times> nat" where
  "u2d_main opts args stdin read_file can_write = (case u2d_options opts None of
     Inl st \<Rightarrow> ([], st)
   | Inr output \<Rightarrow>
      (let finish = (\<lambda>input.
             if (case output of Some f \<Rightarrow> \<not> can_write f | None \<Rightarrow> False) then ([], 1) else (u2d_loop input, 0))
       in case args of
            [] \<Rightarrow> finish stdin
          | [f] \<Rightarrow> (case read_file f of None \<Rightarrow> ([], 1) | Some input \<Rightarrow> finish input)
          | _ \<Rightarrow> ([], 1)))"

subsection \<open>Reading the generated array back\<close>

text \<open>What a C compiler reads in an initialiser: decimal numbers, each ended by a comma, with white space between.\<close>

fun read_init :: "nat \<Rightarrow> string \<Rightarrow> nat list" where
  "read_init n [] = []"
| "read_init n (c # s) =
     (if c = CHR '','' then n # read_init 0 s
      else if c = CHR ''}'' then []
      else if 48 \<le> uchar_nat c \<and> uchar_nat c \<le> 57 then read_init (10 * n + (uchar_nat c - 48)) s
      else read_init n s)"

lemma uchar_digit: "d < 10 \<Longrightarrow> uchar_nat (digit d) = 48 + d"
  by (simp add: digit_def)

lemma digit_not:
  assumes "d < 10"
  shows "digit d \<noteq> CHR '',''" "digit d \<noteq> CHR ''}''"
proof -
  have "uchar_nat CHR '','' = 44" "uchar_nat CHR ''}'' = 125" by (simp_all add: uchar_nat_def)
  then show "digit d \<noteq> CHR '',''" "digit d \<noteq> CHR ''}''" using uchar_digit [OF assms] assms by auto
qed

lemma read_digit: "d < 10 \<Longrightarrow> read_init n (digit d # s) = read_init (10 * n + d) s"
  using digit_not uchar_digit by simp

lemma read_space: "read_init n (CHR '' '' # s) = read_init n s" "read_init n (CHR 0x0A # s) = read_init n s"
  by (simp_all add: uchar_nat_def)

lemma hundreds: "100 * (n div 100) + 10 * (n div 10 mod 10) + n mod 10 = (n :: nat)"
proof -
  have "n div 100 = n div 10 div 10" by (simp add: div_mult2_eq [symmetric])
  moreover have "10 * (n div 10 div 10) + n div 10 mod 10 = n div 10" "10 * (n div 10) + n mod 10 = n" by simp_all
  ultimately show ?thesis by linarith
qed

lemma read_comma: "read_init n (CHR '','' # s) = n # read_init 0 s"
  by simp

lemma read_printf: "n < 256 \<Longrightarrow> read_init 0 (printf_3d n @ CHR '','' # s) = n # read_init 0 s"
  using hundreds [of n]
  by (simp add: printf_3d_def read_digit read_space read_comma del: read_init.simps(2))

lemma read_emit_loop: "read_init 0 (emit_loop col input) = map uchar_nat input"
proof (induction input arbitrary: col)
  case Nil
  then show ?case by (simp add: read_space del: read_init.simps(2)) simp
next
  case (Cons ch input)
  then show ?case using read_printf [OF uchar_nat_less [of ch]]
    by (simp add: read_space del: read_init.simps(2))
qed

lemma char_of_uchar_map: "map char_of (map uchar_nat xs) = xs"
  by (induction xs) simp_all

text \<open>C17: The C array that \<open>bin2c\<close> writes holds exactly the bytes of its input, whatever they are:
  reading the initialiser back gives the input.\<close>

theorem bin2c_roundtrip:
  "map char_of (read_init 0 (drop (length (emit_header name)) (fst (emit name input)))) = input"
  by (simp only: emit_def fst_conv drop_append diff_self_eq_0 drop_0 drop_all order_refl append_Nil read_emit_loop char_of_uchar_map)

text \<open>The identifier \<open>bin2c\<close> derives from a file name is a valid C identifier: not empty, made of letters, digits and underscores, and not
  starting with a digit.\<close>

theorem emit_name_identifier:
  "emit_name name \<noteq> [] \<and> (isalpha (hd (emit_name name)) \<or> hd (emit_name name) = CHR ''_'') \<and>
    list_all (\<lambda>c. isalnum c \<or> c = CHR ''_'') (emit_name name)"
  by (cases name) (auto simp: list_all_iff isalnum_def)

lemma u2d_loop_filter: "u2d_loop (filter (\<lambda>c. c \<noteq> CHR 0x0D) s) = u2d_loop s"
  by (induction s) auto

text \<open>\<open>u2d\<close> is idempotent, and it changes nothing but carriage returns: without them its output
  is its input without them, and each line feed of the output follows a carriage return.\<close>

theorem u2d_idempotent:
  "u2d_loop (u2d_loop s) = u2d_loop s \<and>
   filter (\<lambda>c. c \<noteq> CHR 0x0D) (u2d_loop s) = filter (\<lambda>c. c \<noteq> CHR 0x0D) s \<and>
   (\<forall>i < length (u2d_loop s). u2d_loop s ! i = CHR 0x0A \<longrightarrow> 0 < i \<and> u2d_loop s ! (i - 1) = CHR 0x0D)"
proof (intro conjI)
  show f: "filter (\<lambda>c. c \<noteq> CHR 0x0D) (u2d_loop s) = filter (\<lambda>c. c \<noteq> CHR 0x0D) s"
    by (induction s) auto
  then show "u2d_loop (u2d_loop s) = u2d_loop s" by (metis u2d_loop_filter)
  show "\<forall>i < length (u2d_loop s). u2d_loop s ! i = CHR 0x0A \<longrightarrow> 0 < i \<and> u2d_loop s ! (i - 1) = CHR 0x0D"
    by (induction s) (auto simp: nth_Cons split: nat.splits)
qed

theorem u2d_idempotent_witness:
  "u2d_loop (u2d_loop (''a'' @ [CHR 0x0A])) = ''a'' @ [CHR 0x0D, CHR 0x0A]"
  using u2d_idempotent [of "''a'' @ [CHR 0x0A]"] by simp

end
