(* ===== verification/Lua_Opcodes.thy ===== *)
theory Lua_Opcodes
  imports Prelude
begin

text \<open>
  \<^verbatim>\<open>src/src/lopcodes.h\<close> and \<^verbatim>\<open>src/src/lopcodes.c\<close>: the 32-bit instructions of the Lua virtual machine.  The macros are
  functions on words; the table of operation modes is a list in the order of the enumeration.
\<close>

type_synonym Instruction = "32 word"

subsection \<open>Sizes and positions of the fields\<close>

definition SIZE_C :: nat where "SIZE_C = 9"
definition SIZE_B :: nat where "SIZE_B = 9"
definition SIZE_Bx :: nat where "SIZE_Bx = SIZE_C + SIZE_B"
definition SIZE_A :: nat where "SIZE_A = 8"
definition SIZE_OP :: nat where "SIZE_OP = 6"
definition POS_OP :: nat where "POS_OP = 0"
definition POS_A :: nat where "POS_A = POS_OP + SIZE_OP"
definition POS_C :: nat where "POS_C = POS_A + SIZE_A"
definition POS_B :: nat where "POS_B = POS_C + SIZE_C"
definition POS_Bx :: nat where "POS_Bx = POS_C"

lemmas field_defs = SIZE_C_def SIZE_B_def SIZE_Bx_def SIZE_A_def SIZE_OP_def POS_OP_def POS_A_def POS_C_def POS_B_def POS_Bx_def

definition MAXARG_Bx :: int where "MAXARG_Bx = 2 ^ SIZE_Bx - 1"
definition MAXARG_sBx :: int where "MAXARG_sBx = MAXARG_Bx div 2"
definition MAXARG_A :: int where "MAXARG_A = 2 ^ SIZE_A - 1"
definition MAXARG_B :: int where "MAXARG_B = 2 ^ SIZE_B - 1"
definition MAXARG_C :: int where "MAXARG_C = 2 ^ SIZE_C - 1"

definition MASK1 :: "nat \<Rightarrow> nat \<Rightarrow> Instruction" where
  "MASK1 n p = push_bit p (NOT (push_bit n (NOT 0)))"

definition MASK0 :: "nat \<Rightarrow> nat \<Rightarrow> Instruction" where
  "MASK0 n p = NOT (MASK1 n p)"

text \<open>The common shape of the accessor macros.\<close>

definition get_field :: "nat \<Rightarrow> nat \<Rightarrow> Instruction \<Rightarrow> Instruction" where
  "get_field n p i = drop_bit p i AND MASK1 n 0"

definition set_field :: "nat \<Rightarrow> nat \<Rightarrow> Instruction \<Rightarrow> Instruction \<Rightarrow> Instruction" where
  "set_field n p i u = (i AND MASK0 n p) OR (push_bit p u AND MASK1 n p)"

subsection \<open>Operation codes\<close>

datatype OpCode =
    OP_MOVE | OP_LOADK | OP_LOADBOOL | OP_LOADNIL | OP_GETUPVAL | OP_GETGLOBAL | 
    OP_GETTABLE | OP_SETGLOBAL | OP_SETUPVAL | OP_SETTABLE | OP_NEWTABLE | OP_SELF | 
    OP_ADD | OP_SUB | OP_MUL | OP_DIV | OP_MOD | OP_POW | 
    OP_UNM | OP_NOT | OP_LEN | OP_CONCAT | OP_JMP | OP_EQ | 
    OP_LT | OP_LE | OP_TEST | OP_TESTSET | OP_CALL | OP_TAILCALL | 
    OP_RETURN | OP_FORLOOP | OP_FORPREP | OP_TFORLOOP | OP_SETLIST | OP_CLOSE | 
    OP_CLOSURE | OP_VARARG

definition opcodes :: "OpCode list" where
  "opcodes =
   [OP_MOVE, OP_LOADK, OP_LOADBOOL, OP_LOADNIL, OP_GETUPVAL, OP_GETGLOBAL, 
    OP_GETTABLE, OP_SETGLOBAL, OP_SETUPVAL, OP_SETTABLE, OP_NEWTABLE, OP_SELF, 
    OP_ADD, OP_SUB, OP_MUL, OP_DIV, OP_MOD, OP_POW, 
    OP_UNM, OP_NOT, OP_LEN, OP_CONCAT, OP_JMP, OP_EQ, 
    OP_LT, OP_LE, OP_TEST, OP_TESTSET, OP_CALL, OP_TAILCALL, 
    OP_RETURN, OP_FORLOOP, OP_FORPREP, OP_TFORLOOP, OP_SETLIST, OP_CLOSE, 
    OP_CLOSURE, OP_VARARG]"

definition NUM_OPCODES :: nat where
  "NUM_OPCODES = length opcodes"

text \<open>The number of an operation code, and the cast of a number to the enumeration (outside its range
  the value of the cast is not one of the constants).\<close>

fun index_of :: "'a \<Rightarrow> 'a list \<Rightarrow> nat" where
  "index_of x [] = 0"
| "index_of x (y # ys) = (if x = y then 0 else Suc (index_of x ys))"

definition op_num :: "OpCode \<Rightarrow> nat" where
  "op_num op = index_of op opcodes"

definition cast_OpCode :: "nat \<Rightarrow> OpCode option" where
  "cast_OpCode n = (if n < NUM_OPCODES then Some (opcodes ! n) else None)"

subsection \<open>Accessors\<close>

definition GET_OPCODE :: "Instruction \<Rightarrow> OpCode option" where
  "GET_OPCODE i = cast_OpCode (unat (get_field SIZE_OP POS_OP i))"

definition SET_OPCODE :: "Instruction \<Rightarrow> OpCode \<Rightarrow> Instruction" where
  "SET_OPCODE i op = set_field SIZE_OP POS_OP i (of_nat (op_num op))"

definition GETARG_A :: "Instruction \<Rightarrow> int" where "GETARG_A i = uint (get_field SIZE_A POS_A i)"
definition SETARG_A :: "Instruction \<Rightarrow> int \<Rightarrow> Instruction" where "SETARG_A i u = set_field SIZE_A POS_A i (of_int u)"
definition GETARG_B :: "Instruction \<Rightarrow> int" where "GETARG_B i = uint (get_field SIZE_B POS_B i)"
definition SETARG_B :: "Instruction \<Rightarrow> int \<Rightarrow> Instruction" where "SETARG_B i b = set_field SIZE_B POS_B i (of_int b)"
definition GETARG_C :: "Instruction \<Rightarrow> int" where "GETARG_C i = uint (get_field SIZE_C POS_C i)"
definition SETARG_C :: "Instruction \<Rightarrow> int \<Rightarrow> Instruction" where "SETARG_C i b = set_field SIZE_C POS_C i (of_int b)"
definition GETARG_Bx :: "Instruction \<Rightarrow> int" where "GETARG_Bx i = uint (get_field SIZE_Bx POS_Bx i)"
definition SETARG_Bx :: "Instruction \<Rightarrow> int \<Rightarrow> Instruction" where "SETARG_Bx i b = set_field SIZE_Bx POS_Bx i (of_int b)"
definition GETARG_sBx :: "Instruction \<Rightarrow> int" where "GETARG_sBx i = GETARG_Bx i - MAXARG_sBx"
definition SETARG_sBx :: "Instruction \<Rightarrow> int \<Rightarrow> Instruction" where "SETARG_sBx i b = SETARG_Bx i (b + MAXARG_sBx)"

definition CREATE_ABC :: "OpCode \<Rightarrow> int \<Rightarrow> int \<Rightarrow> int \<Rightarrow> Instruction" where
  "CREATE_ABC op a b c = push_bit POS_OP (of_nat (op_num op)) OR push_bit POS_A (of_int a) OR
     push_bit POS_B (of_int b) OR push_bit POS_C (of_int c)"

definition CREATE_ABx :: "OpCode \<Rightarrow> int \<Rightarrow> int \<Rightarrow> Instruction" where
  "CREATE_ABx op a bc = push_bit POS_OP (of_nat (op_num op)) OR push_bit POS_A (of_int a) OR push_bit POS_Bx (of_int bc)"

subsection \<open>Register or constant\<close>

definition BITRK :: int where "BITRK = 2 ^ (SIZE_B - 1)"
definition ISK :: "int \<Rightarrow> bool" where "ISK x = (x AND BITRK \<noteq> 0)"
definition INDEXK :: "int \<Rightarrow> int" where "INDEXK r = r AND NOT BITRK"
definition MAXINDEXRK :: int where "MAXINDEXRK = BITRK - 1"
definition RKASK :: "int \<Rightarrow> int" where "RKASK x = x OR BITRK"

subsection \<open>Operation modes\<close>

datatype OpMode = iABC | iABx | iAsBx
datatype OpArgMask = OpArgN | OpArgU | OpArgR | OpArgK

fun mode_num :: "OpMode \<Rightarrow> nat" where
  "mode_num iABC = 0" | "mode_num iABx = 1" | "mode_num iAsBx = 2"

fun mask_num :: "OpArgMask \<Rightarrow> nat" where
  "mask_num OpArgN = 0" | "mask_num OpArgU = 1" | "mask_num OpArgR = 2" | "mask_num OpArgK = 3"

definition opmode :: "nat \<Rightarrow> nat \<Rightarrow> OpArgMask \<Rightarrow> OpArgMask \<Rightarrow> OpMode \<Rightarrow> nat" where
  "opmode t a b c m = push_bit 7 t OR push_bit 6 a OR push_bit 4 (mask_num b) OR push_bit 2 (mask_num c) OR mode_num m"

definition luaP_opmodes :: "nat list" where
  "luaP_opmodes =
   [opmode 0 1 OpArgR OpArgN iABC, opmode 0 1 OpArgK OpArgN iABx, opmode 0 1 OpArgU OpArgU iABC, 
    opmode 0 1 OpArgR OpArgN iABC, opmode 0 1 OpArgU OpArgN iABC, opmode 0 1 OpArgK OpArgN iABx, 
    opmode 0 1 OpArgR OpArgK iABC, opmode 0 0 OpArgK OpArgN iABx, opmode 0 0 OpArgU OpArgN iABC, 
    opmode 0 0 OpArgK OpArgK iABC, opmode 0 1 OpArgU OpArgU iABC, opmode 0 1 OpArgR OpArgK iABC, 
    opmode 0 1 OpArgK OpArgK iABC, opmode 0 1 OpArgK OpArgK iABC, opmode 0 1 OpArgK OpArgK iABC, 
    opmode 0 1 OpArgK OpArgK iABC, opmode 0 1 OpArgK OpArgK iABC, opmode 0 1 OpArgK OpArgK iABC, 
    opmode 0 1 OpArgR OpArgN iABC, opmode 0 1 OpArgR OpArgN iABC, opmode 0 1 OpArgR OpArgN iABC, 
    opmode 0 1 OpArgR OpArgR iABC, opmode 0 0 OpArgR OpArgN iAsBx, opmode 1 0 OpArgK OpArgK iABC, 
    opmode 1 0 OpArgK OpArgK iABC, opmode 1 0 OpArgK OpArgK iABC, opmode 1 1 OpArgR OpArgU iABC, 
    opmode 1 1 OpArgR OpArgU iABC, opmode 0 1 OpArgU OpArgU iABC, opmode 0 1 OpArgU OpArgU iABC, 
    opmode 0 0 OpArgU OpArgN iABC, opmode 0 1 OpArgR OpArgN iAsBx, opmode 0 1 OpArgR OpArgN iAsBx, 
    opmode 1 0 OpArgN OpArgU iABC, opmode 0 0 OpArgU OpArgU iABC, opmode 0 0 OpArgN OpArgN iABC, 
    opmode 0 1 OpArgU OpArgN iABx, opmode 0 1 OpArgU OpArgN iABC]"

definition luaP_opnames :: "string list" where
  "luaP_opnames =
   [''MOVE'', ''LOADK'', ''LOADBOOL'', ''LOADNIL'', ''GETUPVAL'', ''GETGLOBAL'', ''GETTABLE'', ''SETGLOBAL'', 
    ''SETUPVAL'', ''SETTABLE'', ''NEWTABLE'', ''SELF'', ''ADD'', ''SUB'', ''MUL'', ''DIV'', 
    ''MOD'', ''POW'', ''UNM'', ''NOT'', ''LEN'', ''CONCAT'', ''JMP'', ''EQ'', 
    ''LT'', ''LE'', ''TEST'', ''TESTSET'', ''CALL'', ''TAILCALL'', ''RETURN'', ''FORLOOP'', 
    ''FORPREP'', ''TFORLOOP'', ''SETLIST'', ''CLOSE'', ''CLOSURE'', ''VARARG'']"

definition getOpMode :: "OpCode \<Rightarrow> nat" where "getOpMode m = luaP_opmodes ! op_num m AND 3"
definition getBMode :: "OpCode \<Rightarrow> nat" where "getBMode m = drop_bit 4 (luaP_opmodes ! op_num m) AND 3"
definition getCMode :: "OpCode \<Rightarrow> nat" where "getCMode m = drop_bit 2 (luaP_opmodes ! op_num m) AND 3"
definition testAMode :: "OpCode \<Rightarrow> bool" where "testAMode m = (luaP_opmodes ! op_num m AND push_bit 6 1 \<noteq> 0)"
definition testTMode :: "OpCode \<Rightarrow> bool" where "testTMode m = (luaP_opmodes ! op_num m AND push_bit 7 1 \<noteq> 0)"

subsection \<open>Fields are independent\<close>

lemma MASK1_mask: "MASK1 n p = push_bit p (mask n)"
  by (rule bit_eqI) (auto simp: MASK1_def bit_simps)

lemma bit_get_field: "bit (get_field n p i) k \<longleftrightarrow> k < n \<and> bit i (p + k)"
  by (auto simp: get_field_def MASK1_mask bit_simps dest: bit_imp_le_length)

lemma bit_set_field:
  "bit (set_field n p i u) k \<longleftrightarrow> (if p \<le> k \<and> k < p + n then k < 32 \<and> bit u (k - p) else bit i k)"
  by (auto simp: set_field_def MASK0_def MASK1_mask bit_simps dest: bit_imp_le_length)

text \<open>A field of an instruction: what the accessors promise to the code generator and the virtual machine.\<close>

locale bitfield =
  fixes size pos :: nat
  assumes fits: "size + pos \<le> 32"
begin

lemma get_set: "get_field size pos (set_field size pos i u) = take_bit size u"
  using fits by (intro bit_word_eqI) (auto simp: bit_get_field bit_set_field bit_simps)

lemma get_set_int: "0 \<le> u \<Longrightarrow> u < 2 ^ size \<Longrightarrow> uint (get_field size pos (set_field size pos i (of_int u))) = u"
proof -
  assume u: "0 \<le> u" "u < 2 ^ size"
  have "size \<le> 32" using fits by simp
  then have "(2 :: int) ^ size \<le> 2 ^ 32" by (rule power_increasing) simp
  with u have "u < 2 ^ 32" by linarith
  with u show ?thesis unfolding get_set
    by (simp add: unsigned_take_bit_eq uint_word_of_int take_bit_int_eq_self)
qed

lemma get_set_other:
  "p + n \<le> pos \<or> pos + size \<le> p \<Longrightarrow> get_field size pos (set_field n p i u) = get_field size pos i"
  by (intro bit_word_eqI) (auto simp: bit_get_field bit_set_field)

lemma get_bound: "uint (get_field size pos i) < 2 ^ size"
proof -
  have "take_bit size (get_field size pos i) = get_field size pos i"
    by (rule bit_word_eqI) (auto simp: bit_simps bit_get_field)
  then show ?thesis by (metis take_bit_int_less_exp unsigned_take_bit_eq)
qed

end

interpretation op_field: bitfield SIZE_OP POS_OP by unfold_locales (simp add: field_defs)
interpretation A_field: bitfield SIZE_A POS_A by unfold_locales (simp add: field_defs)
interpretation B_field: bitfield SIZE_B POS_B by unfold_locales (simp add: field_defs)
interpretation C_field: bitfield SIZE_C POS_C by unfold_locales (simp add: field_defs)
interpretation Bx_field: bitfield SIZE_Bx POS_Bx by unfold_locales (simp add: field_defs)

lemma get_or: "get_field n p (x OR y) = get_field n p x OR get_field n p y"
  by (rule bit_word_eqI) (auto simp: bit_get_field bit_simps)

lemma bit_of_int_range: "0 \<le> u \<Longrightarrow> u < 2 ^ m \<Longrightarrow> bit (of_int u :: Instruction) k \<Longrightarrow> k < m"
proof -
  assume u: "0 \<le> u" "u < 2 ^ m" and "bit (of_int u :: Instruction) k"
  then have "bit u k" by (simp add: bit_simps)
  moreover have "take_bit m u = u" using u by (simp add: take_bit_int_eq_self)
  ultimately show "k < m" by (metis bit_take_bit_iff)
qed

lemma get_push_other:
  "0 \<le> u \<Longrightarrow> u < 2 ^ m \<Longrightarrow> q + m \<le> p \<or> p + n \<le> q \<Longrightarrow> get_field n p (push_bit q (of_int u)) = 0"
proof (intro bit_word_eqI)
  fix k assume u: "0 \<le> u" "u < 2 ^ m" and q: "q + m \<le> p \<or> p + n \<le> q"
  show "bit (get_field n p (push_bit q (of_int u))) k \<longleftrightarrow> bit (0 :: Instruction) k"
    unfolding bit_get_field bit_push_bit_iff using bit_of_int_range [OF u, of "p + k - q"] q by auto
qed

lemma get_push_same:
  assumes "0 \<le> u" "u < 2 ^ n" "p + n \<le> 32"
  shows "get_field n p (push_bit p (of_int u)) = of_int u"
proof (rule bit_word_eqI)
  fix k
  show "bit (get_field n p (push_bit p (of_int u))) k \<longleftrightarrow> bit (of_int u :: Instruction) k"
    unfolding bit_get_field bit_push_bit_iff using bit_of_int_range [OF assms(1,2), of k] assms(3) by auto
qed

lemma op_num_less: "op_num op < 38"
  by (cases op) (simp_all add: op_num_def opcodes_def)

lemma cast_op_num [simp]: "cast_OpCode (op_num op) = Some op"
  by (cases op) (simp_all add: cast_OpCode_def NUM_OPCODES_def op_num_def opcodes_def)

lemma uint_of_int_small: "0 \<le> u \<Longrightarrow> u < 2 ^ 32 \<Longrightarrow> uint (of_int u :: Instruction) = u"
  by (simp add: uint_word_of_int take_bit_int_eq_self)

lemma get_op_other: "6 \<le> p \<Longrightarrow> get_field n p (of_nat (op_num op)) = 0"
  using get_push_other [of "int (op_num op)" 6 0 p n] op_num_less [of op] by simp

text \<open>The instruction made from an operation code and arguments within their limits gives them back; the
  fields do not overlap.\<close>

theorem CREATE_ABC_fields:
  assumes "0 \<le> a" "a \<le> MAXARG_A" "0 \<le> b" "b \<le> MAXARG_B" "0 \<le> c" "c \<le> MAXARG_C"
  shows "GET_OPCODE (CREATE_ABC op a b c) = Some op \<and> GETARG_A (CREATE_ABC op a b c) = a \<and>
    GETARG_B (CREATE_ABC op a b c) = b \<and> GETARG_C (CREATE_ABC op a b c) = c"
proof -
  have r: "a < 2 ^ 8" "b < 2 ^ 9" "c < 2 ^ 9" "int (op_num op) < 2 ^ 6"
    using assms op_num_less [of op] by (simp_all add: MAXARG_A_def MAXARG_B_def MAXARG_C_def field_defs)
  have e: "CREATE_ABC op a b c = push_bit 0 (of_int (int (op_num op))) OR push_bit 6 (of_int a) OR
      push_bit 23 (of_int b) OR push_bit 14 (of_int c)"
    by (simp add: CREATE_ABC_def field_defs)
  have "get_field 6 0 (CREATE_ABC op a b c) = of_int (int (op_num op))"
    "get_field 8 6 (CREATE_ABC op a b c) = of_int a" "get_field 9 23 (CREATE_ABC op a b c) = of_int b"
    "get_field 9 14 (CREATE_ABC op a b c) = of_int c"
    unfolding e get_or using assms r
    by (simp_all add: get_push_same get_push_other [where m = 8] get_push_other [where m = 9] get_op_other)
      (use get_push_same [of "int (op_num op)" 6 0] in simp)
  moreover have "unat (of_int (int (op_num op)) :: Instruction) = op_num op"
    using op_num_less [of op] by (simp add: unat_of_nat)
  ultimately show ?thesis using assms r uint_of_int_small
    by (simp add: GET_OPCODE_def GETARG_A_def GETARG_B_def GETARG_C_def field_defs)
qed

theorem CREATE_ABC_fields_witness:
  "GETARG_B (CREATE_ABC OP_ADD 255 511 7) = 511 \<and> GETARG_C (CREATE_ABC OP_ADD 255 511 7) = 7"
  using CREATE_ABC_fields [of 255 511 7 OP_ADD] by (simp add: MAXARG_A_def MAXARG_B_def MAXARG_C_def field_defs)

text \<open>Changing one argument of an instruction leaves its operation code and the other arguments as they are, and the
  argument reads back, whatever the instruction was.\<close>

theorem SETARG_independent:
  assumes "0 \<le> u" "u \<le> MAXARG_B"
  shows "GETARG_B (SETARG_B i u) = u \<and> GETARG_A (SETARG_B i u) = GETARG_A i \<and> GETARG_C (SETARG_B i u) = GETARG_C i \<and>
    GET_OPCODE (SETARG_B i u) = GET_OPCODE i"
proof -
  have "u < 2 ^ SIZE_B" using assms(2) by (simp add: MAXARG_B_def)
  from B_field.get_set_int [OF assms(1) this] show ?thesis
    using A_field.get_set_other [of POS_B SIZE_B] C_field.get_set_other [of POS_B SIZE_B]
      op_field.get_set_other [of POS_B SIZE_B]
    by (simp add: GETARG_A_def GETARG_B_def SETARG_B_def GETARG_C_def GET_OPCODE_def field_defs)
qed

theorem SETARG_independent_witness: "GETARG_B (SETARG_B (CREATE_ABC OP_MOVE 3 4 5) 100) = 100"
  using SETARG_independent [of 100] by (simp add: MAXARG_B_def field_defs)

text \<open>A signed argument, in excess-K representation, reads back over its whole range, from -131071 to 131072, and changing it keeps
  the register argument.\<close>

theorem SETARG_sBx_roundtrip:
  assumes "- MAXARG_sBx \<le> b" "b \<le> MAXARG_sBx + 1"
  shows "GETARG_sBx (SETARG_sBx i b) = b \<and> GETARG_A (SETARG_sBx i b) = GETARG_A i"
proof -
  have "0 \<le> b + MAXARG_sBx" "b + MAXARG_sBx < 2 ^ SIZE_Bx"
    using assms by (simp_all add: MAXARG_sBx_def MAXARG_Bx_def field_defs)
  from Bx_field.get_set_int [OF this] show ?thesis
    using A_field.get_set_other [of POS_Bx SIZE_Bx]
    by (simp add: GETARG_sBx_def SETARG_sBx_def GETARG_Bx_def SETARG_Bx_def GETARG_A_def field_defs)
qed

theorem SETARG_sBx_roundtrip_witness: "GETARG_sBx (SETARG_sBx (CREATE_ABx OP_JMP 0 0) (- 5)) = - 5"
  using SETARG_sBx_roundtrip [of "- 5"] by (simp add: MAXARG_sBx_def MAXARG_Bx_def field_defs)

text \<open>A register-or-constant operand: a constant index up to the limit is marked as a constant and gives its index back, and no
  register number is taken for a constant.\<close>

theorem RK_operands:
  assumes "0 \<le> x" "x \<le> MAXINDEXRK"
  shows "ISK (RKASK x) \<and> INDEXK (RKASK x) = x \<and> \<not> ISK x \<and> RKASK x \<le> MAXARG_B"
proof -
  have x: "x < 2 ^ 8" using assms by (simp add: MAXINDEXRK_def BITRK_def field_defs)
  have b: "bit (256 :: int) k \<longleftrightarrow> k = 8" for k
    using bit_exp_iff [of 8 k, where ?'a = int] by auto
  have not8: "\<not> bit x k" if "8 \<le> k" for k
  proof -
    have "take_bit 8 x = x" using assms(1) x by (simp add: take_bit_int_eq_self)
    with that show ?thesis by (metis bit_take_bit_iff not_less)
  qed
  have and0: "x AND 256 = 0" by (rule bit_eqI) (auto simp: bit_simps b not8)
  have "(x OR 256) AND 256 = 256" by (rule bit_eqI) (auto simp: bit_simps b)
  moreover have "(x OR 256) AND NOT 256 = x" by (rule bit_eqI) (auto simp: bit_simps b not8)
  moreover have "x OR 256 = x + 256" using and0 plus_and_or [of x 256] by simp
  ultimately show ?thesis using and0 x
    by (simp add: ISK_def INDEXK_def RKASK_def BITRK_def MAXARG_B_def field_defs)
qed

theorem RK_operands_witness: "INDEXK (RKASK 255) = 255 \<and> ISK (RKASK 255)"
  using RK_operands [of 255] by (simp add: MAXINDEXRK_def BITRK_def field_defs)

definition decodes :: "nat \<Rightarrow> nat \<Rightarrow> OpArgMask \<Rightarrow> OpArgMask \<Rightarrow> OpMode \<Rightarrow> nat \<Rightarrow> bool" where
  "decodes t a b c m e \<longleftrightarrow> e AND 3 = mode_num m \<and> drop_bit 4 e AND 3 = mask_num b \<and> drop_bit 2 e AND 3 = mask_num c \<and>
     (e AND push_bit 6 1 \<noteq> 0 \<longleftrightarrow> a = 1) \<and> (e AND push_bit 7 1 \<noteq> 0 \<longleftrightarrow> t = 1) \<and> e < 256"

lemma bit_small: "x < 2 ^ n \<Longrightarrow> bit (x :: nat) k \<Longrightarrow> k < n"
  by (metis bit_take_bit_iff take_bit_nat_eq_self)

lemma bit_opmode:
  assumes "t < 2 ^ 1" "a < 2 ^ 1"
  shows "bit (opmode t a b c m) k \<longleftrightarrow>
    (if k < 2 then bit (mode_num m) k else if k < 4 then bit (mask_num c) (k - 2) else if k < 6 then bit (mask_num b) (k - 4)
     else if k = 6 then bit a 0 else k = 7 \<and> bit t 0)"
proof -
  have "mask_num x < 2 ^ 2" for x by (cases x) simp_all
  moreover have "mode_num m < 2 ^ 2" by (cases m) simp_all
  ultimately show ?thesis
    using bit_small [of "mask_num b" 2 "k - 4"] bit_small [of "mask_num c" 2 "k - 2"] bit_small [of "mode_num m" 2 k]
      bit_small [OF assms(1), of "k - 7"] bit_small [OF assms(2), of "k - 6"]
    unfolding opmode_def bit_or_iff bit_push_bit_iff by auto
qed

lemma opmode_decodes:
  assumes "t < 2 ^ 1" "a < 2 ^ 1"
  shows "decodes t a b c m (opmode t a b c m)"
proof -
  let ?e = "opmode t a b c m"
  note B = bit_opmode [OF assms]
  have three: "x AND 3 = take_bit 2 x" for x :: nat by (simp add: take_bit_eq_mask mask_eq_exp_minus_1)
  have mask2: "bit (mask_num x) k \<Longrightarrow> k < 2" for x k by (rule bit_small [of "mask_num x"]) (cases x; simp)
  have mode2: "bit (mode_num m) k \<Longrightarrow> k < 2" for k by (rule bit_small [of "mode_num m"]) (cases m; simp)
  have "take_bit 2 ?e = mode_num m" by (rule bit_eqI) (auto simp: bit_simps B dest: mode2)
  moreover have "take_bit 2 (drop_bit 4 ?e) = mask_num b" "take_bit 2 (drop_bit 2 ?e) = mask_num c"
    by (rule bit_eqI; auto simp: bit_simps B dest: mask2)+
  moreover have "?e AND push_bit 6 1 \<noteq> 0 \<longleftrightarrow> bit ?e 6" "?e AND push_bit 7 1 \<noteq> 0 \<longleftrightarrow> bit ?e 7"
    using and_exp_eq_0_iff_not_bit [of ?e 6] and_exp_eq_0_iff_not_bit [of ?e 7] by (simp_all add: push_bit_eq_mult)
  moreover have "take_bit 8 ?e = ?e" by (rule bit_eqI) (auto simp: bit_simps B split: if_splits)
  then have "?e < 2 ^ 8" by (metis take_bit_nat_less_exp)
  moreover have "bit a 0 \<longleftrightarrow> a = 1" "bit t 0 \<longleftrightarrow> t = 1" using assms by (auto simp: bit_0 less_2_cases_iff)
  ultimately show ?thesis unfolding decodes_def three by (auto simp: B)
qed

lemma opmode_fields:
  assumes "t < 2 ^ 1" "a < 2 ^ 1"
  shows "opmode t a b c m AND 3 = mode_num m" "drop_bit 4 (opmode t a b c m) AND 3 = mask_num b"
    "drop_bit 2 (opmode t a b c m) AND 3 = mask_num c" "opmode t a b c m AND push_bit 6 1 \<noteq> 0 \<longleftrightarrow> a = 1"
    "opmode t a b c m AND push_bit 7 1 \<noteq> 0 \<longleftrightarrow> t = 1"
  using opmode_decodes [OF assms, of b c m] unfolding decodes_def by simp_all

lemmas opmode_entries =
  opmode_fields [of 0 0, simplified] opmode_fields [of 0 1, simplified] opmode_fields [of 1 0, simplified]
  opmode_fields [of 1 1, simplified]
lemmas op_tables = luaP_opmodes_def op_num_def opcodes_def

lemma testTMode_iff: "testTMode op \<longleftrightarrow> op \<in> {OP_EQ, OP_LT, OP_LE, OP_TEST, OP_TESTSET, OP_TFORLOOP}"
  by (cases op) (simp_all add: testTMode_def op_tables opmode_entries)

lemma testAMode_iff:
  "testAMode op \<longleftrightarrow> op \<notin> {OP_SETGLOBAL, OP_SETUPVAL, OP_SETTABLE, OP_JMP, OP_EQ, OP_LT, OP_LE, OP_RETURN, OP_TFORLOOP,
     OP_SETLIST, OP_CLOSE}"
  by (cases op) (simp_all add: testAMode_def op_tables opmode_entries)

lemma getOpMode_iff:
  "getOpMode op = (if op \<in> {OP_JMP, OP_FORLOOP, OP_FORPREP} then mode_num iAsBx
     else if op \<in> {OP_LOADK, OP_GETGLOBAL, OP_SETGLOBAL, OP_CLOSURE} then mode_num iABx else mode_num iABC)"
  by (cases op) (simp_all add: getOpMode_def op_tables opmode_entries)

lemma getBMode_table: "getBMode op = mask_num
    ([OpArgR, OpArgK, OpArgU, OpArgR, OpArgU, OpArgK, OpArgR, OpArgK, OpArgU, OpArgK, OpArgU, OpArgR, OpArgK,
     OpArgK, OpArgK, OpArgK, OpArgK, OpArgK, OpArgR, OpArgR, OpArgR, OpArgR, OpArgR, OpArgK, OpArgK, OpArgK,
     OpArgR, OpArgR, OpArgU, OpArgU, OpArgU, OpArgR, OpArgR, OpArgN, OpArgU, OpArgN, OpArgU, OpArgU] ! op_num op)"
  by (cases op) (simp_all add: getBMode_def op_tables opmode_entries)

lemma getCMode_table: "getCMode op = mask_num
    ([OpArgN, OpArgN, OpArgU, OpArgN, OpArgN, OpArgN, OpArgK, OpArgN, OpArgN, OpArgK, OpArgU, OpArgK, OpArgK,
     OpArgK, OpArgK, OpArgK, OpArgK, OpArgK, OpArgN, OpArgN, OpArgN, OpArgR, OpArgN, OpArgK, OpArgK, OpArgK,
     OpArgU, OpArgU, OpArgU, OpArgU, OpArgN, OpArgN, OpArgN, OpArgU, OpArgU, OpArgN, OpArgN, OpArgN] ! op_num op)"
  by (cases op) (simp_all add: getCMode_def op_tables opmode_entries)

lemmas mode_code [code] = testTMode_iff testAMode_iff getOpMode_iff getBMode_table getCMode_table

lemma getBMode_simps [simp]:
  "getBMode OP_JMP = 2" "getBMode OP_FORLOOP = 2" "getBMode OP_FORPREP = 2" "getBMode OP_LOADK = 3"
  "getBMode OP_GETGLOBAL = 3" "getBMode OP_SETGLOBAL = 3" "getBMode OP_CLOSURE = 1"
  by (simp_all add: getBMode_def op_tables opmode_entries)

text \<open>The packed table of operation modes decodes, for every operation, to the format of its arguments that the comments of the
  enumeration give: which operations are tests, which set register A, which have a signed or a long argument, and what it is.\<close>

theorem opmodes_decode:
  "(testTMode op \<longleftrightarrow> op \<in> {OP_EQ, OP_LT, OP_LE, OP_TEST, OP_TESTSET, OP_TFORLOOP}) \<and>
   (testAMode op \<longleftrightarrow> op \<notin> {OP_SETGLOBAL, OP_SETUPVAL, OP_SETTABLE, OP_JMP, OP_EQ, OP_LT, OP_LE, OP_RETURN, OP_TFORLOOP,
     OP_SETLIST, OP_CLOSE}) \<and>
   (getOpMode op, getBMode op) =
     (if op \<in> {OP_JMP, OP_FORLOOP, OP_FORPREP} then (mode_num iAsBx, mask_num OpArgR)
      else if op \<in> {OP_LOADK, OP_GETGLOBAL, OP_SETGLOBAL} then (mode_num iABx, mask_num OpArgK)
      else if op = OP_CLOSURE then (mode_num iABx, mask_num OpArgU)
      else (mode_num iABC, getBMode op))"
  unfolding testTMode_iff testAMode_iff getOpMode_iff by auto

end
