(* ===== verification/Lua_Proto.thy ===== *)
theory Lua_Proto
  imports Lua_Opcodes
begin

text \<open>
  \<^verbatim>\<open>src/src/lobject.h\<close>: function prototypes.  The sizes that the C structure keeps beside its vectors are
  the lengths of the lists, a null \<open>TString\<close> pointer is \<open>None\<close>, and a constant is a tagged value of one
  of the four types that a chunk can contain; a number is kept as the 64 bits of a double.
\<close>

type_synonym TString = "byte list"

datatype TConst = KNil | KBool bool | KNumber "64 word" | KString "TString option"

record LocVar =
  varname :: "TString option"
  startpc :: cint
  endpc :: cint

datatype Proto =
  Proto (source: "TString option") (linedefined: cint) (lastlinedefined: cint) (nups: byte) (numparams: byte) (is_vararg: byte)
    (maxstacksize: byte) (code: "Instruction list") (ks: "TConst list") (ps: "Proto list") (lineinfo: "cint list")
    (locvars: "LocVar list") (upvalues: "TString option list")

text \<open>The type tags of \<^verbatim>\<open>lua.h\<close> that constants have.\<close>

definition LUA_TNIL :: int where "LUA_TNIL = 0"
definition LUA_TBOOLEAN :: int where "LUA_TBOOLEAN = 1"
definition LUA_TNUMBER :: int where "LUA_TNUMBER = 3"
definition LUA_TSTRING :: int where "LUA_TSTRING = 4"

fun ttype :: "TConst \<Rightarrow> int" where
  "ttype KNil = LUA_TNIL"
| "ttype (KBool _) = LUA_TBOOLEAN"
| "ttype (KNumber _) = LUA_TNUMBER"
| "ttype (KString _) = LUA_TSTRING"

definition ttisstring :: "TConst \<Rightarrow> bool" where
  "ttisstring c = (ttype c = LUA_TSTRING)"

definition VARARG_HASARG :: byte where "VARARG_HASARG = 1"
definition VARARG_ISVARARG :: byte where "VARARG_ISVARARG = 2"
definition VARARG_NEEDSARG :: byte where "VARARG_NEEDSARG = 4"

lemmas tag_defs = LUA_TNIL_def LUA_TBOOLEAN_def LUA_TNUMBER_def LUA_TSTRING_def

lemma ttisstring_iff: "ttisstring c \<longleftrightarrow> (\<exists>s. c = KString s)"
  by (cases c) (simp_all add: ttisstring_def tag_defs)

end
