(* ===== verification/Lua_Dump.thy ===== *)
theory Lua_Dump
  imports Lua_Proto
begin

text \<open>
  \<^verbatim>\<open>src/src/ldump.c\<close>: saving a function as a precompiled chunk, for a little-endian machine with 32-bit \<open>int\<close> and \<open>Instruction\<close> and
  64-bit \<open>size_t\<close> and \<open>lua_Number\<close>.  A writer gets one block after the other and returns a status; after the first
  status that is not zero nothing more is written.  The locale \<open>chunk_writer\<close> is what the dumper relies on.
\<close>

subsection \<open>Machine integers in memory\<close>

definition le_bytes :: "'a::len word \<Rightarrow> byte list" where
  "le_bytes w = map (\<lambda>i. ucast (drop_bit (8 * i) w)) [0..<LENGTH('a) div 8]"

definition of_le :: "byte list \<Rightarrow> 'a::len word" where
  "of_le bs = foldr (\<lambda>b w. ucast b OR push_bit 8 w) bs 0"

lemma length_le_bytes [simp]: "length (le_bytes (w :: 'a::len word)) = LENGTH('a) div 8"
  by (simp add: le_bytes_def)

lemma bit_of_le:
  "bit (of_le bs :: 'a::len word) n \<longleftrightarrow> n < LENGTH('a) \<and> n < 8 * length bs \<and> bit (bs ! (n div 8)) (n mod 8)"
proof (induction bs arbitrary: n)
  case (Cons b bs)
  show ?case
  proof (cases "n < 8")
    case True
    then show ?thesis by (auto simp: of_le_def bit_simps)
  next
    case False
    then have "n div 8 = Suc ((n - 8) div 8)" "n mod 8 = (n - 8) mod 8" by (simp_all add: le_div_geq le_mod_geq)
    moreover have "\<not> bit b n" using False by (auto dest: bit_imp_le_length)
    ultimately show ?thesis using False Cons [of "n - 8"] by (auto simp: of_le_def bit_simps)
  qed
qed (simp add: of_le_def)

lemma of_le_le_bytes:
  assumes "8 dvd LENGTH('a)"
  shows "of_le (le_bytes w) = (w :: 'a::len word)"
proof (rule bit_word_eqI)
  fix n assume n: "n < LENGTH('a)"
  then have "n div 8 < LENGTH('a) div 8" using assms by (auto simp: dvd_def)
  with n assms show "bit (of_le (le_bytes w) :: 'a word) n \<longleftrightarrow> bit w n"
    by (auto simp: bit_of_le le_bytes_def bit_simps)
qed

lemma of_le_simps [simp]:
  "of_le (le_bytes (x :: 8 word)) = x" "of_le (le_bytes (i :: 32 word)) = i" "of_le (le_bytes (j :: 64 word)) = j"
  by (simp_all add: of_le_le_bytes)

subsection \<open>Writing\<close>

record 'd DumpState =
  writer :: "'d \<Rightarrow> byte list \<Rightarrow> cint \<times> 'd"
  data :: 'd
  strip :: bool
  status :: cint

definition DumpBlock :: "byte list \<Rightarrow> 'd DumpState \<Rightarrow> 'd DumpState" where
  "DumpBlock b D = (if status D = 0 then (case writer D (data D) b of (s, d) \<Rightarrow> D\<lparr>status := s, data := d\<rparr>) else D)"

definition DumpChar :: "int \<Rightarrow> 'd DumpState \<Rightarrow> 'd DumpState" where
  "DumpChar y D = DumpBlock (le_bytes (of_int y :: byte)) D"

definition DumpInt :: "cint \<Rightarrow> 'd DumpState \<Rightarrow> 'd DumpState" where
  "DumpInt x D = DumpBlock (le_bytes x) D"

definition DumpNumber :: "64 word \<Rightarrow> 'd DumpState \<Rightarrow> 'd DumpState" where
  "DumpNumber x D = DumpBlock (le_bytes x) D"

definition DumpVector :: "cint list \<Rightarrow> 'd DumpState \<Rightarrow> 'd DumpState" where
  "DumpVector b D = (let D = DumpInt (of_nat (length b)) D in DumpBlock (concat (map le_bytes b)) D)"

definition DumpString :: "TString option \<Rightarrow> 'd DumpState \<Rightarrow> 'd DumpState" where
  "DumpString s D = (case s of
     None \<Rightarrow> DumpBlock (le_bytes (0 :: 64 word)) D
   | Some s \<Rightarrow>
       let D = DumpBlock (le_bytes (of_nat (length s + 1) :: 64 word)) D
       in DumpBlock (s @ [0]) D)"

definition DumpConstant :: "TConst \<Rightarrow> 'd DumpState \<Rightarrow> 'd DumpState" where
  "DumpConstant o' D = (let D = DumpChar (ttype o') D in
     case o' of
       KNil \<Rightarrow> D
     | KBool b \<Rightarrow> DumpChar (of_bool b) D
     | KNumber n \<Rightarrow> DumpNumber n D
     | KString s \<Rightarrow> DumpString s D)"

definition DumpConstants :: "(Proto \<Rightarrow> TString option \<Rightarrow> 'd DumpState \<Rightarrow> 'd DumpState) \<Rightarrow> Proto \<Rightarrow> 'd DumpState \<Rightarrow> 'd DumpState" where
  "DumpConstants dumpf f D = (let
     D = DumpInt (of_nat (length (ks f))) D;
     D = fold DumpConstant (ks f) D;
     D = DumpInt (of_nat (length (ps f))) D
   in fold (\<lambda>g. dumpf g (source f)) (ps f) D)"

definition DumpLocVar :: "LocVar \<Rightarrow> 'd DumpState \<Rightarrow> 'd DumpState" where
  "DumpLocVar v D = (let D = DumpString (varname v) D; D = DumpInt (startpc v) D in DumpInt (endpc v) D)"

definition DumpDebug :: "Proto \<Rightarrow> 'd DumpState \<Rightarrow> 'd DumpState" where
  "DumpDebug f D = (let
     D = DumpVector (if strip D then [] else lineinfo f) D;
     vars = (if strip D then [] else locvars f);
     D = DumpInt (of_nat (length vars)) D;
     D = fold DumpLocVar vars D;
     ups = (if strip D then [] else upvalues f);
     D = DumpInt (of_nat (length ups)) D
   in fold DumpString ups D)"

lemma DumpConstants_cong [fundef_cong]:
  "f = f' \<Longrightarrow> D = D' \<Longrightarrow> (\<And>g s d. g \<in> set (ps f') \<Longrightarrow> df g s d = df' g s d) \<Longrightarrow> DumpConstants df f D = DumpConstants df' f' D'"
  by (auto simp: DumpConstants_def Let_def intro!: fold_cong ext)

lemma size_ps: "g \<in> set (ps f) \<Longrightarrow> size g < size f"
  using size_list_estimation' [of g "ps f" "size g" size] by (cases f) (simp add: less_Suc_eq_le trans_le_add1)

function DumpFunction :: "Proto \<Rightarrow> TString option \<Rightarrow> 'd DumpState \<Rightarrow> 'd DumpState" where
  "DumpFunction f p D = (let
     D = DumpString (if source f = p \<or> strip D then None else source f) D;
     D = DumpInt (linedefined f) D;
     D = DumpInt (lastlinedefined f) D;
     D = DumpChar (uint (nups f)) D;
     D = DumpChar (uint (numparams f)) D;
     D = DumpChar (uint (is_vararg f)) D;
     D = DumpChar (uint (maxstacksize f)) D;
     D = DumpVector (code f) D;
     D = DumpConstants DumpFunction f D
   in DumpDebug f D)"
  by pat_completeness auto
termination by (relation "measure (\<lambda>(f, p, D). size f)") (auto simp: size_ps)

declare DumpFunction.simps [simp del]

definition LUA_SIGNATURE :: "byte list" where "LUA_SIGNATURE = [0x1B, 0x4C, 0x75, 0x61]"
definition LUAC_VERSION :: byte where "LUAC_VERSION = 0x51"
definition LUAC_FORMAT :: byte where "LUAC_FORMAT = 0"
definition LUAC_HEADERSIZE :: nat where "LUAC_HEADERSIZE = 12"

text \<open>The header: signature, version, format, endianness, the sizes of \<open>int\<close>, \<open>size_t\<close>, \<open>Instruction\<close> and
  \<open>lua_Number\<close>, and whether numbers are integral.\<close>

definition luaU_header :: "byte list" where
  "luaU_header = LUA_SIGNATURE @ [LUAC_VERSION, LUAC_FORMAT, hd (le_bytes (1 :: cint)), 4, 8, 4, 8, 0]"

definition DumpHeader :: "'d DumpState \<Rightarrow> 'd DumpState" where
  "DumpHeader D = DumpBlock luaU_header D"

definition luaU_dump :: "Proto \<Rightarrow> ('d \<Rightarrow> byte list \<Rightarrow> cint \<times> 'd) \<Rightarrow> 'd \<Rightarrow> bool \<Rightarrow> cint \<times> 'd" where
  "luaU_dump f w d strp = (let
     D = \<lparr>writer = w, data = d, strip = strp, status = 0\<rparr>;
     D = DumpHeader D;
     D = DumpFunction f None D
   in (status D, data D))"

subsection \<open>What is written\<close>

text \<open>The bytes of a string, a constant, a local variable and a function in a chunk.\<close>

definition enc_string :: "TString option \<Rightarrow> byte list" where
  "enc_string s = (case s of None \<Rightarrow> le_bytes (0 :: 64 word)
     | Some s \<Rightarrow> le_bytes (of_nat (length s + 1) :: 64 word) @ s @ [0])"

definition enc_size :: "'a list \<Rightarrow> byte list" where
  "enc_size xs = le_bytes (of_nat (length xs) :: cint)"

definition enc_vector :: "cint list \<Rightarrow> byte list" where
  "enc_vector xs = enc_size xs @ concat (map le_bytes xs)"

fun enc_const :: "TConst \<Rightarrow> byte list" where
  "enc_const KNil = [0]"
| "enc_const (KBool b) = [1, of_bool b]"
| "enc_const (KNumber n) = 3 # le_bytes n"
| "enc_const (KString s) = 4 # enc_string s"

definition enc_locvar :: "LocVar \<Rightarrow> byte list" where
  "enc_locvar v = enc_string (varname v) @ le_bytes (startpc v) @ le_bytes (endpc v)"

definition enc_debug :: "bool \<Rightarrow> Proto \<Rightarrow> byte list" where
  "enc_debug strp f = (let li = (if strp then [] else lineinfo f); lv = (if strp then [] else locvars f);
       uv = (if strp then [] else upvalues f)
     in enc_vector li @ enc_size lv @ concat (map enc_locvar lv) @ enc_size uv @ concat (map enc_string uv))"

function enc_proto :: "bool \<Rightarrow> Proto \<Rightarrow> TString option \<Rightarrow> byte list" where
  "enc_proto strp f p =
     enc_string (if source f = p \<or> strp then None else source f) @ le_bytes (linedefined f) @ le_bytes (lastlinedefined f) @
     [nups f] @ [numparams f] @ [is_vararg f] @ [maxstacksize f] @ enc_vector (code f) @
     (enc_size (ks f) @ concat (map enc_const (ks f)) @
      enc_size (ps f) @ concat (map (\<lambda>g. enc_proto strp g (source f)) (ps f))) @
     enc_debug strp f"
  by pat_completeness auto
termination by (relation "measure (\<lambda>(strp, f, p). size f)") (auto simp: size_ps)

declare enc_proto.simps [simp del]

definition chunk :: "bool \<Rightarrow> Proto \<Rightarrow> byte list" where
  "chunk strp f = luaU_header @ enc_proto strp f None"

text \<open>An action of the dumper as the sequence of blocks that it hands to the writer.\<close>

definition dumps :: "('d DumpState \<Rightarrow> 'd DumpState) \<Rightarrow> byte list \<Rightarrow> bool \<Rightarrow> bool" where
  "dumps g bs strp \<longleftrightarrow> (\<exists>bl. concat bl = bs \<and> (\<forall>D. strip D = strp \<longrightarrow> g D = fold DumpBlock bl D))"

lemma strip_DumpBlock [simp]: "strip (DumpBlock b D) = strip D" "writer (DumpBlock b D) = writer D"
  by (simp_all add: DumpBlock_def split: prod.splits)

lemma strip_fold_DumpBlock [simp]: "strip (fold DumpBlock bl D) = strip D"
  by (induction bl arbitrary: D) simp_all

lemma strip_dumps: "dumps g bs strp \<Longrightarrow> strip D = strp \<Longrightarrow> strip (g D) = strp"
  by (auto simp: dumps_def)

lemma dumps_block: "dumps (DumpBlock b) b strp"
  unfolding dumps_def by (rule exI [of _ "[b]"]) simp

lemma dumps_seq:
  assumes "dumps g bs strp" "dumps h cs strp" and "\<And>D. strip D = strp \<Longrightarrow> gh D = h (g D)"
  shows "dumps gh (bs @ cs) strp"
proof -
  from assms(1,2) obtain bl cl where "concat bl = bs" "concat cl = cs"
    "\<And>D. strip D = strp \<Longrightarrow> g D = fold DumpBlock bl D" "\<And>D. strip D = strp \<Longrightarrow> h D = fold DumpBlock cl D"
    by (auto simp: dumps_def)
  with assms(3) show ?thesis unfolding dumps_def by (intro exI [of _ "bl @ cl"]) auto
qed

lemma dumps_cong: "dumps g bs strp \<Longrightarrow> (\<And>D. strip D = strp \<Longrightarrow> h D = g D) \<Longrightarrow> dumps h bs strp"
  by (auto simp: dumps_def)

lemma dumps_fold:
  "(\<And>x. x \<in> set xs \<Longrightarrow> dumps (g x) (e x) strp) \<Longrightarrow> dumps (fold g xs) (concat (map e xs)) strp"
proof (induction xs)
  case Nil
  show ?case unfolding dumps_def by (rule exI [of _ "[]"]) simp
next
  case (Cons x xs)
  then show ?case by (auto intro: dumps_seq [where g = "g x" and h = "fold g xs"])
qed

text \<open>The dumping functions.\<close>

lemma dumps_int: "dumps (DumpInt x) (le_bytes x) strp"
  by (rule dumps_cong [OF dumps_block]) (simp add: DumpInt_def)

lemma dumps_char: "dumps (DumpChar y) (le_bytes (of_int y :: byte)) strp"
  by (rule dumps_cong [OF dumps_block]) (simp add: DumpChar_def)

lemma dumps_number: "dumps (DumpNumber x) (le_bytes x) strp"
  by (rule dumps_cong [OF dumps_block]) (simp add: DumpNumber_def)

lemma dumps_size: "dumps (DumpInt (of_nat (length xs))) (enc_size xs) strp"
  unfolding enc_size_def by (rule dumps_int)

lemma dumps_vector: "dumps (DumpVector xs) (enc_vector xs) strp"
  unfolding enc_vector_def by (rule dumps_seq [OF dumps_size dumps_block]) (simp add: DumpVector_def Let_def)

lemma dumps_string: "dumps (DumpString s) (enc_string s) strp"
proof (cases s)
  case None
  then show ?thesis by (auto intro!: dumps_cong [OF dumps_block] simp: DumpString_def enc_string_def)
next
  case (Some t)
  then show ?thesis unfolding enc_string_def
    by (auto intro!: dumps_seq [OF dumps_block dumps_block] simp: DumpString_def Let_def)
qed

lemma le_byte: "le_bytes (x :: byte) = [x]"
  by (simp add: le_bytes_def)

lemma dumps_const: "dumps (DumpConstant c) (enc_const c) strp"
proof (cases c)
  case KNil
  then show ?thesis using dumps_cong [OF dumps_char [of LUA_TNIL], of strp "DumpConstant c"]
    by (simp add: DumpConstant_def le_byte tag_defs)
next
  case (KBool b)
  then show ?thesis using dumps_seq [OF dumps_char [of LUA_TBOOLEAN] dumps_char [of "of_bool b"], of strp "DumpConstant c"]
    by (simp add: DumpConstant_def le_byte tag_defs)
next
  case (KNumber n)
  then show ?thesis using dumps_seq [OF dumps_char [of LUA_TNUMBER] dumps_number [of n], of strp "DumpConstant c"]
    by (simp add: DumpConstant_def le_byte tag_defs)
next
  case (KString s)
  then show ?thesis using dumps_seq [OF dumps_char [of LUA_TSTRING] dumps_string [of s], of strp "DumpConstant c"]
    by (simp add: DumpConstant_def le_byte tag_defs)
qed

lemma dumps_locvar: "dumps (DumpLocVar v) (enc_locvar v) strp"
  unfolding enc_locvar_def
  by (rule dumps_seq [OF dumps_string dumps_seq [OF dumps_int dumps_int refl]]) (simp add: DumpLocVar_def Let_def)

lemma dumps_constants:
  assumes "\<And>g. g \<in> set (ps f) \<Longrightarrow> dumps (df g (source f)) (e g) strp"
  shows "dumps (DumpConstants df f)
    (enc_size (ks f) @ concat (map enc_const (ks f)) @ enc_size (ps f) @ concat (map e (ps f))) strp"
  by (rule dumps_seq [OF dumps_size dumps_seq [OF dumps_fold [OF dumps_const]
        dumps_seq [OF dumps_size dumps_fold [OF assms] refl] refl]]) (auto simp: DumpConstants_def Let_def)

lemmas strip_Dump = strip_dumps [OF dumps_vector refl] strip_dumps [OF dumps_int refl]
  strip_dumps [OF dumps_fold [OF dumps_locvar] refl]

lemma dumps_debug: "dumps (DumpDebug f) (enc_debug strp f) strp"
proof -
  define li where "li = (if strp then [] else lineinfo f)"
  define lv where "lv = (if strp then [] else locvars f)"
  define uv where "uv = (if strp then [] else upvalues f)"
  have "dumps (\<lambda>D. fold DumpString uv (DumpInt (of_nat (length uv)) (fold DumpLocVar lv (DumpInt (of_nat (length lv)) (DumpVector li D)))))
      (enc_vector li @ enc_size lv @ concat (map enc_locvar lv) @ enc_size uv @ concat (map enc_string uv)) strp"
    by (rule dumps_seq [OF dumps_vector dumps_seq [OF dumps_size dumps_seq [OF dumps_fold [OF dumps_locvar]
        dumps_seq [OF dumps_size dumps_fold [OF dumps_string] refl] refl] refl]]) simp
  moreover have "DumpDebug f D = fold DumpString uv (DumpInt (of_nat (length uv)) (fold DumpLocVar lv (DumpInt (of_nat (length lv)) (DumpVector li D))))"
    if "strip D = strp" for D
    using that by (simp add: DumpDebug_def Let_def li_def lv_def uv_def strip_Dump)
  ultimately show ?thesis using dumps_cong unfolding enc_debug_def li_def lv_def uv_def Let_def by blast
qed

lemma dumps_proto: "dumps (DumpFunction f p :: 'd DumpState \<Rightarrow> 'd DumpState) (enc_proto strp f p) strp"
proof (induction "size f" arbitrary: f p rule: less_induct)
  case less
  have c: "dumps (DumpConstants DumpFunction f :: 'd DumpState \<Rightarrow> 'd DumpState) (enc_size (ks f) @ concat (map enc_const (ks f)) @
      enc_size (ps f) @ concat (map (\<lambda>g. enc_proto strp g (source f)) (ps f))) strp"
    by (rule dumps_constants) (simp add: less size_ps)
  have b: "dumps (DumpChar (uint x)) [x] strp" for x :: byte using dumps_char [of "uint x" strp] by (simp add: le_byte)
  show ?case unfolding enc_proto.simps [of strp f]
    by (rule dumps_seq [OF dumps_string dumps_seq [OF dumps_int dumps_seq [OF dumps_int dumps_seq [OF b dumps_seq [OF b
      dumps_seq [OF b dumps_seq [OF b dumps_seq [OF dumps_vector dumps_seq [OF c dumps_debug refl] refl] refl] refl] refl] refl] refl] refl]])
      (simp add: DumpFunction.simps [of f] Let_def)
qed

text \<open>A writer that keeps what it was given whenever it reports success, and one that always does.\<close>

locale chunk_writer =
  fixes w :: "'d \<Rightarrow> byte list \<Rightarrow> cint \<times> 'd" and written :: "'d \<Rightarrow> byte list"
  assumes written_w: "w d b = (0, d') \<Longrightarrow> written d' = written d @ b"
begin

lemma DumpBlock_status:
  assumes "writer D = w" "status (DumpBlock b D) = 0"
  shows "status D = 0 \<and> written (data (DumpBlock b D)) = written (data D) @ b"
proof -
  obtain s d where wr: "w (data D) b = (s, d)" by (cases "w (data D) b")
  then have e: "DumpBlock b D = (if status D = 0 then D\<lparr>status := s, data := d\<rparr> else D)"
    by (simp add: DumpBlock_def assms(1))
  have wd: "s = 0 \<Longrightarrow> written d = written (data D) @ b" using wr written_w by blast
  show ?thesis using assms(2) wd unfolding e by (auto split: if_splits)
qed

lemma fold_status:
  assumes "writer D = w" "status (fold DumpBlock bl D) = 0"
  shows "status D = 0 \<and> written (data (fold DumpBlock bl D)) = written (data D) @ concat bl"
  using assms
proof (induction bl arbitrary: D)
  case (Cons b bl)
  have "writer (DumpBlock b D) = w" using Cons.prems(1) by simp
  from Cons.IH [OF this] Cons.prems(2) have "status (DumpBlock b D) = 0"
    "written (data (fold DumpBlock bl (DumpBlock b D))) = written (data (DumpBlock b D)) @ concat bl" by simp_all
  with DumpBlock_status [OF Cons.prems(1)] show ?case by simp
qed simp

lemma dump_written:
  assumes "luaU_dump f w d strp = (0, d')"
  shows "written d' = written d @ chunk strp f"
proof -
  define D where "D = \<lparr>writer = w, data = d, strip = strp, status = 0\<rparr>"
  from dumps_proto [of f None strp] obtain bl where bl: "concat bl = enc_proto strp f None"
    "\<And>D. strip D = strp \<Longrightarrow> DumpFunction f None D = fold DumpBlock bl (D :: 'd DumpState)" by (auto simp: dumps_def)
  have "luaU_dump f w d strp = (status (fold DumpBlock (luaU_header # bl) D), data (fold DumpBlock (luaU_header # bl) D))"
    by (simp add: luaU_dump_def Let_def DumpHeader_def bl D_def)
  with assms fold_status [of D "luaU_header # bl"] bl(1) show ?thesis by (simp add: D_def chunk_def)
qed

end

locale reliable_writer = chunk_writer w written for w :: "'d \<Rightarrow> byte list \<Rightarrow> cint \<times> 'd" and written +
  assumes w_ok: "fst (w d b) = 0"
begin

lemma fold_ok: "writer D = w \<Longrightarrow> status D = 0 \<Longrightarrow> status (fold DumpBlock bl D) = 0"
proof (induction bl arbitrary: D)
  case (Cons b bl)
  have "status (DumpBlock b D) = 0" using Cons.prems w_ok [of "data D" b]
    by (cases "w (data D) b") (simp add: DumpBlock_def)
  then show ?case using Cons by simp
qed simp

lemma dump_ok: "fst (luaU_dump f w d strp) = 0"
proof -
  from dumps_proto [of f None strp] obtain bl where
    "\<And>D. strip D = strp \<Longrightarrow> DumpFunction f None D = fold DumpBlock bl (D :: 'd DumpState)" by (auto simp: dumps_def)
  then show ?thesis
    using fold_ok [of "\<lparr>writer = w, data = d, strip = strp, status = 0\<rparr>" "luaU_header # bl"]
    by (simp add: luaU_dump_def Let_def DumpHeader_def)
qed

end

text \<open>The writer of \<open>string.dump\<close> (\<^verbatim>\<open>src/src/lstrlib.c\<close>) appends to a buffer and always succeeds.\<close>

definition str_writer :: "byte list \<Rightarrow> byte list \<Rightarrow> cint \<times> byte list" where
  "str_writer B b = (0, B @ b)"

interpretation str_dump: reliable_writer str_writer "\<lambda>B. B"
  by unfold_locales (simp_all add: str_writer_def)

text \<open>The writer of \<^verbatim>\<open>src/src/luac.c\<close> writes to a file: \<open>fwrite\<close> returns 1 when the item was written completely.  The
  file is the bytes on it, and the argument \<open>fwrite\<close> gives the number of items written and the new file.\<close>

definition luac_writer :: "(byte list \<Rightarrow> byte list \<Rightarrow> nat \<times> byte list) \<Rightarrow> byte list \<Rightarrow> byte list \<Rightarrow> cint \<times> byte list" where
  "luac_writer fwrite u b = (case fwrite u b of (n, u') \<Rightarrow> (if n \<noteq> 1 \<and> b \<noteq> [] then 1 else 0, u'))"

text \<open>A file with room for a number of bytes.\<close>

definition fwrite_limit :: "nat \<Rightarrow> byte list \<Rightarrow> byte list \<Rightarrow> nat \<times> byte list" where
  "fwrite_limit room u b = (if b = [] then (0, u) else if length u + length b \<le> room then (1, u @ b) else (0, take room (u @ b)))"

interpretation luac_dump: chunk_writer "luac_writer (fwrite_limit room)" "\<lambda>u. u" for room
  by unfold_locales (auto simp: luac_writer_def fwrite_limit_def split: if_splits)

lemma str_dump_chunk: "luaU_dump f str_writer [] strp = (0, chunk strp f)"
  using str_dump.dump_ok [of f "[]" strp] str_dump.dump_written [of f "[]" strp]
  by (cases "luaU_dump f str_writer [] strp") simp

text \<open>Dumping a function as \<open>string.dump\<close> does succeeds and gives the header followed by the encoding of the function, whatever blocks it
  is written in; dumping it to a file as \<open>luac\<close> does either writes exactly that or reports a status other than zero.\<close>

theorem luaU_dump_chunk:
  "luaU_dump f str_writer [] strp = (0, chunk strp f) \<and>
   (case luaU_dump f (luac_writer (fwrite_limit room)) [] strp of (s, u) \<Rightarrow> s \<noteq> 0 \<or> u = chunk strp f)"
  using luac_dump.dump_written [of f room "[]" strp] by (auto simp: str_dump_chunk)

theorem luaU_dump_chunk_witness: "fst (luaU_dump (Proto None 0 0 0 0 0 2 [30] [] [] [] [] []) str_writer [] True) = 0"
  using luaU_dump_chunk [of "Proto None 0 0 0 0 0 2 [30] [] [] [] [] []" True 0] by simp

end
