(* ===== verification/Lua_Zio.thy ===== *)
theory Lua_Zio
  imports Prelude
begin

text \<open>
  \<^verbatim>\<open>src/src/lzio.c\<close>: buffered input streams.  A stream has the unread bytes of the current block and the
  blocks that its reader will still return, in order; the reader returns a null pointer after the last one.  A
  block of size zero also ends the stream.  What a client of a stream relies on is that reading takes the next
  bytes of the contents, however they are divided into blocks.
\<close>

record zio =
  z_p :: "byte list"
  z_blocks :: "byte list list"

text \<open>The result of the character functions: \<open>None\<close> is \<open>EOZ\<close>.\<close>

definition luaZ_fill :: "zio \<Rightarrow> byte option \<times> zio" where
  "luaZ_fill z = (case z_blocks z of
     [] \<Rightarrow> (None, z)
   | [] # bs \<Rightarrow> (None, z\<lparr>z_blocks := bs\<rparr>)
   | (c # p) # bs \<Rightarrow> (Some c, z\<lparr>z_p := p, z_blocks := bs\<rparr>))"

definition luaZ_lookahead :: "zio \<Rightarrow> byte option \<times> zio" where
  "luaZ_lookahead z = (case z_p z of
     [] \<Rightarrow> (case luaZ_fill z of
         (None, z) \<Rightarrow> (None, z)
       | (Some c, z) \<Rightarrow> (Some c, z\<lparr>z_p := c # z_p z\<rparr>))
   | c # _ \<Rightarrow> (Some c, z))"

text \<open>The macro \<open>zgetc\<close>.\<close>

definition zgetc :: "zio \<Rightarrow> byte option \<times> zio" where
  "zgetc z = (case z_p z of [] \<Rightarrow> luaZ_fill z | c # p \<Rightarrow> (Some c, z\<lparr>z_p := p\<rparr>))"

definition luaZ_init :: "byte list list \<Rightarrow> zio" where
  "luaZ_init reader = \<lparr>z_p = [], z_blocks = reader\<rparr>"

text \<open>The loop of \<open>luaZ_read\<close>: the bytes copied, the number of bytes missing, and the stream.\<close>

function luaZ_read :: "zio \<Rightarrow> nat \<Rightarrow> byte list \<times> nat \<times> zio" where
  "luaZ_read z n =
     (if n = 0 then ([], 0, z)
      else (case luaZ_lookahead z of
          (None, z) \<Rightarrow> ([], n, z)
        | (Some _, z) \<Rightarrow>
           (let m = (if n \<le> length (z_p z) then n else length (z_p z))
            in if m = 0 then ([], n, z)
               else (case luaZ_read (z\<lparr>z_p := drop m (z_p z)\<rparr>) (n - m) of
                   (b, missing, z') \<Rightarrow> (take m (z_p z) @ b, missing, z')))))"
  by pat_completeness auto
termination by (relation "measure snd") (auto split: if_splits)

declare luaZ_read.simps [simp del]

text \<open>Buffers: \<open>luaZ_openspace\<close> makes room for \<open>n\<close> bytes and never shrinks; the size of the buffer.\<close>

definition LUA_MINBUFFER :: nat where
  "LUA_MINBUFFER = 32"

definition luaZ_openspace :: "nat \<Rightarrow> nat \<Rightarrow> nat" where
  "luaZ_openspace buffsize n =
     (if n > buffsize then (if n < LUA_MINBUFFER then LUA_MINBUFFER else n) else buffsize)"

subsection \<open>Contents\<close>

definition zcontents :: "zio \<Rightarrow> byte list" where
  "zcontents z = z_p z @ concat (takeWhile (\<lambda>b. b \<noteq> []) (z_blocks z))"

lemma lookahead_None: "luaZ_lookahead z = (None, z') \<Longrightarrow> zcontents z = []"
  by (auto simp: luaZ_lookahead_def luaZ_fill_def zcontents_def split: list.splits)

lemma lookahead_Some:
  "luaZ_lookahead z = (Some c, z') \<Longrightarrow> zcontents z' = zcontents z \<and> z_p z' \<noteq> [] \<and> hd (zcontents z) = c"
  by (auto simp: luaZ_lookahead_def luaZ_fill_def zcontents_def split: list.splits)

lemma zgetc_contents:
  "zgetc z = (r, z') \<Longrightarrow> (case zcontents z of [] \<Rightarrow> r = None | c # s \<Rightarrow> r = Some c \<and> zcontents z' = s)"
  by (auto simp: zgetc_def luaZ_fill_def zcontents_def split: list.splits)

lemma luaZ_read_spec:
  "\<exists>z'. luaZ_read z n = (take n (zcontents z), n - length (zcontents z), z') \<and>
    (n \<le> length (zcontents z) \<longrightarrow> zcontents z' = drop n (zcontents z))"
proof (induction z n rule: luaZ_read.induct)
  case (1 z n)
  show ?case
  proof (cases "n = 0")
    case False
    obtain r z1 where l: "luaZ_lookahead z = (r, z1)" by (cases "luaZ_lookahead z")
    show ?thesis
    proof (cases r)
      case None
      with l have "zcontents z = []" using lookahead_None by blast
      then show ?thesis using l None False by (subst luaZ_read.simps) simp
    next
      case (Some c)
      with l have c: "zcontents z1 = zcontents z" "z_p z1 \<noteq> []" using lookahead_Some by blast+
      define m where "m = (if n \<le> length (z_p z1) then n else length (z_p z1))"
      have m: "0 < m" "m \<le> n" "m \<le> length (z_p z1)" using False c(2) by (auto simp: m_def)
      let ?z = "z1\<lparr>z_p := drop m (z_p z1)\<rparr>"
      have cz: "zcontents ?z = drop m (zcontents z)" using c(1) m(3) by (simp add: zcontents_def [of ?z] zcontents_def [of z1] flip: c(1))
      have tk: "take m (z_p z1) = take m (zcontents z)" using m(3) by (simp add: zcontents_def [of z1] flip: c(1))
      have "length (zcontents z1) \<ge> length (z_p z1)" by (simp add: zcontents_def)
      then have len: "m \<le> length (zcontents z)" using m c(1) by simp
      from 1 [OF False l [symmetric] _ m_def] Some m obtain z' where
        IH: "luaZ_read ?z (n - m) = (take (n - m) (zcontents ?z), n - m - length (zcontents ?z), z')"
          "n - m \<le> length (zcontents ?z) \<longrightarrow> zcontents z' = drop (n - m) (zcontents ?z)" by auto
      have "luaZ_read z n = (take m (zcontents z) @ take (n - m) (drop m (zcontents z)), n - length (zcontents z), z')"
        using False l Some m IH(1) cz tk len by (subst luaZ_read.simps) (simp add: m_def [symmetric] Let_def)
      moreover have "take m (zcontents z) @ take (n - m) (drop m (zcontents z)) = take n (zcontents z)"
        using m(2) by (metis take_add le_add_diff_inverse)
      ultimately show ?thesis using IH(2) cz m len by auto
    qed
  qed (simp add: luaZ_read.simps)
qed

text \<open>Reading from a stream does not depend on how its contents are divided into blocks: \<open>luaZ_read\<close> copies the
  first \<open>n\<close> bytes of the contents, or all of them, reports how many are missing, and leaves the rest.\<close>

theorem luaZ_read_contents:
  "\<exists>z'. luaZ_read z n = (take n (zcontents z), n - length (zcontents z), z') \<and>
    (n \<le> length (zcontents z) \<longrightarrow> zcontents z' = drop n (zcontents z))"
  by (rule luaZ_read_spec)

theorem luaZ_read_contents_witness:
  "fst (luaZ_read (luaZ_init [[1, 2], [3, 4, 5], [], [6]]) 4) = [1, 2, 3, 4]"
  using luaZ_read_contents [of "luaZ_init [[1, 2], [3, 4, 5], [], [6]]" 4]
  by (auto simp: zcontents_def luaZ_init_def)

end
