(* ===== verification/Lua_Check.thy ===== *)
theory Lua_Check
  imports Lua_Proto
begin

text \<open>
  The bytecode verifier of \<^verbatim>\<open>src/src/ldebug.c\<close>: \<open>precheck\<close>, \<open>symbexec\<close> and \<open>luaG_checkcode\<close>, which a precompiled chunk has
  to pass before it runs.  A run of the verifier ends in \<open>Reject\<close> (the C function returns 0), in
  \<open>Accept\<close>, or in \<open>Undef\<close> when it reads a vector outside its bounds.  The header lemma of the theory is that
  the control flow of an accepted function stays inside its code, on checked instructions.
\<close>

datatype 'a chk = Undef | Reject | Accept 'a

text \<open>The macro \<open>check\<close>, and a read of a vector.\<close>

definition check :: "bool \<Rightarrow> 'a chk \<Rightarrow> 'a chk" where
  "check x rest = (if x then rest else Reject)"

definition fetch :: "'b list \<Rightarrow> nat \<Rightarrow> ('b \<Rightarrow> 'a chk) \<Rightarrow> 'a chk" where
  "fetch xs n rest = (if n < length xs then rest (xs ! n) else Undef)"

definition MAXSTACK :: int where "MAXSTACK = 250"
definition NO_REG :: int where "NO_REG = MAXARG_A"
definition LUA_MULTRET :: int where "LUA_MULTRET = - 1"

definition checkreg :: "Proto \<Rightarrow> int \<Rightarrow> bool" where
  "checkreg pt reg = (reg < uint (maxstacksize pt))"

definition precheck :: "Proto \<Rightarrow> bool" where
  "precheck pt = (uint (maxstacksize pt) \<le> MAXSTACK \<and>
     uint (numparams pt) + uint (is_vararg pt AND VARARG_HASARG) \<le> uint (maxstacksize pt) \<and>
     (is_vararg pt AND VARARG_NEEDSARG = 0 \<or> is_vararg pt AND VARARG_HASARG \<noteq> 0) \<and>
     int (length (upvalues pt)) \<le> uint (nups pt) \<and>
     (length (lineinfo pt) = length (code pt) \<or> length (lineinfo pt) = 0) \<and>
     length (code pt) > 0 \<and> GET_OPCODE (code pt ! (length (code pt) - 1)) = Some OP_RETURN)"

definition luaG_checkopenop :: "Instruction \<Rightarrow> bool" where
  "luaG_checkopenop i = (GET_OPCODE i \<in> {Some OP_CALL, Some OP_TAILCALL, Some OP_RETURN, Some OP_SETLIST} \<and> GETARG_B i = 0)"

definition checkArgMode :: "Proto \<Rightarrow> int \<Rightarrow> nat \<Rightarrow> bool" where
  "checkArgMode pt r mode =
     (if mode = mask_num OpArgN then r = 0
      else if mode = mask_num OpArgU then True
      else if mode = mask_num OpArgR then checkreg pt r
      else if mode = mask_num OpArgK then
        (if ISK r then INDEXK r < int (length (ks pt)) else r < uint (maxstacksize pt))
      else True)"

text \<open>The inner loop of the jump check: the number of words before \<open>dest\<close> that look like a \<open>SETLIST\<close> with a
  count in the next word.\<close>

definition is_setlist0 :: "Instruction \<Rightarrow> bool" where
  "is_setlist0 d = (GET_OPCODE d = Some OP_SETLIST \<and> GETARG_C d = 0)"

fun setlist_run :: "Instruction list \<Rightarrow> nat \<Rightarrow> nat" where
  "setlist_run cs 0 = 0"
| "setlist_run cs (Suc n) = (if is_setlist0 (cs ! n) then Suc (setlist_run cs n) else 0)"

text \<open>The first switch of the loop body: the arguments \<open>b\<close> and \<open>c\<close>.\<close>

definition symbexec_args :: "Proto \<Rightarrow> nat \<Rightarrow> Instruction \<Rightarrow> OpCode \<Rightarrow> (int \<Rightarrow> int \<Rightarrow> 'a chk) \<Rightarrow> 'a chk" where
  "symbexec_args pt pc i op rest =
     (if getOpMode op = mode_num iABC then
        (let b = GETARG_B i; c = GETARG_C i in
         check (checkArgMode pt b (getBMode op)) (check (checkArgMode pt c (getCMode op)) (rest b c)))
      else if getOpMode op = mode_num iABx then
        (let b = GETARG_Bx i in
         if getBMode op = mask_num OpArgK then check (b < int (length (ks pt))) (rest b 0) else rest b 0)
      else
        (let b = GETARG_sBx i in
         if getBMode op = mask_num OpArgR then
           (let dest = int pc + 1 + b in
            check (0 \<le> dest \<and> dest < int (length (code pt)))
              (if dest > 0 then check (even (setlist_run (code pt) (nat dest))) (rest b 0) else rest b 0))
         else rest b 0))"

text \<open>The second switch: the new value of \<open>pc\<close>, before the increment of the loop, and of \<open>last\<close>.\<close>

definition symbexec_op ::
  "Proto \<Rightarrow> nat \<Rightarrow> int \<Rightarrow> nat \<Rightarrow> nat \<Rightarrow> OpCode \<Rightarrow> int \<Rightarrow> int \<Rightarrow> int \<Rightarrow> (nat \<times> nat) chk" where
  "symbexec_op pt lastpc reg pc lst op a b c = (let
      sizecode = length (code pt);
      jump = (let dest = int pc + 1 + b in
              if reg \<noteq> NO_REG \<and> int pc < dest \<and> dest \<le> int lastpc then Accept (nat (int pc + b), lst)
              else Accept (pc, lst));
      call = (let c = c - 1; lst = (if reg \<ge> a then pc else lst) in
              check (b \<noteq> 0 \<longrightarrow> checkreg pt (a + b - 1))
                (if c = LUA_MULTRET then fetch (code pt) (pc + 1) (\<lambda>i. check (luaG_checkopenop i) (Accept (pc, lst)))
                 else if c \<noteq> 0 then check (checkreg pt (a + c - 1)) (Accept (pc, lst))
                 else Accept (pc, lst)))
    in case op of
      OP_LOADBOOL \<Rightarrow>
        if c = 1 then check (pc + 2 < sizecode) (fetch (code pt) (pc + 1) (\<lambda>i.
          check (GET_OPCODE i \<noteq> Some OP_SETLIST \<or> GETARG_C i \<noteq> 0) (Accept (pc, lst))))
        else Accept (pc, lst)
    | OP_LOADNIL \<Rightarrow> Accept (pc, if a \<le> reg \<and> reg \<le> b then pc else lst)
    | OP_GETUPVAL \<Rightarrow> check (b < uint (nups pt)) (Accept (pc, lst))
    | OP_SETUPVAL \<Rightarrow> check (b < uint (nups pt)) (Accept (pc, lst))
    | OP_GETGLOBAL \<Rightarrow> fetch (ks pt) (nat b) (\<lambda>o'. check (ttisstring o') (Accept (pc, lst)))
    | OP_SETGLOBAL \<Rightarrow> fetch (ks pt) (nat b) (\<lambda>o'. check (ttisstring o') (Accept (pc, lst)))
    | OP_SELF \<Rightarrow> check (checkreg pt (a + 1)) (Accept (pc, if reg = a + 1 then pc else lst))
    | OP_CONCAT \<Rightarrow> check (b < c) (Accept (pc, lst))
    | OP_TFORLOOP \<Rightarrow> check (c \<ge> 1) (check (checkreg pt (a + 2 + c)) (Accept (pc, if reg \<ge> a + 2 then pc else lst)))
    | OP_FORLOOP \<Rightarrow> check (checkreg pt (a + 3)) jump
    | OP_FORPREP \<Rightarrow> check (checkreg pt (a + 3)) jump
    | OP_JMP \<Rightarrow> jump
    | OP_CALL \<Rightarrow> call
    | OP_TAILCALL \<Rightarrow> call
    | OP_RETURN \<Rightarrow>
        (let b = b - 1 in if b > 0 then check (checkreg pt (a + b - 1)) (Accept (pc, lst)) else Accept (pc, lst))
    | OP_SETLIST \<Rightarrow>
        check (b > 0 \<longrightarrow> checkreg pt (a + b))
          (if c = 0 then check (pc + 1 < sizecode - 1) (Accept (pc + 1, lst)) else Accept (pc, lst))
    | OP_CLOSURE \<Rightarrow>
        check (b < int (length (ps pt))) (fetch (ps pt) (nat b) (\<lambda>f. let nup = unat (nups f) in
          check (pc + nup < sizecode)
            (check (list_all (\<lambda>j. GET_OPCODE (code pt ! (pc + j)) \<in> {Some OP_GETUPVAL, Some OP_MOVE}) [1..<Suc nup])
              (Accept (if reg \<noteq> NO_REG then pc + nup else pc, lst)))))
    | OP_VARARG \<Rightarrow>
        check (is_vararg pt AND VARARG_ISVARARG \<noteq> 0 \<and> is_vararg pt AND VARARG_NEEDSARG = 0)
          (let b = b - 1 in
           if b = LUA_MULTRET then fetch (code pt) (pc + 1) (\<lambda>i. check (luaG_checkopenop i)
             (check (checkreg pt (a + b - 1)) (Accept (pc, lst))))
           else check (checkreg pt (a + b - 1)) (Accept (pc, lst)))
    | _ \<Rightarrow> Accept (pc, lst))"

text \<open>The body of the loop.\<close>

definition symbexec_step :: "Proto \<Rightarrow> nat \<Rightarrow> int \<Rightarrow> nat \<Rightarrow> nat \<Rightarrow> (nat \<times> nat) chk" where
  "symbexec_step pt lastpc reg pc lst =
     fetch (code pt) pc (\<lambda>i. let a = GETARG_A i in
       case GET_OPCODE i of
         None \<Rightarrow> Reject
       | Some op \<Rightarrow>
          check (checkreg pt a) (symbexec_args pt pc i op (\<lambda>b c.
            let lst = (if testAMode op \<and> a = reg then pc else lst) in
            if testTMode op then
              check (pc + 2 < length (code pt)) (fetch (code pt) (pc + 1) (\<lambda>i1.
                check (GET_OPCODE i1 = Some OP_JMP) (symbexec_op pt lastpc reg pc lst op a b c)))
            else symbexec_op pt lastpc reg pc lst op a b c)))"

lemma check_Accept: "check x r = Accept y \<longleftrightarrow> x \<and> r = Accept y"
  by (simp add: check_def)

lemma fetch_Accept: "fetch xs n r = Accept y \<longleftrightarrow> n < length xs \<and> r (xs ! n) = Accept y"
  by (simp add: fetch_def)

lemma symbexec_op_pc:
  "symbexec_op pt lastpc reg pc lst op a b c = Accept (pc', lst') \<Longrightarrow> pc \<le> pc'"
  by (cases op)
    (auto simp: symbexec_op_def check_Accept fetch_Accept Let_def split: if_splits)

lemma symbexec_args_Accept:
  "symbexec_args pt pc i op rest = Accept y \<Longrightarrow> \<exists>b c. rest b c = Accept y"
  by (auto simp: symbexec_args_def check_Accept Let_def split: if_splits)

lemma symbexec_step_pc:
  "symbexec_step pt lastpc reg pc lst = Accept (pc', lst') \<Longrightarrow> pc \<le> pc'"
  by (auto simp: symbexec_step_def check_Accept fetch_Accept Let_def split: option.splits if_splits
      dest!: symbexec_args_Accept dest: symbexec_op_pc)

function symbexec_loop :: "Proto \<Rightarrow> nat \<Rightarrow> int \<Rightarrow> nat \<Rightarrow> nat \<Rightarrow> nat chk" where
  "symbexec_loop pt lastpc reg pc lst =
     (if pc < lastpc then
        (case symbexec_step pt lastpc reg pc lst of
           Undef \<Rightarrow> Undef
         | Reject \<Rightarrow> Reject
         | Accept (pc', lst') \<Rightarrow> symbexec_loop pt lastpc reg (Suc pc') lst')
      else Accept lst)"
  by pat_completeness auto
termination
  by (relation "measure (\<lambda>(pt, lastpc, reg, pc, lst). lastpc - pc)") (auto dest!: symbexec_step_pc)

declare symbexec_loop.simps [simp del]

definition symbexec :: "Proto \<Rightarrow> nat \<Rightarrow> int \<Rightarrow> Instruction chk" where
  "symbexec pt lastpc reg =
     check (precheck pt)
       (case symbexec_loop pt lastpc reg 0 (length (code pt) - 1) of
          Undef \<Rightarrow> Undef
        | Reject \<Rightarrow> Reject
        | Accept lst \<Rightarrow> fetch (code pt) lst Accept)"

definition luaG_checkcode :: "Proto \<Rightarrow> bool" where
  "luaG_checkcode pt = (case symbexec pt (length (code pt)) NO_REG of Accept i \<Rightarrow> i \<noteq> 0 | _ \<Rightarrow> False)"


subsection \<open>Control flow of the virtual machine\<close>

text \<open>The positions at which \<open>luaV_execute\<close> (\<^verbatim>\<open>src/src/lvm.c\<close>) can fetch the next instruction of the same call after the one at
  \<open>pc\<close>: a jump is relative to the position after the jump, a test is followed by a jump that it takes or skips, and
  \<open>OP_RETURN\<close> leaves the function.\<close>

definition vm_next :: "Proto \<Rightarrow> nat \<Rightarrow> int list" where
  "vm_next pt pc = (let i = code pt ! pc; next = int pc + 1;
      test = [next + 1, next + 1 + GETARG_sBx (code pt ! (pc + 1))]
    in case GET_OPCODE i of
      Some OP_LOADBOOL \<Rightarrow> [if GETARG_C i \<noteq> 0 then next + 1 else next]
    | Some OP_JMP \<Rightarrow> [next + GETARG_sBx i]
    | Some OP_EQ \<Rightarrow> test
    | Some OP_LT \<Rightarrow> test
    | Some OP_LE \<Rightarrow> test
    | Some OP_TEST \<Rightarrow> test
    | Some OP_TESTSET \<Rightarrow> test
    | Some OP_TFORLOOP \<Rightarrow> test
    | Some OP_FORLOOP \<Rightarrow> [next, next + GETARG_sBx i]
    | Some OP_FORPREP \<Rightarrow> [next + GETARG_sBx i]
    | Some OP_RETURN \<Rightarrow> []
    | Some OP_SETLIST \<Rightarrow> [if GETARG_C i = 0 then next + 1 else next]
    | Some OP_CLOSURE \<Rightarrow> [next + uint (nups (ps pt ! nat (GETARG_Bx i)))]
    | _ \<Rightarrow> [next])"

inductive vm_reaches :: "Proto \<Rightarrow> int \<Rightarrow> bool" for pt where
  start: "vm_reaches pt 0"
| step: "vm_reaches pt pc \<Longrightarrow> 0 \<le> pc \<Longrightarrow> pc < int (length (code pt)) \<Longrightarrow> q \<in> set (vm_next pt (nat pc)) \<Longrightarrow> vm_reaches pt q"

text \<open>The operands of an instruction name registers of the frame, constants, upvalues and functions that exist.  \<open>OP_TFORLOOP\<close> is stated with the registers
  of its results; the copies of the generator and its two arguments in \<open>a + 3\<close> to \<open>a + 5\<close> may lie above them, where the verifier has not checked and
  the virtual machine relies on the slots that it keeps free above every stack (\<open>EXTRA_STACK\<close>).\<close>

definition operands_ok :: "Proto \<Rightarrow> nat \<Rightarrow> bool" where
  "operands_ok pt pc = (let i = code pt ! pc; a = GETARG_A i; b = GETARG_B i; c = GETARG_C i; bx = GETARG_Bx i in
     case GET_OPCODE i of None \<Rightarrow> False | Some op \<Rightarrow>
       checkreg pt a \<and>
       (getOpMode op = mode_num iABC \<longrightarrow> checkArgMode pt b (getBMode op) \<and> checkArgMode pt c (getCMode op)) \<and>
       (op \<in> {OP_LOADK, OP_GETGLOBAL, OP_SETGLOBAL} \<longrightarrow> bx < int (length (ks pt))) \<and>
       (op \<in> {OP_GETGLOBAL, OP_SETGLOBAL} \<longrightarrow> ttisstring (ks pt ! nat bx)) \<and>
       (op \<in> {OP_GETUPVAL, OP_SETUPVAL} \<longrightarrow> b < uint (nups pt)) \<and>
       (op = OP_SELF \<longrightarrow> checkreg pt (a + 1)) \<and>
       (op \<in> {OP_FORLOOP, OP_FORPREP} \<longrightarrow> checkreg pt (a + 3)) \<and>
       (op = OP_TFORLOOP \<longrightarrow> checkreg pt (a + 2 + c)) \<and>
       (op \<in> {OP_CALL, OP_TAILCALL} \<longrightarrow> (b \<noteq> 0 \<longrightarrow> checkreg pt (a + b - 1)) \<and> (c > 1 \<longrightarrow> checkreg pt (a + c - 2))) \<and>
       (op = OP_RETURN \<longrightarrow> b > 1 \<longrightarrow> checkreg pt (a + b - 2)) \<and>
       (op = OP_SETLIST \<longrightarrow> b > 0 \<longrightarrow> checkreg pt (a + b)) \<and>
       (op = OP_VARARG \<longrightarrow> is_vararg pt AND VARARG_ISVARARG \<noteq> 0 \<and> is_vararg pt AND VARARG_NEEDSARG = 0 \<and> (b > 1 \<longrightarrow> checkreg pt (a + b - 2))) \<and>
       (op = OP_CLOSURE \<longrightarrow> bx < int (length (ps pt)) \<and> pc + unat (nups (ps pt ! nat bx)) < length (code pt)))"

text \<open>What the verifier has checked about the control flow at a position.\<close>

definition flow_ok :: "Proto \<Rightarrow> nat \<Rightarrow> bool" where
  "flow_ok pt pc = (let i = code pt ! pc; size = length (code pt) in
     case GET_OPCODE i of None \<Rightarrow> False | Some op \<Rightarrow>
       (op \<in> {OP_JMP, OP_FORLOOP, OP_FORPREP} \<longrightarrow> (let dest = int pc + 1 + GETARG_sBx i in
          0 \<le> dest \<and> dest < int size \<and> even (setlist_run (code pt) (nat dest)))) \<and>
       (testTMode op \<longrightarrow> pc + 2 < size \<and> GET_OPCODE (code pt ! (pc + 1)) = Some OP_JMP) \<and>
       (op = OP_LOADBOOL \<longrightarrow> GETARG_C i = 1 \<longrightarrow> pc + 2 < size \<and> \<not> is_setlist0 (code pt ! (pc + 1))) \<and>
       (op = OP_SETLIST \<longrightarrow> GETARG_C i = 0 \<longrightarrow> pc + 2 < size) \<and>
       (op = OP_CLOSURE \<longrightarrow> (\<forall>j\<in>{1..unat (nups (ps pt ! nat (GETARG_Bx i)))}.
          GET_OPCODE (code pt ! (pc + j)) \<in> {Some OP_GETUPVAL, Some OP_MOVE})))"

definition next_pos :: "Proto \<Rightarrow> nat \<Rightarrow> nat" where
  "next_pos pt pc = (if is_setlist0 (code pt ! pc) then pc + 2 else pc + 1)"

lemma GETARG_nonneg [simp]: "0 \<le> GETARG_A i" "0 \<le> GETARG_B i" "0 \<le> GETARG_C i" "0 \<le> GETARG_Bx i"
  by (simp_all add: GETARG_A_def GETARG_B_def GETARG_C_def GETARG_Bx_def)

lemma args_ABC:
  assumes "getOpMode op = mode_num iABC" "symbexec_args pt pc i op rest = Accept y"
  shows "checkArgMode pt (GETARG_B i) (getBMode op)" "checkArgMode pt (GETARG_C i) (getCMode op)"
    "rest (GETARG_B i) (GETARG_C i) = Accept y"
  using assms by (simp_all add: symbexec_args_def Let_def check_Accept)

lemma args_ABx:
  assumes "getOpMode op = mode_num iABx" "symbexec_args pt pc i op rest = Accept y"
  shows "getBMode op = mask_num OpArgK \<Longrightarrow> GETARG_Bx i < int (length (ks pt))" "rest (GETARG_Bx i) 0 = Accept y"
  using assms by (auto simp: symbexec_args_def Let_def check_Accept split: if_splits)

lemma args_AsBx:
  assumes "op \<in> {OP_JMP, OP_FORLOOP, OP_FORPREP}" "symbexec_args pt pc i op rest = Accept y"
    and "dest = int pc + 1 + GETARG_sBx i"
  shows "0 \<le> dest \<and> dest < int (length (code pt)) \<and> even (setlist_run (code pt) (nat dest))"
    "rest (GETARG_sBx i) 0 = Accept y"
  using assms by (auto simp: symbexec_args_def Let_def check_Accept getOpMode_iff split: if_splits)

text \<open>The arguments \<open>b\<close> and \<open>c\<close> with which the second switch runs.\<close>

definition args_ok :: "Proto \<Rightarrow> nat \<Rightarrow> Instruction \<Rightarrow> OpCode \<Rightarrow> int \<Rightarrow> int \<Rightarrow> bool" where
  "args_ok pt pc i op b c =
     (if op \<in> {OP_JMP, OP_FORLOOP, OP_FORPREP} then
        b = GETARG_sBx i \<and> c = 0 \<and> (let dest = int pc + 1 + b in
          0 \<le> dest \<and> dest < int (length (code pt)) \<and> even (setlist_run (code pt) (nat dest)))
      else if op \<in> {OP_LOADK, OP_GETGLOBAL, OP_SETGLOBAL, OP_CLOSURE} then
        b = GETARG_Bx i \<and> c = 0 \<and> (op \<noteq> OP_CLOSURE \<longrightarrow> b < int (length (ks pt)))
      else b = GETARG_B i \<and> c = GETARG_C i \<and> checkArgMode pt b (getBMode op) \<and> checkArgMode pt c (getCMode op))"

lemma symbexec_argsE:
  assumes "symbexec_args pt pc i op rest = Accept y"
  obtains b c where "args_ok pt pc i op b c" "rest b c = Accept y"
proof -
  consider "op \<in> {OP_JMP, OP_FORLOOP, OP_FORPREP}" | "op \<in> {OP_LOADK, OP_GETGLOBAL, OP_SETGLOBAL, OP_CLOSURE}"
    | "op \<notin> {OP_JMP, OP_FORLOOP, OP_FORPREP}" "op \<notin> {OP_LOADK, OP_GETGLOBAL, OP_SETGLOBAL, OP_CLOSURE}" by blast
  then show thesis
  proof cases
    case 1
    from that [OF _ args_AsBx(2) [OF 1 assms refl]] args_AsBx(1) [OF 1 assms refl] 1 show thesis
      by (simp add: args_ok_def Let_def)
  next
    case 2
    then have m: "getOpMode op = mode_num iABx" by (auto simp: getOpMode_iff)
    from that [OF _ args_ABx(2) [OF m assms]] args_ABx(1) [OF m assms] 2 show thesis
      by (auto simp: args_ok_def)
  next
    case 3
    then have m: "getOpMode op = mode_num iABC" by (auto simp: getOpMode_iff)
    from that [OF _ args_ABC(3) [OF m assms]] args_ABC(1,2) [OF m assms] 3 show thesis
      by (auto simp: args_ok_def)
  qed
qed

lemma symbexec_stepE:
  assumes "symbexec_step pt n reg pc lst = Accept (pc', lst')"
  obtains op b c lst1 where "pc < length (code pt)" "GET_OPCODE (code pt ! pc) = Some op"
    "checkreg pt (GETARG_A (code pt ! pc))" "args_ok pt pc (code pt ! pc) op b c"
    "testTMode op \<longrightarrow> pc + 2 < length (code pt) \<and> GET_OPCODE (code pt ! (pc + 1)) = Some OP_JMP"
    "symbexec_op pt n reg pc lst1 op (GETARG_A (code pt ! pc)) b c = Accept (pc', lst')"
    "lst1 = lst \<or> lst1 = pc \<and> testAMode op \<and> GETARG_A (code pt ! pc) = reg"
proof -
  from assms obtain op where *: "pc < length (code pt)" "GET_OPCODE (code pt ! pc) = Some op"
    "checkreg pt (GETARG_A (code pt ! pc))"
    and a: "symbexec_args pt pc (code pt ! pc) op (\<lambda>b c.
            let lst = (if testAMode op \<and> GETARG_A (code pt ! pc) = reg then pc else lst) in
            if testTMode op then
              check (pc + 2 < length (code pt)) (fetch (code pt) (pc + 1) (\<lambda>i1.
                check (GET_OPCODE i1 = Some OP_JMP) (symbexec_op pt n reg pc lst op (GETARG_A (code pt ! pc)) b c)))
            else symbexec_op pt n reg pc lst op (GETARG_A (code pt ! pc)) b c) = Accept (pc', lst')"
    by (auto simp: symbexec_step_def fetch_Accept check_Accept Let_def split: option.splits)
  from a show thesis
  proof (rule symbexec_argsE)
    fix b c
    define l where "l = (if testAMode op \<and> GETARG_A (code pt ! pc) = reg then pc else lst)"
    assume "args_ok pt pc (code pt ! pc) op b c" and
      r: "(let lst = (if testAMode op \<and> GETARG_A (code pt ! pc) = reg then pc else lst) in
            if testTMode op then
              check (pc + 2 < length (code pt)) (fetch (code pt) (pc + 1) (\<lambda>i1.
                check (GET_OPCODE i1 = Some OP_JMP) (symbexec_op pt n reg pc lst op (GETARG_A (code pt ! pc)) b c)))
            else symbexec_op pt n reg pc lst op (GETARG_A (code pt ! pc)) b c) = Accept (pc', lst')"
    with * show thesis
      by (intro that [of op b c l]) (auto simp: l_def [symmetric] fetch_Accept check_Accept Let_def split: if_splits, auto simp: l_def split: if_splits)
  qed
qed

lemma op_operands_ok:
  assumes "symbexec_op pt n reg pc lst op (GETARG_A (code pt ! pc)) b c = Accept (pc', lst')"
    and "GET_OPCODE (code pt ! pc) = Some op" "args_ok pt pc (code pt ! pc) op b c" "checkreg pt (GETARG_A (code pt ! pc))"
  shows "operands_ok pt pc"
  using assms
  by (cases op)
    (auto simp: operands_ok_def symbexec_op_def args_ok_def Let_def check_Accept fetch_Accept getOpMode_iff
      LUA_MULTRET_def split: if_splits)

lemma op_flow_ok:
  assumes "symbexec_op pt n reg pc lst op (GETARG_A (code pt ! pc)) b c = Accept (pc', lst')"
    and "GET_OPCODE (code pt ! pc) = Some op" "args_ok pt pc (code pt ! pc) op b c"
    and "testTMode op \<longrightarrow> pc + 2 < length (code pt) \<and> GET_OPCODE (code pt ! (pc + 1)) = Some OP_JMP"
  shows "flow_ok pt pc"
  using assms
  by (cases op)
    (auto simp: flow_ok_def symbexec_op_def args_ok_def Let_def check_Accept fetch_Accept is_setlist0_def list_all_iff
      simp del: upt_Suc split: if_splits)

lemma op_next:
  assumes "symbexec_op pt n NO_REG pc lst op a b c = Accept (pc', lst')"
    and "GET_OPCODE (code pt ! pc) = Some op" "args_ok pt pc (code pt ! pc) op b c"
  shows "Suc pc' = next_pos pt pc"
  using assms
  by (cases op)
    (auto simp: symbexec_op_def args_ok_def Let_def check_Accept fetch_Accept is_setlist0_def next_pos_def split: if_splits)

text \<open>A position at which the loop of the full check arrives and succeeds from there.\<close>

definition accepts_from :: "Proto \<Rightarrow> nat \<Rightarrow> bool" where
  "accepts_from pt pc \<longleftrightarrow> (\<exists>lst l. symbexec_loop pt (length (code pt)) NO_REG pc lst = Accept l)"

lemma accepts_from_step:
  assumes "accepts_from pt pc" "pc < length (code pt)"
  shows "operands_ok pt pc" "flow_ok pt pc" "accepts_from pt (next_pos pt pc)"
proof -
  from assms(1) obtain lst l where l: "symbexec_loop pt (length (code pt)) NO_REG pc lst = Accept l"
    by (auto simp: accepts_from_def)
  with assms(2) obtain pc' lst' where s: "symbexec_step pt (length (code pt)) NO_REG pc lst = Accept (pc', lst')"
    and "symbexec_loop pt (length (code pt)) NO_REG (Suc pc') lst' = Accept l"
    by (subst (asm) symbexec_loop.simps) (auto split: chk.splits prod.splits)
  then have "accepts_from pt (Suc pc')" by (auto simp: accepts_from_def)
  with s show "operands_ok pt pc" "flow_ok pt pc" "accepts_from pt (next_pos pt pc)"
    by (auto elim!: symbexec_stepE dest: op_operands_ok op_flow_ok op_next)
qed

text \<open>The positions of instructions, which a \<open>SETLIST\<close> with its count in the next word separates from counts.\<close>

inductive visits :: "Proto \<Rightarrow> nat \<Rightarrow> bool" for pt where
  zero: "visits pt 0"
| more: "visits pt pc \<Longrightarrow> pc < length (code pt) \<Longrightarrow> visits pt (next_pos pt pc)"

lemma visits_accepts:
  assumes "visits pt pc" "accepts_from pt 0"
  shows "accepts_from pt pc"
  using assms by induction (auto intro: accepts_from_step)

text \<open>The parity argument of the comment in the source: an even run of words that look like such a \<open>SETLIST\<close> ends
  before an instruction.\<close>

lemma setlist_run_visits:
  assumes "n \<le> length (code pt)"
  shows "if even (setlist_run (code pt) n) then visits pt n
    else \<exists>m. n = Suc m \<and> visits pt m \<and> is_setlist0 (code pt ! m)"
  using assms
proof (induction n)
  case 0
  then show ?case by (simp add: visits.zero)
next
  case (Suc n)
  show ?case
  proof (cases "even (setlist_run (code pt) n)")
    case True
    then have "visits pt n" using Suc by simp
    with Suc.prems True show ?thesis using visits.more [of pt n] by (auto simp: next_pos_def)
  next
    case False
    then obtain m where "n = Suc m" "visits pt m" "is_setlist0 (code pt ! m)" using Suc by auto
    then have "visits pt (Suc n)" using Suc.prems visits.more [of pt m] by (simp add: next_pos_def)
    with False show ?thesis by simp
  qed
qed

lemma luaG_checkcode_accepts:
  assumes "luaG_checkcode pt"
  shows "precheck pt" "accepts_from pt 0"
  using assms by (auto simp: luaG_checkcode_def symbexec_def accepts_from_def check_def split: chk.splits if_splits)

lemma visits_next:
  assumes "precheck pt" "visits pt pc" "pc < length (code pt)" "\<not> is_setlist0 (code pt ! pc)"
    and "GET_OPCODE (code pt ! pc) \<noteq> Some OP_RETURN"
  shows "Suc pc < length (code pt) \<and> visits pt (Suc pc)"
proof -
  from assms have "pc \<noteq> length (code pt) - 1" by (auto simp: precheck_def)
  with assms(2,3,4) visits.more [of pt pc] show ?thesis by (simp add: next_pos_def)
qed

lemma visits_jump:
  "0 \<le> dest \<Longrightarrow> dest < int (length (code pt)) \<Longrightarrow> even (setlist_run (code pt) (nat dest)) \<Longrightarrow> visits pt (nat dest)"
  using setlist_run_visits [of "nat dest" pt] by simp

lemma visits_pseudo:
  assumes "precheck pt" "visits pt (Suc pc)" "Suc pc < length (code pt)"
    and "\<forall>j\<in>{1..n}. GET_OPCODE (code pt ! (pc + j)) \<in> {Some OP_GETUPVAL, Some OP_MOVE}"
  shows "pc + Suc n < length (code pt) \<and> visits pt (pc + Suc n)"
  using assms(4)
proof (induction n)
  case 0
  then show ?case using assms(2,3) by simp
next
  case (Suc n)
  then have "pc + Suc n < length (code pt) \<and> visits pt (pc + Suc n)" by simp
  moreover have "GET_OPCODE (code pt ! (pc + Suc n)) \<in> {Some OP_GETUPVAL, Some OP_MOVE}"
    using bspec [OF Suc.prems, of "Suc n"] by simp
  ultimately show ?case using visits_next [OF assms(1), of "pc + Suc n"] by (auto simp: is_setlist0_def)
qed

lemma visits_int:
  "n < length (code pt) \<and> visits pt n \<Longrightarrow> q = int n \<Longrightarrow> 0 \<le> q \<and> q < int (length (code pt)) \<and> visits pt (nat q)"
  by simp

text \<open>The control flow of one instruction.\<close>

lemma flow_next:
  assumes a: "precheck pt" "accepts_from pt 0" and v: "visits pt pc" "pc < length (code pt)"
    and l: "\<forall>i\<in>set (code pt). GET_OPCODE i = Some OP_LOADBOOL \<longrightarrow> GETARG_C i \<le> 1"
    and q: "q \<in> set (vm_next pt pc)"
  shows "0 \<le> q \<and> q < int (length (code pt)) \<and> visits pt (nat q)"
proof -
  have acc: "accepts_from pt n" if "visits pt n" for n using visits_accepts that a by blast
  then have f: "flow_ok pt pc" "operands_ok pt pc" using accepts_from_step v by blast+
  then obtain op where op: "GET_OPCODE (code pt ! pc) = Some op" by (auto simp: flow_ok_def Let_def split: option.splits)
  have nxt: "Suc pc < length (code pt) \<and> visits pt (Suc pc)" if "\<not> is_setlist0 (code pt ! pc)" "op \<noteq> OP_RETURN"
    using visits_next [OF a(1) v that(1)] op that(2) by simp
  have jmp: "0 \<le> d \<and> d < int (length (code pt)) \<and> visits pt (nat d)"
    if "visits pt n" "n < length (code pt)" "GET_OPCODE (code pt ! n) \<in> Some ` {OP_JMP, OP_FORLOOP, OP_FORPREP}"
      "d = int n + 1 + GETARG_sBx (code pt ! n)" for n d
    using accepts_from_step(2) [OF acc [OF that(1)] that(2)] that(3,4) visits_jump [of d pt]
    by (auto simp: flow_ok_def Let_def)
  consider (jump) "op \<in> {OP_JMP, OP_FORLOOP, OP_FORPREP}" | (test) "testTMode op" | (ret) "op = OP_RETURN"
    | (setlist) "op = OP_SETLIST" | (closure) "op = OP_CLOSURE" | (loadbool) "op = OP_LOADBOOL"
    | (other) "op \<notin> {OP_JMP, OP_FORLOOP, OP_FORPREP, OP_RETURN, OP_SETLIST, OP_CLOSURE, OP_LOADBOOL}" "\<not> testTMode op"
    by blast
  then show ?thesis
  proof cases
    case jump
    then show ?thesis using q op nxt jmp [OF v, of q]
      by (auto simp: vm_next_def Let_def is_setlist0_def nat_add_distrib)
  next
    case test
    then have t: "pc + 2 < length (code pt)" "GET_OPCODE (code pt ! Suc pc) = Some OP_JMP"
      using f(1) op by (simp_all add: flow_ok_def Let_def)
    have n: "visits pt (Suc pc)" using nxt test op by (auto simp: is_setlist0_def testTMode_iff)
    have "visits pt (Suc (Suc pc))" using visits_next [OF a(1) n] t by (simp add: is_setlist0_def)
    moreover have "q = int pc + 2 \<or> q = int (Suc pc) + 1 + GETARG_sBx (code pt ! Suc pc)"
      using q op test by (auto simp: vm_next_def Let_def testTMode_iff)
    ultimately show ?thesis using jmp [OF n, of q] t by (auto simp: nat_add_distrib)
  next
    case ret
    then show ?thesis using q op by (simp add: vm_next_def Let_def)
  next
    case setlist
    then show ?thesis using q op nxt f(1) visits.more [OF v]
      by (auto simp: vm_next_def Let_def flow_ok_def is_setlist0_def next_pos_def nat_add_distrib split: if_splits)
  next
    case closure
    then have "Suc pc < length (code pt) \<and> visits pt (Suc pc)" using nxt op by (simp add: is_setlist0_def)
    moreover have "\<forall>j\<in>{1..unat (nups (ps pt ! nat (GETARG_Bx (code pt ! pc))))}.
        GET_OPCODE (code pt ! (pc + j)) \<in> {Some OP_GETUPVAL, Some OP_MOVE}"
      using f(1) op closure by (simp add: flow_ok_def Let_def)
    ultimately have "pc + Suc (unat (nups (ps pt ! nat (GETARG_Bx (code pt ! pc))))) < length (code pt) \<and>
        visits pt (pc + Suc (unat (nups (ps pt ! nat (GETARG_Bx (code pt ! pc))))))"
      using visits_pseudo [OF a(1)] by blast
    moreover have "q = int (pc + Suc (unat (nups (ps pt ! nat (GETARG_Bx (code pt ! pc))))))"
      using q op closure by (simp add: vm_next_def Let_def)
    ultimately show ?thesis by (rule visits_int)
  next
    case loadbool
    then have n: "Suc pc < length (code pt) \<and> visits pt (Suc pc)" using nxt op by (simp add: is_setlist0_def)
    have "GETARG_C (code pt ! pc) \<le> 1" using l op loadbool v(2) nth_mem by blast
    then have c: "GETARG_C (code pt ! pc) = 0 \<or> GETARG_C (code pt ! pc) = 1"
      using GETARG_nonneg(3) [of "code pt ! pc"] by linarith
    have n2: "GETARG_C (code pt ! pc) = 1 \<Longrightarrow> Suc (Suc pc) < length (code pt) \<and> visits pt (Suc (Suc pc))"
      using f(1) op loadbool visits.more [of pt "Suc pc"] n by (simp add: flow_ok_def Let_def next_pos_def)
    have "q = (if GETARG_C (code pt ! pc) \<noteq> 0 then int pc + 2 else int pc + 1)"
      using q op loadbool by (simp add: vm_next_def Let_def)
    with c n n2 show ?thesis by (elim disjE) (simp_all add: nat_add_distrib)
  next
    case other
    then have "q = int pc + 1" using q op by (cases op) (auto simp: vm_next_def Let_def testTMode_iff)
    with other show ?thesis using nxt op by (auto simp: is_setlist0_def nat_add_distrib)
  qed
qed

text \<open>A function with a test, a loop and a \<open>SETLIST\<close> with its count, and one whose \<open>LOADBOOL\<close> has the flag 2.\<close>

definition sample_code :: "Instruction list" where
  "sample_code =
    [CREATE_ABC OP_LOADBOOL 0 1 0, CREATE_ABC OP_TEST 0 0 1, SETARG_sBx (CREATE_ABx OP_JMP 0 0) (- 3),
     CREATE_ABC OP_SETLIST 0 1 0, CREATE_ABC OP_SETLIST 0 1 0, CREATE_ABC OP_RETURN 0 1 0]"

definition proto_of :: "Instruction list \<Rightarrow> Proto" where
  "proto_of cs = Proto None 0 0 0 0 0 2 cs [] [] [] [] []"

text \<open>C18: Memory safety of checked code: whatever path the virtual machine takes through a function that \<open>luaG_checkcode\<close> accepts, it stays
  inside the code, on instructions whose registers, constants, upvalues and nested functions exist, and never executes the
  count word of a \<open>SETLIST\<close>, provided the flag of every \<open>LOADBOOL\<close> is 0 or 1.\<close>

theorem checked_code_safe:
  assumes "luaG_checkcode pt" and "\<forall>i\<in>set (code pt). GET_OPCODE i = Some OP_LOADBOOL \<longrightarrow> GETARG_C i \<le> 1"
    and "vm_reaches pt pc"
  shows "0 \<le> pc \<and> pc < int (length (code pt)) \<and> operands_ok pt (nat pc)"
proof -
  note a = luaG_checkcode_accepts [OF assms(1)]
  from assms(3) have "0 \<le> pc \<and> pc < int (length (code pt)) \<and> visits pt (nat pc)"
  proof induction
    case start
    then show ?case using a(1) by (simp add: precheck_def visits.zero)
  next
    case (step pc q)
    then show ?case using flow_next [OF a _ _ assms(2), of "nat pc" q] by (simp add: nat_less_iff)
  qed
  then show ?thesis using accepts_from_step(1) visits_accepts a(2) by (metis nat_less_iff)
qed

theorem checked_code_safe_witness: "vm_reaches (proto_of sample_code) 3 \<and> operands_ok (proto_of sample_code) 3"
proof -
  have 1: "vm_reaches (proto_of sample_code) 1"
    by (rule vm_reaches.step [OF vm_reaches.start]) code_simp+
  have 3: "vm_reaches (proto_of sample_code) 3"
    by (rule vm_reaches.step [OF 1]) code_simp+
  have "luaG_checkcode (proto_of sample_code)"
    "\<forall>i\<in>set (code (proto_of sample_code)). GET_OPCODE i = Some OP_LOADBOOL \<longrightarrow> GETARG_C i \<le> 1" by code_simp+
  from checked_code_safe [OF this 3] 3 show ?thesis by simp
qed

text \<open>The flag of \<open>LOADBOOL\<close> is compared with 1 by the verifier but tested for non-zero by the virtual machine: a function with flag 2 is
  accepted, and the machine runs past the end of its code.\<close>

theorem loadbool_flag_unchecked:
  "luaG_checkcode (proto_of [CREATE_ABC OP_LOADBOOL 0 1 2, CREATE_ABC OP_RETURN 0 1 0]) \<and>
   vm_reaches (proto_of [CREATE_ABC OP_LOADBOOL 0 1 2, CREATE_ABC OP_RETURN 0 1 0]) 2 \<and>
   length (code (proto_of [CREATE_ABC OP_LOADBOOL 0 1 2, CREATE_ABC OP_RETURN 0 1 0])) = 2"
proof (intro conjI)
  show "vm_reaches (proto_of [CREATE_ABC OP_LOADBOOL 0 1 2, CREATE_ABC OP_RETURN 0 1 0]) 2"
    by (rule vm_reaches.step [OF vm_reaches.start]) code_simp+
qed code_simp+

subsection \<open>The verifier itself\<close>

lemma symbexec_op_defined:
  assumes "args_ok pt pc (code pt ! pc) op b c" "pc < length (code pt)" "precheck pt" "GET_OPCODE (code pt ! pc) = Some op"
  shows "symbexec_op pt n reg pc lst op a b c \<noteq> Undef"
proof -
  have "op \<noteq> OP_RETURN \<Longrightarrow> Suc pc < length (code pt)" using assms(2-4) by (cases "pc = length (code pt) - 1") (auto simp: precheck_def)
  with assms(1) show ?thesis
    by (cases op) (auto simp: symbexec_op_def args_ok_def Let_def check_def fetch_def nat_less_iff)
qed

lemma symbexec_args_Undef:
  assumes "symbexec_args pt pc i op rest = Undef"
  obtains b c where "args_ok pt pc i op b c" "rest b c = Undef"
  using assms that [of "GETARG_sBx i" 0] that [of "GETARG_Bx i" 0] that [of "GETARG_B i" "GETARG_C i"]
  by (cases op) (auto simp: symbexec_args_def args_ok_def getOpMode_iff check_def Let_def split: if_splits)

lemma symbexec_step_defined:
  assumes "pc < length (code pt)" "precheck pt"
  shows "symbexec_step pt n reg pc lst \<noteq> Undef"
proof
  assume u: "symbexec_step pt n reg pc lst = Undef"
  with assms obtain op where op: "GET_OPCODE (code pt ! pc) = Some op"
    by (cases "GET_OPCODE (code pt ! pc)") (auto simp: symbexec_step_def fetch_def)
  from u assms op show False
    by (auto simp: symbexec_step_def fetch_def check_def Let_def symbexec_op_defined split: if_splits elim!: symbexec_args_Undef)
qed

lemma symbexec_op_last:
  "symbexec_op pt n reg pc lst op a b c = Accept (pc', lst') \<Longrightarrow> lst' = lst \<or> lst' = pc"
  by (cases op) (auto simp: symbexec_op_def check_Accept fetch_Accept Let_def split: if_splits)

lemma symbexec_step_last:
  "symbexec_step pt n reg pc lst = Accept (pc', lst') \<Longrightarrow> lst' = lst \<or> lst' = pc"
  by (elim symbexec_stepE) (metis symbexec_op_last)

lemma symbexec_loop_defined:
  assumes "precheck pt" "n \<le> length (code pt)" "lst < length (code pt)"
  shows "case symbexec_loop pt n reg pc lst of Undef \<Rightarrow> False | Reject \<Rightarrow> True | Accept l \<Rightarrow> l < length (code pt)"
  using assms
proof (induction pt n reg pc lst rule: symbexec_loop.induct)
  case (1 pt n reg pc lst)
  show ?case
  proof (cases "pc < n")
    case True
    then have pc: "pc < length (code pt)" using "1.prems"(2) by simp
    have d: "symbexec_step pt n reg pc lst \<noteq> Undef" by (rule symbexec_step_defined [OF pc 1(2)])
    have l: "l < length (code pt)" if "symbexec_step pt n reg pc lst = Accept (pc', l)" for pc' l
      using symbexec_step_last [OF that] pc 1(4) by auto
    show ?thesis
    proof (cases "symbexec_step pt n reg pc lst")
      case (Accept x)
      obtain pc' l' where x: "x = (pc', l')" by (cases x)
      have "l' < length (code pt)" by (rule l) (use Accept x in simp)
      from 1(1) [OF True Accept x [symmetric] 1(2,3) this] show ?thesis
        using True Accept x by (simp add: symbexec_loop.simps [of pt n reg pc])
    qed (use d True in \<open>simp_all add: symbexec_loop.simps [of pt n reg pc]\<close>)
  next
    case False
    then show ?thesis using 1(4) by (simp add: symbexec_loop.simps [of pt n reg pc])
  qed
qed

text \<open>The verifier and the symbolic execution for error messages read no vector outside its bounds, whatever the contents of the
  function, also when it is cut off at an earlier position and follows jumps.\<close>

theorem symbexec_defined:
  assumes "n \<le> length (code pt)"
  shows "symbexec pt n reg \<noteq> Undef"
proof (cases "precheck pt")
  case True
  then have "length (code pt) - 1 < length (code pt)" by (simp add: precheck_def)
  from symbexec_loop_defined [OF True assms this, of reg 0] show ?thesis
    using True by (auto simp: symbexec_def check_def fetch_def split: chk.splits)
qed (simp add: symbexec_def check_def)

theorem symbexec_defined_witness: "symbexec (proto_of sample_code) 2 0 \<noteq> Undef"
  by (rule symbexec_defined) (simp add: proto_of_def sample_code_def)

end
