(* ===== verification/Lua_Undump.thy ===== *)
theory Lua_Undump
  imports Lua_Dump Lua_Zio Lua_Check
begin

text \<open>
  \<^verbatim>\<open>src/src/lundump.c\<close>: loading a precompiled chunk from a stream.  A loader gives the reason of an error, which \<open>luaU_undump\<close>
  completes to the message, or a value and the rest of the stream.  The nesting of functions is bounded by the
  number of C calls that are left (\<open>LUAI_MAXCCALLS\<close> minus \<open>nCcalls\<close>); running out of memory is not modelled.
\<close>

type_synonym 'a loader = "zio \<Rightarrow> string + ('a \<times> zio)"

definition lret :: "'a \<Rightarrow> 'a loader" where
  "lret x z = Inr (x, z)"

definition lbind :: "'a loader \<Rightarrow> ('a \<Rightarrow> 'b loader) \<Rightarrow> 'b loader" where
  "lbind m f z = (case m z of Inl e \<Rightarrow> Inl e | Inr (x, z') \<Rightarrow> f x z')"

text \<open>The macro \<open>IF\<close>.\<close>

definition lif :: "bool \<Rightarrow> string \<Rightarrow> 'a loader \<Rightarrow> 'a loader" where
  "lif c why rest = (if c then (\<lambda>z. Inl why) else rest)"

text \<open>A loop of \<open>n\<close> loads.\<close>

fun ltimes :: "nat \<Rightarrow> 'a loader \<Rightarrow> 'a list loader" where
  "ltimes 0 m = lret []"
| "ltimes (Suc n) m = lbind m (\<lambda>x. lbind (ltimes n m) (\<lambda>xs. lret (x # xs)))"

definition LoadBlock :: "nat \<Rightarrow> byte list loader" where
  "LoadBlock n z = (case luaZ_read z n of (b, r, z') \<Rightarrow> if r \<noteq> 0 then Inl ''unexpected end'' else Inr (b, z'))"

definition LoadByte :: "byte loader" where
  "LoadByte = lbind (LoadBlock 1) (\<lambda>b. lret (of_le b))"

definition LoadChar :: "int loader" where
  "LoadChar = lbind (LoadBlock 1) (\<lambda>b. lret (sint (of_le b :: byte)))"

definition LoadInt :: "cint loader" where
  "LoadInt = lbind (LoadBlock 4) (\<lambda>b. let x = of_le b in lif (x <s 0) ''bad integer'' (lret x))"

definition LoadNumber :: "64 word loader" where
  "LoadNumber = lbind (LoadBlock 8) (\<lambda>b. lret (of_le b))"

definition LoadString :: "TString option loader" where
  "LoadString = lbind (LoadBlock 8) (\<lambda>b. let size = unat (of_le b :: 64 word) in
     if size = 0 then lret None
     else lbind (LoadBlock size) (\<lambda>s. lret (Some (take (size - 1) s))))"

text \<open>The elements of a vector of 32-bit words in memory.\<close>

fun vector_of :: "nat \<Rightarrow> byte list \<Rightarrow> cint list" where
  "vector_of 0 bs = []"
| "vector_of (Suc n) bs = of_le (take 4 bs) # vector_of n (drop 4 bs)"

definition LoadVector :: "nat \<Rightarrow> cint list loader" where
  "LoadVector n = lbind (LoadBlock (n * 4)) (\<lambda>b. lret (vector_of n b))"

definition LoadCode :: "Instruction list loader" where
  "LoadCode = lbind LoadInt (\<lambda>n. LoadVector (unat n))"

definition LoadConstant :: "TConst loader" where
  "LoadConstant = lbind LoadChar (\<lambda>t.
     if t = LUA_TNIL then lret KNil
     else if t = LUA_TBOOLEAN then lbind LoadChar (\<lambda>b. lret (KBool (b \<noteq> 0)))
     else if t = LUA_TNUMBER then lbind LoadNumber (\<lambda>n. lret (KNumber n))
     else if t = LUA_TSTRING then lbind LoadString (\<lambda>s. lret (KString s))
     else (\<lambda>z. Inl ''bad constant''))"

text \<open>The constants and the nested functions, which \<open>loadf\<close> loads.\<close>

definition LoadConstants :: "Proto loader \<Rightarrow> (TConst list \<times> Proto list) loader" where
  "LoadConstants loadf =
     lbind LoadInt (\<lambda>n. lbind (ltimes (unat n) LoadConstant) (\<lambda>cs.
     lbind LoadInt (\<lambda>n. lbind (ltimes (unat n) loadf) (\<lambda>fs. lret (cs, fs)))))"

definition LoadLocVar :: "LocVar loader" where
  "LoadLocVar = lbind LoadString (\<lambda>s. lbind LoadInt (\<lambda>a. lbind LoadInt (\<lambda>b.
     lret \<lparr>varname = s, startpc = a, endpc = b\<rparr>)))"

definition LoadDebug :: "(cint list \<times> LocVar list \<times> TString option list) loader" where
  "LoadDebug =
     lbind LoadInt (\<lambda>n. lbind (LoadVector (unat n)) (\<lambda>li.
     lbind LoadInt (\<lambda>n. lbind (ltimes (unat n) LoadLocVar) (\<lambda>lv.
     lbind LoadInt (\<lambda>n. lbind (ltimes (unat n) LoadString) (\<lambda>uv. lret (li, lv, uv)))))))"

primrec LoadFunction :: "nat \<Rightarrow> TString option \<Rightarrow> Proto loader" where
  "LoadFunction 0 p = (\<lambda>z. Inl ''code too deep'')"
| "LoadFunction (Suc calls) p =
     lbind LoadString (\<lambda>s. let src = (if s = None then p else s) in
     lbind LoadInt (\<lambda>ld.
     lbind LoadInt (\<lambda>lld.
     lbind LoadByte (\<lambda>nu.
     lbind LoadByte (\<lambda>np.
     lbind LoadByte (\<lambda>va.
     lbind LoadByte (\<lambda>ms.
     lbind LoadCode (\<lambda>cd.
     lbind (LoadConstants (LoadFunction calls src)) (\<lambda>(cs, fs).
     lbind LoadDebug (\<lambda>(li, lv, uv).
       let f = Proto src ld lld nu np va ms cd cs fs li lv uv in
       lif (\<not> luaG_checkcode f) ''bad code'' (lret f)))))))))))"

definition LoadHeader :: "unit loader" where
  "LoadHeader = lbind (LoadBlock LUAC_HEADERSIZE) (\<lambda>s. lif (luaU_header \<noteq> s) ''bad header'' (lret ()))"

definition LUAI_MAXCCALLS :: nat where "LUAI_MAXCCALLS = 200"

text \<open>The name of the chunk in messages, and the message.\<close>

definition chunk_name :: "string \<Rightarrow> string" where
  "chunk_name name = (case name of
     [] \<Rightarrow> name
   | c # cs \<Rightarrow> if c = CHR ''@'' \<or> c = CHR ''='' then cs else if c = CHR 0x1B then ''binary string'' else name)"

definition load_error :: "string \<Rightarrow> string \<Rightarrow> string" where
  "load_error name why = name @ '': '' @ why @ '' in precompiled chunk''"

text \<open>The name \<open>=?\<close> of a source that is not known.\<close>

definition unknown_source :: TString where
  "unknown_source = [0x3D, 0x3F]"

definition luaU_undump :: "nat \<Rightarrow> string \<Rightarrow> Proto loader" where
  "luaU_undump nCcalls name z =
     (case lbind LoadHeader (\<lambda>_. LoadFunction (LUAI_MAXCCALLS - nCcalls) (Some unknown_source)) z of
        Inl why \<Rightarrow> Inl (load_error (chunk_name name) why)
      | Inr r \<Rightarrow> Inr r)"

subsection \<open>Loading what was written\<close>

text \<open>A loader that reads exactly \<open>bs\<close> and gives \<open>v\<close>, and that stops with an unexpected end when a part of
  \<open>bs\<close> is missing.\<close>

definition codes :: "'a loader \<Rightarrow> byte list \<Rightarrow> 'a \<Rightarrow> bool" where
  "codes m bs v \<longleftrightarrow>
     (\<forall>z r. zcontents z = bs @ r \<longrightarrow> (\<exists>z'. m z = Inr (v, z') \<and> zcontents z' = r)) \<and>
     (\<forall>z r. bs = zcontents z @ r \<longrightarrow> r \<noteq> [] \<longrightarrow> m z = Inl ''unexpected end'')"

lemma codesD:
  assumes "codes m bs v"
  shows "zcontents z = bs @ r \<Longrightarrow> \<exists>z'. m z = Inr (v, z') \<and> zcontents z' = r"
    and "bs = zcontents z @ r \<Longrightarrow> r \<noteq> [] \<Longrightarrow> m z = Inl ''unexpected end''"
  using assms unfolding codes_def by blast+

lemma codes_ret: "codes (lret x) [] x"
  by (simp add: codes_def lret_def)

lemma codes_bind:
  assumes m: "codes m bs v" and f: "codes (f v) cs w"
  shows "codes (lbind m f) (bs @ cs) w"
  unfolding codes_def
proof (intro conjI allI impI)
  fix z r assume "zcontents z = (bs @ cs) @ r"
  then obtain z' where "m z = Inr (v, z')" "zcontents z' = cs @ r" using codesD(1) [OF m, of z "cs @ r"] by auto
  with codesD(1) [OF f] show "\<exists>z'. lbind m f z = Inr (w, z') \<and> zcontents z' = r" by (simp add: lbind_def)
next
  fix z r assume e: "bs @ cs = zcontents z @ r" and r: "r \<noteq> []"
  then consider us where "bs = zcontents z @ us" "us \<noteq> []" | us where "zcontents z = bs @ us" "cs = us @ r"
    unfolding append_eq_append_conv2 by (metis append_Nil2 append_self_conv2)
  then show "lbind m f z = Inl ''unexpected end''"
  proof cases
    case 1
    then show ?thesis using codesD(2) [OF m] by (simp add: lbind_def)
  next
    case 2
    from codesD(1) [OF m 2(1)] obtain z' where "m z = Inr (v, z')" "zcontents z' = us" by blast
    with codesD(2) [OF f] 2 r show ?thesis by (simp add: lbind_def)
  qed
qed

lemma codes_bindI: "codes m bs v \<Longrightarrow> codes (f v) cs w \<Longrightarrow> es = bs @ cs \<Longrightarrow> codes (lbind m f) es w"
  using codes_bind by simp

lemma codes_ret_bind: "codes m bs v \<Longrightarrow> w = g v \<Longrightarrow> codes (lbind m (\<lambda>x. lret (g x))) bs w"
  using codes_bindI [of m bs v "\<lambda>x. lret (g x)" "[]" w bs] codes_ret [of "g v"] by simp

lemma codes_if: "\<not> c \<Longrightarrow> codes m bs v \<Longrightarrow> codes (lif c why m) bs v"
  by (simp add: lif_def)

lemma codes_block: "length bs = n \<Longrightarrow> codes (LoadBlock n) bs bs"
  unfolding codes_def
proof (intro conjI allI impI)
  fix z r assume "length bs = n" "zcontents z = bs @ r"
  with luaZ_read_spec [of z n] show "\<exists>z'. LoadBlock n z = Inr (bs, z') \<and> zcontents z' = r"
    by (auto simp: LoadBlock_def)
next
  fix z r assume "length bs = n" "bs = zcontents z @ r" "r \<noteq> []"
  with luaZ_read_spec [of z n] show "LoadBlock n z = Inl ''unexpected end''"
    by (auto simp: LoadBlock_def)
qed

lemma codes_block_bind: "codes (f bs) cs w \<Longrightarrow> length bs = n \<Longrightarrow> codes (lbind (LoadBlock n) f) (bs @ cs) w"
  by (rule codes_bind [OF codes_block])

lemmas codes_block_last = codes_block_bind [where cs = "[]", simplified]

lemma codes_times:
  "(\<And>x. x \<in> set xs \<Longrightarrow> codes m (e x) (v x)) \<Longrightarrow> codes (ltimes (length xs) m) (concat (map e xs)) (map v xs)"
proof (induction xs)
  case Nil
  show ?case by (simp add: codes_ret)
next
  case (Cons x xs)
  then have "codes (lbind (ltimes (length xs) m) (\<lambda>xs. lret (v x # xs))) (concat (map e xs)) (v x # map v xs)"
    by (intro codes_ret_bind) simp_all
  then show ?case using Cons.prems by (auto intro: codes_bindI [of m "e x" "v x"])
qed

text \<open>An encoding and its loader, on the values that the encoding can represent; a sequence of such values is loaded one by one.\<close>

locale codec =
  fixes enc :: "'a \<Rightarrow> byte list" and load :: "'a loader" and valid :: "'a \<Rightarrow> bool"
  assumes load_enc: "valid x \<Longrightarrow> codes load (enc x) x"
begin

lemma load_times: "list_all valid xs \<Longrightarrow> codes (ltimes (length xs) load) (concat (map enc xs)) xs"
  using codes_times [of xs load enc "\<lambda>x. x"] load_enc by (simp add: list_all_iff)

end

interpretation byte_codec: codec "\<lambda>x. [x]" LoadByte "\<lambda>x. True"
proof
  fix x :: byte
  show "codes LoadByte [x] x" unfolding LoadByte_def
    by (rule codes_ret_bind [OF codes_block]) (use of_le_simps(1) [of x] in \<open>simp_all add: le_byte\<close>)
qed

interpretation int_codec: codec le_bytes LoadInt "\<lambda>x. 0 \<le> sint x"
proof
  fix x :: cint assume "0 \<le> sint x"
  then have "\<not> x <s 0" by (simp add: word_sless_alt)
  then have "codes (lif (of_le (le_bytes x) <s (0 :: cint)) ''bad integer'' (lret (of_le (le_bytes x)))) [] x"
    unfolding of_le_simps by (intro codes_if codes_ret)
  then show "codes LoadInt (le_bytes x) x" unfolding LoadInt_def Let_def
    by (rule codes_block_last) simp
qed

interpretation number_codec: codec le_bytes LoadNumber "\<lambda>x. True"
  by unfold_locales (auto simp: LoadNumber_def intro: codes_ret_bind [OF codes_block])

definition string_ok :: "TString option \<Rightarrow> bool" where
  "string_ok s = (case s of None \<Rightarrow> True | Some s \<Rightarrow> length s + 1 < 2 ^ 64)"

interpretation string_codec: codec enc_string LoadString string_ok
proof
  fix s assume ok: "string_ok s"
  show "codes LoadString (enc_string s) s"
  proof (cases s)
    case None
    then show ?thesis unfolding LoadString_def Let_def
      by (auto simp: enc_string_def codes_ret intro!: codes_block_last)
  next
    case (Some t)
    then have n: "unat (of_nat (Suc (length t)) :: 64 word) = Suc (length t)" using ok
      by (simp add: string_ok_def unat_of_nat del: of_nat_add of_nat_Suc)
    have "codes (lbind (LoadBlock (length t + 1)) (\<lambda>s. lret (Some (take (length t) s)))) (t @ [0]) (Some t)"
      by (rule codes_ret_bind [OF codes_block]) simp_all
    then show ?thesis unfolding Some LoadString_def Let_def enc_string_def option.case
      by (intro codes_block_bind) (simp_all add: n del: of_nat_add of_nat_Suc)
  qed
qed

interpretation const_codec: codec enc_const LoadConstant "\<lambda>c. case c of KString s \<Rightarrow> string_ok s | _ \<Rightarrow> True"
proof
  fix c assume ok: "case c of KString s \<Rightarrow> string_ok s | _ \<Rightarrow> True"
  have b: "codes LoadChar [x] (sint x)" for x :: byte unfolding LoadChar_def
    by (rule codes_block_last) (use of_le_simps(1) [of x] in \<open>simp_all add: le_byte codes_ret\<close>)
  have tag: "codes LoadConstant (x # cs) d"
    if "codes (if t = LUA_TNIL then lret KNil
       else if t = LUA_TBOOLEAN then lbind LoadChar (\<lambda>b. lret (KBool (b \<noteq> 0)))
       else if t = LUA_TNUMBER then lbind LoadNumber (\<lambda>n. lret (KNumber n))
       else if t = LUA_TSTRING then lbind LoadString (\<lambda>s. lret (KString s))
       else (\<lambda>z. Inl ''bad constant'')) cs d" "t = sint x" for t x cs d
    unfolding LoadConstant_def using codes_bind [OF b [of x]] that by fastforce
  show "codes LoadConstant (enc_const c) c"
  proof (cases c)
    case KNil
    then show ?thesis by (auto intro!: tag codes_ret simp: tag_defs)
  next
    case (KBool v)
    then show ?thesis by (cases v) (auto intro!: tag codes_ret_bind [OF b] simp: tag_defs)
  next
    case (KNumber n)
    then show ?thesis by (auto intro!: tag codes_ret_bind [OF number_codec.load_enc] simp: tag_defs)
  next
    case (KString s)
    then show ?thesis using ok by (auto intro!: tag codes_ret_bind [OF string_codec.load_enc] simp: tag_defs)
  qed
qed

definition locvar_ok :: "LocVar \<Rightarrow> bool" where
  "locvar_ok v = (string_ok (varname v) \<and> 0 \<le> sint (startpc v) \<and> 0 \<le> sint (endpc v))"

interpretation locvar_codec: codec enc_locvar LoadLocVar locvar_ok
proof
  fix v assume "locvar_ok v"
  then show "codes LoadLocVar (enc_locvar v) v" unfolding LoadLocVar_def enc_locvar_def locvar_ok_def
    by (intro codes_bind [OF string_codec.load_enc] codes_bind [OF int_codec.load_enc] codes_ret_bind [OF int_codec.load_enc]) simp_all
qed

lemma codes_size:
  assumes "length xs < 2 ^ 31" "codes (f (length xs)) cs w"
  shows "codes (lbind LoadInt (\<lambda>n. f (unat n))) (enc_size xs @ cs) w"
  unfolding enc_size_def by (rule codes_bind [OF int_codec.load_enc]) (use assms in \<open>simp_all add: unat_of_nat\<close>)

lemma vector_of_bytes: "vector_of (length xs) (concat (map le_bytes xs)) = xs"
  by (induction xs) simp_all

lemma codes_LoadVector: "codes (LoadVector (length xs)) (concat (map le_bytes xs)) xs"
  unfolding LoadVector_def
  by (auto intro!: codes_ret_bind [OF codes_block] simp: vector_of_bytes length_concat comp_def sum_list_triv)

lemma codes_code: "length xs < 2 ^ 31 \<Longrightarrow> codes LoadCode (enc_vector xs) xs"
  unfolding enc_vector_def LoadCode_def by (rule codes_size) (simp_all add: codes_LoadVector)

subsection \<open>Functions\<close>

text \<open>All functions of a prototype, and a bound on their nesting.\<close>

function all_protos :: "(Proto \<Rightarrow> bool) \<Rightarrow> Proto \<Rightarrow> bool" where
  "all_protos P f = (P f \<and> (\<forall>g\<in>set (ps f). all_protos P g))"
  by pat_completeness auto
termination by (relation "measure (\<lambda>(P, f). size f)") (auto simp: size_ps)

declare all_protos.simps [simp del]

lemma all_protos_Proto:
  "all_protos P (Proto s a b c d e m cd cs fs li lv uv) \<longleftrightarrow> P (Proto s a b c d e m cd cs fs li lv uv) \<and> list_all (all_protos P) fs"
  by (subst all_protos.simps) (simp add: list_all_iff)

primrec nests_within :: "nat \<Rightarrow> Proto \<Rightarrow> bool" where
  "nests_within 0 f = False"
| "nests_within (Suc n) f = list_all (nests_within n) (ps f)"

text \<open>The limits within which a function can be written faithfully.\<close>

definition dumpable :: "bool \<Rightarrow> Proto \<Rightarrow> bool" where
  "dumpable strp f = (string_ok (source f) \<and> 0 \<le> sint (linedefined f) \<and> 0 \<le> sint (lastlinedefined f) \<and>
     length (code f) < 2 ^ 31 \<and> length (ks f) < 2 ^ 31 \<and> length (ps f) < 2 ^ 31 \<and>
     list_all (\<lambda>c. case c of KString s \<Rightarrow> string_ok s | _ \<Rightarrow> True) (ks f) \<and>
     (strp \<or> length (lineinfo f) < 2 ^ 31 \<and> length (locvars f) < 2 ^ 31 \<and> length (upvalues f) < 2 ^ 31 \<and>
       list_all locvar_ok (locvars f) \<and> list_all string_ok (upvalues f)))"

text \<open>What a chunk keeps of a function: with \<open>strip\<close> neither the source nor the debug information; a source that is not there is
  that of the enclosing function.\<close>

function norm :: "bool \<Rightarrow> TString option \<Rightarrow> Proto \<Rightarrow> Proto" where
  "norm strp p f = (let src = (if strp \<or> source f = None then p else source f) in
     Proto src (linedefined f) (lastlinedefined f) (nups f) (numparams f) (is_vararg f) (maxstacksize f) (code f) (ks f)
       (map (norm strp src) (ps f)) (if strp then [] else lineinfo f) (if strp then [] else locvars f)
       (if strp then [] else upvalues f))"
  by pat_completeness auto
termination by (relation "measure (\<lambda>(strp, p, f). size f)") (auto simp: size_ps)

declare norm.simps [simp del]

lemma norm_sel [simp]:
  "nups (norm strp p f) = nups f" "code (norm strp p f) = code f" "ks (norm strp p f) = ks f"
  "maxstacksize (norm strp p f) = maxstacksize f" "numparams (norm strp p f) = numparams f" "is_vararg (norm strp p f) = is_vararg f"
  "lineinfo (norm strp p f) = (if strp then [] else lineinfo f)" "upvalues (norm strp p f) = (if strp then [] else upvalues f)"
  "ps (norm strp p f) = map (norm strp (if strp \<or> source f = None then p else source f)) (ps f)"
  by (simp_all add: norm.simps [of strp p f] Let_def)

text \<open>The verifier looks at no debug information, except that there is not too much of it: stripping keeps a function acceptable.\<close>

lemma fetch_map: "fetch (map g xs) n r = fetch xs n (\<lambda>x. r (g x))"
  by (simp add: fetch_def)

lemma symbexec_step_norm: "symbexec_step (norm strp p f) = symbexec_step f"
proof -
  have r: "checkreg (norm strp p f) = checkreg f" by (simp add: fun_eq_iff checkreg_def)
  then have a: "checkArgMode (norm strp p f) = checkArgMode f" by (simp add: fun_eq_iff checkArgMode_def)
  show ?thesis
    unfolding fun_eq_iff symbexec_step_def symbexec_args_def symbexec_op_def norm_sel fetch_map length_map r a by simp
qed

lemma symbexec_loop_norm: "symbexec_loop (norm strp p f) n reg pc lst = symbexec_loop f n reg pc lst"
proof (induction f n reg pc lst rule: symbexec_loop.induct)
  case (1 f n reg pc lst)
  then show ?case
    by (simp add: symbexec_loop.simps [of f n reg pc] symbexec_loop.simps [of "norm strp p f" n reg pc] symbexec_step_norm
        split: chk.splits)
qed

lemma luaG_checkcode_norm: "luaG_checkcode f \<Longrightarrow> luaG_checkcode (norm strp p f)"
proof -
  assume c: "luaG_checkcode f"
  then have "precheck f" by (rule luaG_checkcode_accepts)
  then have "precheck (norm strp p f)" by (auto simp: precheck_def)
  with c \<open>precheck f\<close> show ?thesis
    unfolding luaG_checkcode_def symbexec_def symbexec_loop_norm check_def norm_sel by simp
qed

lemma codes_constants:
  assumes "length (ks f) < 2 ^ 31" "length (ps f) < 2 ^ 31" "list_all (\<lambda>c. case c of KString s \<Rightarrow> string_ok s | _ \<Rightarrow> True) (ks f)"
    and "codes (ltimes (length (ps f)) loadf) bs gs"
  shows "codes (LoadConstants loadf) (enc_size (ks f) @ concat (map enc_const (ks f)) @ enc_size (ps f) @ bs) (ks f, gs)"
  unfolding LoadConstants_def using assms
  by (intro codes_size codes_bind [OF const_codec.load_times] codes_ret_bind) simp_all

lemma codes_debug:
  assumes "dumpable strp f"
  shows "codes LoadDebug (enc_debug strp f)
    (if strp then [] else lineinfo f, if strp then [] else locvars f, if strp then [] else upvalues f)"
proof -
  define li where "li = (if strp then [] else lineinfo f)"
  define lv where "lv = (if strp then [] else locvars f)"
  define uv where "uv = (if strp then [] else upvalues f)"
  have "length li < 2 ^ 31" "length lv < 2 ^ 31" "length uv < 2 ^ 31" "list_all locvar_ok lv" "list_all string_ok uv"
    using assms by (auto simp: dumpable_def li_def lv_def uv_def)
  note ok = this
  have "codes LoadDebug (enc_vector li @ enc_size lv @ concat (map enc_locvar lv) @ enc_size uv @ concat (map enc_string uv)) (li, lv, uv)"
    unfolding LoadDebug_def enc_vector_def append_assoc
    by (rule codes_size, rule ok, rule codes_bind [OF codes_LoadVector], rule codes_size, rule ok,
        rule codes_bind [OF locvar_codec.load_times], rule ok, rule codes_size, rule ok,
        rule codes_ret_bind [OF string_codec.load_times]) (simp_all add: ok)
  then show ?thesis by (simp add: enc_debug_def Let_def li_def lv_def uv_def)
qed

lemma codes_function:
  assumes "all_protos (dumpable strp) f" "all_protos luaG_checkcode f" "nests_within calls f"
    and "strp \<or> p = None \<or> lp = p"
  shows "codes (LoadFunction calls lp) (enc_proto strp f p) (norm strp lp f)"
  using assms
proof (induction calls arbitrary: f p lp)
  case (Suc calls)
  define s where "s = (if source f = p \<or> strp then None else source f)"
  define src where "src = (if s = None then lp else s)"
  have src: "src = (if strp \<or> source f = None then lp else source f)" using Suc.prems(4) by (auto simp: src_def s_def)
  have d: "dumpable strp f" and c: "luaG_checkcode f" using Suc.prems(1,2) by (simp_all add: all_protos.simps [of _ f])
  from d have ok: "string_ok s" "0 \<le> sint (linedefined f)" "0 \<le> sint (lastlinedefined f)" "length (code f) < 2 ^ 31"
    by (auto simp: dumpable_def s_def string_ok_def)
  have fs: "codes (ltimes (length (ps f)) (LoadFunction calls src)) (concat (map (\<lambda>g. enc_proto strp g (source f)) (ps f)))
      (map (norm strp src) (ps f))"
  proof (rule codes_times)
    fix g assume g: "g \<in> set (ps f)"
    show "codes (LoadFunction calls src) (enc_proto strp g (source f)) (norm strp src g)"
      using Suc.prems(1-3) g by (intro Suc.IH) (auto simp: all_protos.simps [of _ f] list_all_iff src)
  qed
  have cs: "codes (LoadConstants (LoadFunction calls src)) (enc_size (ks f) @ concat (map enc_const (ks f)) @
      enc_size (ps f) @ concat (map (\<lambda>g. enc_proto strp g (source f)) (ps f))) (ks f, map (norm strp src) (ps f))"
    using d fs by (intro codes_constants) (simp_all add: dumpable_def)
  define f' where "f' = norm strp lp f"
  have f': "f' = Proto src (linedefined f) (lastlinedefined f) (nups f) (numparams f) (is_vararg f) (maxstacksize f) (code f) (ks f)
       (map (norm strp src) (ps f)) (if strp then [] else lineinfo f) (if strp then [] else locvars f)
       (if strp then [] else upvalues f)" by (simp add: f'_def norm.simps [of strp lp f] src Let_def)
  have "luaG_checkcode f'" unfolding f'_def by (rule luaG_checkcode_norm [OF c])
  then have last: "codes (lif (\<not> luaG_checkcode f') ''bad code'' (lret f')) [] f'" by (simp add: lif_def codes_ret)
  have dbg: "codes (lbind LoadDebug (\<lambda>(li, lv, uv). lif (\<not> luaG_checkcode (Proto src (linedefined f) (lastlinedefined f) (nups f)
        (numparams f) (is_vararg f) (maxstacksize f) (code f) (ks f) (map (norm strp src) (ps f)) li lv uv)) ''bad code''
      (lret (Proto src (linedefined f) (lastlinedefined f) (nups f) (numparams f) (is_vararg f) (maxstacksize f) (code f) (ks f)
        (map (norm strp src) (ps f)) li lv uv)))) (enc_debug strp f) f'"
    by (rule codes_bindI [OF codes_debug [OF d]], unfold prod.case f' [symmetric], rule last, simp)
  show ?case unfolding LoadFunction.simps enc_proto.simps [of strp f] s_def [symmetric] f'_def [symmetric] Let_def
    by (rule codes_bind [OF string_codec.load_enc], rule ok, rule codes_bind [OF int_codec.load_enc], rule ok,
        rule codes_bind [OF int_codec.load_enc], rule ok, (rule codes_bind [OF byte_codec.load_enc], rule TrueI)+,
        rule codes_bind [OF codes_code], rule ok, unfold src_def [symmetric], rule codes_bind [OF cs], unfold prod.case, rule dbg)
qed simp

lemma codes_chunk:
  assumes "all_protos (dumpable strp) f" "all_protos luaG_checkcode f" "nests_within (LUAI_MAXCCALLS - nCcalls) f"
  shows "codes (lbind LoadHeader (\<lambda>_. LoadFunction (LUAI_MAXCCALLS - nCcalls) (Some unknown_source))) (chunk strp f)
      (norm strp (Some unknown_source) f)"
proof -
  have h: "codes LoadHeader luaU_header ()" unfolding LoadHeader_def
    by (rule codes_block_last) (simp_all add: lif_def codes_ret luaU_header_def LUA_SIGNATURE_def LUAC_HEADERSIZE_def)
  show ?thesis unfolding chunk_def using assms by (intro codes_bind [OF h] codes_function) simp_all
qed

lemma norm_same: "all_protos (\<lambda>g. source g \<noteq> None) f \<Longrightarrow> norm False p f = f"
proof (induction "size f" arbitrary: f p rule: less_induct)
  case less
  have s: "source f \<noteq> None" and "\<And>g. g \<in> set (ps f) \<Longrightarrow> all_protos (\<lambda>g. source g \<noteq> None) g"
    using less.prems by (simp_all add: all_protos.simps [of _ f])
  then have "map (norm False q) (ps f) = ps f" for q using less.hyps size_ps by (intro map_idI) blast
  with s show ?case by (subst norm.simps) (auto simp: Let_def)
qed

lemma lbind_Inr: "lbind m f z = Inr r \<longleftrightarrow> (\<exists>x z'. m z = Inr (x, z') \<and> f x z' = Inr r)"
  by (auto simp: lbind_def split: sum.splits)

lemma ltimes_Inr: "ltimes n m z = Inr (xs, z') \<Longrightarrow> x \<in> set xs \<Longrightarrow> \<exists>z1 z2. m z1 = Inr (x, z2)"
  by (induction n arbitrary: z xs) (auto simp: lbind_Inr lret_def, blast)

lemma LoadFunction_checked:
  "LoadFunction calls p z = Inr (f, z') \<Longrightarrow> all_protos luaG_checkcode f \<and> nests_within calls f"
proof (induction calls arbitrary: p z f z')
  case (Suc calls)
  then obtain fs n src z1 z2 where fs: "ps f = fs" "ltimes n (LoadFunction calls src) z1 = Inr (fs, z2)" and c: "luaG_checkcode f"
    by (auto simp: lbind_Inr Let_def lif_def lret_def LoadConstants_def split: if_splits)
  have "all_protos luaG_checkcode g \<and> nests_within calls g" if "g \<in> set fs" for g
    using ltimes_Inr [OF fs(2) that] Suc.IH by blast
  with c fs(1) show ?case by (simp add: all_protos.simps [of _ f] list_all_iff)
qed simp

text \<open>C19: Loading a chunk gives back the function that was dumped, for every division of the chunk into blocks, when the function is within the
  limits of the format and of the nesting of C calls, and its code passes the verifier: with \<open>strip\<close> all but the source and the
  debug information, without it the function itself, if every function in it has a source.\<close>

theorem undump_dump:
  assumes "all_protos (dumpable strp) f" "all_protos luaG_checkcode f" "nests_within (LUAI_MAXCCALLS - nCcalls) f"
    and "luaU_dump f str_writer [] strp = (0, bs)" and "zcontents z = bs @ rest"
  shows "\<exists>z'. luaU_undump nCcalls name z = Inr (norm strp (Some unknown_source) f, z') \<and> zcontents z' = rest \<and>
    (\<not> strp \<and> all_protos (\<lambda>g. source g \<noteq> None) f \<longrightarrow> norm strp (Some unknown_source) f = f)"
proof -
  have bs: "bs = chunk strp f" using assms(4) str_dump.dump_written [of f "[]" strp bs] by simp
  from codesD(1) [OF codes_chunk [OF assms(1-3)], of z rest] assms(5) show ?thesis
    by (auto simp: luaU_undump_def bs norm_same)
qed

text \<open>C21: A chunk that is cut off anywhere is refused with the message for an unexpected end, which names the chunk.\<close>

theorem undump_truncated:
  assumes "all_protos (dumpable strp) f" "all_protos luaG_checkcode f" "nests_within (LUAI_MAXCCALLS - nCcalls) f"
    and "n < length (chunk strp f)" and "zcontents z = take n (chunk strp f)"
  shows "luaU_undump nCcalls name z = Inl (chunk_name name @ '': unexpected end in precompiled chunk'')"
  using codesD(2) [OF codes_chunk [OF assms(1-3)], of z "drop n (chunk strp f)"] assms(4,5)
  by (simp add: luaU_undump_def load_error_def)

text \<open>C20: Whatever bytes the stream has, a chunk that loads contains only functions that passed the verifier, nested no deeper than the C
  calls that were left, and starts with the header of this machine.\<close>

theorem undump_verified:
  assumes "luaU_undump nCcalls name z = Inr (f, z')"
  shows "all_protos luaG_checkcode f \<and> nests_within (LUAI_MAXCCALLS - nCcalls) f \<and> take LUAC_HEADERSIZE (zcontents z) = luaU_header"
proof -
  from assms obtain z1 where h: "LoadHeader z = Inr ((), z1)"
    and f: "LoadFunction (LUAI_MAXCCALLS - nCcalls) (Some unknown_source) z1 = Inr (f, z')"
    by (auto simp: luaU_undump_def lbind_Inr split: sum.splits)
  from h have "take LUAC_HEADERSIZE (zcontents z) = luaU_header" using luaZ_read_spec [of z LUAC_HEADERSIZE]
    by (auto simp: LoadHeader_def lbind_Inr LoadBlock_def lif_def lret_def split: if_splits)
  with LoadFunction_checked [OF f] show ?thesis by simp
qed

text \<open>A function with constants, debug information and a nested function.\<close>

definition sample_proto :: Proto where
  "sample_proto = Proto (Some [64, 120]) 0 3 0 0 2 2 [CREATE_ABx OP_CLOSURE 0 0, CREATE_ABC OP_RETURN 0 1 0]
     [KNil, KBool True, KNumber 7, KString (Some [65])]
     [Proto (Some [64, 120]) 1 2 0 0 0 2 [CREATE_ABC OP_RETURN 0 1 0] [] [] [1] [] []]
     [1, 2] [\<lparr>varname = Some [97], startpc = 0, endpc = 1\<rparr>] []"

lemma sample_proto_ok:
  "all_protos (dumpable strp) sample_proto" "all_protos luaG_checkcode sample_proto"
  "nests_within (LUAI_MAXCCALLS - 0) sample_proto" "all_protos (\<lambda>g. source g \<noteq> None) sample_proto"
proof -
  have n: "LUAI_MAXCCALLS - 0 = Suc (Suc 198)" by (simp add: LUAI_MAXCCALLS_def)
  show "nests_within (LUAI_MAXCCALLS - 0) sample_proto" unfolding n nests_within.simps by (simp only: nests_within.simps sample_proto_def Proto.sel list.pred_inject simp_thms)
  show "all_protos luaG_checkcode sample_proto" "all_protos (\<lambda>g. source g \<noteq> None) sample_proto" by code_simp+
  show "all_protos (dumpable strp) sample_proto"
    by (simp add: all_protos_Proto sample_proto_def dumpable_def string_ok_def locvar_ok_def)
qed

theorem undump_dump_witness:
  "\<exists>z'. luaU_undump 0 ''@x'' (luaZ_init [luaU_header, enc_proto False sample_proto None]) = Inr (sample_proto, z')"
proof -
  have z: "zcontents (luaZ_init [luaU_header, enc_proto False sample_proto None]) = chunk False sample_proto @ []"
    by (simp add: luaZ_init_def zcontents_def chunk_def luaU_header_def LUA_SIGNATURE_def)
  from undump_dump [where name = "''@x''", OF sample_proto_ok(1-3) str_dump_chunk z] sample_proto_ok(4) show ?thesis by auto
qed

theorem undump_truncated_witness:
  "luaU_undump 0 ''=lua'' (luaZ_init [take 11 luaU_header]) = Inl ''lua: unexpected end in precompiled chunk''"
proof -
  have z: "zcontents (luaZ_init [take 11 luaU_header]) = take 11 (chunk True sample_proto)"
    by (simp add: luaZ_init_def zcontents_def chunk_def luaU_header_def LUA_SIGNATURE_def)
  have "11 < length (chunk True sample_proto)" by (simp add: chunk_def luaU_header_def LUA_SIGNATURE_def)
  from undump_truncated [where name = "''=lua''", OF sample_proto_ok(1-3) this z] show ?thesis by (simp add: chunk_name_def)
qed

theorem undump_verified_witness:
  "\<exists>z'. luaU_undump 0 ''@x'' (luaZ_init [chunk True sample_proto]) = Inr (norm True (Some unknown_source) sample_proto, z') \<and>
    all_protos luaG_checkcode (norm True (Some unknown_source) sample_proto)"
proof -
  have z: "zcontents (luaZ_init [chunk True sample_proto]) = chunk True sample_proto @ []"
    by (simp add: luaZ_init_def zcontents_def chunk_def luaU_header_def LUA_SIGNATURE_def)
  from codesD(1) [OF codes_chunk [OF sample_proto_ok(1-3)] z] obtain z' where
    "luaU_undump 0 ''@x'' (luaZ_init [chunk True sample_proto]) = Inr (norm True (Some unknown_source) sample_proto, z')"
    by (auto simp: luaU_undump_def)
  with undump_verified [OF this] show ?thesis by blast
qed

end
