(* ===== verification/Lua_Strlib.thy ===== *)
theory Lua_Strlib
  imports Prelude
begin

text \<open>
  \<^verbatim>\<open>src/src/lstrlib.c\<close>: the string library of Lua.  A subject string is a list of characters with positions into it; a pattern
  pointer is the rest of the pattern, which ends at its first NUL.  The character classes are those of the C locale.
  Errors raised by \<open>luaL_error\<close> are the left summand, without the position that Lua puts in front of the message.  The state of a match is the list of
  captures, which the C code keeps in an array and undoes when it backtracks.
\<close>

subsection \<open>Character classes of the C locale\<close>

definition isdigit :: "nat \<Rightarrow> bool" where "isdigit c = (48 \<le> c \<and> c \<le> 57)"
definition isupper :: "nat \<Rightarrow> bool" where "isupper c = (65 \<le> c \<and> c \<le> 90)"
definition islower :: "nat \<Rightarrow> bool" where "islower c = (97 \<le> c \<and> c \<le> 122)"
definition isalpha :: "nat \<Rightarrow> bool" where "isalpha c = (isupper c \<or> islower c)"
definition isalnum :: "nat \<Rightarrow> bool" where "isalnum c = (isalpha c \<or> isdigit c)"
definition iscntrl :: "nat \<Rightarrow> bool" where "iscntrl c = (c < 32 \<or> c = 127)"
definition isspace :: "nat \<Rightarrow> bool" where "isspace c = (c = 32 \<or> 9 \<le> c \<and> c \<le> 13)"
definition ispunct :: "nat \<Rightarrow> bool" where "ispunct c = (33 \<le> c \<and> c \<le> 126 \<and> \<not> isalnum c)"
definition isxdigit :: "nat \<Rightarrow> bool" where "isxdigit c = (isdigit c \<or> 65 \<le> c \<and> c \<le> 70 \<or> 97 \<le> c \<and> c \<le> 102)"
definition tolower :: "nat \<Rightarrow> nat" where "tolower c = (if isupper c then c + 32 else c)"
definition toupper :: "nat \<Rightarrow> nat" where "toupper c = (if islower c then c - 32 else c)"

subsection \<open>Simple functions\<close>

definition str_len :: "string \<Rightarrow> int" where
  "str_len s = int (length s)"

definition posrelat :: "int \<Rightarrow> nat \<Rightarrow> int" where
  "posrelat pos len = (let pos = (if pos < 0 then pos + int len + 1 else pos) in if pos \<ge> 0 then pos else 0)"

text \<open>An optional argument that is missing is \<open>None\<close>.\<close>

definition str_sub :: "string \<Rightarrow> int \<Rightarrow> int option \<Rightarrow> string" where
  "str_sub s i j = (let
     l = length s;
     start = posrelat i l;
     end' = posrelat (case j of None \<Rightarrow> - 1 | Some j \<Rightarrow> j) l;
     start = (if start < 1 then 1 else start);
     end' = (if end' > int l then int l else end')
   in if start \<le> end' then take (nat (end' - start + 1)) (drop (nat (start - 1)) s) else [])"

fun rev_loop :: "string \<Rightarrow> nat \<Rightarrow> string" where
  "rev_loop s 0 = []"
| "rev_loop s (Suc l) = s ! l # rev_loop s l"

definition str_reverse :: "string \<Rightarrow> string" where
  "str_reverse s = rev_loop s (length s)"

definition str_lower :: "string \<Rightarrow> string" where
  "str_lower s = map (\<lambda>c. char_of (tolower (uchar_nat c))) s"

definition str_upper :: "string \<Rightarrow> string" where
  "str_upper s = map (\<lambda>c. char_of (toupper (uchar_nat c))) s"

definition str_rep :: "string \<Rightarrow> cint \<Rightarrow> string" where
  "str_rep s n = concat (replicate (nat (sint n)) s)"

definition str_byte :: "string \<Rightarrow> int option \<Rightarrow> int option \<Rightarrow> int list" where
  "str_byte s i j = (let
     l = length s;
     posi = posrelat (case i of None \<Rightarrow> 1 | Some i \<Rightarrow> i) l;
     pose = posrelat (case j of None \<Rightarrow> posi | Some j \<Rightarrow> j) l;
     posi = (if posi \<le> 0 then 1 else posi);
     pose = (if pose > int l then int l else pose)
   in if posi > pose then []
      else map (\<lambda>k. int (uchar_nat (s ! (nat posi + k - 1)))) [0..<nat (pose - posi + 1)])"

fun str_char :: "nat \<Rightarrow> cint list \<Rightarrow> string + string" where
  "str_char i [] = Inr []"
| "str_char i (c # cs) =
     (if sint (ucast (ucast c :: byte) :: cint) = sint c then
        (case str_char (Suc i) cs of Inl e \<Rightarrow> Inl e | Inr r \<Rightarrow> Inr (char_of (unat c) # r))
      else Inl ''invalid value'')"

subsection \<open>Pattern items\<close>

definition CAP_UNFINISHED :: int where "CAP_UNFINISHED = - 1"
definition CAP_POSITION :: int where "CAP_POSITION = - 2"
definition LUA_MAXCAPTURES :: nat where "LUA_MAXCAPTURES = 32"

text \<open>The captures of a \<open>MatchState\<close>, up to its level: where each starts and its length.\<close>

type_synonym captures = "(nat \<times> int) list"
type_synonym mres = "string + (nat option \<times> captures)"

definition check_capture :: "captures \<Rightarrow> nat \<Rightarrow> string + nat" where
  "check_capture ms l = (let l = int l - 49 in
     if l < 0 \<or> l \<ge> int (length ms) \<or> snd (ms ! nat l) = CAP_UNFINISHED then Inl ''invalid capture index'' else Inr (nat l))"

fun capture_loop :: "captures \<Rightarrow> nat \<Rightarrow> string + nat" where
  "capture_loop ms 0 = Inl ''invalid pattern capture''"
| "capture_loop ms (Suc level) = (if snd (ms ! level) = CAP_UNFINISHED then Inr level else capture_loop ms level)"

definition capture_to_close :: "captures \<Rightarrow> string + nat" where
  "capture_to_close ms = capture_loop ms (length ms)"

definition LUA_QL :: "string \<Rightarrow> string" where "LUA_QL x = [CHR 0x27] @ x @ [CHR 0x27]"

text \<open>The loop of \<open>classend\<close>, entered behind the opening bracket.\<close>

function class_loop :: "string \<Rightarrow> string + string" where
  "class_loop [] = Inl (''malformed pattern (missing '' @ LUA_QL '']'' @ '')'')"
| "class_loop (x # q) =
     (let q' = (if x = CHR ''%'' \<and> q \<noteq> [] then tl q else q) in
      if q' \<noteq> [] \<and> hd q' = CHR '']'' then Inr (tl q') else class_loop q')"
  by pat_completeness auto
termination by (relation "measure length") (auto simp: less_Suc_eq_le)

definition classend :: "string \<Rightarrow> string + string" where
  "classend p = (case p of
     [] \<Rightarrow> Inr []
   | c # p \<Rightarrow>
      if c = CHR ''%'' then (case p of [] \<Rightarrow> Inl (''malformed pattern (ends with '' @ LUA_QL ''%'' @ '')'') | _ # p \<Rightarrow> Inr p)
      else if c = CHR ''['' then class_loop (if p \<noteq> [] \<and> hd p = CHR ''^'' then tl p else p)
      else Inr p)"

definition match_class :: "nat \<Rightarrow> nat \<Rightarrow> bool" where
  "match_class c cl = (let
     t = char_of (tolower cl);
     r = (if t = CHR ''a'' then Some (isalpha c)
          else if t = CHR ''c'' then Some (iscntrl c)
          else if t = CHR ''d'' then Some (isdigit c)
          else if t = CHR ''l'' then Some (islower c)
          else if t = CHR ''p'' then Some (ispunct c)
          else if t = CHR ''s'' then Some (isspace c)
          else if t = CHR ''u'' then Some (isupper c)
          else if t = CHR ''w'' then Some (isalnum c)
          else if t = CHR ''x'' then Some (isxdigit c)
          else if t = CHR ''z'' then Some (c = 0)
          else None)
   in case r of None \<Rightarrow> cl = c | Some res \<Rightarrow> if islower cl then res else \<not> res)"

text \<open>The loop of \<open>matchbracketclass\<close> over the text between the brackets; an escape at its very end reads the closing bracket.\<close>

fun bracket_loop :: "nat \<Rightarrow> string \<Rightarrow> bool" where
  "bracket_loop c [] = False"
| "bracket_loop c (x # xs) =
     (if x = CHR ''%'' then
        (case xs of [] \<Rightarrow> match_class c (uchar_nat CHR '']'') | y # ys \<Rightarrow> match_class c (uchar_nat y) \<or> bracket_loop c ys)
      else
        (case xs of
           [] \<Rightarrow> uchar_nat x = c
         | [y] \<Rightarrow> uchar_nat x = c \<or> bracket_loop c xs
         | d # y # ys \<Rightarrow>
             if d = CHR ''-'' then uchar_nat x \<le> c \<and> c \<le> uchar_nat y \<or> bracket_loop c ys
             else uchar_nat x = c \<or> bracket_loop c xs))"

definition matchbracketclass :: "nat \<Rightarrow> string \<Rightarrow> bool" where
  "matchbracketclass c body =
     (if body \<noteq> [] \<and> hd body = CHR ''^'' then \<not> bracket_loop c (tl body) else bracket_loop c body)"

text \<open>The text between the brackets of the class that starts at \<open>p\<close> and ends before \<open>ep\<close>.\<close>

definition class_body :: "string \<Rightarrow> string \<Rightarrow> string" where
  "class_body p ep = take (length p - length ep - 2) (tl p)"

definition singlematch :: "nat \<Rightarrow> string \<Rightarrow> string \<Rightarrow> bool" where
  "singlematch c p ep = (case p of
     [] \<Rightarrow> c = 0
   | x # q \<Rightarrow>
      if x = CHR ''.'' then True
      else if x = CHR ''%'' then match_class c (case q of [] \<Rightarrow> 0 | y # _ \<Rightarrow> uchar_nat y)
      else if x = CHR ''['' then matchbracketclass c (class_body p ep)
      else uchar_nat x = c)"

fun balance_loop :: "char \<Rightarrow> char \<Rightarrow> string \<Rightarrow> nat \<Rightarrow> nat \<Rightarrow> nat option" where
  "balance_loop b e [] s cont = None"
| "balance_loop b e (x # xs) s cont =
     (if x = e then (if cont - 1 = 0 then Some (s + 1) else balance_loop b e xs (s + 1) (cont - 1))
      else if x = b then balance_loop b e xs (s + 1) (cont + 1)
      else balance_loop b e xs (s + 1) cont)"

definition matchbalance :: "string \<Rightarrow> nat \<Rightarrow> string \<Rightarrow> string + nat option" where
  "matchbalance src s p = (case p of
     b # e # _ \<Rightarrow> Inr (if s < length src \<and> src ! s = b then balance_loop b e (drop (s + 1) src) (s + 1) 1 else None)
   | _ \<Rightarrow> Inl ''unbalanced pattern'')"

subsection \<open>Matching\<close>

text \<open>The repetitions and captures call \<open>match\<close> on the rest of the pattern; \<open>m\<close> stands for that call.\<close>

primrec expand_down :: "(captures \<Rightarrow> nat \<Rightarrow> mres) \<Rightarrow> captures \<Rightarrow> nat \<Rightarrow> nat \<Rightarrow> mres" where
  "expand_down m ms s 0 = m ms (s + 0)"
| "expand_down m ms s (Suc i) = (case m ms (s + Suc i) of
     Inl e \<Rightarrow> Inl e
   | Inr (Some e, ms) \<Rightarrow> Inr (Some e, ms)
   | Inr (None, ms) \<Rightarrow> expand_down m ms s i)"

definition max_expand :: "(captures \<Rightarrow> nat \<Rightarrow> mres) \<Rightarrow> string \<Rightarrow> captures \<Rightarrow> nat \<Rightarrow> string \<Rightarrow> string \<Rightarrow> mres" where
  "max_expand m src ms s p ep =
     expand_down m ms s (length (takeWhile (\<lambda>c. singlematch (uchar_nat c) p ep) (drop s src)))"

function min_expand :: "(captures \<Rightarrow> nat \<Rightarrow> mres) \<Rightarrow> string \<Rightarrow> captures \<Rightarrow> nat \<Rightarrow> string \<Rightarrow> string \<Rightarrow> mres" where
  "min_expand m src ms s p ep = (case m ms s of
     Inl e \<Rightarrow> Inl e
   | Inr (Some e, ms) \<Rightarrow> Inr (Some e, ms)
   | Inr (None, ms) \<Rightarrow>
       if s < length src \<and> singlematch (uchar_nat (src ! s)) p ep then min_expand m src ms (s + 1) p ep else Inr (None, ms))"
  by pat_completeness auto
termination by (relation "measure (\<lambda>(m, src, ms, s, p, ep). length src - s)") auto

declare min_expand.simps [simp del]

definition start_capture :: "(captures \<Rightarrow> nat \<Rightarrow> mres) \<Rightarrow> captures \<Rightarrow> nat \<Rightarrow> int \<Rightarrow> mres" where
  "start_capture m ms s what =
     (if length ms \<ge> LUA_MAXCAPTURES then Inl ''too many captures''
      else (case m (ms @ [(s, what)]) s of
          Inl e \<Rightarrow> Inl e
        | Inr (Some e, ms) \<Rightarrow> Inr (Some e, ms)
        | Inr (None, ms) \<Rightarrow> Inr (None, butlast ms)))"

definition end_capture :: "(captures \<Rightarrow> nat \<Rightarrow> mres) \<Rightarrow> captures \<Rightarrow> nat \<Rightarrow> mres" where
  "end_capture m ms s = (case capture_to_close ms of
     Inl e \<Rightarrow> Inl e
   | Inr l \<Rightarrow> (case m (ms[l := (fst (ms ! l), int s - int (fst (ms ! l)))]) s of
        Inl e \<Rightarrow> Inl e
      | Inr (Some e, ms) \<Rightarrow> Inr (Some e, ms)
      | Inr (None, ms) \<Rightarrow> Inr (None, ms[l := (fst (ms ! l), CAP_UNFINISHED)])))"

text \<open>The length of a capture is converted to \<open>size_t\<close>, so that a position capture is longer than any string.\<close>

definition match_capture :: "string \<Rightarrow> captures \<Rightarrow> nat \<Rightarrow> nat \<Rightarrow> string + nat option" where
  "match_capture src ms s l = (case check_capture ms l of
     Inl e \<Rightarrow> Inl e
   | Inr l \<Rightarrow> (let len = nat (snd (ms ! l) mod 2 ^ 64) in
       Inr (if length src - s \<ge> len \<and> take len (drop (fst (ms ! l)) src) = take len (drop s src) then Some (s + len) else None)))"

lemma class_loop_length: "class_loop p = Inr ep \<Longrightarrow> length ep < length p"
  by (induction p rule: class_loop.induct) (auto simp: Let_def split: if_splits)

lemma classend_length: "classend (c # p) = Inr ep \<Longrightarrow> length ep \<le> length p"
  by (auto simp: classend_def split: if_splits list.splits dest!: class_loop_length)

lemma classend_le: "classend p = Inr ep \<Longrightarrow> length ep \<le> length p"
  using classend_length by (cases p) (force simp: classend_def)+

function match :: "string \<Rightarrow> captures \<Rightarrow> nat \<Rightarrow> string \<Rightarrow> mres" where
  "match src ms s [] = Inr (Some s, ms)"
| "match src ms s (c # q) =
     (if c = CHR ''('' then
        (if q \<noteq> [] \<and> hd q = CHR '')'' then start_capture (\<lambda>ms s. match src ms s (tl q)) ms s CAP_POSITION
         else start_capture (\<lambda>ms s. match src ms s q) ms s CAP_UNFINISHED)
      else if c = CHR '')'' then end_capture (\<lambda>ms s. match src ms s q) ms s
      else if c = CHR ''%'' \<and> q \<noteq> [] \<and> hd q = CHR ''b'' then
        (case matchbalance src s (tl q) of
           Inl e \<Rightarrow> Inl e
         | Inr None \<Rightarrow> Inr (None, ms)
         | Inr (Some s) \<Rightarrow> match src ms s (drop 3 q))
      else if c = CHR ''%'' \<and> q \<noteq> [] \<and> hd q = CHR ''f'' then
        (if tl q = [] \<or> hd (tl q) \<noteq> CHR ''['' then Inl (''missing '' @ LUA_QL ''['' @ '' after '' @ LUA_QL ''%f'' @ '' in pattern'')
         else (case classend (tl q) of
             Inl e \<Rightarrow> Inl e
           | Inr ep \<Rightarrow>
              (let previous = (if s = 0 then 0 else uchar_nat (src ! (s - 1)));
                   current = (if s < length src then uchar_nat (src ! s) else 0)
               in if matchbracketclass previous (class_body (tl q) ep) \<or> \<not> matchbracketclass current (class_body (tl q) ep)
                  then Inr (None, ms) else match src ms s ep)))
      else if c = CHR ''%'' \<and> q \<noteq> [] \<and> isdigit (uchar_nat (hd q)) then
        (case match_capture src ms s (uchar_nat (hd q)) of
           Inl e \<Rightarrow> Inl e
         | Inr None \<Rightarrow> Inr (None, ms)
         | Inr (Some s) \<Rightarrow> match src ms s (tl q))
      else if c = CHR ''$'' \<and> q = [] then Inr (if s = length src then Some s else None, ms)
      else (case classend (c # q) of
          Inl e \<Rightarrow> Inl e
        | Inr ep \<Rightarrow>
           (let m = (s < length src \<and> singlematch (uchar_nat (src ! s)) (c # q) ep) in
            case ep of
              [] \<Rightarrow> if m then match src ms (s + 1) [] else Inr (None, ms)
            | x # r \<Rightarrow>
               if x = CHR ''?'' then
                 (if m then (case match src ms (s + 1) r of
                      Inl e \<Rightarrow> Inl e
                    | Inr (Some e, ms) \<Rightarrow> Inr (Some e, ms)
                    | Inr (None, ms) \<Rightarrow> match src ms s r)
                  else match src ms s r)
               else if x = CHR ''*'' then max_expand (\<lambda>ms s. match src ms s r) src ms s (c # q) ep
               else if x = CHR ''+'' then
                 (if m then max_expand (\<lambda>ms s. match src ms s r) src ms (s + 1) (c # q) ep
                  else Inr (None, ms))
               else if x = CHR ''-'' then min_expand (\<lambda>ms s. match src ms s r) src ms s (c # q) ep
               else if m then match src ms (s + 1) ep else Inr (None, ms))))"
  by pat_completeness auto
termination by (relation "measure (\<lambda>(src, ms, s, p). length p)") (auto dest!: classend_length dest: classend_le simp: less_Suc_eq_le intro: order_trans [OF classend_le])

declare match.simps [simp del]

subsection \<open>Positions and captures of a match\<close>

text \<open>Captures that lie in the part of the subject before \<open>s\<close>.\<close>

definition caps_ok :: "nat \<Rightarrow> captures \<Rightarrow> bool" where
  "caps_ok s ms = (length ms \<le> LUA_MAXCAPTURES \<and>
     list_all (\<lambda>(i, l). i \<le> s \<and> (l = CAP_UNFINISHED \<or> l = CAP_POSITION \<or> 0 \<le> l \<and> int i + l \<le> int s)) ms)"

text \<open>What a call of the matcher at \<open>s\<close> promises: a failure has undone its captures, and a match ends behind \<open>s\<close> inside
  the subject, with captures before its end.\<close>

definition mok :: "string \<Rightarrow> captures \<Rightarrow> nat \<Rightarrow> mres \<Rightarrow> bool" where
  "mok src ms s r = (case r of
     Inl e \<Rightarrow> True
   | Inr (None, ms') \<Rightarrow> ms' = ms
   | Inr (Some e, ms') \<Rightarrow> s \<le> e \<and> e \<le> max s (length src) \<and> (caps_ok s ms \<longrightarrow> caps_ok e ms'))"

lemma mok_simps [simp]:
  "mok src ms s (Inl er)" "mok src ms s (Inr (None, ms')) \<longleftrightarrow> ms' = ms"
  "mok src ms s (Inr (Some e, ms')) \<longleftrightarrow> s \<le> e \<and> e \<le> max s (length src) \<and> (caps_ok s ms \<longrightarrow> caps_ok e ms')"
  by (simp_all add: mok_def)

lemma caps_ok_mono: "caps_ok s ms \<Longrightarrow> s \<le> t \<Longrightarrow> caps_ok t ms"
  by (auto simp: caps_ok_def list_all_iff)

lemma mok_if: "(c \<Longrightarrow> mok src ms s a) \<Longrightarrow> (\<not> c \<Longrightarrow> mok src ms s b) \<Longrightarrow> mok src ms s (if c then a else b)"
  by simp

lemma mok_later:
  assumes "mok src ms t r" "s \<le> t" "t \<le> max s (length src)"
  shows "mok src ms s r"
  using assms caps_ok_mono [of s ms t] by (auto simp: mok_def max_def split: sum.splits option.splits if_splits)

lemma mok_expand_down:
  assumes "\<And>ms s. mok src ms s (m ms s)" "s + i \<le> max s (length src)"
  shows "mok src ms s (expand_down m ms s i)"
  using assms(2)
proof (induction i arbitrary: ms)
  case 0
  then show ?case using assms(1) by simp
next
  case (Suc i)
  have "mok src ms s (m ms (s + Suc i))" using mok_later [OF assms(1)] Suc.prems by simp
  moreover have "mok src ms s (expand_down m ms s i)" using Suc by simp
  ultimately show ?case by (auto split: sum.splits option.splits)
qed

lemma mok_max_expand: "(\<And>ms s. mok src ms s (m ms s)) \<Longrightarrow> mok src ms s (max_expand m src ms s p ep)"
  unfolding max_expand_def
proof (rule mok_expand_down)
  have "length (takeWhile (\<lambda>c. singlematch (uchar_nat c) p ep) (drop s src)) \<le> length src - s"
    using length_takeWhile_le [of _ "drop s src"] by simp
  then show "s + length (takeWhile (\<lambda>c. singlematch (uchar_nat c) p ep) (drop s src)) \<le> max s (length src)" by simp
qed

lemma mok_min_expand: "(\<And>ms s. mok src ms s (m ms s)) \<Longrightarrow> mok src ms s (min_expand m src ms s p ep)"
proof (induction m src ms s p ep rule: min_expand.induct)
  case (1 m src ms s p ep)
  show ?case
  proof (cases "m ms s")
    case (Inr r)
    obtain e ms' where r: "r = (e, ms')" by (cases r)
    have ok: "mok src ms s (Inr (e, ms'))" using "1.prems" [of ms s] Inr r by simp
    show ?thesis
    proof (cases e)
      case None
      then have "ms' = ms" using ok by simp
      moreover have "mok src ms s (min_expand m src ms (s + 1) p ep)" if c: "s < length src \<and> singlematch (uchar_nat (src ! s)) p ep"
        by (rule mok_later [OF "1.IH" [OF Inr r [symmetric] None c "1.prems", unfolded \<open>ms' = ms\<close>]]) (use c in auto)
      ultimately show ?thesis using Inr r None by (subst min_expand.simps) simp
    next
      case (Some e')
      then show ?thesis using Inr r ok by (subst min_expand.simps) simp
    qed
  qed (simp add: min_expand.simps [of m src ms])
qed

lemma mok_start_capture:
  assumes "\<And>ms s. mok src ms s (m ms s)" "what \<in> {CAP_UNFINISHED, CAP_POSITION}"
  shows "mok src ms s (start_capture m ms s what)"
proof -
  have "caps_ok s ms \<Longrightarrow> length ms < LUA_MAXCAPTURES \<Longrightarrow> caps_ok s (ms @ [(s, what)])"
    using assms(2) by (auto simp: caps_ok_def)
  with assms(1) [of "ms @ [(s, what)]" s] show ?thesis
    by (auto simp: start_capture_def mok_def split: sum.splits option.splits)
qed

lemma capture_loop_Inr: "capture_loop ms n = Inr l \<Longrightarrow> l < n \<and> snd (ms ! l) = CAP_UNFINISHED"
  by (induction n) (auto split: if_splits simp: less_Suc_eq)

lemma mok_end_capture:
  assumes "\<And>ms s. mok src ms s (m ms s)"
  shows "mok src ms s (end_capture m ms s)"
proof (cases "capture_to_close ms")
  case (Inr l)
  then have l: "l < length ms" "snd (ms ! l) = CAP_UNFINISHED" by (auto simp: capture_to_close_def dest: capture_loop_Inr)
  define ms1 where "ms1 = ms[l := (fst (ms ! l), int s - int (fst (ms ! l)))]"
  have "caps_ok s ms1" if "caps_ok s ms"
  proof -
    have "fst (ms ! l) \<le> s" using that l(1) by (cases "ms ! l") (auto simp: caps_ok_def list_all_length)
    with that show ?thesis using set_update_subset_insert [of ms l "(fst (ms ! l), int s - int (fst (ms ! l)))"]
      unfolding caps_ok_def ms1_def list_all_iff by fastforce
  qed
  moreover have "ms1[l := (fst (ms1 ! l), CAP_UNFINISHED)] = ms" using l by (auto simp: ms1_def list_eq_iff_nth_eq nth_list_update prod_eq_iff)
  ultimately show ?thesis using assms [of ms1 s] Inr
    by (auto simp: end_capture_def ms1_def [symmetric] mok_def split: sum.splits option.splits)
qed (simp add: end_capture_def)

lemma balance_loop_bounds: "balance_loop b e xs s cont = Some t \<Longrightarrow> s < t \<and> t \<le> s + length xs"
  by (induction b e xs s cont rule: balance_loop.induct) (force split: if_splits)+

lemma matchbalance_bounds: "matchbalance src s p = Inr (Some t) \<Longrightarrow> s \<le> t \<and> t \<le> max s (length src)"
  by (auto simp: matchbalance_def split: list.splits if_splits dest!: balance_loop_bounds)

lemma match_capture_bounds: "match_capture src ms s l = Inr (Some t) \<Longrightarrow> s \<le> t \<and> t \<le> max s (length src)"
  by (auto simp: match_capture_def Let_def split: sum.splits if_splits)

lemma match_mok: "mok src ms s (match src ms s p)"
proof (induction "length p" arbitrary: ms s p rule: less_induct)
  case less
  show ?case
  proof (cases p)
    case Nil
    then show ?thesis by (simp add: match.simps)
  next
    case (Cons c q)
    have IH: "\<And>ms s. mok src ms s (match src ms s r)" if "length r \<le> length q" for r using less that Cons by simp
    have q: "mok src ms s (match src ms s q)" "mok src ms s (match src ms s (tl q))" "mok src ms s (match src ms s (drop 3 q))" for ms s
      by (simp_all add: IH)
    have later: "mok src ms s (match src ms t r)" if "length r \<le> length q" "s \<le> t \<and> t \<le> max s (length src)" for r t ms
      using mok_later [OF IH [OF that(1)]] that(2) by blast
    have step: "mok src ms s (match src ms (Suc s) r)" if "length r \<le> length q" "s < length src" for r
      using that by (intro later) auto
    have opt: "mok src ms s (case match src ms (Suc s) r of Inl e \<Rightarrow> Inl e | Inr (Some e, ms) \<Rightarrow> Inr (Some e, ms)
        | Inr (None, ms) \<Rightarrow> match src ms s r)" if "length r \<le> length q" "s < length src" for r
      using step [OF that] IH [OF that(1), of ms s] by (auto split: sum.splits option.splits)
    have dflt: "mok src ms s (case classend (c # q) of Inl e \<Rightarrow> Inl e | Inr ep \<Rightarrow>
           (let m = (s < length src \<and> singlematch (uchar_nat (src ! s)) (c # q) ep) in
            case ep of [] \<Rightarrow> if m then match src ms (s + 1) [] else Inr (None, ms)
            | x # r \<Rightarrow>
               if x = CHR ''?'' then
                 (if m then (case match src ms (s + 1) r of Inl e \<Rightarrow> Inl e | Inr (Some e, ms) \<Rightarrow> Inr (Some e, ms)
                    | Inr (None, ms) \<Rightarrow> match src ms s r) else match src ms s r)
               else if x = CHR ''*'' then max_expand (\<lambda>ms s. match src ms s r) src ms s (c # q) ep
               else if x = CHR ''+'' then
                 (if m then max_expand (\<lambda>ms s. match src ms s r) src ms (s + 1) (c # q) ep else Inr (None, ms))
               else if x = CHR ''-'' then min_expand (\<lambda>ms s. match src ms s r) src ms s (c # q) ep
               else if m then match src ms (s + 1) ep else Inr (None, ms)))"
    proof (cases "classend (c # q)")
      case (Inr ep)
      then have ep: "length ep \<le> length q" by (rule classend_length)
      show ?thesis
      proof (cases ep)
        case Nil
        then show ?thesis using Inr step [of "[]"] by (simp add: Let_def)
      next
        case (Cons x r)
        then have r: "length r \<le> length q" using ep by simp
        have plus: "mok src ms s (max_expand (\<lambda>ms s. match src ms s r) src ms (Suc s) (c # q) ep)" if "s < length src"
          by (rule mok_later [OF mok_max_expand]) (use IH [OF r] that in auto)
        show ?thesis using Inr Cons step [OF ep] opt [OF r] plus IH [OF r]
          by (auto simp: Let_def intro: mok_max_expand mok_min_expand)
      qed
    qed simp
    have bal: "mok src ms s (case matchbalance src s (tl q) of Inl e \<Rightarrow> Inl e | Inr None \<Rightarrow> Inr (None, ms)
         | Inr (Some s) \<Rightarrow> match src ms s (drop 3 q))"
      using matchbalance_bounds [of src s "tl q"] by (auto split: sum.splits option.splits intro!: later)
    have cap: "mok src ms s (case match_capture src ms s l of Inl e \<Rightarrow> Inl e | Inr None \<Rightarrow> Inr (None, ms)
         | Inr (Some s) \<Rightarrow> match src ms s (tl q))" for l
      using match_capture_bounds [of src ms s l] by (auto split: sum.splits option.splits intro!: later)
    have fr: "mok src ms s (match src ms s ep)" if "classend (tl q) = Inr ep" for ep
      using classend_le [OF that] by (intro IH) simp
    have frontier: "mok src ms s (case classend (tl q) of Inl e \<Rightarrow> Inl e | Inr ep \<Rightarrow>
              (let previous = (if s = 0 then 0 else uchar_nat (src ! (s - 1)));
                   current = (if s < length src then uchar_nat (src ! s) else 0)
               in if matchbracketclass previous (class_body (tl q) ep) \<or> \<not> matchbracketclass current (class_body (tl q) ep)
                  then Inr (None, ms) else match src ms s ep))"
      using fr by (cases "classend (tl q)") (simp_all add: Let_def)
    show ?thesis unfolding Cons match.simps(2)
      by (intro mok_if mok_start_capture mok_end_capture bal cap dflt frontier q mok_simps(1)) simp_all
  qed
qed

text \<open>An item that stands for one character, without a repetition.\<close>

lemma match_single:
  assumes "c \<notin> {CHR ''('', CHR '')''}" "c = CHR ''%'' \<longrightarrow> q = [] \<or> hd q \<notin> {CHR ''b'', CHR ''f''} \<and> \<not> isdigit (uchar_nat (hd q))"
    and "c = CHR ''$'' \<longrightarrow> q \<noteq> []" "classend (c # q) = Inr ep" "ep = [] \<or> hd ep \<notin> {CHR ''?'', CHR ''*'', CHR ''+'', CHR ''-''}"
  shows "match src ms s (c # q) =
    (if s < length src \<and> singlematch (uchar_nat (src ! s)) (c # q) ep then match src ms (s + 1) ep else Inr (None, ms))"
  unfolding match.simps(2) assms(4) sum.case Let_def using assms(1,2,3,5) by (cases ep) auto

subsection \<open>Finding\<close>

text \<open>The loop of \<open>lmemfind\<close>: \<open>rest\<close> is what is left of the subject at the position \<open>s1\<close>, of which the first \<open>l1\<close> characters can start an
  occurrence; \<open>memchr\<close> gives the first of them that is the first character.\<close>

function memfind_loop :: "string \<Rightarrow> nat \<Rightarrow> nat \<Rightarrow> char \<Rightarrow> string \<Rightarrow> nat option" where
  "memfind_loop rest s1 l1 x xs =
     (let d = length (takeWhile (\<lambda>c. c \<noteq> x) (take l1 rest)) in
      if l1 > 0 \<and> d < length (take l1 rest) then
        (if take (length xs) (drop (d + 1) rest) = xs then Some (s1 + d)
         else memfind_loop (drop (d + 1) rest) (s1 + d + 1) (l1 - (d + 1)) x xs)
      else None)"
  by pat_completeness auto
termination by (relation "measure (\<lambda>(rest, s1, l1, x, xs). l1)") auto

declare memfind_loop.simps [simp del]

definition lmemfind :: "string \<Rightarrow> string \<Rightarrow> nat option" where
  "lmemfind s1 s2 = (case s2 of
     [] \<Rightarrow> Some 0
   | x # xs \<Rightarrow> if length s2 > length s1 then None else memfind_loop s1 0 (length s1 - length xs) x xs)"

datatype lval = LNil | LBool bool | LInt int | LStr string

definition push_onecapture :: "string \<Rightarrow> captures \<Rightarrow> nat \<Rightarrow> nat \<Rightarrow> nat \<Rightarrow> string + lval" where
  "push_onecapture src ms i s e =
     (if i \<ge> length ms then
        (if i = 0 then Inr (LStr (take (e - s) (drop s src))) else Inl ''invalid capture index'')
      else (let l = snd (ms ! i) in
        if l = CAP_UNFINISHED then Inl ''unfinished capture''
        else if l = CAP_POSITION then Inr (LInt (int (fst (ms ! i)) + 1))
        else Inr (LStr (take (nat l) (drop (fst (ms ! i)) src)))))"

text \<open>All captures, or the whole match when there are none and its start is given.\<close>

fun push_loop :: "string \<Rightarrow> captures \<Rightarrow> nat \<Rightarrow> nat \<Rightarrow> nat list \<Rightarrow> string + lval list" where
  "push_loop src ms s e [] = Inr []"
| "push_loop src ms s e (i # is) = (case push_onecapture src ms i s e of
     Inl er \<Rightarrow> Inl er
   | Inr v \<Rightarrow> (case push_loop src ms s e is of Inl er \<Rightarrow> Inl er | Inr vs \<Rightarrow> Inr (v # vs)))"

definition push_captures :: "string \<Rightarrow> captures \<Rightarrow> nat option \<Rightarrow> nat \<Rightarrow> string + lval list" where
  "push_captures src ms s e =
     (let nlevels = (if length ms = 0 \<and> s \<noteq> None then 1 else length ms)
      in push_loop src ms (case s of None \<Rightarrow> 0 | Some s \<Rightarrow> s) e [0..<nlevels])"

definition SPECIALS :: string where "SPECIALS = ''^$*+?.([%-''"

definition cstring :: "string \<Rightarrow> string" where
  "cstring p = takeWhile (\<lambda>c. c \<noteq> CHR 0x00) p"

text \<open>The loop over the starting positions.\<close>

function find_loop :: "string \<Rightarrow> string \<Rightarrow> bool \<Rightarrow> bool \<Rightarrow> nat \<Rightarrow> string + lval list" where
  "find_loop src p anchor fnd s1 = (case match src [] s1 p of
     Inl e \<Rightarrow> Inl e
   | Inr (Some res, ms) \<Rightarrow>
       if fnd then (case push_captures src ms None 0 of
           Inl e \<Rightarrow> Inl e
         | Inr vs \<Rightarrow> Inr (LInt (int s1 + 1) # LInt (int res) # vs))
       else push_captures src ms (Some s1) res
   | Inr (None, ms) \<Rightarrow> if s1 < length src \<and> \<not> anchor then find_loop src p anchor fnd (s1 + 1) else Inr [LNil])"
  by pat_completeness auto
termination by (relation "measure (\<lambda>(src, p, anchor, fnd, s1). length src - s1)") auto

declare find_loop.simps [simp del]

definition find_init :: "string \<Rightarrow> int option \<Rightarrow> nat" where
  "find_init s init = (let init = posrelat (case init of None \<Rightarrow> 1 | Some i \<Rightarrow> i) (length s) - 1 in
     if init < 0 then 0 else if nat init > length s then length s else nat init)"

definition str_find_aux :: "string \<Rightarrow> string \<Rightarrow> int option \<Rightarrow> bool \<Rightarrow> bool \<Rightarrow> string + lval list" where
  "str_find_aux s p init plain fnd = (let init = find_init s init in
     if fnd \<and> (plain \<or> list_all (\<lambda>c. c \<notin> set SPECIALS) (cstring p)) then
       (case lmemfind (drop init s) p of
          Some s2 \<Rightarrow> Inr [LInt (int (init + s2) + 1), LInt (int (init + s2 + length p))]
        | None \<Rightarrow> Inr [LNil])
     else
       (let p = cstring p; anchor = (p \<noteq> [] \<and> hd p = CHR ''^'')
        in find_loop s (if anchor then tl p else p) anchor fnd init))"

definition str_find :: "string \<Rightarrow> string \<Rightarrow> int option \<Rightarrow> bool \<Rightarrow> string + lval list" where
  "str_find s p init plain = str_find_aux s p init plain True"

definition str_match :: "string \<Rightarrow> string \<Rightarrow> int option \<Rightarrow> string + lval list" where
  "str_match s p init = str_find_aux s p init False False"

text \<open>One call of the iterator of \<open>gmatch\<close>: the values and the position from which the next call searches; \<open>None\<close> when there is no more match.\<close>

function gmatch_aux :: "string \<Rightarrow> string \<Rightarrow> nat \<Rightarrow> string + (lval list \<times> nat) option" where
  "gmatch_aux s p src =
     (if src \<le> length s then (case match s [] src p of
          Inl e \<Rightarrow> Inl e
        | Inr (Some e, ms) \<Rightarrow> (case push_captures s ms (Some src) e of
            Inl er \<Rightarrow> Inl er
          | Inr vs \<Rightarrow> Inr (Some (vs, if e = src then e + 1 else e)))
        | Inr (None, ms) \<Rightarrow> gmatch_aux s p (src + 1))
      else Inr None)"
  by pat_completeness auto
termination by (relation "measure (\<lambda>(s, p, src). Suc (length s) - src)") auto

declare gmatch_aux.simps [simp del]

subsection \<open>Substitution\<close>

text \<open>The third argument of \<open>gsub\<close>: a string, a function of the captures, or a table.\<close>

datatype repl = RString string | RFunction "lval list \<Rightarrow> string + lval" | RTable "lval \<Rightarrow> lval"

text \<open>What is added to the buffer: an escape at the end of the replacement reads its terminating NUL.\<close>

definition lval_text :: "lval \<Rightarrow> (int \<Rightarrow> string) \<Rightarrow> string option" where
  "lval_text v int_text = (case v of LStr t \<Rightarrow> Some t | LInt i \<Rightarrow> Some (int_text i) | _ \<Rightarrow> None)"

fun add_s :: "(int \<Rightarrow> string) \<Rightarrow> string \<Rightarrow> captures \<Rightarrow> nat \<Rightarrow> nat \<Rightarrow> string \<Rightarrow> string + string" where
  "add_s it src ms s e [] = Inr []"
| "add_s it src ms s e (x # news) =
     (if x \<noteq> CHR ''%'' then (case add_s it src ms s e news of Inl er \<Rightarrow> Inl er | Inr t \<Rightarrow> Inr (x # t))
      else (case news of
          [] \<Rightarrow> Inr [CHR 0x00]
        | y # news' \<Rightarrow>
           (case (if \<not> isdigit (uchar_nat y) then Inr (LStr [y])
                  else if y = CHR ''0'' then Inr (LStr (take (e - s) (drop s src)))
                  else push_onecapture src ms (uchar_nat y - 49) s e) of
              Inl er \<Rightarrow> Inl er
            | Inr v \<Rightarrow> (case add_s it src ms s e news' of
                Inl er \<Rightarrow> Inl er
              | Inr t \<Rightarrow> Inr (the (lval_text v it) @ t)))))"

definition add_value :: "(int \<Rightarrow> string) \<Rightarrow> string \<Rightarrow> captures \<Rightarrow> nat \<Rightarrow> nat \<Rightarrow> repl \<Rightarrow> string + string" where
  "add_value it src ms s e rp = (let
      finish = (\<lambda>v. if v = LNil \<or> v = LBool False then Inr (take (e - s) (drop s src))
        else (case lval_text v it of None \<Rightarrow> Inl ''invalid replacement value'' | Some t \<Rightarrow> Inr t))
    in case rp of
      RString news \<Rightarrow> add_s it src ms s e news
    | RFunction f \<Rightarrow> (case push_captures src ms (Some s) e of
        Inl er \<Rightarrow> Inl er
      | Inr vs \<Rightarrow> (case f vs of Inl er \<Rightarrow> Inl er | Inr v \<Rightarrow> finish v))
    | RTable t \<Rightarrow> (case push_onecapture src ms 0 s e of Inl er \<Rightarrow> Inl er | Inr v \<Rightarrow> finish (t v)))"

text \<open>The main loop of \<open>gsub\<close>, with the text written so far in \<open>b\<close>.\<close>

function gsub_loop :: "(int \<Rightarrow> string) \<Rightarrow> string \<Rightarrow> string \<Rightarrow> repl \<Rightarrow> bool \<Rightarrow> int \<Rightarrow> int \<Rightarrow> nat \<Rightarrow> string \<Rightarrow> string + (string \<times> int)" where
  "gsub_loop it s p rp anchor max_s n src b =
     (if n < max_s then
        (case match s [] src p of
           Inl er \<Rightarrow> Inl er
         | Inr (e, ms) \<Rightarrow>
            (case (case e of None \<Rightarrow> Inr b
                   | Some e \<Rightarrow> (case add_value it s ms src e rp of Inl er \<Rightarrow> Inl er | Inr t \<Rightarrow> Inr (b @ t))) of
               Inl er \<Rightarrow> Inl er
             | Inr b' \<Rightarrow>
                (let n' = (if e = None then n else n + 1) in
                 if (case e of None \<Rightarrow> False | Some e \<Rightarrow> e > src) then
                   (if anchor then Inr (b' @ drop (the e) s, n') else gsub_loop it s p rp anchor max_s n' (the e) b')
                 else if src < length s then
                   (if anchor then Inr (b' @ [s ! src] @ drop (src + 1) s, n')
                    else gsub_loop it s p rp anchor max_s n' (src + 1) (b' @ [s ! src]))
                 else Inr (b' @ drop src s, n'))))
      else Inr (b @ drop src s, n))"
  by pat_completeness auto
termination
proof (relation "measure (\<lambda>(it, s, p, rp, anchor, max_s, n, src, b). length s - src)", goal_cases)
  case (2 it s p rp anchor max_s n src b r e ms b' n')
  then obtain e' where e: "e = Some e'" "src < e'" by (auto split: option.splits)
  then have "e' \<le> max src (length s)" using 2 match_mok [of s "[]" src p] by auto
  with e show ?case by (auto simp: max_def split: if_splits)
qed auto

declare gsub_loop.simps [simp del]

definition str_gsub :: "(int \<Rightarrow> string) \<Rightarrow> string \<Rightarrow> string \<Rightarrow> repl \<Rightarrow> int option \<Rightarrow> string + (string \<times> int)" where
  "str_gsub it s p rp max_s = (let
     p = cstring p;
     max_s = (case max_s of None \<Rightarrow> int (length s) + 1 | Some m \<Rightarrow> m);
     anchor = (p \<noteq> [] \<and> hd p = CHR ''^'')
   in gsub_loop it s (if anchor then tl p else p) rp anchor max_s 0 0 [])"

end
