(* ===== verification/Lua_Strlib_Props.thy ===== *)
theory Lua_Strlib_Props
  imports Lua_Strlib Lua_Read
begin

text \<open>
  Properties of the string library: a match stays inside its subject, the plain search is the pattern search for patterns
  without special characters, \<open>gmatch\<close> makes progress, substitution of a match by itself changes nothing, and the call of \<open>gsub\<close> with which the
  solver strips separators removes exactly the characters that are not on a board.
\<close>

text \<open>C25: A match inside the subject ends inside it, not before it starts, and all captures lie in the part matched so far; a failed match leaves the captures as they were,
  whatever the pattern.\<close>

theorem match_in_subject:
  assumes "s \<le> length src" "caps_ok s ms"
  shows "case match src ms s p of
      Inl e \<Rightarrow> True
    | Inr (None, ms') \<Rightarrow> ms' = ms
    | Inr (Some e, ms') \<Rightarrow> s \<le> e \<and> e \<le> length src \<and> caps_ok e ms'"
  using match_mok [of src ms s p] assms by (auto simp: mok_def split: sum.splits option.splits)

theorem match_in_subject_witness:
  "match ''key=val'' [] 0 ''(%a+)=(%a*)'' = Inr (Some 7, [(0, 3), (4, 3)]) \<and> caps_ok 7 [(0, 3), (4, 3)]"
proof -
  have "match ''key=val'' [] 0 ''(%a+)=(%a*)'' = Inr (Some 7, [(0, 3), (4, 3)])" by code_simp
  with match_in_subject [of 0 "''key=val''" "[]" "''(%a+)=(%a*)''"] show ?thesis by (simp add: caps_ok_def)
qed

subsection \<open>Plain search\<close>

fun first_occ :: "string \<Rightarrow> string \<Rightarrow> nat option" where
  "first_occ s y = (if take (length y) s = y then Some 0 else (case s of [] \<Rightarrow> None | _ # t \<Rightarrow> map_option Suc (first_occ t y)))"

declare first_occ.simps [simp del]

lemma first_occ_skip:
  assumes "\<And>i. i < d \<Longrightarrow> take (length y) (drop i s) \<noteq> y" "d \<le> length s"
  shows "first_occ s y = map_option ((+) d) (first_occ (drop d s) y)"
  using assms
proof (induction d arbitrary: s)
  case (Suc d)
  from Suc.prems(2) obtain x t where s: "s = x # t" by (cases s) auto
  have "take (length y) s \<noteq> y" using Suc.prems(1) [of 0] by simp
  moreover have "first_occ t y = map_option ((+) d) (first_occ (drop d t) y)"
    using Suc.IH [of t] Suc.prems s by (metis Suc_le_mono Suc_less_eq drop_Suc_Cons length_Cons)
  ultimately show ?case using s by (simp add: first_occ.simps [of "x # t"] option.map_comp comp_def)
next
  case 0
  then show ?case by (cases "first_occ s y") simp_all
qed

lemma first_occ_short: "length s < length y \<Longrightarrow> first_occ s y = None"
proof (induction s)
  case (Cons x t)
  then show ?case by (subst first_occ.simps) auto
qed (subst first_occ.simps, auto)

lemma memfind_first_occ:
  assumes "l1 + length xs = length rest"
  shows "memfind_loop rest s1 l1 x xs = map_option ((+) s1) (first_occ rest (x # xs))"
  using assms
proof (induction rest s1 l1 x xs rule: memfind_loop.induct)
  case (1 rest s1 l1 x xs)
  define d where "d = length (takeWhile (\<lambda>c. c \<noteq> x) (take l1 rest))"
  have no: "take (length (x # xs)) (drop i rest) \<noteq> x # xs" if "i < d" for i
  proof -
    have "i < length (take l1 rest)" using that length_takeWhile_le [of "\<lambda>c. c \<noteq> x" "take l1 rest"] unfolding d_def by linarith
    moreover have "take l1 rest ! i \<noteq> x"
      using that nth_mem [of i "takeWhile (\<lambda>c. c \<noteq> x) (take l1 rest)"] set_takeWhileD takeWhile_nth
      unfolding d_def by metis
    ultimately have "i < length rest" "rest ! i \<noteq> x" by simp_all
    then show ?thesis by (simp flip: Cons_nth_drop_Suc)
  qed
  have dl: "d \<le> length (take l1 rest)" unfolding d_def by (rule length_takeWhile_le)
  show ?case
  proof (cases "d < length (take l1 rest)")
    case True
    then have d: "d < length rest" "d < l1" "rest ! d = x"
      using nth_length_takeWhile [of "\<lambda>c. c \<noteq> x" "take l1 rest"] unfolding d_def by simp_all
    then have dr: "drop d rest = x # drop (d + 1) rest" using Cons_nth_drop_Suc [of d rest] by simp
    have fo: "first_occ rest (x # xs) = map_option ((+) d) (first_occ (drop d rest) (x # xs))"
      using first_occ_skip [OF no] d by simp
    show ?thesis
    proof (cases "take (length xs) (drop (d + 1) rest) = xs")
      case hit: True
      then have "first_occ (drop d rest) (x # xs) = Some 0" by (subst first_occ.simps) (simp add: dr)
      then show ?thesis using fo hit True d by (subst memfind_loop.simps) (simp add: d_def [symmetric])
    next
      case miss: False
      then have f1: "first_occ (drop d rest) (x # xs) = map_option Suc (first_occ (drop (d + 1) rest) (x # xs))"
        by (subst first_occ.simps) (simp add: dr)
      have "memfind_loop rest s1 l1 x xs = memfind_loop (drop (d + 1) rest) (s1 + d + 1) (l1 - (d + 1)) x xs"
        using miss True d by (subst memfind_loop.simps) (simp add: d_def [symmetric])
      also have "\<dots> = map_option ((+) (s1 + d + 1)) (first_occ (drop (d + 1) rest) (x # xs))"
        using 1 d_def True miss d by (cases "first_occ (drop (d + 1) rest) (x # xs)") simp_all
      finally show ?thesis using fo f1 by (cases "first_occ (drop (d + 1) rest) (x # xs)") simp_all
    qed
  next
    case False
    then have d: "d = length (take l1 rest)" using dl by linarith
    then have "d \<le> length rest" "length (drop d rest) < length (x # xs)" using "1.prems" by simp_all
    then have "first_occ rest (x # xs) = None" using first_occ_skip [OF no] first_occ_short by simp
    then show ?thesis using False by (subst memfind_loop.simps) (auto simp: d_def [symmetric])
  qed
qed

lemma lmemfind_first_occ: "lmemfind s y = first_occ s y"
proof (cases y)
  case Nil
  then show ?thesis by (subst first_occ.simps) (simp add: lmemfind_def)
next
  case (Cons x xs)
  show ?thesis
  proof (cases "length y > length s")
    case True
    then show ?thesis using Cons by (simp add: lmemfind_def first_occ_short)
  next
    case False
    then have "length s - length xs + length xs = length s" using Cons by simp
    from memfind_first_occ [OF this, of 0 x] show ?thesis using Cons False
      by (cases "first_occ s y") (simp_all add: lmemfind_def)
  qed
qed

text \<open>Matching text without special characters.\<close>

definition plain_text :: "string \<Rightarrow> bool" where
  "plain_text p = list_all (\<lambda>c. c \<notin> set SPECIALS \<and> c \<noteq> CHR '')'' \<and> c \<noteq> CHR 0x00) p"

lemma plain_match:
  assumes "plain_text p" "s \<le> length src"
  shows "match src ms s p = Inr (if take (length p) (drop s src) = p then Some (s + length p) else None, ms)"
  using assms
proof (induction p arbitrary: s)
  case Nil
  then show ?case by (simp add: match.simps)
next
  case (Cons c q)
  from Cons.prems have c: "c \<notin> set SPECIALS" "c \<noteq> CHR '')''" and q: "plain_text q" by (simp_all add: plain_text_def)
  have x: "q = [] \<or> hd q \<notin> set SPECIALS" using q by (cases q) (simp_all add: plain_text_def)
  have ce: "classend (c # q) = Inr q" using c by (simp add: classend_def SPECIALS_def)
  have sm: "singlematch (uchar_nat a) (c # q) q \<longleftrightarrow> a = c" for a
    using c by (auto simp: singlematch_def SPECIALS_def) (metis char_of_uchar_nat)+
  have "match src ms s (c # q) = (if s < length src \<and> src ! s = c then match src ms (s + 1) q else Inr (None, ms))"
    using c x match_single [OF _ _ _ ce, of src ms s] unfolding sm SPECIALS_def by auto
  also have "\<dots> = Inr (if take (length (c # q)) (drop s src) = c # q then Some (s + length (c # q)) else None, ms)"
  proof (cases "s < length src")
    case True
    then have "drop s src = src ! s # drop (s + 1) src" by (simp add: Cons_nth_drop_Suc)
    with True show ?thesis using Cons.IH [OF q, of "s + 1"] by simp
  next
    case False
    then show ?thesis by simp
  qed
  finally show ?case .
qed

lemma find_loop_plain:
  assumes "plain_text p" "s1 \<le> length src"
  shows "find_loop src p False True s1 = (case first_occ (drop s1 src) p of
      Some d \<Rightarrow> Inr [LInt (int (s1 + d) + 1), LInt (int (s1 + d + length p))] | None \<Rightarrow> Inr [LNil])"
  using assms(2)
proof (induction "length src - s1" arbitrary: s1)
  case 0
  then have s1: "s1 = length src" by simp
  show ?case using plain_match [OF assms(1) 0(2), of "[]"] unfolding s1
    by (subst find_loop.simps) (simp add: first_occ.simps [of "[]"] push_captures_def)
next
  case (Suc n)
  then have d: "drop s1 src = src ! s1 # drop (s1 + 1) src" by (simp add: Cons_nth_drop_Suc)
  note m = plain_match [OF assms(1) Suc.prems, of "[]"]
  show ?case
  proof (cases "take (length p) (drop s1 src) = p")
    case True
    then show ?thesis using m by (subst find_loop.simps) (simp add: first_occ.simps [of "drop s1 src"] push_captures_def)
  next
    case False
    have l: "s1 < length src" using Suc.hyps(2) by simp
    have "find_loop src p False True s1 = find_loop src p False True (s1 + 1)"
      using m False l by (subst find_loop.simps) simp
    moreover have "find_loop src p False True (s1 + 1) = (case first_occ (drop (s1 + 1) src) p of
        Some d \<Rightarrow> Inr [LInt (int (s1 + 1 + d) + 1), LInt (int (s1 + 1 + d + length p))] | None \<Rightarrow> Inr [LNil])"
      by (rule Suc.hyps(1)) (use Suc.hyps(2) l in auto)
    moreover have "first_occ (drop s1 src) p = map_option Suc (first_occ (drop (s1 + 1) src) p)"
      using False by (subst first_occ.simps) (simp add: d)
    ultimately show ?thesis by (cases "first_occ (drop (s1 + 1) src) p") simp_all
  qed
qed

text \<open>For a pattern without special characters \<open>string.find\<close> searches with \<open>memchr\<close> and \<open>memcmp\<close> instead of the matcher, with the same result as
  the matcher: the leftmost occurrence from the given position on, or nil.\<close>

theorem str_find_plain:
  assumes "plain_text p"
  shows "str_find s p init plain = find_loop s p False True (find_init s init) \<and>
    str_find s p init plain = (case first_occ (drop (find_init s init) s) p of
      Some d \<Rightarrow> Inr [LInt (int (find_init s init + d) + 1), LInt (int (find_init s init + d + length p))] | None \<Rightarrow> Inr [LNil])"
proof -
  have "cstring p = p" using assms by (auto simp: cstring_def plain_text_def list_all_iff intro: takeWhile_eq_all_conv [THEN iffD2])
  moreover have "list_all (\<lambda>c. c \<notin> set SPECIALS) p" using assms by (auto simp: plain_text_def list_all_iff)
  moreover have "find_init s init \<le> length s" by (auto simp: find_init_def Let_def)
  ultimately show ?thesis
    using find_loop_plain [OF assms] by (simp add: str_find_def str_find_aux_def lmemfind_first_occ Let_def)
qed

theorem str_find_plain_witness: "str_find ''banana'' ''ana'' (Some 3) False = Inr [LInt 4, LInt 6]"
proof -
  have "plain_text ''ana''" by code_simp
  from str_find_plain [OF this, of "''banana''" "Some 3" False] have "str_find ''banana'' ''ana'' (Some 3) False =
      find_loop ''banana'' ''ana'' False True (find_init ''banana'' (Some 3))" by blast
  also have "\<dots> = Inr [LInt 4, LInt 6]" by code_simp
  finally show ?thesis .
qed

subsection \<open>Iteration and substitution\<close>

text \<open>The iterator of \<open>string.gmatch\<close> always continues behind where it was, also after an empty match, and not beyond the end of the subject: it returns
  at most one more match than the subject has characters.\<close>

theorem gmatch_progress:
  assumes "gmatch_aux s p src = Inr (Some (vs, t))"
  shows "src < t \<and> t \<le> length s + 1"
  using assms
proof (induction s p src rule: gmatch_aux.induct)
  case (1 s p src)
  have src: "src \<le> length s" using "1.prems" by (subst (asm) gmatch_aux.simps) (auto split: if_splits)
  show ?case
  proof (cases "match s [] src p")
    case (Inl e)
    then show ?thesis using "1.prems" src by (subst (asm) gmatch_aux.simps) simp
  next
    case (Inr r)
    obtain e ms where r: "r = (e, ms)" by (cases r)
    show ?thesis
    proof (cases e)
      case None
      then have "gmatch_aux s p (src + 1) = Inr (Some (vs, t))" using "1.prems" src Inr r
        by (subst (asm) gmatch_aux.simps) simp
      from "1.IH" [OF src Inr r [symmetric] None this] show ?thesis by simp
    next
      case (Some e')
      have "src \<le> e' \<and> e' \<le> max src (length s)" using match_mok [of s "[]" src p] Inr r Some by simp
      moreover have "t = (if e' = src then e' + 1 else e')" using "1.prems" src Inr r Some
        by (subst (asm) gmatch_aux.simps) (auto split: sum.splits)
      ultimately show ?thesis using src by auto
    qed
  qed
qed

theorem gmatch_progress_witness: "gmatch_aux ''ab'' ''x*'' 1 = Inr (Some ([LStr []], 2)) \<and> (1 :: nat) < 2"
proof -
  have "gmatch_aux ''ab'' ''x*'' 1 = Inr (Some ([LStr []], 2))" by code_simp
  with gmatch_progress [OF this] show ?thesis by simp
qed

lemma take_drop_split: "src \<le> e \<Longrightarrow> take src s @ take (e - src) (drop src s) = take e s"
  by (metis le_add_diff_inverse take_add)

lemma gsub_loop_same:
  assumes "gsub_loop it s p (RString ''%0'') anchor max_s n src b = Inr (t, m)" "src \<le> length s" "b = take src s"
  shows "t = s"
  using assms
proof (induction it s p "RString ''%0''" anchor max_s n src b rule: gsub_loop.induct)
  case (1 it s p anchor max_s n src b)
  show ?case
  proof (cases "n < max_s")
    case False
    then show ?thesis using "1.prems" by (subst (asm) gsub_loop.simps) simp
  next
    case n: True
    show ?thesis
    proof (cases "match s [] src p")
      case (Inl e)
      then show ?thesis using "1.prems" n by (subst (asm) gsub_loop.simps) simp
    next
      case (Inr r)
      obtain e ms where r: "r = (e, ms)" by (cases r)
      have e: "src \<le> e' \<and> e' \<le> length s" if "e = Some e'" for e'
        using match_mok [of s "[]" src p] Inr r that "1.prems"(2) by auto
      have av: "add_value it s ms src e' (RString ''%0'') = Inr (take (e' - src) (drop src s))" for e'
        by (simp add: add_value_def isdigit_def uchar_nat_def lval_text_def)
      define b' where "b' = (case e of None \<Rightarrow> b | Some e' \<Rightarrow> b @ take (e' - src) (drop src s))"
      have step: "(case e of None \<Rightarrow> Inr b
          | Some e \<Rightarrow> (case add_value it s ms src e (RString ''%0'') of Inl er \<Rightarrow> Inl er | Inr t \<Rightarrow> Inr (b @ t))) = Inr b'"
        by (cases e) (simp_all add: av b'_def)
      define n' where "n' = (if e = None then n else n + 1)"
      have g: "gsub_loop it s p (RString ''%0'') anchor max_s n src b =
         (if (case e of None \<Rightarrow> False | Some e \<Rightarrow> e > src) then
            (if anchor then Inr (b' @ drop (the e) s, n') else gsub_loop it s p (RString ''%0'') anchor max_s n' (the e) b')
          else if src < length s then
            (if anchor then Inr (b' @ [s ! src] @ drop (src + 1) s, n')
             else gsub_loop it s p (RString ''%0'') anchor max_s n' (src + 1) (b' @ [s ! src]))
          else Inr (b' @ drop src s, n'))"
        unfolding gsub_loop.simps [of it s p _ anchor max_s n src b] Inr r sum.case prod.case step n'_def Let_def using n by simp
      note IH = "1.hyps" [OF n Inr r [symmetric] step n'_def]
      show ?thesis
      proof (cases "case e of None \<Rightarrow> False | Some e \<Rightarrow> e > src")
        case adv: True
        then obtain e' where e': "e = Some e'" "src < e'" "e' \<le> length s" using e by (auto split: option.splits)
        then have b': "b' = take e' s" using "1.prems"(3) take_drop_split [of src e' s] by (simp add: b'_def)
        show ?thesis
        proof (cases anchor)
          case True
          then show ?thesis using "1.prems"(1) adv e' b' unfolding g by simp
        next
          case False
          then show ?thesis using IH(1) [OF adv False] "1.prems"(1) adv e' b' unfolding g by simp
        qed
      next
        case stay: False
        then have b': "b' = take src s" using e "1.prems"(3) by (fastforce simp: b'_def split: option.splits)
        have "take src s @ [s ! src] = take (src + 1) s" if "src < length s" using that by (simp add: take_Suc_conv_app_nth)
        then show ?thesis using IH(2) [OF stay] "1.prems"(1,2) stay b' unfolding g
          by (cases anchor; cases "src < length s") (auto simp: Cons_nth_drop_Suc)
      qed
    qed
  qed
qed

text \<open>Substituting every match by itself gives the subject back, whatever the pattern, the limit on the number of substitutions and the anchor.\<close>

theorem gsub_identity:
  assumes "str_gsub it s p (RString ''%0'') max_s = Inr (t, n)"
  shows "t = s"
  using assms gsub_loop_same unfolding str_gsub_def Let_def by (metis le0 take0)

theorem gsub_identity_witness: "str_gsub (\<lambda>_. []) ''a.b'' ''(%a)'' (RString ''%0'') None = Inr (''a.b'', 2)"
proof -
  have r: "str_gsub (\<lambda>_. []) ''a.b'' ''(%a)'' (RString ''%0'') None = Inr (''a.b'', 2)" by code_simp
  from gsub_identity [OF r] r show ?thesis by simp
qed

subsection \<open>Stripping separators\<close>

lemma singlematch_separator: "singlematch (uchar_nat c) ''[^.1-9]'' [] \<longleftrightarrow> \<not> board_char c"
proof -
  have "singlematch n ''[^.1-9]'' [] \<longleftrightarrow> \<not> (46 = n \<or> 49 \<le> n \<and> n \<le> 57)" for n
    by (simp add: singlematch_def class_body_def matchbracketclass_def uchar_nat_def)
  note cls = this [of "uchar_nat c"]
  have "uchar_nat CHR ''.'' = 46" by (simp add: uchar_nat_def)
  then have dot: "c = CHR ''.'' \<longleftrightarrow> 46 = uchar_nat c" by (metis char_of_uchar_nat)
  have "48 < uchar_nat c \<and> uchar_nat c < 58 \<longleftrightarrow> 49 \<le> uchar_nat c \<and> uchar_nat c \<le> 57" by linarith
  then show ?thesis unfolding cls board_char_def dot by (rule arg_cong [where f = "\<lambda>x. \<not> (_ \<or> x)", OF sym])
qed

lemma match_separator:
  "match s [] src ''[^.1-9]'' = Inr (if src < length s \<and> \<not> board_char (s ! src) then Some (src + 1) else None, [])"
proof -
  have "classend ''[^.1-9]'' = Inr []" by code_simp
  from match_single [OF _ _ _ this, of s "[]" src] show ?thesis
    by (simp add: singlematch_separator match.simps(1))
qed

lemma gsub_loop_separator:
  assumes "n \<le> int src" "src \<le> length s"
  shows "gsub_loop it s ''[^.1-9]'' (RString []) False (int (length s) + 1) n src b =
    Inr (b @ filter board_char (drop src s), n + int (length (filter (\<lambda>c. \<not> board_char c) (drop src s))))"
  using assms
proof (induction "length s - src" arbitrary: n src b)
  case 0
  then have src: "src = length s" by simp
  have "n < int (length s) + 1" using "0.prems"(1) src by simp
  moreover have "match s [] src ''[^.1-9]'' = Inr (None, [])" using match_separator [of s src] src by simp
  ultimately show ?case using src by (subst gsub_loop.simps) (simp add: Let_def)
next
  case (Suc k)
  then have l: "src < length s" and n: "n < int (length s) + 1" by simp_all
  then have d: "drop src s = s ! src # drop (src + 1) s" by (simp add: Cons_nth_drop_Suc)
  have IH: "gsub_loop it s ''[^.1-9]'' (RString []) False (int (length s) + 1) n' (src + 1) b' =
    Inr (b' @ filter board_char (drop (src + 1) s), n' + int (length (filter (\<lambda>c. \<not> board_char c) (drop (src + 1) s))))"
    if "n' \<le> int (src + 1)" for n' b' by (rule Suc.hyps(1)) (use Suc.hyps(2) l that in auto)
  show ?case
  proof (cases "board_char (s ! src)")
    case True
    then show ?thesis using match_separator [of s src] l n IH [of n "b @ [s ! src]"] Suc.prems d
      by (subst gsub_loop.simps) (simp add: Let_def)
  next
    case False
    then show ?thesis using match_separator [of s src] l n IH [of "n + 1" b] Suc.prems d
      by (subst gsub_loop.simps) (simp add: Let_def add_value_def)
  qed
qed

text \<open>The call \<open>s:gsub("[^.1-9]", "")\<close> with which the solver removes separators from the text of a board gives exactly what the model of the script
  takes it to give, and the number of characters removed.\<close>

theorem gsub_strips_separators:
  "str_gsub it s ''[^.1-9]'' (RString []) None = Inr (strip_string s, int (length s) - int (length (strip_string s)))"
proof -
  have "cstring ''[^.1-9]'' = ''[^.1-9]''" by code_simp
  then have "str_gsub it s ''[^.1-9]'' (RString []) None = Inr (filter board_char s, int (length (filter (\<lambda>c. \<not> board_char c) s)))"
    using gsub_loop_separator [of 0 0 s it "[]"] by (simp add: str_gsub_def Let_def)
  moreover have "int (length (filter (\<lambda>c. \<not> board_char c) s)) = int (length s) - int (length (filter board_char s))"
    using sum_length_filter_compl [of board_char s] by linarith
  ultimately show ?thesis by (simp add: strip_string_filter)
qed

end
