(* ===== verification/Lua_Tablib.thy ===== *)
theory Lua_Tablib
  imports Lua_Strlib
begin

text \<open>
  \<^verbatim>\<open>src/src/ltablib.c\<close>: the functions of the table library that work on the integer keys of a table.  The contents of a table are a function from integer keys to
  values, with \<open>None\<close> for nil; the length that \<open>luaL_getn\<close> gives is an argument.  The quicksort works on any contents and any comparison function that
  returns; a bad comparison function can make it loop, so that the recursion has fuel, and the theorem on sorting shows that the length of the range is
  enough fuel for an order.
\<close>

type_synonym 'v contents = "int \<Rightarrow> 'v option"

subsection \<open>Insertion and removal\<close>

text \<open>The loop of \<open>tinsert\<close> that moves elements up, from \<open>i\<close> down to \<open>pos + 1\<close>.\<close>

function move_up :: "'v contents \<Rightarrow> int \<Rightarrow> int \<Rightarrow> 'v contents" where
  "move_up t i pos = (if i > pos then move_up (t(i := t (i - 1))) (i - 1) pos else t)"
  by pat_completeness auto
termination by (relation "measure (\<lambda>(t, i, pos). nat (i - pos))") auto

declare move_up.simps [simp del]

text \<open>\<open>n\<close> is the length of the table, \<open>args\<close> the arguments after the table: the value, or the position and the value.\<close>

datatype 'v insert_args = AtEnd "'v option" | AtPos int "'v option" | BadArgs

definition tinsert :: "'v contents \<Rightarrow> int \<Rightarrow> 'v insert_args \<Rightarrow> string + 'v contents" where
  "tinsert t n args = (let e = n + 1 in case args of
     AtEnd v \<Rightarrow> Inr (t(e := v))
   | AtPos pos v \<Rightarrow> (let e = (if pos > e then pos else e); t = move_up t e pos in Inr (t(pos := v)))
   | BadArgs \<Rightarrow> Inl (''wrong number of arguments to '' @ LUA_QL ''insert''))"

function move_down :: "'v contents \<Rightarrow> int \<Rightarrow> int \<Rightarrow> 'v contents" where
  "move_down t pos e = (if pos < e then move_down (t(pos := t (pos + 1))) (pos + 1) e else t)"
  by pat_completeness auto
termination by (relation "measure (\<lambda>(t, pos, e). nat (e - pos))") auto

declare move_down.simps [simp del]

text \<open>The result is \<open>None\<close> when nothing is returned.\<close>

definition tremove :: "'v contents \<Rightarrow> int \<Rightarrow> int option \<Rightarrow> 'v option option \<times> 'v contents" where
  "tremove t n arg = (let e = n; pos = (case arg of None \<Rightarrow> e | Some pos \<Rightarrow> pos) in
     if \<not> (1 \<le> pos \<and> pos \<le> e) then (None, t)
     else (Some (t pos), (move_down t pos e)(e := None)))"

subsection \<open>Concatenation and iteration\<close>

definition addfield :: "(int \<Rightarrow> string) \<Rightarrow> lval contents \<Rightarrow> int \<Rightarrow> string + string" where
  "addfield it t i = (case t i of
     Some (LStr s) \<Rightarrow> Inr s
   | Some (LInt k) \<Rightarrow> Inr (it k)
   | _ \<Rightarrow> Inl (''invalid value at index '' @ it i @ '' in table for '' @ LUA_QL ''concat''))"

function tconcat_loop :: "(int \<Rightarrow> string) \<Rightarrow> lval contents \<Rightarrow> string \<Rightarrow> int \<Rightarrow> int \<Rightarrow> string + string" where
  "tconcat_loop it t sep i last' =
     (if i < last' then (case addfield it t i of
          Inl e \<Rightarrow> Inl e
        | Inr s \<Rightarrow> (case tconcat_loop it t sep (i + 1) last' of Inl e \<Rightarrow> Inl e | Inr r \<Rightarrow> Inr (s @ sep @ r)))
      else if i = last' then addfield it t i
      else Inr [])"
  by pat_completeness auto
termination by (relation "measure (\<lambda>(it, t, sep, i, last'). nat (last' - i))") auto

declare tconcat_loop.simps [simp del]

definition tconcat :: "(int \<Rightarrow> string) \<Rightarrow> lval contents \<Rightarrow> int \<Rightarrow> string option \<Rightarrow> int option \<Rightarrow> int option \<Rightarrow> string + string" where
  "tconcat it t n sep i last' =
     tconcat_loop it t (case sep of None \<Rightarrow> [] | Some s \<Rightarrow> s) (case i of None \<Rightarrow> 1 | Some i \<Rightarrow> i) (case last' of None \<Rightarrow> n | Some k \<Rightarrow> k)"

text \<open>\<open>foreachi\<close> calls a function with each index and value until it returns something other than nil; the function has a state.\<close>

function foreachi_loop :: "('s \<Rightarrow> int \<Rightarrow> 'v option \<Rightarrow> 'r option \<times> 's) \<Rightarrow> 'v contents \<Rightarrow> int \<Rightarrow> int \<Rightarrow> 's \<Rightarrow> 'r option \<times> 's" where
  "foreachi_loop f t i n s =
     (if i \<le> n then (case f s i (t i) of (Some r, s) \<Rightarrow> (Some r, s) | (None, s) \<Rightarrow> foreachi_loop f t (i + 1) n s)
      else (None, s))"
  by pat_completeness auto
termination by (relation "measure (\<lambda>(f, t, i, n, s). nat (n + 1 - i))") auto

declare foreachi_loop.simps [simp del]

definition foreachi :: "('s \<Rightarrow> int \<Rightarrow> 'v option \<Rightarrow> 'r option \<times> 's) \<Rightarrow> 'v contents \<Rightarrow> int \<Rightarrow> 's \<Rightarrow> 'r option \<times> 's" where
  "foreachi f t n s = foreachi_loop f t 1 n s"

subsection \<open>Quicksort\<close>

text \<open>\<open>set2 i j\<close> after pushing \<open>a[i]\<close> and \<open>a[j]\<close> exchanges the two elements.\<close>

definition set2 :: "(int \<Rightarrow> 'a) \<Rightarrow> int \<Rightarrow> int \<Rightarrow> int \<Rightarrow> 'a" where
  "set2 a i j = a(i := a j, j := a i)"

definition bad_order :: string where "bad_order = ''invalid order function for sorting''"

text \<open>The two inner loops: they return the index at which they stop.\<close>

function scan_up :: "('a \<Rightarrow> 'a \<Rightarrow> bool) \<Rightarrow> (int \<Rightarrow> 'a) \<Rightarrow> 'a \<Rightarrow> int \<Rightarrow> int \<Rightarrow> string + int" where
  "scan_up lt a P u i = (let i = i + 1 in
     if lt (a i) P then (if i > u then Inl bad_order else scan_up lt a P u i) else Inr i)"
  by pat_completeness auto
termination by (relation "measure (\<lambda>(lt, a, P, u, i). nat (u + 1 - i))") auto

function scan_down :: "('a \<Rightarrow> 'a \<Rightarrow> bool) \<Rightarrow> (int \<Rightarrow> 'a) \<Rightarrow> 'a \<Rightarrow> int \<Rightarrow> int \<Rightarrow> string + int" where
  "scan_down lt a P l j = (let j = j - 1 in
     if lt P (a j) then (if j < l then Inl bad_order else scan_down lt a P l j) else Inr j)"
  by pat_completeness auto
termination by (relation "measure (\<lambda>(lt, a, P, l, j). nat (j + 1 - l))") auto

declare scan_up.simps [simp del] scan_down.simps [simp del]

lemma scan_up_above: "scan_up lt a P u i = Inr k \<Longrightarrow> i < k"
  by (induction lt a P u i rule: scan_up.induct) (subst (asm) scan_up.simps, force simp: Let_def split: if_splits)

lemma scan_down_below: "scan_down lt a P l j = Inr k \<Longrightarrow> k < j"
  by (induction lt a P l j rule: scan_down.induct) (subst (asm) scan_down.simps, force simp: Let_def split: if_splits)

text \<open>The partition loop: the elements and the index \<open>i\<close> when it ends.\<close>

function partition_loop :: "('a \<Rightarrow> 'a \<Rightarrow> bool) \<Rightarrow> 'a \<Rightarrow> int \<Rightarrow> int \<Rightarrow> (int \<Rightarrow> 'a) \<Rightarrow> int \<Rightarrow> int \<Rightarrow> string + (int \<Rightarrow> 'a) \<times> int" where
  "partition_loop lt P l u a i j = (case scan_up lt a P u i of
     Inl e \<Rightarrow> Inl e
   | Inr i' \<Rightarrow> (case scan_down lt a P l j of
       Inl e \<Rightarrow> Inl e
     | Inr j' \<Rightarrow> if j' < i' then Inr (a, i') else partition_loop lt P l u (set2 a i' j') i' j'))"
  by pat_completeness auto
termination
  by (relation "measure (\<lambda>(lt, P, l, u, a, i, j). nat (j - i))") (auto dest!: scan_up_above scan_down_below)

declare partition_loop.simps [simp del]

text \<open>The median of three, with which each pass starts, for a range of at least two elements.\<close>

definition sort_ends :: "('a \<Rightarrow> 'a \<Rightarrow> bool) \<Rightarrow> (int \<Rightarrow> 'a) \<Rightarrow> int \<Rightarrow> int \<Rightarrow> int \<Rightarrow> 'a" where
  "sort_ends lt a l u = (if lt (a u) (a l) then set2 a l u else a)"

definition sort_middle :: "('a \<Rightarrow> 'a \<Rightarrow> bool) \<Rightarrow> (int \<Rightarrow> 'a) \<Rightarrow> int \<Rightarrow> int \<Rightarrow> int \<Rightarrow> int \<Rightarrow> 'a" where
  "sort_middle lt a l i u =
     (if lt (a i) (a l) then set2 a i l else if lt (a u) (a i) then set2 a i u else a)"

text \<open>The outer loop; \<open>None\<close> when the fuel runs out.\<close>

fun auxsort :: "nat \<Rightarrow> ('a \<Rightarrow> 'a \<Rightarrow> bool) \<Rightarrow> (int \<Rightarrow> 'a) \<Rightarrow> int \<Rightarrow> int \<Rightarrow> (string + (int \<Rightarrow> 'a)) option" where
  "auxsort 0 lt a l u = None"
| "auxsort (Suc fuel) lt a l u =
     (if l < u then
        (let a = sort_ends lt a l u in
         if u - l = 1 then Some (Inr a)
         else (let i = (l + u) div 2; a = sort_middle lt a l i u in
           if u - l = 2 then Some (Inr a)
           else (let P = a i; a = set2 a i (u - 1) in
             case partition_loop lt P l u a l (u - 1) of
               Inl e \<Rightarrow> Some (Inl e)
             | Inr (a, i) \<Rightarrow>
                (let a = set2 a (u - 1) i in
                 if i - l < u - i then
                   (case auxsort fuel lt a l (i - 1) of
                      Some (Inr a) \<Rightarrow> auxsort fuel lt a (i + 1) u
                    | r \<Rightarrow> r)
                 else
                   (case auxsort fuel lt a (i + 1) u of
                      Some (Inr a) \<Rightarrow> auxsort fuel lt a l (i - 1)
                    | r \<Rightarrow> r)))))
      else Some (Inr a))"

definition tsort :: "nat \<Rightarrow> ('a \<Rightarrow> 'a \<Rightarrow> bool) \<Rightarrow> (int \<Rightarrow> 'a) \<Rightarrow> int \<Rightarrow> (string + (int \<Rightarrow> 'a)) option" where
  "tsort fuel lt t n = auxsort fuel lt t 1 n"

subsection \<open>Rearrangements\<close>

text \<open>\<open>b\<close> is \<open>a\<close> with the elements at the positions \<open>l\<close> to \<open>u\<close> rearranged.\<close>

definition rearranged :: "int \<Rightarrow> int \<Rightarrow> (int \<Rightarrow> 'a) \<Rightarrow> (int \<Rightarrow> 'a) \<Rightarrow> bool" where
  "rearranged l u a b \<longleftrightarrow> (\<exists>f. bij f \<and> (\<forall>k. k \<notin> {l..u} \<longrightarrow> f k = k) \<and> b = a \<circ> f)"

lemma rearranged_refl: "rearranged l u a a"
  unfolding rearranged_def by (rule exI [of _ id]) auto

lemma rearranged_trans:
  assumes "rearranged l u a b" "rearranged l u b c"
  shows "rearranged l u a c"
proof -
  from assms obtain f g where "bij f" "\<forall>k. k \<notin> {l..u} \<longrightarrow> f k = k" "b = a \<circ> f" "bij g" "\<forall>k. k \<notin> {l..u} \<longrightarrow> g k = k" "c = b \<circ> g"
    by (auto simp: rearranged_def)
  then show ?thesis unfolding rearranged_def by (intro exI [of _ "f \<circ> g"]) (auto simp: bij_comp comp_assoc)
qed

lemma rearranged_wider: "rearranged l u a b \<Longrightarrow> l' \<le> l \<Longrightarrow> u \<le> u' \<Longrightarrow> rearranged l' u' a b"
  unfolding rearranged_def by (metis atLeastAtMost_iff order_trans)

lemma rearranged_set2:
  assumes "i \<in> {l..u}" "j \<in> {l..u}"
  shows "rearranged l u a (set2 a i j)"
proof -
  define f where "f = (id :: int \<Rightarrow> int)(i := j, j := i)"
  have "f \<circ> f = id" by (auto simp: f_def fun_eq_iff)
  then have "bij f" using o_bij by blast
  moreover have "set2 a i j = a \<circ> f" by (auto simp: set2_def f_def fun_eq_iff)
  moreover have "\<forall>k. k \<notin> {l..u} \<longrightarrow> f k = k" using assms by (auto simp: f_def)
  ultimately show ?thesis unfolding rearranged_def by blast
qed

lemma rearranged_outside: "rearranged l u a b \<Longrightarrow> k \<notin> {l..u} \<Longrightarrow> b k = a k"
  by (auto simp: rearranged_def)

lemma rearranged_inside: "rearranged l u a b \<Longrightarrow> k \<in> {l..u} \<Longrightarrow> \<exists>k'\<in>{l..u}. b k = a k'"
proof -
  assume "rearranged l u a b" and k: "k \<in> {l..u}"
  then obtain f where f: "bij f" "\<forall>k. k \<notin> {l..u} \<longrightarrow> f k = k" "b = a \<circ> f" by (auto simp: rearranged_def)
  have "f k \<in> {l..u}" using f(1,2) k by (metis bij_pointE)
  with f(3) show ?thesis by auto
qed

lemma rearranged_all: "rearranged l u a b \<Longrightarrow> \<forall>k\<in>{l..u}. Q (a k) \<Longrightarrow> \<forall>k\<in>{l..u}. Q (b k)"
  using rearranged_inside by metis

lemma set2_simps [simp]: "set2 a i j i = a j" "set2 a i j j = a i" "k \<noteq> i \<Longrightarrow> k \<noteq> j \<Longrightarrow> set2 a i j k = a k"
  by (simp_all add: set2_def)

subsection \<open>Sorting with an order\<close>

text \<open>What \<open>table.sort\<close> needs of the comparison function: a strict weak order.\<close>

locale sort_order =
  fixes lt :: "'a \<Rightarrow> 'a \<Rightarrow> bool"
  assumes asym: "lt x y \<Longrightarrow> \<not> lt y x"
    and negtrans: "\<not> lt x y \<Longrightarrow> \<not> lt y z \<Longrightarrow> \<not> lt x z"
begin

lemma irrefl: "\<not> lt x x"
  using asym by blast

definition sorted_range :: "int \<Rightarrow> int \<Rightarrow> (int \<Rightarrow> 'a) \<Rightarrow> bool" where
  "sorted_range l u a \<longleftrightarrow> (\<forall>i j. l \<le> i \<longrightarrow> i \<le> j \<longrightarrow> j \<le> u \<longrightarrow> \<not> lt (a j) (a i))"

lemma sorted_small: "u \<le> l \<Longrightarrow> sorted_range l u a"
  unfolding sorted_range_def using irrefl by (metis dual_order.antisym order_trans)

lemma scan_up_stops:
  assumes "i < k" "k \<le> u" "\<not> lt (a k) P"
  shows "\<exists>i'. scan_up lt a P u i = Inr i' \<and> i < i' \<and> i' \<le> k \<and> \<not> lt (a i') P \<and> (\<forall>m. i < m \<and> m < i' \<longrightarrow> lt (a m) P)"
  using assms(1)
proof (induction "nat (k - i)" arbitrary: i rule: less_induct)
  case less
  show ?case
  proof (cases "lt (a (i + 1)) P")
    case False
    then show ?thesis using less.prems by (subst scan_up.simps) (auto simp: Let_def)
  next
    case True
    then have k: "i + 1 < k" using assms(3) less.prems by (cases "i + 1 = k") auto
    then obtain i' where i': "scan_up lt a P u (i + 1) = Inr i'" "i + 1 < i'" "i' \<le> k" "\<not> lt (a i') P"
      "\<forall>m. i + 1 < m \<and> m < i' \<longrightarrow> lt (a m) P" using less.hyps [of "i + 1"] by auto
    have "scan_up lt a P u i = Inr i'" using True i'(1) k assms(2) by (subst scan_up.simps) (simp add: Let_def)
    moreover have "\<forall>m. i < m \<and> m < i' \<longrightarrow> lt (a m) P"
    proof (intro allI impI)
      fix m assume "i < m \<and> m < i'"
      then show "lt (a m) P" using True i'(5) by (cases "m = i + 1") auto
    qed
    ultimately show ?thesis using i' by auto
  qed
qed

lemma scan_down_stops:
  assumes "k < j" "l \<le> k" "\<not> lt P (a k)"
  shows "\<exists>j'. scan_down lt a P l j = Inr j' \<and> k \<le> j' \<and> j' < j \<and> \<not> lt P (a j') \<and> (\<forall>m. j' < m \<and> m < j \<longrightarrow> lt P (a m))"
  using assms(1)
proof (induction "nat (j - k)" arbitrary: j rule: less_induct)
  case less
  show ?case
  proof (cases "lt P (a (j - 1))")
    case False
    then show ?thesis using less.prems by (subst scan_down.simps) (auto simp: Let_def)
  next
    case True
    then have k: "k < j - 1" using assms(3) less.prems by (cases "j - 1 = k") auto
    then obtain j' where j': "scan_down lt a P l (j - 1) = Inr j'" "k \<le> j'" "j' < j - 1" "\<not> lt P (a j')"
      "\<forall>m. j' < m \<and> m < j - 1 \<longrightarrow> lt P (a m)" using less.hyps [of "j - 1"] by auto
    have "scan_down lt a P l j = Inr j'" using True j'(1) k assms(2) by (subst scan_down.simps) (simp add: Let_def)
    moreover have "\<forall>m. j' < m \<and> m < j \<longrightarrow> lt P (a m)"
    proof (intro allI impI)
      fix m assume "j' < m \<and> m < j"
      then show "lt P (a m)" using True j'(5) by (cases "m = j - 1") auto
    qed
    ultimately show ?thesis using j' by auto
  qed
qed

text \<open>The invariant of the partition loop, as its comment in the source states it.\<close>

definition part_inv :: "'a \<Rightarrow> int \<Rightarrow> int \<Rightarrow> (int \<Rightarrow> 'a) \<Rightarrow> int \<Rightarrow> int \<Rightarrow> bool" where
  "part_inv P l u a i j \<longleftrightarrow> l \<le> i \<and> i \<le> j \<and> j \<le> u - 1 \<and> (i < j \<or> l < i \<and> j < u - 1) \<and> a (u - 1) = P \<and>
     (\<forall>k\<in>{l..i}. \<not> lt P (a k)) \<and> (\<forall>k\<in>{j..u}. \<not> lt (a k) P)"

lemma partition_loop_correct:
  assumes "part_inv P l u a i j"
  shows "\<exists>b m. partition_loop lt P l u a i j = Inr (b, m) \<and> l < m \<and> m \<le> u - 1 \<and> rearranged (l + 1) (u - 2) a b \<and>
    b (u - 1) = P \<and> (\<forall>k\<in>{l..m - 1}. \<not> lt P (b k)) \<and> (\<forall>k\<in>{m..u}. \<not> lt (b k) P)"
  using assms
proof (induction "nat (j - i)" arbitrary: a i j rule: less_induct)
  case less
  note inv = less.prems [unfolded part_inv_def]
  obtain i' where i': "scan_up lt a P u i = Inr i'" "i < i'" "i' \<le> j + 1" "i' \<le> u - 1" "\<not> lt (a i') P" "\<forall>m. i < m \<and> m < i' \<longrightarrow> lt (a m) P"
  proof (cases "i < j")
    case True
    then show thesis using scan_up_stops [of i j u a P] inv that by fastforce
  next
    case False
    then have "i < j + 1" "j + 1 \<le> u" "\<not> lt (a (j + 1)) P" using inv by auto
    from scan_up_stops [of i "j + 1" u a P, OF this] show thesis using False inv that by fastforce
  qed
  obtain j' where j': "scan_down lt a P l j = Inr j'" "i - 1 \<le> j'" "l \<le> j'" "j' < j" "\<not> lt P (a j')" "\<forall>m. j' < m \<and> m < j \<longrightarrow> lt P (a m)"
  proof (cases "i < j")
    case True
    then show thesis using scan_down_stops [of i j l P a] inv that by fastforce
  next
    case False
    then have "i - 1 < j" "l \<le> i - 1" "\<not> lt P (a (i - 1))" using inv by auto
    from scan_down_stops [of "i - 1" j l P a, OF this] show thesis using that \<open>l \<le> i - 1\<close> by fastforce
  qed
  have low: "\<not> lt P (a k)" if "l \<le> k" "k < i'" for k
    using inv i'(6) that asym by (cases "k \<le> i") auto
  have high: "\<not> lt (a k) P" if "j' < k" "k \<le> u" for k
    using inv j'(6) that asym by (cases "j \<le> k") auto
  show ?case
  proof (cases "j' < i'")
    case True
    then have "partition_loop lt P l u a i j = Inr (a, i')" using i'(1) j'(1) by (subst partition_loop.simps) simp
    moreover have "\<forall>k\<in>{l..i' - 1}. \<not> lt P (a k)" using low by simp
    moreover have "\<forall>k\<in>{i'..u}. \<not> lt (a k) P" using high True by auto
    ultimately show ?thesis using i' inv rearranged_refl by fastforce
  next
    case False
    define b where "b = set2 a i' j'"
    have u: "j' \<le> u - 2" using j'(4) inv by linarith
    have e: "partition_loop lt P l u a i j = partition_loop lt P l u b i' j'"
      using False i'(1) j'(1) by (subst partition_loop.simps) (simp add: b_def)
    have bl: "\<not> lt P (b k)" if "k \<in> {l..i'}" for k
      using that low [of k] j'(5) False unfolding b_def by (cases "k = i'") auto
    have bh: "\<not> lt (b k) P" if "k \<in> {j'..u}" for k
      using that high [of k] i'(5) False unfolding b_def by (cases "k = j'"; cases "i' = j'") auto
    have "part_inv P l u b i' j'" unfolding part_inv_def
      using inv i' j' False u bl bh by (auto simp: b_def)
    moreover have "nat (j' - i') < nat (j - i)" using i'(2) j'(4) False by linarith
    ultimately obtain c m where c: "partition_loop lt P l u b i' j' = Inr (c, m)" "l < m" "m \<le> u - 1"
      "rearranged (l + 1) (u - 2) b c" "c (u - 1) = P" "\<forall>k\<in>{l..m - 1}. \<not> lt P (c k)" "\<forall>k\<in>{m..u}. \<not> lt (c k) P"
      using less.hyps by blast
    have "rearranged (l + 1) (u - 2) a b" unfolding b_def using i' u False inv by (intro rearranged_set2) auto
    with c(4) have "rearranged (l + 1) (u - 2) a c" by (rule rearranged_trans [rotated])
    with c e show ?thesis by auto
  qed
qed

text \<open>The result of sorting a range.\<close>

definition sorts :: "int \<Rightarrow> int \<Rightarrow> (int \<Rightarrow> 'a) \<Rightarrow> (string + (int \<Rightarrow> 'a)) option \<Rightarrow> bool" where
  "sorts l u a r \<longleftrightarrow> (\<exists>b. r = Some (Inr b) \<and> rearranged l u a b \<and> sorted_range l u b)"

lemma sort_ends_ok:
  assumes "l < u"
  shows "rearranged l u a (sort_ends lt a l u)" "\<not> lt (sort_ends lt a l u u) (sort_ends lt a l u l)"
  using assms asym by (auto simp: sort_ends_def intro: rearranged_set2 rearranged_refl)

lemma sort_middle_ok:
  assumes "l < i" "i < u" "\<not> lt (a u) (a l)"
  shows "rearranged l u a (sort_middle lt a l i u)"
    "\<not> lt (sort_middle lt a l i u i) (sort_middle lt a l i u l)" "\<not> lt (sort_middle lt a l i u u) (sort_middle lt a l i u i)"
proof -
  show "rearranged l u a (sort_middle lt a l i u)"
    using assms by (auto simp: sort_middle_def intro: rearranged_set2 rearranged_refl)
  have il: "lt (a i) (a l) \<Longrightarrow> \<not> lt (a l) (a i)" using asym by blast
  have ul: "lt (a i) (a l) \<Longrightarrow> \<not> lt (a u) (a i)" using negtrans [of "a u" "a l" "a i"] il assms(3) by blast
  show "\<not> lt (sort_middle lt a l i u i) (sort_middle lt a l i u l)" "\<not> lt (sort_middle lt a l i u u) (sort_middle lt a l i u i)"
    using assms il ul asym [of "a u" "a i"] by (auto simp: sort_middle_def)
qed

text \<open>Sorting both parts around a pivot sorts the range.\<close>

lemma sorted_join:
  assumes "sorted_range l (m - 1) c" "sorted_range (m + 1) u c" "c m = P"
    and low: "\<forall>k\<in>{l..m - 1}. \<not> lt P (c k)" and high: "\<forall>k\<in>{m + 1..u}. \<not> lt (c k) P"
  shows "sorted_range l u c"
  unfolding sorted_range_def
proof (intro allI impI)
  fix i j assume ij: "l \<le> i" "i \<le> j" "j \<le> u"
  consider "j \<le> m - 1" | "m + 1 \<le> i" | "i \<le> m" "m \<le> j" using ij by linarith
  then show "\<not> lt (c j) (c i)"
  proof cases
    case 3
    then have "\<not> lt (c j) P" "\<not> lt P (c i)" using low high assms(3) irrefl ij by (cases "j = m"; cases "i = m"; auto)+
    then show ?thesis by (rule negtrans)
  qed (use assms(1,2) ij in \<open>auto simp: sorted_range_def\<close>)
qed

lemma rearranged_keeps:
  "rearranged l u a b \<Longrightarrow> {l..u} \<inter> {l'..u'} = {} \<Longrightarrow> sorted_range l' u' b = sorted_range l' u' a"
  using rearranged_outside unfolding sorted_range_def
  by (smt (verit, ccfv_threshold) atLeastAtMost_iff disjoint_iff)

lemma sorts_parts:
  assumes a: "\<forall>k\<in>{l..m - 1}. \<not> lt P (a k)" "\<forall>k\<in>{m + 1..u}. \<not> lt (a k) P" "a m = P" and m: "l < m" "m < u"
    and c: "\<exists>b. (rearranged l (m - 1) a b \<and> sorted_range l (m - 1) b \<and> rearranged (m + 1) u b c \<and> sorted_range (m + 1) u c) \<or>
      (rearranged (m + 1) u a b \<and> sorted_range (m + 1) u b \<and> rearranged l (m - 1) b c \<and> sorted_range l (m - 1) c)"
  shows "rearranged l u a c \<and> sorted_range l u c"
proof -
  from c obtain b x y x' y' where b: "rearranged x y a b" "sorted_range x y b" "rearranged x' y' b c" "sorted_range x' y' c"
    and x: "(x, y, x', y') = (l, m - 1, m + 1, u) \<or> (x, y, x', y') = (m + 1, u, l, m - 1)" by blast
  have d: "{x'..y'} \<inter> {x..y} = {}" using x by auto
  have r: "rearranged l u a c" using rearranged_trans [OF rearranged_wider [OF b(1)] rearranged_wider [OF b(3)], of l u] x m by auto
  have "sorted_range x y c" using rearranged_keeps [OF b(3) d] b(2) by simp
  with b(4) x have s: "sorted_range l (m - 1) c" "sorted_range (m + 1) u c" by auto
  have cm: "c m = P" using rearranged_outside [OF b(1), of m] rearranged_outside [OF b(3), of m] x a(3) by auto
  have keep: "(\<forall>k\<in>{x..y}. Q (a k)) \<longrightarrow> (\<forall>k\<in>{x..y}. Q (c k))" "(\<forall>k\<in>{x'..y'}. Q (a k)) \<longrightarrow> (\<forall>k\<in>{x'..y'}. Q (c k))" for Q
    using rearranged_all [OF b(1), of Q] rearranged_all [OF b(3), of Q] rearranged_outside [OF b(1)] rearranged_outside [OF b(3)] d
    by (metis disjoint_iff)+
  have "\<forall>k\<in>{l..m - 1}. \<not> lt P (c k)" "\<forall>k\<in>{m + 1..u}. \<not> lt (c k) P"
    using x a(1,2) keep [of "\<lambda>v. \<not> lt P v"] keep [of "\<lambda>v. \<not> lt v P"] by auto
  with s cm r show ?thesis using sorted_join by blast
qed

text \<open>One pass: the pivot is in its place, smaller elements before it and larger ones after it.\<close>

lemma partition_pass:
  assumes "u - l > 2" "a1 = sort_ends lt a l u" "i = (l + u) div 2" "a2 = sort_middle lt a1 l i u" "a3 = set2 a2 i (u - 1)"
  shows "\<exists>b m. partition_loop lt (a2 i) l u a3 l (u - 1) = Inr (b, m) \<and> l < m \<and> m < u \<and> rearranged l u a (set2 b (u - 1) m) \<and>
    set2 b (u - 1) m m = a2 i \<and> (\<forall>k\<in>{l..m - 1}. \<not> lt (a2 i) (set2 b (u - 1) m k)) \<and> (\<forall>k\<in>{m + 1..u}. \<not> lt (set2 b (u - 1) m k) (a2 i))"
proof -
  have i: "l < i" "i < u" "i \<le> u - 1" "i \<noteq> u" "u - 1 \<noteq> l" using assms(1,3) by auto
  have e: "\<not> lt (a1 u) (a1 l)" "rearranged l u a a1" using sort_ends_ok [of l u a] assms(1,2) by auto
  note m = sort_middle_ok [OF i(1,2) e(1), folded assms(4)]
  have a3: "a3 l = a2 l" "a3 u = a2 u" "a3 (u - 1) = a2 i" using i by (simp_all add: assms(5))
  have "part_inv (a2 i) l u a3 l (u - 1)" unfolding part_inv_def
  proof (intro conjI ballI)
    fix k assume "k \<in> {u - 1..u}"
    then have "k = u - 1 \<or> k = u" by auto
    then show "\<not> lt (a3 k) (a2 i)" using a3 m(3) irrefl by auto
  qed (use a3 m(2) assms(1) in auto)
  from partition_loop_correct [OF this] obtain b m' where b: "partition_loop lt (a2 i) l u a3 l (u - 1) = Inr (b, m')" "l < m'" "m' \<le> u - 1"
    "rearranged (l + 1) (u - 2) a3 b" "b (u - 1) = a2 i" "\<forall>k\<in>{l..m' - 1}. \<not> lt (a2 i) (b k)" "\<forall>k\<in>{m'..u}. \<not> lt (b k) (a2 i)" by blast
  have "rearranged l u a a3"
    using rearranged_trans [OF rearranged_trans [OF e(2) m(1)] rearranged_set2 [of i l u "u - 1" a2]] i assms(1,5) by simp
  moreover have "rearranged l u b (set2 b (u - 1) m')" using b(2,3) assms(1) by (intro rearranged_set2) auto
  moreover have "rearranged l u a3 b" by (rule rearranged_wider [OF b(4)]) simp_all
  ultimately have "rearranged l u a (set2 b (u - 1) m')" using rearranged_trans by blast
  moreover have "\<not> lt (a2 i) (set2 b (u - 1) m' k)" if "k \<in> {l..m' - 1}" for k
    using that b(3,6) by (cases "k = u - 1") auto
  moreover have "\<not> lt (set2 b (u - 1) m' k) (a2 i)" if "k \<in> {m' + 1..u}" for k
    using that b(2,7) by (cases "k = u - 1") (auto simp: b(3))
  ultimately show ?thesis using b by auto
qed

lemma auxsort_correct: "nat (u - l) < fuel \<Longrightarrow> sorts l u a (auxsort fuel lt a l u)"
proof (induction fuel arbitrary: a l u)
  case (Suc fuel)
  define a1 where "a1 = sort_ends lt a l u"
  define i where "i = (l + u) div 2"
  define a2 where "a2 = sort_middle lt a1 l i u"
  define a3 where "a3 = set2 a2 i (u - 1)"
  consider (small) "u \<le> l" | (two) "u = l + 1" | (three) "u = l + 2" | (more) "u - l > 2" by linarith
  then show ?case
  proof cases
    case small
    with sorted_small [of u l a] show ?thesis by (simp add: sorts_def rearranged_refl)
  next
    case two
    then have "sorted_range l u a1" using sort_ends_ok [of l u a] irrefl unfolding a1_def sorted_range_def
      by (smt (verit))
    with two sort_ends_ok [of l u a] show ?thesis by (simp add: sorts_def a1_def Let_def)
  next
    case three
    then have i: "i = l + 1" by (simp add: i_def)
    have e: "\<not> lt (a1 u) (a1 l)" "rearranged l u a a1" using sort_ends_ok [of l u a] three by (auto simp: a1_def)
    have m: "rearranged l u a1 a2" "\<not> lt (a2 i) (a2 l)" "\<not> lt (a2 u) (a2 i)"
      using sort_middle_ok [of l i u a1] three i e(1) by (simp_all add: a2_def)
    have sr: "sorted_range l (i - 1) a2" "sorted_range (i + 1) u a2" using three i by (simp_all add: sorted_small)
    have r: "{l..i - 1} = {l}" "{i + 1..u} = {u}" using three i by auto
    have "\<forall>k\<in>{l..i - 1}. \<not> lt (a2 i) (a2 k)" "\<forall>k\<in>{i + 1..u}. \<not> lt (a2 k) (a2 i)" unfolding r using m(2,3) by blast+
    from sorted_join [OF sr refl this] have "sorted_range l u a2" .
    with rearranged_trans [OF e(2) m(1)] three show ?thesis by (simp add: sorts_def a1_def a2_def i_def Let_def)
  next
    case more
    from partition_pass [OF more a1_def i_def a2_def a3_def] obtain b m where b:
      "partition_loop lt (a2 i) l u a3 l (u - 1) = Inr (b, m)" "l < m" "m < u" "rearranged l u a (set2 b (u - 1) m)"
      "set2 b (u - 1) m m = a2 i" "\<forall>k\<in>{l..m - 1}. \<not> lt (a2 i) (set2 b (u - 1) m k)" "\<forall>k\<in>{m + 1..u}. \<not> lt (set2 b (u - 1) m k) (a2 i)"
      by blast
    define a4 where "a4 = set2 b (u - 1) m"
    have f: "nat (m - 1 - l) < fuel" "nat (u - (m + 1)) < fuel" using Suc.prems b(2,3) by linarith+
    have e: "auxsort (Suc fuel) lt a l u = (if m - l < u - m then
         (case auxsort fuel lt a4 l (m - 1) of Some (Inr c) \<Rightarrow> auxsort fuel lt c (m + 1) u | r \<Rightarrow> r)
       else (case auxsort fuel lt a4 (m + 1) u of Some (Inr c) \<Rightarrow> auxsort fuel lt c l (m - 1) | r \<Rightarrow> r))"
      using more b(1) by (simp add: a1_def [symmetric] i_def [symmetric] a2_def [symmetric] a3_def [symmetric] a4_def Let_def)
    have "\<exists>c d. auxsort (Suc fuel) lt a l u = Some (Inr d) \<and>
      ((rearranged l (m - 1) a4 c \<and> sorted_range l (m - 1) c \<and> rearranged (m + 1) u c d \<and> sorted_range (m + 1) u d) \<or>
       (rearranged (m + 1) u a4 c \<and> sorted_range (m + 1) u c \<and> rearranged l (m - 1) c d \<and> sorted_range l (m - 1) d))"
    proof (cases "m - l < u - m")
      case True
      obtain c where c: "auxsort fuel lt a4 l (m - 1) = Some (Inr c)" "rearranged l (m - 1) a4 c" "sorted_range l (m - 1) c"
        using Suc.IH [OF f(1), of a4] by (auto simp: sorts_def)
      obtain d where "auxsort fuel lt c (m + 1) u = Some (Inr d)" "rearranged (m + 1) u c d" "sorted_range (m + 1) u d"
        using Suc.IH [OF f(2), of c] by (auto simp: sorts_def)
      with c True show ?thesis unfolding e by auto
    next
      case False
      obtain c where c: "auxsort fuel lt a4 (m + 1) u = Some (Inr c)" "rearranged (m + 1) u a4 c" "sorted_range (m + 1) u c"
        using Suc.IH [OF f(2), of a4] by (auto simp: sorts_def)
      obtain d where "auxsort fuel lt c l (m - 1) = Some (Inr d)" "rearranged l (m - 1) c d" "sorted_range l (m - 1) d"
        using Suc.IH [OF f(1), of c] by (auto simp: sorts_def)
      with c False show ?thesis unfolding e by auto
    qed
    then obtain d where d: "auxsort (Suc fuel) lt a l u = Some (Inr d)" "rearranged l u a4 d \<and> sorted_range l u d"
      using sorts_parts [of l m "a2 i" a4 u] b(2,3,5-7) unfolding a4_def by blast
    with rearranged_trans [OF b(4)] show ?thesis by (simp add: sorts_def a4_def)
  qed
qed simp

end

subsection \<open>The order of strings\<close>

text \<open>\<open>strcoll\<close> in the C locale compares the characters up to a NUL as \<open>strcmp\<close> does; \<open>l_strcmp\<close> (\<^verbatim>\<open>src/src/lvm.c\<close>) goes on behind the NUL.\<close>

fun strcoll :: "string \<Rightarrow> string \<Rightarrow> int" where
  "strcoll [] [] = 0"
| "strcoll [] (y # ys) = - 1"
| "strcoll (x # xs) [] = 1"
| "strcoll (x # xs) (y # ys) = (if x = y then strcoll xs ys else if uchar_nat x < uchar_nat y then - 1 else 1)"

lemma cstring_le: "length (cstring l) \<le> length l"
  unfolding cstring_def by (rule length_takeWhile_le)

function l_strcmp :: "string \<Rightarrow> string \<Rightarrow> int" where
  "l_strcmp l r = (let temp = strcoll (cstring l) (cstring r) in
     if temp \<noteq> 0 then temp
     else (let len = length (cstring l) in
       if len = length r then (if len = length l then 0 else 1)
       else if len = length l then - 1
       else l_strcmp (drop (len + 1) l) (drop (len + 1) r)))"
  by pat_completeness auto
termination
proof (relation "measure (\<lambda>(l, r). length l)", goal_cases)
  case (2 l r temp len)
  then have "len < length l" using cstring_le [of l] by linarith
  then show ?case by simp
qed simp

declare l_strcmp.simps [simp del]

lemma strcoll_0: "strcoll l r = 0 \<longleftrightarrow> l = r"
  by (induction l r rule: strcoll.induct) auto

lemma strcoll_append: "strcoll (p @ l) (p @ r) = strcoll l r"
  by (induction p) auto

lemma strcoll_cstring: "strcoll (cstring l) (cstring r) \<noteq> 0 \<Longrightarrow> strcoll l r = strcoll (cstring l) (cstring r)"
proof (induction l r rule: strcoll.induct)
  case (4 x xs y ys)
  have "uchar_nat CHR 0x00 = 0" by (simp add: uchar_nat_def)
  then have "c \<noteq> CHR 0x00 \<Longrightarrow> 0 < uchar_nat c" for c by (metis char_of_uchar_nat neq0_conv)
  with 4 show ?case by (auto simp: cstring_def uchar_nat_def split: if_splits)
qed (auto simp: cstring_def split: if_splits)

text \<open>The order of all characters, NULs included.\<close>

lemma l_strcmp_strcoll: "l_strcmp l r = strcoll l r"
proof (induction l r rule: l_strcmp.induct)
  case (1 l r)
  show ?case
  proof (cases "strcoll (cstring l) (cstring r) = 0")
    case False
    then show ?thesis using strcoll_cstring [OF False] by (subst l_strcmp.simps) (simp add: Let_def)
  next
    case True
    then have c: "cstring r = cstring l" by (simp add: strcoll_0)
    define len where "len = length (cstring l)"
    have l: "l = cstring l @ drop len l" unfolding len_def cstring_def by (simp add: dropWhile_eq_drop [symmetric])
    have r: "r = cstring l @ drop len r" unfolding len_def c [symmetric] unfolding cstring_def by (simp add: dropWhile_eq_drop [symmetric])
    have e: "strcoll l r = strcoll (drop len l) (drop len r)" using l r strcoll_append by metis
    have nul: "drop len x = CHR 0x00 # drop (len + 1) x" if "cstring x = cstring l" "len \<noteq> length x" for x
    proof -
      have "len < length x" using that length_takeWhile_le [of _ x] unfolding len_def cstring_def by (metis le_neq_implies_less)
      moreover from this have "x ! len = CHR 0x00"
        using nth_length_takeWhile [of "\<lambda>c. c \<noteq> CHR 0x00" x] that(1) unfolding len_def cstring_def by simp
      ultimately show ?thesis by (metis Cons_nth_drop_Suc Suc_eq_plus1)
    qed
    have ll: "len \<le> length l" "len \<le> length r" using l r by (metis le_add1 len_def length_append)+
    show ?thesis
    proof (cases "len = length r \<or> len = length l")
      case True
      then show ?thesis using e \<open>strcoll (cstring l) (cstring r) = 0\<close> nul [of l] nul [of r] c len_def
        by (subst l_strcmp.simps) (auto simp: Let_def)
    next
      case False
      then have "strcoll l r = strcoll (drop (len + 1) l) (drop (len + 1) r)" using e nul [of l] nul [of r] c by simp
      moreover have "l_strcmp l r = l_strcmp (drop (len + 1) l) (drop (len + 1) r)"
        using False True len_def by (subst l_strcmp.simps) (simp add: Let_def)
      ultimately show ?thesis using 1 True False len_def by simp
    qed
  qed
qed

definition str_less :: "string \<Rightarrow> string \<Rightarrow> bool" where
  "str_less l r = (l_strcmp l r < 0)"

lemma strcoll_cases: "strcoll l r < 0 \<longleftrightarrow> strcoll r l > 0"
  by (induction l r rule: strcoll.induct) (auto dest: arg_cong [of _ _ char_of] simp: not_less_iff_gr_or_eq)

lemma uchar_nat_inj: "uchar_nat a = uchar_nat b \<Longrightarrow> a = b"
  by (metis char_of_uchar_nat)

lemma strcoll_trans: "\<not> strcoll x y < 0 \<Longrightarrow> \<not> strcoll y z < 0 \<Longrightarrow> \<not> strcoll x z < 0"
proof (induction x arbitrary: y z)
  case Nil
  then show ?case by (cases y; cases z) auto
next
  case (Cons a x)
  then show ?case by (cases y; cases z) (auto split: if_splits dest: uchar_nat_inj)
qed

interpretation str_sort: sort_order str_less
proof
  show "\<not> str_less y x" if "str_less x y" for x y
    using that strcoll_cases [of x y] by (simp add: str_less_def l_strcmp_strcoll)
  show "\<not> str_less x z" if "\<not> str_less x y" "\<not> str_less y z" for x y z
    using that strcoll_trans unfolding str_less_def l_strcmp_strcoll by blast
qed

text \<open>C24: For every strict weak order the quicksort of \<open>table.sort\<close> ends without an error, rearranges the elements from 1 to the length of the table and no others, and leaves
  none of them before a smaller one; as many levels of recursion as there are elements are enough.\<close>

theorem tsort_sorts:
  assumes "sort_order lt" "nat (n - 1) < fuel"
  shows "\<exists>b. tsort fuel lt t n = Some (Inr b) \<and> rearranged 1 n t b \<and> (\<forall>i j. 1 \<le> i \<longrightarrow> i \<le> j \<longrightarrow> j \<le> n \<longrightarrow> \<not> lt (b j) (b i))"
  using sort_order.auxsort_correct [OF assms, of t]
  unfolding tsort_def sort_order.sorts_def [OF assms(1)] sort_order.sorted_range_def [OF assms(1)] .

theorem tsort_sorts_witness:
  "\<exists>b. tsort 9 str_less (\<lambda>i. if i = 1 then ''swap'' else if i = 2 then ''back'' else if i = 3 then ''all'' else ''help'') 4 = Some (Inr b) \<and>
    \<not> str_less (b 4) (b 1) \<and> \<not> str_less (b 3) (b 2)"
proof -
  have "nat (4 - 1) < 9" by simp
  from tsort_sorts [OF str_sort.sort_order_axioms this] show ?thesis by fastforce
qed

subsection \<open>Sequences\<close>

text \<open>The contents of a table that holds a list at 1, 2, and so on.\<close>

definition seq_of :: "'v list \<Rightarrow> 'v contents" where
  "seq_of xs i = (if 1 \<le> i \<and> i \<le> int (length xs) then Some (xs ! nat (i - 1)) else None)"

lemma move_up_apply:
  "move_up t i pos k = (if pos < k \<and> k \<le> i then t (k - 1) else t k)"
proof (induction t i pos rule: move_up.induct)
  case (1 t i pos)
  show ?case
  proof (cases "i > pos")
    case True
    then have "move_up t i pos k = move_up (t(i := t (i - 1))) (i - 1) pos k" by (subst move_up.simps) simp
    also have "\<dots> = (if pos < k \<and> k \<le> i - 1 then (t(i := t (i - 1))) (k - 1) else (t(i := t (i - 1))) k)" by (rule 1 [OF True])
    finally show ?thesis using True by auto
  qed (subst move_up.simps, auto)
qed

lemma move_down_apply:
  "move_down t pos e k = (if pos \<le> k \<and> k < e then t (k + 1) else t k)"
proof (induction t pos e rule: move_down.induct)
  case (1 t pos e)
  show ?case
  proof (cases "pos < e")
    case True
    then have "move_down t pos e k = move_down (t(pos := t (pos + 1))) (pos + 1) e k" by (subst move_down.simps) simp
    also have "\<dots> = (if pos + 1 \<le> k \<and> k < e then (t(pos := t (pos + 1))) (k + 1) else (t(pos := t (pos + 1))) k)" by (rule 1 [OF True])
    finally show ?thesis using True by auto
  qed (subst move_down.simps, auto)
qed

text \<open>On a table that holds a list, \<open>table.insert\<close> at a position in the list or behind it inserts the value there, and \<open>table.remove\<close> at
  that position takes it out again; without a position both work at the end, as the history of boards uses them.\<close>

theorem insert_remove_list:
  assumes "pos \<le> length xs"
  shows "tinsert (seq_of xs) (int (length xs)) (AtPos (int pos + 1) (Some v)) = Inr (seq_of (take pos xs @ v # drop pos xs)) \<and>
    tremove (seq_of (take pos xs @ v # drop pos xs)) (int (length xs) + 1) (Some (int pos + 1)) = (Some (Some v), seq_of xs) \<and>
    tinsert (seq_of xs) (int (length xs)) (AtEnd (Some v)) = Inr (seq_of (xs @ [v])) \<and>
    tremove (seq_of (xs @ [v])) (int (length xs) + 1) None = (Some (Some v), seq_of xs)"
proof -
  let ?n = "int (length xs)" and ?p = "int pos + 1" and ?ys = "take pos xs @ v # drop pos xs"
  have l: "length ?ys = length xs + 1" using assms by simp
  have at: "seq_of ?ys k = (if k < ?p then seq_of xs k else if k = ?p then Some v else seq_of xs (k - 1))" for k
  proof -
    have "nat (k - 1) < pos \<longleftrightarrow> k < ?p" if "1 \<le> k" using that by auto
    moreover have "nat (k - 1) - pos = Suc (nat (k - 2) - pos)" if "k > ?p" using that by auto
    moreover have "pos + (nat (k - 2) - pos) = nat (k - 2)" if "k > ?p" using that by auto
    ultimately show ?thesis using assms unfolding seq_of_def l by (auto simp: nth_append nth_Cons' min_def)
  qed
  have "(move_up (seq_of xs) (?n + 1) ?p)(?p := Some v) = seq_of ?ys"
    unfolding fun_eq_iff using assms by (auto simp: move_up_apply at) (auto simp: seq_of_def)
  moreover have "(move_down (seq_of ?ys) ?p (?n + 1))(?n + 1 := None) = seq_of xs"
    unfolding fun_eq_iff using assms by (auto simp: move_down_apply at) (auto simp: seq_of_def)
  moreover have "(seq_of xs)(?n + 1 := Some v) = seq_of (xs @ [v])" "(seq_of (xs @ [v]))(?n + 1 := None) = seq_of xs"
    by (auto simp: seq_of_def nth_append fun_eq_iff)
  moreover have "move_down (seq_of (xs @ [v])) (?n + 1) (?n + 1) = seq_of (xs @ [v])" by (simp add: move_down.simps)
  moreover have "seq_of ?ys ?p = Some v" "seq_of (xs @ [v]) (?n + 1) = Some v" using assms by (simp_all add: at seq_of_def nth_append)
  ultimately show ?thesis using assms by (simp add: tinsert_def tremove_def Let_def)
qed

theorem insert_remove_list_witness:
  "tinsert (seq_of [10, 30]) 2 (AtPos 2 (Some (20 :: int))) = Inr (seq_of [10, 20, 30]) \<and> tremove (seq_of [10, 20, 30 :: int]) 3 (Some 2) = (Some (Some 20), seq_of [10, 30])"
  using insert_remove_list [of 1 "[10, 30 :: int]" 20] by simp

end
