(* ===== verification/Lua_Object.thy ===== *)
theory Lua_Object
  imports Lua_Strlib
begin

text \<open>
  \<^verbatim>\<open>src/src/lobject.c\<close>: the \<open>floating point byte\<close> in which an instruction keeps the sizes of a new table, the binary logarithm, the conversion of
  numerals, for which \<open>strtod\<close> and \<open>strtoul\<close> are arguments, and the description of the source of a chunk in messages.
\<close>

subsection \<open>Floating point bytes\<close>

lemma unat_half: "unat (drop_bit 1 (w :: 32 word)) = unat w div 2"
  by (simp add: drop_bit_eq_div unat_div)

function int2fb_loop :: "32 word \<Rightarrow> nat \<Rightarrow> 32 word \<times> nat" where
  "int2fb_loop x e = (if x \<ge> 16 then int2fb_loop (drop_bit 1 (x + 1)) (e + 1) else (x, e))"
  by pat_completeness auto
termination
proof (relation "measure (\<lambda>(x, e). unat x)", simp, goal_cases)
  case (1 x e)
  have "unat (x + 1) \<le> unat x + 1" by (simp add: unat_word_ariths)
  moreover note unat_half [of "x + 1"]
  moreover have "16 \<le> unat x" using 1 by (simp add: word_le_nat_alt)
  ultimately show ?case by simp
qed

declare int2fb_loop.simps [simp del]

definition luaO_int2fb :: "32 word \<Rightarrow> cint" where
  "luaO_int2fb x = (case int2fb_loop x 0 of (x, e) \<Rightarrow>
     if x < 8 then x else push_bit 3 (of_nat (e + 1)) OR (x - 8))"

definition luaO_fb2int :: "cint \<Rightarrow> cint" where
  "luaO_fb2int x = (let e = signed_drop_bit 3 x AND 31 in if e = 0 then x else push_bit (unat (e - 1)) ((x AND 7) + 8))"

lemma int2fb_loop_bounds:
  assumes "int2fb_loop x e = (y, e')" "unat x < 2 ^ 31"
  shows "e \<le> e' \<and> unat y < 16 \<and> (e < e' \<longrightarrow> 8 \<le> unat y) \<and> (e = e' \<longrightarrow> y = x) \<and>
    unat x \<le> unat y * 2 ^ (e' - e) \<and> unat y * 2 ^ (e' - e) < unat x + 2 ^ (e' - e)"
  using assms
proof (induction x e rule: int2fb_loop.induct)
  case (1 x e)
  show ?case
  proof (cases "x \<ge> 16")
    case False
    then show ?thesis using "1.prems" by (subst (asm) int2fb_loop.simps) (simp add: word_le_nat_alt)
  next
    case True
    define h where "h = drop_bit 1 (x + 1)"
    have "unat (x + 1) = unat x + 1" using "1.prems"(2) by (simp add: unat_word_ariths)
    then have h: "unat h = (unat x + 1) div 2" using unat_half [of "x + 1"] by (simp add: h_def)
    have x: "16 \<le> unat x" using True by (simp add: word_le_nat_alt)
    have l: "int2fb_loop h (e + 1) = (y, e')" using "1.prems"(1) True by (subst (asm) int2fb_loop.simps) (simp add: h_def)
    have "unat h < 2 ^ 31" using h "1.prems"(2) by simp
    from "1.IH" [OF True, folded h_def, OF l this] have I: "e + 1 \<le> e'" "unat y < 16" "e + 1 < e' \<longrightarrow> 8 \<le> unat y" "e + 1 = e' \<longrightarrow> y = h"
      "unat h \<le> unat y * 2 ^ (e' - (e + 1))" "unat y * 2 ^ (e' - (e + 1)) < unat h + 2 ^ (e' - (e + 1))" by auto
    define p where "p = (2 :: nat) ^ (e' - (e + 1))"
    have p: "2 ^ (e' - e) = 2 * p" using I(1) by (simp add: p_def Suc_diff_Suc flip: power_Suc)
    have "8 \<le> unat y" using I(1,3,4) h x by (cases "e + 1 = e'") auto
    moreover have "unat x \<le> unat y * (2 * p)" using I(5) h unfolding p_def [symmetric] by simp
    moreover have "unat y * (2 * p) < unat x + 2 * p"
    proof -
      have "unat y * p + 1 \<le> unat h + p" using I(6) unfolding p_def [symmetric] by simp
      then have "2 * (unat y * p) + 2 \<le> 2 * unat h + 2 * p" by linarith
      moreover have "2 * unat h \<le> unat x + 1" using h by simp
      ultimately show ?thesis by (simp add: algebra_simps)
    qed
    ultimately show ?thesis using I(1,2) unfolding p by simp
  qed
qed

lemma low_bits: "(m :: 32 word) < 8 \<Longrightarrow> bit m i \<Longrightarrow> i < 3"
proof -
  assume m: "m < 8" and b: "bit m i"
  have "take_bit 3 m = m" using m by (simp add: take_bit_eq_mod word_less_nat_alt word_unat_eq_iff unat_mod)
  with b show ?thesis by (metis bit_take_bit_iff)
qed

lemma fb_exponent: "unat (signed_drop_bit 3 x AND 31) = unat x div 8 mod 32" for x :: "32 word"
proof -
  have "signed_drop_bit 3 x AND 31 = take_bit 5 (drop_bit 3 x)"
  proof (rule bit_word_eqI)
    fix n assume n: "n < LENGTH(32)"
    have m: "bit (31 :: 32 word) n \<longleftrightarrow> n < 5" using n bit_mask_iff [where 'a = "32 word", of 5 n] by (simp add: mask_eq_exp_minus_1)
    show "bit (signed_drop_bit 3 x AND 31) n \<longleftrightarrow> bit (take_bit 5 (drop_bit 3 x)) n"
      using n m by (auto simp: bit_simps)
  qed
  then show ?thesis by (simp add: take_bit_eq_mod drop_bit_eq_div unat_div unat_mod)
qed

lemma fb_mantissa: "unat (x AND 7) = unat x mod 8" for x :: "32 word"
proof -
  have "x AND 7 = take_bit 3 x" using take_bit_eq_mask [of 3 x] by (simp add: mask_eq_exp_minus_1)
  then show ?thesis by (simp add: take_bit_eq_mod unat_mod)
qed

lemma int2fb_byte:
  assumes "8 \<le> unat y" "unat y < 16" "e < 28"
  shows "unat (luaO_fb2int (push_bit 3 (of_nat (e + 1)) OR (y - 8))) = unat y * 2 ^ e"
proof -
  define x where "x = push_bit 3 (of_nat (e + 1) :: 32 word) OR (y - 8)"
  have m: "unat (y - 8) = unat y - 8" using assms(1) by (simp add: unat_sub word_le_nat_alt)
  have "push_bit 3 (of_nat (e + 1) :: 32 word) AND (y - 8) = 0"
  proof (rule bit_word_eqI)
    fix n
    have "y - 8 < 8" using m assms by (simp add: word_less_nat_alt)
    from low_bits [OF this, of n] show "bit (push_bit 3 (of_nat (e + 1) :: 32 word) AND (y - 8)) n \<longleftrightarrow> bit (0 :: 32 word) n"
      by (auto simp: bit_simps)
  qed
  then have "x = push_bit 3 (of_nat (e + 1)) + (y - 8)" unfolding x_def by (simp add: disjunctive_add_eq_or)
  also have "\<dots> = of_nat (8 * (e + 1) + (unat y - 8))" using assms(1) by (simp add: push_bit_eq_mult of_nat_diff)
  finally have x: "x = of_nat (8 * (e + 1) + (unat y - 8))" .
  have "8 * (e + 1) + (unat y - 8) < 2 ^ 32" using assms by simp
  with x have "unat x = 8 * (e + 1) + (unat y - 8)" by (simp only: unat_of_nat take_bit_nat_eq_self_iff len_bit0 len_num1) simp
  then have "unat (signed_drop_bit 3 x AND 31) = e + 1" "unat (x AND 7) = unat y - 8"
    using assms le_mod_geq [of 8 "unat y"] by (simp_all only: fb_exponent fb_mantissa) auto
  then have e: "signed_drop_bit 3 x AND 31 = of_nat (e + 1)" and y: "(x AND 7) + 8 = y"
    using assms by (auto simp: word_unat_eq_iff unat_word_ariths unat_of_nat)
  have "unat (of_nat (e + 1) - 1 :: 32 word) = e" "(of_nat (e + 1) :: 32 word) \<noteq> 0"
    using assms(3) by (auto simp: unat_of_nat word_unat_eq_iff unat_word_ariths)
  then have "luaO_fb2int x = push_bit e y" using e y by (simp add: luaO_fb2int_def Let_def)
  moreover have "unat (push_bit e y) = unat y * 2 ^ e"
  proof -
    have "(2 :: nat) ^ e \<le> 2 ^ 27" using assms(3) by (intro power_increasing) auto
    then have "unat y * 2 ^ e \<le> 15 * 2 ^ 27" using assms(2) by (intro mult_le_mono) auto
    then have "unat (of_nat (unat y * 2 ^ e) :: 32 word) = unat y * 2 ^ e"
      by (simp only: unat_of_nat take_bit_nat_eq_self_iff len_bit0 len_num1) simp
    then show ?thesis by (simp add: push_bit_eq_mult)
  qed
  ultimately show ?thesis unfolding x_def [symmetric] by simp
qed

lemma fb2int_small: "x < 8 \<Longrightarrow> luaO_fb2int x = x"
proof -
  assume x: "x < 8"
  have "\<forall>n\<in>set [0..<8]. luaO_fb2int (of_nat n) = of_nat n" by code_simp
  from bspec [OF this, of "unat x"] show ?thesis using x by (simp add: word_less_nat_alt)
qed

text \<open>For a size up to \<open>7 * 2 ^ 28\<close>, the floating point byte of \<open>luaO_int2fb\<close> stands for a size that is large enough and
  is not too large by more than an eighth; sizes up to 15 are kept exactly.  The hypothesis keeps the shift of \<open>luaO_fb2int\<close> in the range of \<open>int\<close>.\<close>

theorem int2fb_rounds_up:
  assumes "unat x \<le> 7 * 2 ^ 28"
  defines "y \<equiv> unat (luaO_fb2int (luaO_int2fb x))"
  shows "unat x \<le> y \<and> 8 * (y - unat x) \<le> y \<and> (unat x < 16 \<longrightarrow> y = unat x) \<and> y < 2 ^ 31"
proof -
  obtain z e where l: "int2fb_loop x 0 = (z, e)" by fastforce
  have "unat x < 2 ^ 31" using assms(1) by simp
  from int2fb_loop_bounds [OF l this] have b: "unat z < 16" "0 < e \<longrightarrow> 8 \<le> unat z" "e = 0 \<longrightarrow> z = x"
    "unat x \<le> unat z * 2 ^ e" "unat z * 2 ^ e < unat x + 2 ^ e" by auto
  show ?thesis
  proof (cases "z < 8")
    case True
    then have "y = unat z" "e = 0" using b(2) by (auto simp: y_def luaO_int2fb_def l fb2int_small word_less_nat_alt)
    with b show ?thesis by simp
  next
    case False
    then have z: "8 \<le> unat z" by (simp add: word_less_nat_alt)
    have "7 * 2 ^ e < (7 * 2 ^ 28 :: nat)"
    proof -
      have "8 * 2 ^ e \<le> unat z * 2 ^ e" using z by simp
      with b(5) assms(1) have "8 * 2 ^ e < 7 * 2 ^ 28 + (2 :: nat) ^ e" by linarith
      then show ?thesis by simp
    qed
    then have "(2 :: nat) ^ e < 2 ^ 28" by simp
    then have e: "e < 28" by (simp only: power_strict_increasing_iff)
    from int2fb_byte [OF z b(1) e] have y: "y = unat z * 2 ^ e" using False by (simp add: y_def luaO_int2fb_def l)
    have "8 * 2 ^ e \<le> y" using z by (simp add: y)
    moreover have "y < 2 ^ 31"
    proof -
      have "(2 :: nat) ^ e \<le> 2 ^ 27" using e by (intro power_increasing) auto
      then have "unat z * 2 ^ e \<le> 15 * 2 ^ 27" using b(1) by (intro mult_le_mono) auto
      then show ?thesis by (simp add: y)
    qed
    moreover have "unat x < 16 \<longrightarrow> y = unat x"
      using l b(3) y by (auto simp: int2fb_loop.simps [of x 0] word_le_nat_alt split: if_splits)
    moreover have "unat x \<le> y" "y < unat x + 2 ^ e" using b(4,5) by (simp_all add: y)
    ultimately show ?thesis by auto
  qed
qed

theorem int2fb_rounds_up_witness: "luaO_fb2int (luaO_int2fb 100) = 104 \<and> (100 :: nat) \<le> 104 \<and> 8 * (104 - 100) \<le> (104 :: nat)"
proof -
  have f: "luaO_fb2int (luaO_int2fb 100) = 104" by code_simp
  then show ?thesis using int2fb_rounds_up [of 100] by simp
qed

subsection \<open>Binary logarithm\<close>

definition log_2 :: "nat list" where
  "log_2 = [0, 1] @ replicate 2 2 @ replicate 4 3 @ replicate 8 4 @ replicate 16 5 @ replicate 32 6 @ replicate 64 7 @ replicate 128 8"

function log2_loop :: "int \<Rightarrow> nat \<Rightarrow> int \<times> nat" where
  "log2_loop l x = (if x \<ge> 256 then log2_loop (l + 8) (x div 256) else (l, x))"
  by pat_completeness auto
termination by (relation "measure snd") auto

declare log2_loop.simps [simp del]

definition luaO_log2 :: "32 word \<Rightarrow> int" where
  "luaO_log2 x = (case log2_loop (- 1) (unat x) of (l, x) \<Rightarrow> l + int (log_2 ! x))"

definition ceillog2 :: "32 word \<Rightarrow> int" where
  "ceillog2 x = luaO_log2 (x - 1) + 1"

definition log2_entry :: "nat \<Rightarrow> bool" where
  "log2_entry x = (0 < log_2 ! x \<and> 2 ^ (log_2 ! x - 1) \<le> x \<and> x < 2 ^ (log_2 ! x))"

lemma log_2_table: "list_all log2_entry [1..<256]"
  by code_simp

lemma log2_loop_spec:
  assumes "log2_loop l x = (l', y)" "0 < x"
  shows "0 < y \<and> y < 256 \<and> l \<le> l' \<and> 2 ^ nat (l' - l) * y \<le> x \<and> x < 2 ^ nat (l' - l) * (y + 1)"
  using assms
proof (induction l x rule: log2_loop.induct)
  case (1 l x)
  show ?case
  proof (cases "x \<ge> 256")
    case False
    then show ?thesis using "1.prems" by (simp add: log2_loop.simps [of l x])
  next
    case True
    have "log2_loop (l + 8) (x div 256) = (l', y)" using "1.prems"(1) True by (simp add: log2_loop.simps [of l x])
    moreover have "0 < x div 256" using True by (simp add: div_greater_zero_iff)
    ultimately have I: "0 < y \<and> y < 256 \<and> l + 8 \<le> l' \<and> 2 ^ nat (l' - (l + 8)) * y \<le> x div 256 \<and> x div 256 < 2 ^ nat (l' - (l + 8)) * (y + 1)"
      by (rule "1.IH" [OF True])
    define p where "p = (2 :: nat) ^ nat (l' - (l + 8))"
    have "nat (l' - l) = nat (l' - (l + 8)) + 8" using I by arith
    then have p: "2 ^ nat (l' - l) = 256 * p" by (simp add: p_def power_add)
    have a: "p * y \<le> x div 256" "x div 256 + 1 \<le> p * (y + 1)" using I unfolding p_def by simp_all
    have "256 * (p * y) \<le> x" using a(1) by simp
    moreover have "x < 256 * (x div 256 + 1)" by simp
    then have "x < 256 * (p * (y + 1))" using a(2) by linarith
    ultimately show ?thesis using I unfolding p by (simp only: mult.assoc) simp
  qed
qed

text \<open>\<open>luaO_log2\<close> is the integer part of the binary logarithm on every positive \<open>unsigned int\<close>: \<open>2 ^ k \<le> x < 2 ^ (k + 1)\<close> for \<open>k = luaO_log2 x\<close>.\<close>

theorem luaO_log2_spec:
  assumes "x \<noteq> 0"
  shows "0 \<le> luaO_log2 x \<and> 2 ^ nat (luaO_log2 x) \<le> unat x \<and> unat x < 2 ^ (nat (luaO_log2 x) + 1)"
proof -
  obtain l y where l: "log2_loop (- 1) (unat x) = (l, y)" by fastforce
  have "0 < unat x" using assms by (simp add: unat_gt_0)
  from log2_loop_spec [OF l this] have s: "0 < y" "y < 256" "- 1 \<le> l"
    "2 ^ nat (l + 1) * y \<le> unat x" "unat x < 2 ^ nat (l + 1) * (y + 1)" by auto
  define t where "t = log_2 ! y"
  have t: "0 < t" "2 ^ (t - 1) \<le> y" "y < 2 ^ t"
    using log_2_table s(1,2) by (auto simp: list_all_iff log2_entry_def t_def simp del: upt_rec_numeral)
  have k: "luaO_log2 x = l + int t" by (simp add: luaO_log2_def l t_def)
  have n: "nat (l + int t) = nat (l + 1) + (t - 1)" "nat (l + int t) + 1 = nat (l + 1) + t" using s(3) t(1) by simp_all
  have "2 ^ nat (luaO_log2 x) \<le> unat x" unfolding k n(1) power_add using s(4) t(2) by (meson mult_le_mono2 order_trans)
  moreover have "unat x < 2 ^ (nat (luaO_log2 x) + 1)" unfolding k n(2) power_add
    using s(5) t(3) by (metis Suc_eq_plus1 Suc_leI mult_le_mono2 order_less_le_trans)
  ultimately show ?thesis using s(3) t(1) k by simp
qed

theorem luaO_log2_spec_witness: "luaO_log2 100000 = 16 \<and> (2 :: nat) ^ 16 \<le> 100000"
proof -
  have "luaO_log2 100000 = 16" by (simp add: luaO_log2_def log2_loop.simps log_2_def)
  then show ?thesis using luaO_log2_spec [of 100000] by simp
qed

subsection \<open>Strings\<close>

text \<open>A C string ends before its first NUL.\<close>

definition cstr :: "string \<Rightarrow> string" where
  "cstr s = takeWhile (\<lambda>c. c \<noteq> CHR 0x00) s"

text \<open>
  Numerals: \<open>strtod\<close> and \<open>strtoul\<close> (with base 16) give a value and how many characters of the C string they consumed.
  The result is the value returned by the C function and the value stored in \<open>*result\<close>.
\<close>

definition luaO_str2d :: "(string \<Rightarrow> 'n \<times> nat) \<Rightarrow> (string \<Rightarrow> 'n \<times> nat) \<Rightarrow> string \<Rightarrow> bool \<times> 'n" where
  "luaO_str2d strtod strtoul s = (let s = cstr s; (r, n) = strtod s in
     if n = 0 then (False, r)
     else let
       (r, n) = (if n < length s \<and> (s ! n = CHR ''x'' \<or> s ! n = CHR ''X'') then strtoul s else (r, n));
       e = drop n s
     in if e = [] then (True, r)
        else if dropWhile (\<lambda>c. isspace (uchar_nat c)) e \<noteq> [] then (False, r)
        else (True, r))"

text \<open>The variable arguments of \<open>luaO_pushfstring\<close>; \<open>ArgStr None\<close> is a null pointer.\<close>

datatype 'n vararg = ArgStr "string option" | ArgChar cint | ArgInt cint | ArgNum 'n | ArgPtr "64 word"

text \<open>How a number (\<open>lua_number2str\<close>), an \<open>int\<close> cast to a number and a pointer (\<open>sprintf\<close>) are printed.\<close>

record 'n number_format =
  number2str :: "'n \<Rightarrow> string"
  cast_num :: "cint \<Rightarrow> 'n"
  pointer2str :: "64 word \<Rightarrow> string"

text \<open>One item of the switch on the conversion character; an argument of another type than the one it asks for is undefined behaviour.\<close>

definition pushf_item :: "'n number_format \<Rightarrow> char \<Rightarrow> 'n vararg list \<Rightarrow> (string \<times> 'n vararg list) option" where
  "pushf_item nf d args = (
     if d = CHR ''s'' then (case args of ArgStr s # as \<Rightarrow> Some (case s of None \<Rightarrow> ''(null)'' | Some s \<Rightarrow> cstr s, as) | _ \<Rightarrow> None)
     else if d = CHR ''c'' then (case args of ArgChar c # as \<Rightarrow> Some (cstr [char_of (unat c)], as) | _ \<Rightarrow> None)
     else if d = CHR ''d'' then (case args of ArgInt i # as \<Rightarrow> Some (number2str nf (cast_num nf i), as) | _ \<Rightarrow> None)
     else if d = CHR ''f'' then (case args of ArgNum x # as \<Rightarrow> Some (number2str nf x, as) | _ \<Rightarrow> None)
     else if d = CHR ''p'' then (case args of ArgPtr q # as \<Rightarrow> Some (pointer2str nf q, as) | _ \<Rightarrow> None)
     else if d = CHR ''%'' then Some (''%'', args)
     else Some ([CHR ''%'', d], args))"

function luaO_pushvfstring :: "'n number_format \<Rightarrow> string \<Rightarrow> 'n vararg list \<Rightarrow> string option" where
  "luaO_pushvfstring nf fmt args = (case dropWhile (\<lambda>c. c \<noteq> CHR ''%'') fmt of
     [] \<Rightarrow> Some fmt
   | [e] \<Rightarrow> None
   | e # d # fmt' \<Rightarrow> (case pushf_item nf d args of
        None \<Rightarrow> None
      | Some (s, args) \<Rightarrow> map_option (\<lambda>r. takeWhile (\<lambda>c. c \<noteq> CHR ''%'') fmt @ s @ r) (luaO_pushvfstring nf fmt' args)))"
  by pat_completeness auto
termination
proof (relation "measure (\<lambda>(nf, fmt, args). length fmt)", simp, goal_cases)
  case (1 nf fmt args e x d fmt' a s args')
  then show ?case using length_dropWhile_le [of "\<lambda>c. c \<noteq> CHR ''%''" fmt] by simp
qed

declare luaO_pushvfstring.simps [simp del]

text \<open>The bytes of \<open>out\<close> before the NUL that \<open>luaO_chunkid\<close> leaves there; \<open>size_sub\<close> is subtraction of \<open>size_t\<close>.\<close>

definition size_sub :: "nat \<Rightarrow> nat \<Rightarrow> nat" where
  "size_sub a b = (a + (2 ^ 64 - b)) mod 2 ^ 64"

definition luaO_chunkid :: "string \<Rightarrow> nat \<Rightarrow> string" where
  "luaO_chunkid source bufflen = (
     if source \<noteq> [] \<and> hd source = CHR ''='' then take (bufflen - 1) (tl source)
     else if source \<noteq> [] \<and> hd source = CHR ''@'' then
       (let source = tl source; bufflen = size_sub bufflen 8; l = length source in
        if l > bufflen then ''...'' @ drop (l - bufflen) source else source)
     else
       (let len = length (takeWhile (\<lambda>c. c \<noteq> CHR 0x0A \<and> c \<noteq> CHR 0x0D) source);
            bufflen = size_sub bufflen 17;
            len = (if len > bufflen then bufflen else len)
        in ''[string '' @ [CHR 0x22] @ (if len < length source then take len source @ ''...'' else source) @ [CHR 0x22] @ '']''))"

text \<open>A description of a chunk fits the buffer it is written to, with its terminating NUL, whatever the source is called, provided the buffer holds at least the
  17 bytes of \<open>[string "..."]\<close> and its blanks.\<close>

theorem chunkid_fits:
  assumes "17 \<le> bufflen" "bufflen < 2 ^ 64"
  shows "length (luaO_chunkid source bufflen) + 1 \<le> bufflen"
proof -
  have "size_sub bufflen 8 = bufflen - 8" "size_sub bufflen 17 = bufflen - 17"
    using assms by (auto simp: size_sub_def mod_if)
  moreover have "length (takeWhile P source) \<le> length source" for P :: "char \<Rightarrow> bool" by (rule length_takeWhile_le)
  ultimately show ?thesis using assms(1) by (auto simp: luaO_chunkid_def Let_def)
qed

theorem chunkid_fits_witness: "length (luaO_chunkid ''return 1 + 1 + 1 + 1'' 20) + 1 \<le> 20"
  using chunkid_fits [of 20 "''return 1 + 1 + 1 + 1''"] by simp

end
