(* ===== verification/Lua_Lex.thy ===== *)
theory Lua_Lex
  imports Lua_Object Lua_Zio
begin

text \<open>
  \<^verbatim>\<open>src/src/llex.c\<close>: the lexical analyzer of Lua.  The state has the fields of \<open>LexState\<close> that the analyzer uses: the current character
  (\<open>None\<close> is \<open>EOZ\<close>), the stream, the buffer with its size, lines, tokens and the decimal point of the locale.  An error is the message that
  \<open>luaX_lexerror\<close> throws.  The conversion of numbers to and from strings and the decimal point of \<open>localeconv\<close> are arguments,
  bundled in \<open>lex_env\<close>.  Anchoring of strings for the garbage collector is not modelled: a string is its contents.
\<close>

subsection \<open>Tokens\<close>

definition FIRST_RESERVED :: nat where "FIRST_RESERVED = 257"

definition luaX_tokens :: "string list" where
  "luaX_tokens = [''and'', ''break'', ''do'', ''else'', ''elseif'', ''end'', ''false'', ''for'', ''function'', ''if'',
     ''in'', ''local'', ''nil'', ''not'', ''or'', ''repeat'', ''return'', ''then'', ''true'', ''until'', ''while'',
     ''..'', ''...'', ''=='', ''>='', ''<='', ''~='', ''<number>'', ''<name>'', ''<string>'', ''<eof>'']"

definition NUM_RESERVED :: nat where "NUM_RESERVED = 21"
definition TK_CONCAT :: nat where "TK_CONCAT = 278"
definition TK_DOTS :: nat where "TK_DOTS = 279"
definition TK_EQ :: nat where "TK_EQ = 280"
definition TK_GE :: nat where "TK_GE = 281"
definition TK_LE :: nat where "TK_LE = 282"
definition TK_NE :: nat where "TK_NE = 283"
definition TK_NUMBER :: nat where "TK_NUMBER = 284"
definition TK_NAME :: nat where "TK_NAME = 285"
definition TK_STRING :: nat where "TK_STRING = 286"
definition TK_EOS :: nat where "TK_EOS = 287"

lemmas TK_defs = TK_CONCAT_def TK_DOTS_def TK_EQ_def TK_GE_def TK_LE_def TK_NE_def TK_NUMBER_def TK_NAME_def TK_STRING_def TK_EOS_def

text \<open>The mark that \<open>luaX_init\<close> sets on the strings of the reserved words: the position in \<open>luaX_tokens\<close> plus one.\<close>

fun word_index :: "string list \<Rightarrow> nat \<Rightarrow> string \<Rightarrow> nat" where
  "word_index [] i s = 0"
| "word_index (w # ws) i s = (if w = s then i + 1 else word_index ws (i + 1) s)"

definition reserved :: "string \<Rightarrow> nat" where
  "reserved s = word_index (take NUM_RESERVED luaX_tokens) 0 s"

datatype 'n SemInfo = NoInfo | NumInfo 'n | StrInfo string

type_synonym 'n Token = "nat \<times> 'n SemInfo"

record 'n LexState =
  current :: "char option"
  linenumber :: int
  lastline :: int
  ls_t :: "'n Token"
  lookahead :: "'n Token"
  ls_z :: zio
  buff :: string
  buffsize :: nat
  ls_source :: string
  decpoint :: char

record 'n lex_env =
  env_format :: "'n number_format"
  env_strtod :: "string \<Rightarrow> 'n \<times> nat"
  env_strtoul :: "string \<Rightarrow> 'n \<times> nat"
  env_decimal_point :: "char option"

subsection \<open>Errors\<close>

definition sbind :: "'e + 'a \<Rightarrow> ('a \<Rightarrow> 'e + 'b) \<Rightarrow> 'e + 'b" where
  "sbind m f = (case m of Inl e \<Rightarrow> Inl e | Inr x \<Rightarrow> f x)"

lemma sbind_cong [fundef_cong]: "m = m' \<Longrightarrow> (\<And>x. m' = Inr x \<Longrightarrow> f x = g x) \<Longrightarrow> sbind m f = sbind m' g"
  by (auto simp: sbind_def split: sum.splits)

lemma sbind_simps [simp]: "sbind (Inl e) f = Inl e" "sbind (Inr x) f = f x"
  by (simp_all add: sbind_def)

lemma sbind_Inr: "sbind m f = Inr y \<longleftrightarrow> (\<exists>x. m = Inr x \<and> f x = Inr y)"
  by (cases m) auto

definition MAXSRC :: nat where "MAXSRC = 80"
definition MAX_INT :: int where "MAX_INT = 2 ^ 31 - 1 - 2"
definition MAX_SIZET :: nat where "MAX_SIZET = 2 ^ 64 - 1 - 2"
definition LUA_QS :: string where "LUA_QS = LUA_QL ''%s''"

definition luaO_pushfstring :: "'n number_format \<Rightarrow> string \<Rightarrow> 'n vararg list \<Rightarrow> string" where
  "luaO_pushfstring nf fmt args = (case luaO_pushvfstring nf fmt args of None \<Rightarrow> [] | Some s \<Rightarrow> s)"

definition lex_message :: "'n number_format \<Rightarrow> 'n LexState \<Rightarrow> string \<Rightarrow> string" where
  "lex_message nf ls msg = luaO_pushfstring nf ''%s:%d: %s''
     [ArgStr (Some (luaO_chunkid (cstr (ls_source ls)) MAXSRC)), ArgInt (of_int (linenumber ls)), ArgStr (Some msg)]"

definition luaX_token2str :: "'n number_format \<Rightarrow> nat \<Rightarrow> string" where
  "luaX_token2str nf token = (
     if token < FIRST_RESERVED then
       (if iscntrl token then luaO_pushfstring nf ''char(%d)'' [ArgInt (of_nat token)]
        else luaO_pushfstring nf ''%c'' [ArgChar (of_nat token)])
     else luaX_tokens ! (token - FIRST_RESERVED))"

text \<open>The error of \<open>save\<close> names no token, so \<open>luaX_lexerror\<close> is split: \<open>lex_message\<close> is its part without a token.\<close>

definition lex_save :: "'n number_format \<Rightarrow> char \<Rightarrow> 'n LexState \<Rightarrow> string + 'n LexState" where
  "lex_save nf c ls = (
     if length (buff ls) + 1 > buffsize ls then
       (if buffsize ls \<ge> MAX_SIZET div 2 then Inl (lex_message nf ls ''lexical element too long'')
        else Inr (ls\<lparr>buffsize := buffsize ls * 2, buff := buff ls @ [c]\<rparr>))
     else Inr (ls\<lparr>buff := buff ls @ [c]\<rparr>))"

definition txtToken :: "'n number_format \<Rightarrow> 'n LexState \<Rightarrow> nat \<Rightarrow> string + string" where
  "txtToken nf ls token = (
     if token = TK_NAME \<or> token = TK_STRING \<or> token = TK_NUMBER then sbind (lex_save nf (CHR 0x00) ls) (\<lambda>ls. Inr (cstr (buff ls)))
     else Inr (luaX_token2str nf token))"

definition luaX_lexerror :: "'n number_format \<Rightarrow> 'n LexState \<Rightarrow> string \<Rightarrow> nat \<Rightarrow> string" where
  "luaX_lexerror nf ls msg token = (let msg = lex_message nf ls msg in
     if token \<noteq> 0 then
       (case txtToken nf ls token of
          Inl e \<Rightarrow> e
        | Inr txt \<Rightarrow> luaO_pushfstring nf (''%s near '' @ LUA_QS) [ArgStr (Some msg), ArgStr (Some txt)])
     else msg)"

definition luaX_syntaxerror :: "'n number_format \<Rightarrow> 'n LexState \<Rightarrow> string \<Rightarrow> string" where
  "luaX_syntaxerror nf ls msg = luaX_lexerror nf ls msg (fst (ls_t ls))"

subsection \<open>Characters\<close>

definition lex_next :: "'n LexState \<Rightarrow> 'n LexState" where
  "lex_next ls = (case zgetc (ls_z ls) of (c, z) \<Rightarrow> ls\<lparr>current := map_option (\<lambda>b. char_of (unat b)) c, ls_z := z\<rparr>)"

definition currIs :: "(nat \<Rightarrow> bool) \<Rightarrow> 'n LexState \<Rightarrow> bool" where
  "currIs f ls = (case current ls of None \<Rightarrow> False | Some c \<Rightarrow> f (uchar_nat c))"

definition currIsNewline :: "'n LexState \<Rightarrow> bool" where
  "currIsNewline ls = (current ls = Some (CHR 0x0A) \<or> current ls = Some (CHR 0x0D))"

definition save_and_next :: "'n number_format \<Rightarrow> 'n LexState \<Rightarrow> string + 'n LexState" where
  "save_and_next nf ls = sbind (lex_save nf (case current ls of None \<Rightarrow> CHR 0xFF | Some c \<Rightarrow> c) ls) (\<lambda>ls. Inr (lex_next ls))"

text \<open>What is still to be read.\<close>

definition rest :: "'n LexState \<Rightarrow> string" where
  "rest ls = (case current ls of None \<Rightarrow> [] | Some c \<Rightarrow> c # map (\<lambda>b. char_of (unat b)) (zcontents (ls_z ls)))"

lemma rest_next [simp]: "current ls \<noteq> None \<Longrightarrow> rest (lex_next ls) = tl (rest ls)"
proof -
  assume c: "current ls \<noteq> None"
  obtain r z where g: "zgetc (ls_z ls) = (r, z)" by fastforce
  from zgetc_contents [OF g] c show ?thesis
    by (auto simp: lex_next_def rest_def g split: list.splits option.splits)
qed

lemma rest_Nil: "rest ls = [] \<longleftrightarrow> current ls = None"
  by (auto simp: rest_def split: option.splits)

lemma rest_Cons: "rest ls = c # s \<Longrightarrow> current ls = Some c"
  by (auto simp: rest_def split: option.splits)

lemma next_less: "current ls \<noteq> None \<Longrightarrow> length (rest (lex_next ls)) < length (rest ls)"
  by (cases "rest ls") (auto simp: rest_Nil)

lemma lex_save_fields:
  assumes "lex_save nf c ls = Inr ls'"
  shows "current ls' = current ls" "ls_z ls' = ls_z ls" "rest ls' = rest ls" "buff ls' = buff ls @ [c]" "linenumber ls' = linenumber ls"
  using assms by (auto simp: lex_save_def rest_def split: if_splits option.splits)

lemma save_and_next_rest: "save_and_next nf ls = Inr ls' \<Longrightarrow> current ls \<noteq> None \<Longrightarrow> rest ls' = tl (rest ls)"
  by (auto simp: save_and_next_def sbind_Inr lex_save_fields)

lemma save_and_next_less: "save_and_next nf ls = Inr ls' \<Longrightarrow> current ls \<noteq> None \<Longrightarrow> length (rest ls') < length (rest ls)"
  by (cases "rest ls") (auto simp: save_and_next_rest rest_Nil)

function save_while :: "'n number_format \<Rightarrow> (nat \<Rightarrow> bool) \<Rightarrow> 'n LexState \<Rightarrow> string + 'n LexState" where
  "save_while nf f ls = (if currIs f ls then sbind (save_and_next nf ls) (save_while nf f) else Inr ls)"
  by pat_completeness auto
termination
  by (relation "measure (\<lambda>(nf, f, ls). length (rest ls))") (auto simp: currIs_def intro!: save_and_next_less split: option.splits)

declare save_while.simps [simp del]

function skip_while :: "(nat \<Rightarrow> bool) \<Rightarrow> 'n LexState \<Rightarrow> 'n LexState" where
  "skip_while f ls = (if currIs f ls then skip_while f (lex_next ls) else ls)"
  by pat_completeness auto
termination
  by (relation "measure (\<lambda>(f, ls). length (rest ls))") (auto simp: currIs_def rest_Nil split: option.splits)

declare skip_while.simps [simp del]

definition inclinenumber :: "'n number_format \<Rightarrow> 'n LexState \<Rightarrow> string + 'n LexState" where
  "inclinenumber nf ls = (let
     old = current ls;
     ls = lex_next ls;
     ls = (if currIsNewline ls \<and> current ls \<noteq> old then lex_next ls else ls);
     ls = ls\<lparr>linenumber := linenumber ls + 1\<rparr>
   in if linenumber ls \<ge> MAX_INT then Inl (luaX_syntaxerror nf ls ''chunk has too many lines'') else Inr ls)"

definition luaX_setinput :: "zio \<Rightarrow> string \<Rightarrow> 'n LexState" where
  "luaX_setinput z source = lex_next
     \<lparr>current = None, linenumber = 1, lastline = 1, ls_t = (0, NoInfo), lookahead = (TK_EOS, NoInfo), ls_z = z,
      buff = [], buffsize = LUA_MINBUFFER, ls_source = source, decpoint = CHR ''.''\<rparr>"

text \<open>\<open>strchr\<close> also finds the NUL that ends the set.\<close>

definition check_next :: "'n number_format \<Rightarrow> string \<Rightarrow> 'n LexState \<Rightarrow> string + (bool \<times> 'n LexState)" where
  "check_next nf set' ls = (case current ls of
     None \<Rightarrow> Inr (False, ls)
   | Some c \<Rightarrow> if c \<in> set set' \<or> c = CHR 0x00 then sbind (save_and_next nf ls) (\<lambda>ls. Inr (True, ls)) else Inr (False, ls))"

subsection \<open>Numerals\<close>

definition buffreplace :: "char \<Rightarrow> char \<Rightarrow> 'n LexState \<Rightarrow> 'n LexState" where
  "buffreplace from to ls = ls\<lparr>buff := map (\<lambda>c. if c = from then to else c) (buff ls)\<rparr>"

definition trydecpoint :: "'n lex_env \<Rightarrow> 'n LexState \<Rightarrow> string + ('n LexState \<times> 'n)" where
  "trydecpoint env ls = (let
     old = decpoint ls;
     ls = ls\<lparr>decpoint := (case env_decimal_point env of Some p \<Rightarrow> p | None \<Rightarrow> CHR ''.'')\<rparr>;
     ls = buffreplace old (decpoint ls) ls
   in case luaO_str2d (env_strtod env) (env_strtoul env) (buff ls) of
        (False, _) \<Rightarrow> Inl (luaX_lexerror (env_format env) (buffreplace (decpoint ls) (CHR ''.'') ls) ''malformed number'' TK_NUMBER)
      | (True, r) \<Rightarrow> Inr (ls, r))"

definition isnumchar :: "nat \<Rightarrow> bool" where "isnumchar c = (isdigit c \<or> c = uchar_nat (CHR ''.''))"
definition isnamechar :: "nat \<Rightarrow> bool" where "isnamechar c = (isalnum c \<or> c = uchar_nat (CHR ''_''))"

text \<open>The end of \<open>read_numeral\<close>: the conversion of the buffer.\<close>

definition convert_numeral :: "'n lex_env \<Rightarrow> 'n LexState \<Rightarrow> string + ('n LexState \<times> 'n)" where
  "convert_numeral env ls = (let ls = buffreplace (CHR ''.'') (decpoint ls) ls in
     case luaO_str2d (env_strtod env) (env_strtoul env) (buff ls) of
       (False, _) \<Rightarrow> trydecpoint env ls
     | (True, r) \<Rightarrow> Inr (ls, r))"

definition read_numeral :: "'n lex_env \<Rightarrow> 'n LexState \<Rightarrow> string + ('n LexState \<times> 'n)" where
  "read_numeral env ls = (let nf = env_format env in
     sbind (save_and_next nf ls) (\<lambda>ls.
     sbind (save_while nf isnumchar ls) (\<lambda>ls.
     sbind (check_next nf ''Ee'' ls) (\<lambda>(e, ls).
     sbind (if e then sbind (check_next nf ''+-'' ls) (\<lambda>(_, ls). Inr ls) else Inr ls) (\<lambda>ls.
     sbind (save_while nf isnamechar ls) (\<lambda>ls.
     sbind (lex_save nf (CHR 0x00) ls) (convert_numeral env)))))))"

subsection \<open>Strings\<close>

function sep_loop :: "'n number_format \<Rightarrow> int \<Rightarrow> 'n LexState \<Rightarrow> string + (int \<times> 'n LexState)" where
  "sep_loop nf count ls =
     (if current ls = Some (CHR ''='') then sbind (save_and_next nf ls) (sep_loop nf (count + 1)) else Inr (count, ls))"
  by pat_completeness auto
termination
  by (relation "measure (\<lambda>(nf, n, ls). length (rest ls))") (auto intro: save_and_next_less)

declare sep_loop.simps [simp del]

definition skip_sep :: "'n number_format \<Rightarrow> 'n LexState \<Rightarrow> string + (int \<times> 'n LexState)" where
  "skip_sep nf ls = (let s = current ls in
     sbind (save_and_next nf ls) (\<lambda>ls.
     sbind (sep_loop nf 0 ls) (\<lambda>(count, ls).
     Inr (if current ls = s then count else - count - 1, ls))))"

lemma inclinenumber_less:
  assumes "inclinenumber nf ls = Inr ls'" "current ls \<noteq> None"
  shows "length (rest ls') < length (rest ls)"
proof -
  define l1 where "l1 = lex_next ls"
  define l2 where "l2 = (if currIsNewline l1 \<and> current l1 \<noteq> current ls then lex_next l1 else l1)"
  have "ls' = l2\<lparr>linenumber := linenumber l2 + 1\<rparr>"
    using assms(1) by (auto simp: inclinenumber_def Let_def l1_def l2_def split: if_splits)
  then have "rest ls' = rest l2" by (simp add: rest_def split: option.splits)
  moreover have "length (rest l2) \<le> length (rest l1)"
    using next_less [of l1] by (auto simp: l2_def currIsNewline_def)
  moreover have "length (rest l1) < length (rest ls)" unfolding l1_def by (rule next_less [OF assms(2)])
  ultimately show ?thesis by simp
qed

lemma sep_loop_le: "sep_loop nf n ls = Inr (m, ls') \<Longrightarrow> length (rest ls') \<le> length (rest ls) \<and> n \<le> m"
proof (induction nf n ls rule: sep_loop.induct)
  case (1 nf n ls)
  show ?case
  proof (cases "current ls = Some (CHR ''='')")
    case False
    then show ?thesis using "1.prems" by (simp add: sep_loop.simps [of nf n ls])
  next
    case True
    with "1.prems" obtain l1 where l: "save_and_next nf ls = Inr l1" "sep_loop nf (n + 1) l1 = Inr (m, ls')"
      by (auto simp: sep_loop.simps [of nf n ls] sbind_Inr)
    from "1.IH" [OF True l] save_and_next_less [OF l(1)] True show ?thesis by simp
  qed
qed

lemma skip_sep_less: "skip_sep nf ls = Inr (n, ls') \<Longrightarrow> current ls \<noteq> None \<Longrightarrow> length (rest ls') < length (rest ls)"
  by (fastforce simp: skip_sep_def Let_def sbind_Inr dest!: sep_loop_le save_and_next_less)

lemma skip_sep_current: "skip_sep nf ls = Inr (n, ls') \<Longrightarrow> 0 \<le> n \<Longrightarrow> current ls' = current ls"
  by (auto simp: skip_sep_def Let_def sbind_Inr dest!: sep_loop_le split: if_splits)

function long_loop :: "'n number_format \<Rightarrow> bool \<Rightarrow> nat \<Rightarrow> 'n LexState \<Rightarrow> string + 'n LexState" where
  "long_loop nf seminfo sep ls = (case current ls of
     None \<Rightarrow> Inl (luaX_lexerror nf ls (if seminfo then ''unfinished long string'' else ''unfinished long comment'') TK_EOS)
   | Some c \<Rightarrow>
      if c = CHR ''['' then
        sbind (skip_sep nf ls) (\<lambda>(n, ls1).
          if n = int sep then
            sbind (save_and_next nf ls1) (\<lambda>ls2.
              if sep = 0 then Inl (luaX_lexerror nf ls2 ''nesting of [[...]] is deprecated'' (uchar_nat (CHR ''['')))
              else long_loop nf seminfo sep ls2)
          else long_loop nf seminfo sep ls1)
      else if c = CHR '']'' then
        sbind (skip_sep nf ls) (\<lambda>(n, ls1). if n = int sep then save_and_next nf ls1 else long_loop nf seminfo sep ls1)
      else if c = CHR 0x0A \<or> c = CHR 0x0D then
        sbind (lex_save nf (CHR 0x0A) ls) (\<lambda>ls1.
        sbind (inclinenumber nf ls1) (\<lambda>ls2.
        long_loop nf seminfo sep (if seminfo then ls2 else ls2\<lparr>buff := []\<rparr>)))
      else if seminfo then sbind (save_and_next nf ls) (long_loop nf seminfo sep)
      else long_loop nf seminfo sep (lex_next ls))"
  by pat_completeness auto
termination
proof (relation "measure (\<lambda>(nf, i, sep, ls). length (rest ls))", goal_cases)
  case (2 nf i sep ls c p n l1 l2)
  then have "current l1 \<noteq> None" using skip_sep_current [of nf ls n l1] by simp
  then show ?case using 2 skip_sep_less [of nf ls n l1] save_and_next_less [of nf l1 l2] by simp
next
  case (5 nf i sep ls c l1 l2)
  then have "length (rest l2) < length (rest l1)" by (intro inclinenumber_less) (auto simp: lex_save_fields)
  then show ?case using 5 lex_save_fields(3) [of nf _ ls l1] by (auto simp: rest_def split: option.splits)
qed (auto simp: rest_Nil dest: skip_sep_less save_and_next_less)

declare long_loop.simps [simp del]

text \<open>The flag tells whether \<open>seminfo\<close> is not null; the string is the contents of the buffer without the brackets.\<close>

definition read_long_string :: "'n number_format \<Rightarrow> bool \<Rightarrow> nat \<Rightarrow> 'n LexState \<Rightarrow> string + ('n LexState \<times> string)" where
  "read_long_string nf seminfo sep ls =
     sbind (save_and_next nf ls) (\<lambda>ls.
     sbind (if currIsNewline ls then inclinenumber nf ls else Inr ls) (\<lambda>ls.
     sbind (long_loop nf seminfo sep ls) (\<lambda>ls.
     Inr (ls, take (length (buff ls) - 2 * (2 + sep)) (drop (2 + sep) (buff ls))))))"

definition simple_escape :: "char \<Rightarrow> char option" where
  "simple_escape c = (
     if c = CHR ''a'' then Some (CHR 0x07) else if c = CHR ''b'' then Some (CHR 0x08)
     else if c = CHR ''f'' then Some (CHR 0x0C) else if c = CHR ''n'' then Some (CHR 0x0A)
     else if c = CHR ''r'' then Some (CHR 0x0D) else if c = CHR ''t'' then Some (CHR 0x09)
     else if c = CHR ''v'' then Some (CHR 0x0B) else None)"

text \<open>The loop over the digits of a decimal escape: at most \<open>n\<close> more after this one.\<close>

fun escape_digits :: "nat \<Rightarrow> nat \<Rightarrow> char \<Rightarrow> 'n LexState \<Rightarrow> nat \<times> 'n LexState" where
  "escape_digits n c d ls = (let
     c = 10 * c + (uchar_nat d - uchar_nat (CHR ''0''));
     ls = lex_next ls
   in case (n, current ls) of
        (Suc m, Some d) \<Rightarrow> if isdigit (uchar_nat d) then escape_digits m c d ls else (c, ls)
      | _ \<Rightarrow> (c, ls))"

declare escape_digits.simps [simp del]

text \<open>The inner switch of \<open>read_string\<close>, on the character behind a backslash.\<close>

definition read_escape :: "'n number_format \<Rightarrow> 'n LexState \<Rightarrow> string + 'n LexState" where
  "read_escape nf ls = (case current ls of
     None \<Rightarrow> Inr ls
   | Some c \<Rightarrow> (case simple_escape c of
        Some e \<Rightarrow> sbind (lex_save nf e ls) (\<lambda>ls. Inr (lex_next ls))
      | None \<Rightarrow>
         if c = CHR 0x0A \<or> c = CHR 0x0D then sbind (lex_save nf (CHR 0x0A) ls) (inclinenumber nf)
         else if \<not> isdigit (uchar_nat c) then save_and_next nf ls
         else (case escape_digits 2 0 c ls of (v, ls) \<Rightarrow>
           if v > 255 then Inl (luaX_lexerror nf ls ''escape sequence too large'' TK_STRING)
           else lex_save nf (char_of v) ls)))"

lemma escape_digits_less: "escape_digits n c d ls = (v, ls') \<Longrightarrow> current ls \<noteq> None \<Longrightarrow> length (rest ls') < length (rest ls)"
proof (induction n c d ls rule: escape_digits.induct)
  case (1 n c d ls)
  have "length (rest (lex_next ls)) < length (rest ls)" by (rule next_less [OF "1.prems"(2)])
  then show ?case using "1.prems"(1) "1.IH" [OF refl refl refl]
    by (subst (asm) escape_digits.simps) (force simp: Let_def split: nat.splits option.splits if_splits)
qed

lemma read_escape_le:
  assumes "read_escape nf ls = Inr ls'"
  shows "length (rest ls') \<le> length (rest ls)"
proof (cases "current ls")
  case None
  then show ?thesis using assms by (simp add: read_escape_def)
next
  case (Some c)
  then have c: "current ls \<noteq> None" by simp
  obtain v l1 where d: "escape_digits 2 0 c ls = (v, l1)" by fastforce
  consider e where "simple_escape c = Some e"
    | "simple_escape c = None" "c = CHR 0x0A \<or> c = CHR 0x0D"
    | "simple_escape c = None" "c \<noteq> CHR 0x0A" "c \<noteq> CHR 0x0D" "\<not> isdigit (uchar_nat c)"
    | "simple_escape c = None" "c \<noteq> CHR 0x0A" "c \<noteq> CHR 0x0D" "isdigit (uchar_nat c)" by (cases "simple_escape c") auto
  then show ?thesis
  proof cases
    case 1
    with assms Some show ?thesis by (auto simp: read_escape_def sbind_Inr lex_save_fields)
  next
    case 2
    with assms Some obtain l2 where l: "lex_save nf (CHR 0x0A) ls = Inr l2" "inclinenumber nf l2 = Inr ls'"
      by (auto simp: read_escape_def sbind_Inr)
    from inclinenumber_less [OF l(2)] c l(1) show ?thesis by (simp add: lex_save_fields)
  next
    case 3
    then have "save_and_next nf ls = Inr ls'" using assms Some by (simp add: read_escape_def)
    from save_and_next_less [OF this c] show ?thesis by simp
  next
    case 4
    then have "lex_save nf (char_of v) l1 = Inr ls'" using assms Some d by (auto simp: read_escape_def split: if_splits)
    with escape_digits_less [OF d c] show ?thesis by (simp add: lex_save_fields)
  qed
qed

function string_loop :: "'n number_format \<Rightarrow> char \<Rightarrow> 'n LexState \<Rightarrow> string + 'n LexState" where
  "string_loop nf del ls = (
     if current ls = Some del then Inr ls
     else (case current ls of
        None \<Rightarrow> Inl (luaX_lexerror nf ls ''unfinished string'' TK_EOS)
      | Some c \<Rightarrow>
         if c = CHR 0x0A \<or> c = CHR 0x0D then Inl (luaX_lexerror nf ls ''unfinished string'' TK_STRING)
         else if c = CHR 0x5C then sbind (read_escape nf (lex_next ls)) (string_loop nf del)
         else sbind (save_and_next nf ls) (string_loop nf del)))"
  by pat_completeness auto
termination
proof (relation "measure (\<lambda>(nf, del, ls). length (rest ls))", goal_cases)
  case (2 nf del ls c l1)
  then have "length (rest (lex_next ls)) < length (rest ls)" by (intro next_less) simp
  with read_escape_le [OF 2(5)] show ?case by simp
qed (auto dest: save_and_next_less)

declare string_loop.simps [simp del]

definition read_string :: "'n number_format \<Rightarrow> char \<Rightarrow> 'n LexState \<Rightarrow> string + ('n LexState \<times> string)" where
  "read_string nf del ls =
     sbind (save_and_next nf ls) (\<lambda>ls.
     sbind (string_loop nf del ls) (\<lambda>ls.
     sbind (save_and_next nf ls) (\<lambda>ls.
     Inr (ls, take (length (buff ls) - 2) (drop 1 (buff ls))))))"

subsection \<open>The analyzer\<close>

text \<open>A token of one character, or of two when \<open>=\<close> follows.\<close>

definition with_eq :: "char \<Rightarrow> nat \<Rightarrow> 'n LexState \<Rightarrow> 'n LexState \<times> 'n Token option" where
  "with_eq c tk ls = (let ls = lex_next ls in
     if current ls \<noteq> Some (CHR ''='') then (ls, Some (uchar_nat c, NoInfo)) else (lex_next ls, Some (tk, NoInfo)))"

definition lex_comment :: "'n number_format \<Rightarrow> 'n LexState \<Rightarrow> string + ('n LexState \<times> 'n Token option)" where
  "lex_comment nf ls = (let
     ls = lex_next ls;
     short = (\<lambda>ls. Inr (skip_while (\<lambda>c. c \<noteq> 10 \<and> c \<noteq> 13) ls, None))
   in if current ls = Some (CHR ''['') then
        sbind (skip_sep nf ls) (\<lambda>(sep, ls). let ls = ls\<lparr>buff := []\<rparr> in
          if sep \<ge> 0 then sbind (read_long_string nf False (nat sep) ls) (\<lambda>(ls, _). Inr (ls\<lparr>buff := []\<rparr>, None))
          else short ls)
      else short ls)"

text \<open>The cases of \<open>llex\<close> for a bracket, for strings, numerals, dots and names.\<close>

definition lex_bracket :: "'n number_format \<Rightarrow> 'n LexState \<Rightarrow> string + ('n LexState \<times> 'n Token option)" where
  "lex_bracket nf ls =
     sbind (skip_sep nf ls) (\<lambda>(sep, ls).
       if sep \<ge> 0 then sbind (read_long_string nf True (nat sep) ls) (\<lambda>(ls, s). Inr (ls, Some (TK_STRING, StrInfo s)))
       else if sep = - 1 then Inr (ls, Some (uchar_nat (CHR ''[''), NoInfo))
       else Inl (luaX_lexerror nf ls ''invalid long string delimiter'' TK_STRING))"

definition lex_string :: "'n number_format \<Rightarrow> char \<Rightarrow> 'n LexState \<Rightarrow> string + ('n LexState \<times> 'n Token option)" where
  "lex_string nf del ls = sbind (read_string nf del ls) (\<lambda>(ls, s). Inr (ls, Some (TK_STRING, StrInfo s)))"

definition lex_number :: "'n lex_env \<Rightarrow> 'n LexState \<Rightarrow> string + ('n LexState \<times> 'n Token option)" where
  "lex_number env ls = sbind (read_numeral env ls) (\<lambda>(ls, r). Inr (ls, Some (TK_NUMBER, NumInfo r)))"

definition lex_dots :: "'n lex_env \<Rightarrow> 'n LexState \<Rightarrow> string + ('n LexState \<times> 'n Token option)" where
  "lex_dots env ls = (let nf = env_format env in
     sbind (save_and_next nf ls) (\<lambda>ls.
     sbind (check_next nf ''.'' ls) (\<lambda>(d, ls).
       if d then sbind (check_next nf ''.'' ls) (\<lambda>(d, ls). Inr (ls, Some (if d then TK_DOTS else TK_CONCAT, NoInfo)))
       else if \<not> currIs isdigit ls then Inr (ls, Some (uchar_nat (CHR ''.''), NoInfo))
       else lex_number env ls)))"

definition lex_name :: "'n number_format \<Rightarrow> 'n LexState \<Rightarrow> string + ('n LexState \<times> 'n Token option)" where
  "lex_name nf ls =
     sbind (save_and_next nf ls) (\<lambda>ls.
     sbind (save_while nf isnamechar ls) (\<lambda>ls.
       let ts = buff ls in
       if reserved ts > 0 then Inr (ls, Some (reserved ts - 1 + FIRST_RESERVED, NoInfo))
       else Inr (ls, Some (TK_NAME, StrInfo ts))))"

text \<open>One round of the loop of \<open>llex\<close>: no token means \<open>continue\<close>.\<close>

definition llex_step :: "'n lex_env \<Rightarrow> 'n LexState \<Rightarrow> string + ('n LexState \<times> 'n Token option)" where
  "llex_step env ls = (case current ls of
     None \<Rightarrow> Inr (ls, Some (TK_EOS, NoInfo))
   | Some c \<Rightarrow>
      if c = CHR 0x0A \<or> c = CHR 0x0D then sbind (inclinenumber (env_format env) ls) (\<lambda>ls. Inr (ls, None))
      else if c = CHR ''-'' then
        (if current (lex_next ls) \<noteq> Some (CHR ''-'') then Inr (lex_next ls, Some (uchar_nat (CHR ''-''), NoInfo))
         else lex_comment (env_format env) (lex_next ls))
      else if c = CHR ''['' then lex_bracket (env_format env) ls
      else if c = CHR ''='' then Inr (with_eq (CHR ''='') TK_EQ ls)
      else if c = CHR ''<'' then Inr (with_eq (CHR ''<'') TK_LE ls)
      else if c = CHR ''>'' then Inr (with_eq (CHR ''>'') TK_GE ls)
      else if c = CHR ''~'' then Inr (with_eq (CHR ''~'') TK_NE ls)
      else if c = CHR 0x22 \<or> c = CHR 0x27 then lex_string (env_format env) c ls
      else if c = CHR ''.'' then lex_dots env ls
      else if isspace (uchar_nat c) then Inr (lex_next ls, None)
      else if isdigit (uchar_nat c) then lex_number env ls
      else if isalpha (uchar_nat c) \<or> c = CHR ''_'' then lex_name (env_format env) ls
      else Inr (lex_next ls, Some (uchar_nat c, NoInfo)))"

subsection \<open>Progress\<close>

lemma save_while_le: "save_while nf f ls = Inr ls' \<Longrightarrow> length (rest ls') \<le> length (rest ls)"
proof (induction nf f ls rule: save_while.induct)
  case (1 nf f ls)
  show ?case
  proof (cases "currIs f ls")
    case False
    then show ?thesis using "1.prems" by (simp add: save_while.simps [of nf f ls])
  next
    case True
    with "1.prems" obtain l1 where l: "save_and_next nf ls = Inr l1" "save_while nf f l1 = Inr ls'"
      by (auto simp: save_while.simps [of nf f ls] sbind_Inr)
    have "current ls \<noteq> None" using True by (auto simp: currIs_def split: option.splits)
    from "1.IH" [OF True l] save_and_next_less [OF l(1) this] show ?thesis by simp
  qed
qed

lemma skip_while_le: "length (rest (skip_while f ls)) \<le> length (rest ls)"
proof (induction f ls rule: skip_while.induct)
  case (1 f ls)
  show ?case
  proof (cases "currIs f ls")
    case True
    then have "current ls \<noteq> None" by (auto simp: currIs_def split: option.splits)
    with "1.IH" [OF True] True show ?thesis by (simp add: skip_while.simps [of f ls])
  qed (simp add: skip_while.simps [of f ls])
qed

lemma check_next_le: "check_next nf cs ls = Inr (b, ls') \<Longrightarrow> length (rest ls') \<le> length (rest ls)"
  by (auto simp: check_next_def sbind_Inr split: option.splits if_splits dest: save_and_next_less)

lemma long_loop_le: "long_loop nf i sep ls = Inr ls' \<Longrightarrow> length (rest ls') \<le> length (rest ls)"
proof (induction nf i sep ls rule: long_loop.induct)
  case (1 nf i sep ls)
  then obtain c where c: "current ls = Some c" by (cases "current ls") (simp_all add: long_loop.simps [of nf i sep ls])
  consider "c = CHR ''[''" | "c = CHR '']''" | "c = CHR 0x0A \<or> c = CHR 0x0D"
    | "c \<noteq> CHR ''[''" "c \<noteq> CHR '']''" "\<not> (c = CHR 0x0A \<or> c = CHR 0x0D)" by blast
  then show ?case
  proof cases
    case 1
    note b = this
    with "1.prems" c obtain n l1 where l1: "skip_sep nf ls = Inr (n, l1)"
      and r: "(if n = int sep then \<exists>l2. save_and_next nf l1 = Inr l2 \<and> sep \<noteq> 0 \<and> long_loop nf i sep l2 = Inr ls'
        else long_loop nf i sep l1 = Inr ls')"
      by (auto simp: long_loop.simps [of nf i sep ls] sbind_Inr split: if_splits)
    have less: "length (rest l1) < length (rest ls)" using skip_sep_less [OF l1] c by simp
    show ?thesis
    proof (cases "n = int sep")
      case True
      with r obtain l2 where l2: "save_and_next nf l1 = Inr l2" "sep \<noteq> 0" "long_loop nf i sep l2 = Inr ls'" by auto
      have "current l1 \<noteq> None" using skip_sep_current [OF l1] True c by simp
      from save_and_next_less [OF l2(1) this] "1.IH"(1) [OF c b l1 refl True l2] less show ?thesis by simp
    next
      case False
      with r have "long_loop nf i sep l1 = Inr ls'" by simp
      from "1.IH"(2) [OF c b l1 refl False this] less show ?thesis by simp
    qed
  next
    case 2
    note b = this
    with "1.prems" c obtain n l1 where l1: "skip_sep nf ls = Inr (n, l1)"
      and r: "(if n = int sep then save_and_next nf l1 = Inr ls' else long_loop nf i sep l1 = Inr ls')"
      by (auto simp: long_loop.simps [of nf i sep ls] sbind_Inr split: if_splits)
    have less: "length (rest l1) < length (rest ls)" using skip_sep_less [OF l1] c by simp
    show ?thesis
    proof (cases "n = int sep")
      case True
      have "current l1 \<noteq> None" using skip_sep_current [OF l1] True c by simp
      with True r save_and_next_less [of nf l1 ls'] less show ?thesis by simp
    next
      case False
      with r have "long_loop nf i sep l1 = Inr ls'" by simp
      from "1.IH"(3) [OF c _ b l1 refl False this] b less show ?thesis by simp
    qed
  next
    case 3
    with "1.prems" c obtain l1 l2 where l: "lex_save nf (CHR 0x0A) ls = Inr l1" "inclinenumber nf l1 = Inr l2"
      and r: "long_loop nf i sep (if i then l2 else l2\<lparr>buff := []\<rparr>) = Inr ls'"
      by (auto simp: long_loop.simps [of nf i sep ls] sbind_Inr)
    have "length (rest l2) < length (rest ls)" using inclinenumber_less [OF l(2)] l(1) c by (simp add: lex_save_fields)
    moreover have "rest (l2\<lparr>buff := []\<rparr>) = rest l2" by (simp add: rest_def split: option.splits)
    ultimately show ?thesis using "1.IH"(4) [OF c _ _ 3 l r] 3 by (auto split: if_splits)
  next
    case 4
    show ?thesis
    proof (cases i)
      case True
      with 4 "1.prems" c obtain l1 where l: "save_and_next nf ls = Inr l1" "long_loop nf i sep l1 = Inr ls'"
        by (auto simp: long_loop.simps [of nf True sep ls] sbind_Inr)
      from "1.IH"(5) [OF c 4 True l] save_and_next_less [OF l(1)] c show ?thesis by simp
    next
      case False
      with 4 "1.prems" c have "long_loop nf i sep (lex_next ls) = Inr ls'" by (simp add: long_loop.simps [of nf False sep ls])
      from "1.IH"(6) [OF c 4 False this] c show ?thesis by simp
    qed
  qed
qed

lemma string_loop_le: "string_loop nf del ls = Inr ls' \<Longrightarrow> length (rest ls') \<le> length (rest ls) \<and> current ls' = Some del"
proof (induction nf del ls rule: string_loop.induct)
  case (1 nf del ls)
  show ?case
  proof (cases "current ls = Some del")
    case True
    then show ?thesis using "1.prems" by (simp add: string_loop.simps [of nf del ls])
  next
    case False
    then obtain c where c: "current ls = Some c" using "1.prems" by (cases "current ls") (simp_all add: string_loop.simps [of nf del ls])
    with False "1.prems" have n: "\<not> (c = CHR 0x0A \<or> c = CHR 0x0D)" by (auto simp: string_loop.simps [of nf del ls])
    show ?thesis
    proof (cases "c = CHR 0x5C")
      case True
      with False c n "1.prems" obtain l1 where l: "read_escape nf (lex_next ls) = Inr l1" "string_loop nf del l1 = Inr ls'"
        by (auto simp: string_loop.simps [of nf del ls] sbind_Inr)
      have "length (rest l1) \<le> length (rest ls)" using read_escape_le [OF l(1)] c by simp
      with "1.IH"(1) [OF False c n True l] show ?thesis by simp
    next
      case b: False
      with False c n "1.prems" obtain l1 where l: "save_and_next nf ls = Inr l1" "string_loop nf del l1 = Inr ls'"
        by (auto simp: string_loop.simps [of nf del ls] sbind_Inr)
      from "1.IH"(2) [OF False c n b l] save_and_next_less [OF l(1)] c show ?thesis by simp
    qed
  qed
qed

lemma read_long_string_less:
  assumes "read_long_string nf i sep ls = Inr (ls', s)" "current ls \<noteq> None"
  shows "length (rest ls') < length (rest ls)"
proof -
  from assms(1) obtain l1 l2 where l: "save_and_next nf ls = Inr l1"
    "(if currIsNewline l1 then inclinenumber nf l1 else Inr l1) = Inr l2" "long_loop nf i sep l2 = Inr ls'"
    by (auto simp: read_long_string_def sbind_Inr)
  have "length (rest l2) \<le> length (rest l1)"
    using l(2) inclinenumber_less [of nf l1 l2] by (auto simp: currIsNewline_def split: if_splits)
  with save_and_next_less [OF l(1) assms(2)] long_loop_le [OF l(3)] show ?thesis by simp
qed

lemma read_string_less:
  assumes "read_string nf del ls = Inr (ls', s)" "current ls \<noteq> None"
  shows "length (rest ls') < length (rest ls)"
proof -
  from assms(1) obtain l1 l2 where l: "save_and_next nf ls = Inr l1" "string_loop nf del l1 = Inr l2" "save_and_next nf l2 = Inr ls'"
    by (auto simp: read_string_def sbind_Inr)
  from string_loop_le [OF l(2)] save_and_next_less [OF l(3)] save_and_next_less [OF l(1) assms(2)] show ?thesis by simp
qed

lemma buffreplace_rest [simp]: "rest (buffreplace a b ls) = rest ls"
  by (simp add: buffreplace_def rest_def split: option.splits)

lemma trydecpoint_rest: "trydecpoint env ls = Inr (ls', r) \<Longrightarrow> rest ls' = rest ls"
  by (auto simp: trydecpoint_def Let_def split: prod.splits bool.splits) (simp add: rest_def split: option.splits)

lemma convert_numeral_rest: "convert_numeral env ls = Inr (ls', r) \<Longrightarrow> rest ls' = rest ls"
  by (auto simp: convert_numeral_def Let_def split: prod.splits bool.splits dest: trydecpoint_rest)

lemma read_numeral_less:
  assumes "read_numeral env ls = Inr (ls', r)" "current ls \<noteq> None"
  shows "length (rest ls') < length (rest ls)"
proof -
  define nf where "nf = env_format env"
  from assms(1) [unfolded read_numeral_def Let_def, folded nf_def] obtain l1 l2 e l3 l4 l5 l6 where l: "save_and_next nf ls = Inr l1" "save_while nf isnumchar l1 = Inr l2"
    "check_next nf ''Ee'' l2 = Inr (e, l3)" "(if e then sbind (check_next nf ''+-'' l3) (\<lambda>(_, ls). Inr ls) else Inr l3) = Inr l4"
    "save_while nf isnamechar l4 = Inr l5" "lex_save nf (CHR 0x00) l5 = Inr l6"
    "convert_numeral env l6 = Inr (ls', r)"
    by (auto simp: sbind_Inr)
  have "length (rest l4) \<le> length (rest l3)"
    using l(4) by (auto simp: sbind_Inr split: if_splits dest: check_next_le)
  with save_and_next_less [OF l(1) assms(2)] save_while_le [OF l(2)] check_next_le [OF l(3)] save_while_le [OF l(5)] lex_save_fields(3) [OF l(6)] convert_numeral_rest [OF l(7)]
  show ?thesis by simp
qed

lemma skip_while_less: "current ls \<noteq> None \<Longrightarrow> length (rest (skip_while f (lex_next ls))) < length (rest ls)"
  using skip_while_le [of f "lex_next ls"] next_less [of ls] by simp

lemma rest_reset [simp]:
  "rest (ls\<lparr>buff := b\<rparr>) = rest ls" "rest (ls\<lparr>linenumber := n\<rparr>) = rest ls" "rest (ls\<lparr>lastline := n\<rparr>) = rest ls" "current (ls\<lparr>buff := b\<rparr>) = current ls"
  by (simp_all add: rest_def split: option.splits)

lemma lex_comment_less:
  assumes "lex_comment nf ls = Inr (ls', r)" "current ls \<noteq> None"
  shows "length (rest ls') < length (rest ls)"
proof (cases "current (lex_next ls) = Some (CHR ''['')")
  case False
  then show ?thesis using assms by (auto simp: lex_comment_def Let_def intro: skip_while_less)
next
  case True
  then obtain n l1 where l: "skip_sep nf (lex_next ls) = Inr (n, l1)" using assms(1) by (auto simp: lex_comment_def Let_def sbind_Inr)
  have "length (rest l1) < length (rest (lex_next ls))" by (rule skip_sep_less [OF l]) (simp add: True)
  then have less: "length (rest l1) < length (rest ls)" using next_less [OF assms(2)] by simp
  show ?thesis
  proof (cases "n \<ge> 0")
    case n: True
    then obtain l2 s where l2: "read_long_string nf False (nat n) (l1\<lparr>buff := []\<rparr>) = Inr (l2, s)" "ls' = l2\<lparr>buff := []\<rparr>"
      using assms(1) True l by (auto simp: lex_comment_def Let_def sbind_Inr)
    have "current l1 \<noteq> None" using skip_sep_current [OF l n] True by simp
    with read_long_string_less [OF l2(1)] l2(2) less show ?thesis by simp
  next
    case False
    then have "ls' = skip_while (\<lambda>c. c \<noteq> 10 \<and> c \<noteq> 13) (l1\<lparr>buff := []\<rparr>)" using assms(1) True l by (auto simp: lex_comment_def Let_def)
    with skip_while_le [of "\<lambda>c. c \<noteq> 10 \<and> c \<noteq> 13" "l1\<lparr>buff := []\<rparr>"] less show ?thesis by simp
  qed
qed

lemma with_eq_less: "with_eq c tk ls = (ls', r) \<Longrightarrow> current ls \<noteq> None \<Longrightarrow> length (rest ls') < length (rest ls)"
  using next_less [of ls] next_less [of "lex_next ls"] by (auto simp: with_eq_def Let_def split: if_splits)

lemma lex_bracket_less:
  assumes "lex_bracket nf ls = Inr (ls', r)" "current ls \<noteq> None"
  shows "length (rest ls') < length (rest ls)"
proof -
  from assms(1) obtain n l1 where l: "skip_sep nf ls = Inr (n, l1)" by (auto simp: lex_bracket_def sbind_Inr)
  note less = skip_sep_less [OF l assms(2)]
  show ?thesis
  proof (cases "n \<ge> 0")
    case True
    then obtain s where "read_long_string nf True (nat n) l1 = Inr (ls', s)" using assms(1) l by (auto simp: lex_bracket_def sbind_Inr)
    moreover have "current l1 \<noteq> None" using skip_sep_current [OF l True] assms(2) by simp
    ultimately show ?thesis using read_long_string_less less by fastforce
  next
    case False
    then show ?thesis using assms(1) l less by (auto simp: lex_bracket_def split: if_splits)
  qed
qed

lemma lex_string_less: "lex_string nf del ls = Inr (ls', r) \<Longrightarrow> current ls \<noteq> None \<Longrightarrow> length (rest ls') < length (rest ls)"
  by (auto simp: lex_string_def sbind_Inr dest: read_string_less)

lemma lex_number_less: "lex_number env ls = Inr (ls', r) \<Longrightarrow> current ls \<noteq> None \<Longrightarrow> length (rest ls') < length (rest ls)"
  by (auto simp: lex_number_def sbind_Inr dest: read_numeral_less)

lemma lex_name_less: "lex_name nf ls = Inr (ls', r) \<Longrightarrow> current ls \<noteq> None \<Longrightarrow> length (rest ls') < length (rest ls)"
  by (auto simp: lex_name_def sbind_Inr Let_def split: if_splits dest!: save_and_next_less save_while_le)

lemma lex_dots_less:
  assumes "lex_dots env ls = Inr (ls', r)" "current ls \<noteq> None"
  shows "length (rest ls') < length (rest ls)"
proof -
  define nf where "nf = env_format env"
  from assms(1) [unfolded lex_dots_def Let_def, folded nf_def] obtain l1 d l2 where
    l: "save_and_next nf ls = Inr l1" "check_next nf ''.'' l1 = Inr (d, l2)"
    and r: "(if d then sbind (check_next nf ''.'' l2) (\<lambda>(d, ls). Inr (ls, Some (if d then TK_DOTS else TK_CONCAT, NoInfo)))
       else if \<not> currIs isdigit l2 then Inr (l2, Some (uchar_nat (CHR ''.''), NoInfo)) else lex_number env l2) = Inr (ls', r)"
    by (auto simp: sbind_Inr)
  have "length (rest l2) < length (rest ls)"
    using save_and_next_less [OF l(1) assms(2)] check_next_le [OF l(2)] by simp
  moreover have "length (rest ls') \<le> length (rest l2)"
  proof (cases d)
    case True
    with r obtain d' where "check_next nf ''.'' l2 = Inr (d', ls')" by (auto simp: sbind_Inr)
    then show ?thesis by (rule check_next_le)
  next
    case False
    then show ?thesis using r lex_number_less [of env l2 ls' r] by (auto simp: currIs_def split: if_splits option.splits)
  qed
  ultimately show ?thesis by simp
qed

lemmas lex_less = inclinenumber_less lex_comment_less lex_bracket_less with_eq_less lex_string_less lex_dots_less lex_number_less lex_name_less

lemma llex_step_cases:
  assumes "llex_step env ls = Inr (ls', r)" "current ls = Some c"
  obtains "inclinenumber (env_format env) ls = Inr ls'" "r = None" | "ls' = lex_next ls" "\<forall>t. r = Some t \<longrightarrow> fst t < 256"
    | "lex_comment (env_format env) (lex_next ls) = Inr (ls', r)" "current (lex_next ls) \<noteq> None"
    | "lex_bracket (env_format env) ls = Inr (ls', r)" | ch tk where "with_eq ch tk ls = (ls', r)" "tk \<in> {TK_EQ, TK_LE, TK_GE, TK_NE}"
    | "lex_string (env_format env) c ls = Inr (ls', r)" | "lex_dots env ls = Inr (ls', r)"
    | "lex_number env ls = Inr (ls', r)" | "lex_name (env_format env) ls = Inr (ls', r)"
  using assms(1) unfolding llex_step_def assms(2) option.case
  by (simp only: split: if_split_asm) (simp_all add: sbind_Inr, (metis fst_conv option.inject uchar_nat_less option.distinct(1))+)

lemma llex_step_eof: "current ls = None \<Longrightarrow> llex_step env ls = Inr (ls, Some (TK_EOS, NoInfo))"
  by (simp add: llex_step_def)

lemma llex_step_less:
  assumes "llex_step env ls = Inr (ls', r)" "current ls \<noteq> None"
  shows "length (rest ls') < length (rest ls)"
proof -
  obtain c where c: "current ls = Some c" using assms(2) by auto
  from assms(1) c show ?thesis
  proof (cases rule: llex_step_cases)
    case 3
    from lex_comment_less [OF this] next_less [OF assms(2)] show ?thesis by simp
  qed (use lex_less [OF _ assms(2)] next_less [OF assms(2)] in \<open>simp_all\<close>)
qed

subsection \<open>Tokens of the input\<close>

function llex_loop :: "'n lex_env \<Rightarrow> 'n LexState \<Rightarrow> string + ('n LexState \<times> 'n Token)" where
  "llex_loop env ls = sbind (llex_step env ls) (\<lambda>(ls1, r). case r of Some t \<Rightarrow> Inr (ls1, t) | None \<Rightarrow> llex_loop env ls1)"
  by pat_completeness auto
termination
proof (relation "measure (\<lambda>(env, ls). length (rest ls))", simp, goal_cases)
  case (1 env ls p ls1 r)
  then have "current ls \<noteq> None" by (cases "current ls") (auto simp: llex_step_eof)
  with 1 show ?case by (auto dest: llex_step_less)
qed

declare llex_loop.simps [simp del]

definition llex :: "'n lex_env \<Rightarrow> 'n LexState \<Rightarrow> string + ('n LexState \<times> 'n Token)" where
  "llex env ls = llex_loop env (ls\<lparr>buff := []\<rparr>)"

definition luaX_next :: "'n lex_env \<Rightarrow> 'n LexState \<Rightarrow> string + 'n LexState" where
  "luaX_next env ls = (let ls = ls\<lparr>lastline := linenumber ls\<rparr> in
     if fst (lookahead ls) \<noteq> TK_EOS then Inr (ls\<lparr>ls_t := lookahead ls, lookahead := (TK_EOS, snd (lookahead ls))\<rparr>)
     else sbind (llex env ls) (\<lambda>(ls, t). Inr (ls\<lparr>ls_t := t\<rparr>)))"

definition luaX_lookahead :: "'n lex_env \<Rightarrow> 'n LexState \<Rightarrow> string + 'n LexState" where
  "luaX_lookahead env ls = sbind (llex env ls) (\<lambda>(ls, t). Inr (ls\<lparr>lookahead := t\<rparr>))"

lemma word_index_bound: "word_index ws i s \<le> i + length ws"
  by (induction ws i s rule: word_index.induct) auto

lemma word_index_correct: "0 < word_index ws i s \<Longrightarrow> ws ! (word_index ws i s - 1 - i) = s \<and> i < word_index ws i s"
proof (induction ws i s rule: word_index.induct)
  case (2 w ws i s)
  then show ?case by (cases "w = s") (auto simp: nth_Cons' dest: Suc_lessD)
qed simp

lemma reserved_bound: "reserved s \<le> 21"
  using word_index_bound [of "take NUM_RESERVED luaX_tokens" 0 s] by (simp add: reserved_def NUM_RESERVED_def luaX_tokens_def)

lemma word_index_pos: "0 < word_index ws i s \<longleftrightarrow> s \<in> set ws"
  by (induction ws i s rule: word_index.induct) auto

lemma reserved_word:
  assumes "0 < reserved s"
  shows "luaX_token2str nf (reserved s - 1 + FIRST_RESERVED) = s"
proof -
  have "take NUM_RESERVED luaX_tokens ! (reserved s - 1) = s" using word_index_correct [of "take NUM_RESERVED luaX_tokens" 0 s] assms by (simp add: reserved_def)
  moreover have "reserved s - 1 < NUM_RESERVED" using reserved_bound [of s] assms by (simp add: NUM_RESERVED_def)
  ultimately show ?thesis by (simp add: luaX_token2str_def)
qed

lemma step_token:
  assumes "llex_step env ls = Inr (ls', Some t)" "current ls \<noteq> None"
  shows "fst t \<noteq> TK_EOS"
proof -
  obtain c where c: "current ls = Some c" using assms(2) by auto
  have u: "uchar_nat d \<noteq> TK_EOS" for d using uchar_nat_less [of d] unfolding TK_EOS_def by linarith
  from assms(1) c show ?thesis
  proof (cases rule: llex_step_cases)
    case 3
    then show ?thesis by (auto simp: lex_comment_def Let_def sbind_Inr split: if_splits)
  next
    case 4
    then show ?thesis using u by (auto simp: lex_bracket_def sbind_Inr TK_defs split: if_splits)
  next
    case (5 ch tk)
    then show ?thesis using u by (auto simp: with_eq_def Let_def TK_defs split: if_splits)
  next
    case 7
    then show ?thesis using u by (auto simp: lex_dots_def lex_number_def Let_def sbind_Inr TK_defs split: if_splits)
  next
    case 9
    then show ?thesis using reserved_bound [of "buff ls'"] by (auto simp: lex_name_def Let_def sbind_Inr TK_defs FIRST_RESERVED_def split: if_splits)
  qed (auto simp: lex_string_def lex_number_def sbind_Inr TK_defs)
qed

end
