(* ===== verification/Lua_Lex_Props.thy ===== *)
theory Lua_Lex_Props
  imports Lua_Lex Lua_Strlib_Props
begin

text \<open>
  Correctness of the lexical analyzer: progress, names and reserved words, and the round trip with the quoting of \<open>string.format ("%q", s)\<close>
  from \<^verbatim>\<open>src/src/lstrlib.c\<close>, which the reader of string literals undoes.
\<close>

subsection \<open>An environment for evaluation\<close>

text \<open>Numbers are natural numbers in decimal notation, with the decimal point of the C locale.\<close>

fun digits_value :: "nat \<Rightarrow> nat \<Rightarrow> string \<Rightarrow> nat \<times> nat" where
  "digits_value v n [] = (v, n)"
| "digits_value v n (c # cs) =
     (if isdigit (uchar_nat c) then digits_value (10 * v + (uchar_nat c - 48)) (n + 1) cs else (v, n))"

definition nat_env :: "nat lex_env" where
  "nat_env = \<lparr>env_format = \<lparr>number2str = (\<lambda>n. replicate n (CHR ''1'')), cast_num = unat, pointer2str = (\<lambda>_. ''0'')\<rparr>,
     env_strtod = digits_value 0 0, env_strtoul = digits_value 0 0, env_decimal_point = Some (CHR ''.'')\<rparr>"

definition lex_text :: "string \<Rightarrow> nat LexState" where
  "lex_text s = luaX_setinput (luaZ_init [map (\<lambda>c. of_nat (uchar_nat c)) s]) ''=text''"

subsection \<open>Progress\<close>

text \<open>C23: The lexical analyzer terminates on every input and makes progress: a call of \<open>llex\<close> that returns a token other than \<open>TK_EOS\<close> has consumed at
  least one character, and \<open>TK_EOS\<close> is returned exactly at the end of the input.\<close>

theorem llex_progress:
  assumes "llex env ls = Inr (ls', t)"
  shows "if fst t = TK_EOS then rest ls' = [] else length (rest ls') < length (rest ls)"
proof -
  have "llex_loop env l = Inr (ls', t) \<Longrightarrow> if fst t = TK_EOS then rest ls' = [] else length (rest ls') < length (rest l)" for l
  proof (induction env l rule: llex_loop.induct)
    case (1 env l)
    then obtain l1 r where l: "llex_step env l = Inr (l1, r)"
      and r: "(case r of Some t \<Rightarrow> Inr (l1, t) | None \<Rightarrow> llex_loop env l1) = Inr (ls', t)"
      by (auto simp: llex_loop.simps [of env l] sbind_Inr)
    show ?case
    proof (cases "current l")
      case None
      then show ?thesis using l r by (auto simp: llex_step_eof rest_Nil)
    next
      case (Some c)
      then have less: "length (rest l1) < length (rest l)" using llex_step_less [OF l] by simp
      show ?thesis
      proof (cases r)
        case None
        with "1.IH" [OF l refl None] r less show ?thesis by (auto split: if_splits)
      next
        case t: (Some t')
        then have "t' = t" "l1 = ls'" using r by simp_all
        with step_token [of env l l1 t'] l Some t less show ?thesis by simp
      qed
    qed
  qed
  from this [of "ls\<lparr>buff := []\<rparr>"] assms show ?thesis by (auto simp: llex_def split: if_splits)
qed

theorem llex_progress_witness:
  "\<exists>ls'. llex nat_env (lex_text ''+x'') = Inr (ls', (43, NoInfo)) \<and> length (rest ls') < length (rest (lex_text ''+x''))"
proof -
  have c: "current (lex_text ''+x'') = Some (CHR ''+'')" by code_simp
  have "\<not> isspace (uchar_nat (CHR ''+''))" "\<not> isdigit (uchar_nat (CHR ''+''))" "\<not> isalpha (uchar_nat (CHR ''+''))" "uchar_nat (CHR ''+'') = 43"
    by code_simp+
  with c have "llex nat_env (lex_text ''+x'') = Inr (lex_next ((lex_text ''+x'')\<lparr>buff := []\<rparr>), (43, NoInfo))"
    by (simp add: llex_def llex_loop.simps [of nat_env "(lex_text ''+x'')\<lparr>buff := []\<rparr>"] llex_step_def)
  then show ?thesis using llex_progress [of nat_env "lex_text ''+x''"] by (fastforce simp: TK_EOS_def)
qed

subsection \<open>Names\<close>

lemma next_fields [simp]: "buff (lex_next ls) = buff ls" "linenumber (lex_next ls) = linenumber ls"
  by (simp_all add: lex_next_def split: prod.splits)

lemma lex_save_ok:
  assumes "length (buff ls) < 2 ^ 62"
  shows "\<exists>ls'. lex_save nf c ls = Inr ls' \<and> rest ls' = rest ls \<and> current ls' = current ls \<and> buff ls' = buff ls @ [c] \<and> linenumber ls' = linenumber ls"
proof -
  have "\<not> (length (buff ls) + 1 > buffsize ls \<and> buffsize ls \<ge> MAX_SIZET div 2)" using assms by (auto simp: MAX_SIZET_def)
  then obtain ls' where "lex_save nf c ls = Inr ls'" unfolding lex_save_def by (cases "length (buff ls) + 1 > buffsize ls") auto
  with lex_save_fields [OF this] show ?thesis by blast
qed

lemma save_and_next_ok:
  assumes "rest ls = c # s" "length (buff ls) < 2 ^ 62"
  shows "\<exists>ls'. save_and_next nf ls = Inr ls' \<and> rest ls' = s \<and> buff ls' = buff ls @ [c] \<and> linenumber ls' = linenumber ls"
proof -
  note c = rest_Cons [OF assms(1)]
  from lex_save_ok [OF assms(2), of nf c] obtain l1 where "lex_save nf c ls = Inr l1" "rest l1 = rest ls" "current l1 = current ls"
    "buff l1 = buff ls @ [c]" "linenumber l1 = linenumber ls" by blast
  with c assms(1) show ?thesis by (simp add: save_and_next_def)
qed

lemma save_while_ok:
  assumes "rest ls = w @ tail" "\<forall>c\<in>set w. f (uchar_nat c)" "tail = [] \<or> \<not> f (uchar_nat (hd tail))" "length (buff ls) + length w < 2 ^ 62"
  shows "\<exists>ls'. save_while nf f ls = Inr ls' \<and> rest ls' = tail \<and> buff ls' = buff ls @ w \<and> linenumber ls' = linenumber ls"
  using assms
proof (induction w arbitrary: ls)
  case Nil
  then have "\<not> currIs f ls" using rest_Cons [of ls] by (cases tail) (auto simp: currIs_def rest_Nil)
  with Nil show ?case by (simp add: save_while.simps [of nf f ls])
next
  case (Cons c w)
  have "rest ls = c # (w @ tail)" "length (buff ls) < 2 ^ 62" using Cons.prems(1,4) by simp_all
  from save_and_next_ok [OF this, of nf] obtain l1 where
    l1: "save_and_next nf ls = Inr l1" "rest l1 = w @ tail" "buff l1 = buff ls @ [c]" "linenumber l1 = linenumber ls" by blast
  have "\<exists>ls'. save_while nf f l1 = Inr ls' \<and> rest ls' = tail \<and> buff ls' = buff l1 @ w \<and> linenumber ls' = linenumber l1"
    using Cons.prems l1 by (intro Cons.IH) auto
  moreover have "currIs f ls" using Cons.prems(1,2) rest_Cons [of ls c "w @ tail"] by (simp add: currIs_def)
  ultimately show ?case using l1 by (simp add: save_while.simps [of nf f ls])
qed

definition isnamestart :: "char \<Rightarrow> bool" where
  "isnamestart c = (isalpha (uchar_nat c) \<or> c = CHR ''_'')"

lemma step_name:
  assumes "current ls = Some c" "isnamestart c"
  shows "llex_step env ls = lex_name (env_format env) ls"
proof -
  have "c \<noteq> CHR 0x0A \<and> c \<noteq> CHR 0x0D \<and> c \<noteq> CHR ''-'' \<and> c \<noteq> CHR ''['' \<and> c \<noteq> CHR ''='' \<and> c \<noteq> CHR ''<'' \<and> c \<noteq> CHR ''>'' \<and> c \<noteq> CHR ''~'' \<and>
     c \<noteq> CHR 0x22 \<and> c \<noteq> CHR 0x27 \<and> c \<noteq> CHR ''.''"
    using assms(2) by (auto simp: isnamestart_def isalpha_def isupper_def islower_def uchar_nat_def)
  moreover have "\<not> isspace (uchar_nat c)" "\<not> isdigit (uchar_nat c)"
    using assms(2) by (auto simp: isnamestart_def isalpha_def isupper_def islower_def isspace_def isdigit_def uchar_nat_def)
  ultimately show ?thesis using assms by (simp add: llex_step_def isnamestart_def)
qed

text \<open>A name is read to its end, whatever follows it: \<open>llex\<close> returns \<open>TK_NAME\<close> with the name, or the token of the reserved word, for which
  \<open>luaX_token2str\<close> gives the word back.\<close>

theorem llex_name:
  assumes "rest ls = w @ tail" "w \<noteq> []" "isnamestart (hd w)" "\<forall>c\<in>set w. isnamechar (uchar_nat c)"
    and "tail = [] \<or> \<not> isnamechar (uchar_nat (hd tail))" "length w < 2 ^ 62"
  shows "\<exists>ls' t. llex env ls = Inr (ls', t) \<and> rest ls' = tail \<and> linenumber ls' = linenumber ls \<and>
    (if w \<in> set (take NUM_RESERVED luaX_tokens) then luaX_token2str (env_format env) (fst t) = w else t = (TK_NAME, StrInfo w))"
proof -
  obtain c w' where w: "w = c # w'" using assms(2) by (cases w) auto
  define nf where "nf = env_format env"
  have r: "rest (ls\<lparr>buff := []\<rparr>) = c # (w' @ tail)" "length (buff (ls\<lparr>buff := []\<rparr>)) < 2 ^ 62" using assms(1) w by simp_all
  from save_and_next_ok [OF r, of nf] obtain l1 where
    l1: "save_and_next nf (ls\<lparr>buff := []\<rparr>) = Inr l1" "rest l1 = w' @ tail" "buff l1 = [c]" "linenumber l1 = linenumber ls" by auto
  have "\<exists>l2. save_while nf isnamechar l1 = Inr l2 \<and> rest l2 = tail \<and> buff l2 = buff l1 @ w' \<and> linenumber l2 = linenumber l1"
    using assms w l1 by (intro save_while_ok) auto
  then obtain l2 where l2: "save_while nf isnamechar l1 = Inr l2" "rest l2 = tail" "buff l2 = w" "linenumber l2 = linenumber ls"
    using l1 w by auto
  have "llex_step env (ls\<lparr>buff := []\<rparr>) = lex_name nf (ls\<lparr>buff := []\<rparr>)"
    unfolding nf_def by (rule step_name) (use rest_Cons [OF r(1)] assms(3) w in simp_all)
  then have e: "llex env ls = Inr (l2, if reserved w > 0 then (reserved w - 1 + FIRST_RESERVED, NoInfo) else (TK_NAME, StrInfo w))"
    using l1 l2 by (simp add: llex_def llex_loop.simps [of env "ls\<lparr>buff := []\<rparr>"] lex_name_def Let_def)
  have "0 < reserved w \<longleftrightarrow> w \<in> set (take NUM_RESERVED luaX_tokens)" by (simp add: reserved_def word_index_pos)
  with e l2 reserved_word [of w nf] show ?thesis unfolding nf_def by auto
qed

theorem llex_name_witness:
  "\<exists>ls' t. llex nat_env (lex_text ''while x'') = Inr (ls', t) \<and> rest ls' = '' x'' \<and> luaX_token2str (env_format nat_env) (fst t) = ''while''"
proof -
  have r: "rest (lex_text ''while x'') = ''while'' @ '' x''" by code_simp
  have "\<forall>c\<in>set ''while''. isnamechar (uchar_nat c)" "\<not> isnamechar (uchar_nat (hd '' x''))" "isnamestart (hd ''while'')"
    "''while'' \<in> set (take NUM_RESERVED luaX_tokens)" by code_simp+
  with llex_name [OF r, of nat_env] show ?thesis by auto
qed

subsection \<open>String literals\<close>

text \<open>\<open>addquoted\<close> of the string library.\<close>

definition quote_char :: "char \<Rightarrow> string" where
  "quote_char c = (
     if c = CHR 0x22 \<or> c = CHR 0x5C \<or> c = CHR 0x0A then [CHR 0x5C, c]
     else if c = CHR 0x0D then [CHR 0x5C, CHR ''r'']
     else if c = CHR 0x00 then CHR 0x5C # ''000''
     else [c])"

definition addquoted :: "string \<Rightarrow> string" where
  "addquoted s = CHR 0x22 # concat (map quote_char s) @ [CHR 0x22]"

text \<open>The state \<open>ls'\<close> has read up to \<open>s\<close> and has \<open>b\<close> in the buffer, on a line at most \<open>n\<close> lines below.\<close>

definition reads :: "'n LexState \<Rightarrow> nat \<Rightarrow> string \<Rightarrow> string \<Rightarrow> 'n LexState \<Rightarrow> bool" where
  "reads ls n s b ls' = (rest ls' = s \<and> buff ls' = buff ls @ b \<and> linenumber ls' \<le> linenumber ls + int n)"

lemma incline_ok:
  assumes "rest ls = CHR 0x0A # s" "s = [] \<or> hd s \<noteq> CHR 0x0D" "linenumber ls + 1 < MAX_INT"
  shows "\<exists>ls'. inclinenumber nf ls = Inr ls' \<and> reads ls 1 s [] ls'"
proof -
  have c: "current ls = Some (CHR 0x0A)" by (rule rest_Cons [OF assms(1)])
  have "rest (lex_next ls) = s" using assms(1) c by simp
  then have "\<not> (currIsNewline (lex_next ls) \<and> current (lex_next ls) \<noteq> current ls)"
    using assms(2) rest_Nil [of "lex_next ls"] c rest_Cons [of "lex_next ls"] by (cases s) (auto simp: currIsNewline_def)
  with assms c show ?thesis
    by (auto simp: inclinenumber_def Let_def reads_def)
qed

lemma escape_ok:
  assumes "rest ls = e @ s" "quote_char c = CHR 0x5C # e" "s = [] \<or> hd s \<noteq> CHR 0x0D" "linenumber ls + 1 < MAX_INT" "length (buff ls) < 2 ^ 62"
  shows "\<exists>ls'. read_escape nf ls = Inr ls' \<and> reads ls 1 s [c] ls'"
proof -
  consider "e = [c]" "c = CHR 0x22 \<or> c = CHR 0x5C" | "e = [c]" "c = CHR 0x0A" | "e = ''r''" "c = CHR 0x0D" | "e = ''000''" "c = CHR 0x00"
    using assms(2) by (auto simp: quote_char_def split: if_splits)
  then show ?thesis
  proof cases
    case 1
    then have r: "rest ls = c # s" using assms(1) by simp
    have "simple_escape (CHR 0x22) = None \<and> \<not> isdigit (uchar_nat (CHR 0x22)) \<and> simple_escape (CHR 0x5C) = None \<and> \<not> isdigit (uchar_nat (CHR 0x5C))"
      by code_simp
    then have "simple_escape c = None" "\<not> isdigit (uchar_nat c)" "\<not> (c = CHR 0x0A \<or> c = CHR 0x0D)" using 1(2) by auto
    then have "read_escape nf ls = save_and_next nf ls" by (simp add: read_escape_def rest_Cons [OF r])
    with save_and_next_ok [OF r assms(5), of nf] show ?thesis by (auto simp: reads_def)
  next
    case 2
    then have r: "rest ls = CHR 0x0A # s" using assms(1) by simp
    from lex_save_ok [OF assms(5), of nf "CHR 0x0A"] obtain l1 where l1: "lex_save nf (CHR 0x0A) ls = Inr l1" "rest l1 = CHR 0x0A # s" "buff l1 = buff ls @ [CHR 0x0A]"
      "linenumber l1 = linenumber ls" using r by auto
    have "read_escape nf ls = inclinenumber nf l1" using rest_Cons [OF r] l1(1) by (simp add: read_escape_def simple_escape_def)
    with incline_ok [OF l1(2) assms(3), of nf] l1 2 assms(4) show ?thesis by (auto simp: reads_def)
  next
    case 3
    then have r: "rest ls = CHR ''r'' # s" using assms(1) by simp
    from lex_save_ok [OF assms(5), of nf "CHR 0x0D"] obtain l1 where "lex_save nf (CHR 0x0D) ls = Inr l1" "rest l1 = rest ls" "current l1 = current ls"
      "buff l1 = buff ls @ [CHR 0x0D]" "linenumber l1 = linenumber ls" by auto
    with 3 r rest_Cons [OF r] show ?thesis by (auto simp: read_escape_def simple_escape_def reads_def)
  next
    case 4
    then have r: "rest ls = ''000'' @ s" using assms(1) by simp
    define l1 l2 l3 where "l1 = lex_next ls" and "l2 = lex_next l1" and "l3 = lex_next l2"
    have c0: "current ls = Some (CHR ''0'')" using r rest_Cons [of ls] by simp
    have r1: "rest l1 = ''00'' @ s" using r c0 by (simp add: l1_def)
    have c1: "current l1 = Some (CHR ''0'')" using r1 rest_Cons [of l1] by simp
    have r2: "rest l2 = ''0'' @ s" using r1 c1 by (simp add: l2_def)
    have c2: "current l2 = Some (CHR ''0'')" using r2 rest_Cons [of l2] by simp
    have r3: "rest l3 = s" using r2 c2 by (simp add: l3_def)
    have d: "isdigit (uchar_nat (CHR ''0''))" by code_simp
    have "escape_digits 2 0 (CHR ''0'') ls = (0, l3)"
      using c1 c2 d by (simp add: escape_digits.simps numeral_2_eq_2 Let_def flip: l1_def l2_def l3_def)
    moreover have "char_of (0 :: nat) = CHR 0x00" by code_simp
    ultimately have e: "read_escape nf ls = lex_save nf (CHR 0x00) l3" using c0 d by (simp add: read_escape_def simple_escape_def)
    have b: "buff l3 = buff ls" "linenumber l3 = linenumber ls" by (simp_all add: l1_def l2_def l3_def)
    then show ?thesis using lex_save_ok [of l3 nf "CHR 0x00"] assms(5) 4 r3 e by (auto simp: reads_def)
  qed
qed

lemma string_loop_ok:
  assumes "rest ls = concat (map quote_char s) @ CHR 0x22 # tail" "linenumber ls + int (length s) < MAX_INT" "length (buff ls) + length s < 2 ^ 62"
  shows "\<exists>ls'. string_loop nf (CHR 0x22) ls = Inr ls' \<and> reads ls (length s) (CHR 0x22 # tail) s ls'"
  using assms
proof (induction s arbitrary: ls)
  case Nil
  then have "current ls = Some (CHR 0x22)" using rest_Cons [of ls] by simp
  with Nil show ?case by (simp add: string_loop.simps [of nf _ ls] reads_def)
next
  case (Cons c s)
  define s' where "s' = concat (map quote_char s) @ CHR 0x22 # tail"
  have h: "s' = [] \<or> hd s' \<noteq> CHR 0x0D" by (cases s) (simp_all add: s'_def quote_char_def)
  have step: "\<exists>l1. string_loop nf (CHR 0x22) ls = string_loop nf (CHR 0x22) l1 \<and> reads ls 1 s' [c] l1"
  proof (cases "\<exists>e. quote_char c = CHR 0x5C # e")
    case True
    then obtain e where e: "quote_char c = CHR 0x5C # e" by blast
    have r: "rest ls = CHR 0x5C # (e @ s')" using Cons.prems(1) e by (simp add: s'_def)
    have c: "current ls = Some (CHR 0x5C)" by (rule rest_Cons [OF r])
    have "\<exists>l1. read_escape nf (lex_next ls) = Inr l1 \<and> reads (lex_next ls) 1 s' [c] l1"
      using Cons.prems(2,3) c r by (intro escape_ok [OF _ e h]) simp_all
    then show ?thesis using c by (auto simp: string_loop.simps [of nf _ ls] reads_def)
  next
    case False
    then have q: "quote_char c = [c]" "c \<noteq> CHR 0x22" "c \<noteq> CHR 0x5C" "c \<noteq> CHR 0x0A" "c \<noteq> CHR 0x0D"
      by (auto simp: quote_char_def split: if_splits)
    have r: "rest ls = c # s'" "length (buff ls) < 2 ^ 62" using Cons.prems(1,3) q(1) by (simp_all add: s'_def)
    from save_and_next_ok [OF r, of nf] q rest_Cons [OF r(1)] show ?thesis by (auto simp: string_loop.simps [of nf _ ls] reads_def)
  qed
  then obtain l1 where l1: "string_loop nf (CHR 0x22) ls = string_loop nf (CHR 0x22) l1" "reads ls 1 s' [c] l1" by blast
  have "\<exists>ls'. string_loop nf (CHR 0x22) l1 = Inr ls' \<and> reads l1 (length s) (CHR 0x22 # tail) s ls'"
    using Cons.prems l1(2) by (intro Cons.IH) (auto simp: reads_def s'_def)
  with l1 show ?case by (auto simp: reads_def)
qed

text \<open>C22: Every string of Lua survives quoting: where the input continues with the text that \<open>string.format("%q", s)\<close> produces, \<open>llex\<close> returns the token of a
  string literal with the contents \<open>s\<close> and stops right behind the closing quote.  The bounds are those of line numbers and of the token buffer.\<close>

theorem llex_addquoted:
  assumes "rest ls = addquoted s @ tail" "linenumber ls + int (length s) < MAX_INT" "length s + 2 < 2 ^ 62"
  shows "\<exists>ls'. llex env ls = Inr (ls', (TK_STRING, StrInfo s)) \<and> rest ls' = tail"
proof -
  define nf where "nf = env_format env"
  define l0 where "l0 = ls\<lparr>buff := []\<rparr>"
  have r: "rest l0 = CHR 0x22 # (concat (map quote_char s) @ CHR 0x22 # tail)" "length (buff l0) < 2 ^ 62"
    using assms(1) by (simp_all add: l0_def addquoted_def)
  from save_and_next_ok [OF r, of nf] obtain l1 where l1: "save_and_next nf l0 = Inr l1" "rest l1 = concat (map quote_char s) @ CHR 0x22 # tail"
    "buff l1 = [CHR 0x22]" "linenumber l1 = linenumber ls" by (auto simp: l0_def)
  have "\<exists>l2. string_loop nf (CHR 0x22) l1 = Inr l2 \<and> reads l1 (length s) (CHR 0x22 # tail) s l2"
    using assms l1 by (intro string_loop_ok) auto
  then obtain l2 where l2: "string_loop nf (CHR 0x22) l1 = Inr l2" "rest l2 = CHR 0x22 # tail" "buff l2 = CHR 0x22 # s"
    using l1(3) by (auto simp: reads_def)
  have "length (buff l2) < 2 ^ 62" using l2(3) assms(3) by simp
  from save_and_next_ok [OF l2(2) this, of nf] obtain l3 where l3: "save_and_next nf l2 = Inr l3" "rest l3 = tail" "buff l3 = (CHR 0x22 # s) @ [CHR 0x22]"
    using l2(3) by auto
  have "lex_string nf (CHR 0x22) l0 = Inr (l3, Some (TK_STRING, StrInfo s))"
    using l1(1) l2(1) l3(1,3) by (simp add: lex_string_def read_string_def)
  moreover have "llex_step env l0 = lex_string nf (CHR 0x22) l0" using rest_Cons [OF r(1)] by (simp add: llex_step_def nf_def)
  ultimately have "llex env ls = Inr (l3, (TK_STRING, StrInfo s))" by (simp add: llex_def llex_loop.simps [of env l0] flip: l0_def)
  with l3(2) show ?thesis by simp
qed

theorem llex_addquoted_witness:
  "\<exists>ls'. llex nat_env (lex_text (addquoted [CHR ''a'', CHR 0x0A, CHR 0x22, CHR 0x00] @ '' 1'')) =
     Inr (ls', (TK_STRING, StrInfo [CHR ''a'', CHR 0x0A, CHR 0x22, CHR 0x00])) \<and> rest ls' = '' 1''"
proof -
  let ?s = "[CHR ''a'', CHR 0x0A, CHR 0x22, CHR 0x00]"
  have "rest (lex_text (addquoted ?s @ '' 1'')) = addquoted ?s @ '' 1''" "linenumber (lex_text (addquoted ?s @ '' 1'')) = 1" by code_simp+
  then show ?thesis using llex_addquoted [of "lex_text (addquoted ?s @ '' 1'')" ?s "'' 1''" nat_env] by (simp add: MAX_INT_def)
qed

subsection \<open>NUL characters\<close>

text \<open>\<open>check_next\<close> takes a NUL for a character of its set: a dot followed by NUL is the concatenation operator.\<close>

lemma nul_as_dot:
  assumes "rest ls = [CHR ''.'', CHR 0x00, CHR ''x'']"
  shows "\<exists>ls'. llex env ls = Inr (ls', (TK_CONCAT, NoInfo)) \<and> rest ls' = ''x''"
proof -
  define nf where "nf = env_format env"
  define l0 where "l0 = ls\<lparr>buff := []\<rparr>"
  have r: "rest l0 = CHR ''.'' # [CHR 0x00, CHR ''x'']" "length (buff l0) < 2 ^ 62" using assms by (simp_all add: l0_def)
  from save_and_next_ok [OF r, of nf] obtain l1 where l1: "save_and_next nf l0 = Inr l1" "rest l1 = CHR 0x00 # ''x''" "length (buff l1) < 2 ^ 62"
    by (auto simp: l0_def)
  from save_and_next_ok [OF l1(2,3), of nf] obtain l2 where l2: "save_and_next nf l1 = Inr l2" "rest l2 = CHR ''x'' # []" by auto
  have "llex_step env l0 = Inr (l2, Some (TK_CONCAT, NoInfo))"
    using rest_Cons [OF r(1)] l1(1) rest_Cons [OF l1(2)] l2(1) rest_Cons [OF l2(2)]
    by (simp add: llex_step_def lex_dots_def check_next_def Let_def flip: nf_def)
  then have "llex env ls = Inr (l2, (TK_CONCAT, NoInfo))" by (simp add: llex_def llex_loop.simps [of env l0] flip: l0_def)
  with l2(2) show ?thesis by simp
qed

end
