(* ===== verification/Lua_String.thy ===== *)
theory Lua_String
  imports Lua_Lex "HOL-Library.Multiset"
begin

text \<open>
  \<^verbatim>\<open>src/src/lstring.c\<close>: the table in which Lua keeps every string exactly once.  A string object has an address, its contents,
  the hash value, the mark of a reserved word and what of the marks of the garbage collector matters here: whether it is dead and whether it is fixed.  The chains of
  the table are lists; \<open>malloc\<close> gives addresses that were not used before.
\<close>

record TString =
  ts_addr :: nat
  ts_str :: string
  ts_hash :: "32 word"
  ts_reserved :: nat
  ts_dead :: bool
  ts_fixed :: bool

record stringtable =
  strt :: "TString list list"
  nuse :: "32 word"
  sweeping :: bool
  next_addr :: nat

text \<open>The macro \<open>lmod\<close>: the remainder modulo a power of two.\<close>

definition lmod :: "32 word \<Rightarrow> nat \<Rightarrow> nat" where
  "lmod s size' = unat (s AND (of_nat size' - 1))"

text \<open>The hash loop of \<open>luaS_newlstr\<close>, with the step less one.\<close>

function hash_loop :: "nat \<Rightarrow> string \<Rightarrow> nat \<Rightarrow> 32 word \<Rightarrow> 32 word" where
  "hash_loop st s l1 h =
     (if l1 \<ge> Suc st then hash_loop st s (l1 - Suc st) (h XOR (push_bit 5 h + drop_bit 2 h + of_nat (uchar_nat (s ! (l1 - 1))))) else h)"
  by pat_completeness auto
termination by (relation "measure (\<lambda>(st, s, l1, h). l1)") auto

declare hash_loop.simps [simp del]

definition luaS_hash :: "string \<Rightarrow> 32 word" where
  "luaS_hash s = hash_loop (drop_bit 5 (length s)) s (length s) (of_nat (length s))"

definition chain_node :: "nat \<Rightarrow> TString \<Rightarrow> TString list list \<Rightarrow> TString list list" where
  "chain_node newsize p newhash = (let h1 = lmod (ts_hash p) newsize in newhash[h1 := p # newhash ! h1])"

definition luaS_resize :: "nat \<Rightarrow> stringtable \<Rightarrow> stringtable" where
  "luaS_resize newsize tb =
     (if sweeping tb then tb
      else tb\<lparr>strt := fold (fold (chain_node newsize)) (strt tb) (replicate newsize [])\<rparr>)"

definition sizeof_TString :: nat where "sizeof_TString = 24"

definition newlstr :: "string \<Rightarrow> 32 word \<Rightarrow> stringtable \<Rightarrow> string + (TString \<times> stringtable)" where
  "newlstr str h tb = (
     if length str + 1 > MAX_SIZET - sizeof_TString then Inl ''memory allocation error: block too big''
     else let
       ts = \<lparr>ts_addr = next_addr tb, ts_str = str, ts_hash = h, ts_reserved = 0, ts_dead = False, ts_fixed = False\<rparr>;
       h = lmod h (length (strt tb));
       tb = tb\<lparr>strt := (strt tb)[h := ts # strt tb ! h], nuse := nuse tb + 1, next_addr := next_addr tb + 1\<rparr>;
       tb = (if nuse tb > of_nat (length (strt tb)) \<and> int (length (strt tb)) \<le> MAX_INT div 2 then luaS_resize (length (strt tb) * 2) tb else tb)
     in Inr (ts, tb))"

text \<open>Changing the object at an address, wherever it is chained.\<close>

definition update_ts :: "nat \<Rightarrow> (TString \<Rightarrow> TString) \<Rightarrow> stringtable \<Rightarrow> stringtable" where
  "update_ts a f tb = tb\<lparr>strt := map (map (\<lambda>t. if ts_addr t = a then f t else t)) (strt tb)\<rparr>"

definition luaS_newlstr :: "string \<Rightarrow> stringtable \<Rightarrow> string + (TString \<times> stringtable)" where
  "luaS_newlstr str tb = (let h = luaS_hash str in
     case find (\<lambda>ts. length (ts_str ts) = length str \<and> ts_str ts = str) (strt tb ! lmod h (length (strt tb))) of
       Some ts \<Rightarrow> if ts_dead ts then Inr (ts\<lparr>ts_dead := False\<rparr>, update_ts (ts_addr ts) (\<lambda>t. t\<lparr>ts_dead := False\<rparr>) tb) else Inr (ts, tb)
     | None \<Rightarrow> newlstr str h tb)"

definition MINSTRTABSIZE :: nat where "MINSTRTABSIZE = 32"

definition strt_init :: stringtable where
  "strt_init = luaS_resize MINSTRTABSIZE \<lparr>strt = [], nuse = 0, sweeping = False, next_addr = 0\<rparr>"

text \<open>\<open>luaX_init\<close> of \<^verbatim>\<open>src/src/llex.c\<close>, for the words from position \<open>i\<close> on.\<close>

fun init_words :: "string list \<Rightarrow> nat \<Rightarrow> stringtable \<Rightarrow> string + stringtable" where
  "init_words [] i tb = Inr tb"
| "init_words (w # ws) i tb = sbind (luaS_newlstr w tb) (\<lambda>(ts, tb).
     init_words ws (i + 1) (update_ts (ts_addr ts) (\<lambda>t. t\<lparr>ts_fixed := True, ts_reserved := i + 1\<rparr>) tb))"

definition luaX_init :: "stringtable \<Rightarrow> string + stringtable" where
  "luaX_init tb = init_words (take NUM_RESERVED luaX_tokens) 0 tb"

subsection \<open>The invariant\<close>

definition strings :: "stringtable \<Rightarrow> TString list" where
  "strings tb = concat (strt tb)"

definition strt_ok :: "stringtable \<Rightarrow> bool" where
  "strt_ok tb \<longleftrightarrow> (\<exists>k<31. length (strt tb) = 2 ^ k) \<and>
     (\<forall>i<length (strt tb). \<forall>t\<in>set (strt tb ! i). lmod (ts_hash t) (length (strt tb)) = i) \<and>
     (\<forall>t\<in>set (strings tb). ts_hash t = luaS_hash (ts_str t) \<and> ts_addr t < next_addr tb) \<and>
     distinct (map ts_str (strings tb)) \<and> distinct (map ts_addr (strings tb))"

lemma lmod_less: "k < 32 \<Longrightarrow> lmod s (2 ^ k) < 2 ^ k"
proof -
  assume k: "k < 32"
  have "s AND (of_nat (2 ^ k) - 1) = take_bit k s" by (simp add: take_bit_eq_mask mask_eq_exp_minus_1)
  then have "lmod s (2 ^ k) = take_bit k (unat s)" by (simp add: lmod_def unsigned_take_bit_eq)
  then show ?thesis by simp
qed

definition in_bucket :: "nat \<Rightarrow> TString list list \<Rightarrow> bool" where
  "in_bucket n t \<longleftrightarrow> length t = n \<and> (\<forall>i<n. \<forall>x\<in>set (t ! i). lmod (ts_hash x) n = i)"

lemma mset_concat_push: "i < length t \<Longrightarrow> mset (concat (t[i := x # t ! i])) = add_mset x (mset (concat t))"
  by (induction t arbitrary: i) (auto split: nat.splits)

lemma chain_node_ok:
  assumes "in_bucket (2 ^ k) t" "k < 32"
  shows "in_bucket (2 ^ k) (chain_node (2 ^ k) x t) \<and> mset (concat (chain_node (2 ^ k) x t)) = add_mset x (mset (concat t))"
proof -
  have h: "lmod (ts_hash x) (2 ^ k) < length t" using lmod_less [OF assms(2)] assms(1) by (simp add: in_bucket_def)
  then show ?thesis using assms(1) mset_concat_push [OF h, of x]
    by (auto simp: chain_node_def Let_def in_bucket_def nth_list_update)
qed

lemma chain_nodes_ok:
  assumes "in_bucket (2 ^ k) t" "k < 32"
  shows "in_bucket (2 ^ k) (fold (chain_node (2 ^ k)) xs t) \<and> mset (concat (fold (chain_node (2 ^ k)) xs t)) = mset xs + mset (concat t)"
  using assms(1)
proof (induction xs arbitrary: t)
  case (Cons x xs)
  then show ?case using chain_node_ok [OF Cons.prems assms(2), of x] by simp
qed simp

lemma rehash_ok:
  assumes "in_bucket (2 ^ k) t" "k < 32"
  shows "in_bucket (2 ^ k) (fold (fold (chain_node (2 ^ k))) xss t) \<and> mset (concat (fold (fold (chain_node (2 ^ k))) xss t)) = mset (concat xss) + mset (concat t)"
  using assms(1)
proof (induction xss arbitrary: t)
  case (Cons xs xss)
  then show ?case using chain_nodes_ok [OF Cons.prems assms(2), of xs] by (simp add: ac_simps)
qed simp

lemma resize_ok:
  assumes "k < 32" "\<not> sweeping tb"
  shows "in_bucket (2 ^ k) (strt (luaS_resize (2 ^ k) tb)) \<and> mset (strings (luaS_resize (2 ^ k) tb)) = mset (strings tb) \<and>
    next_addr (luaS_resize (2 ^ k) tb) = next_addr tb"
proof -
  have "in_bucket (2 ^ k) (replicate (2 ^ k) [])" by (simp add: in_bucket_def)
  from rehash_ok [OF this assms(1), of "strt tb"] show ?thesis using assms(2)
    by (simp add: luaS_resize_def strings_def)
qed

lemma strt_ok_bucket: "strt_ok tb \<longleftrightarrow> (\<exists>k<31. in_bucket (2 ^ k) (strt tb)) \<and>
     (\<forall>t\<in>set (strings tb). ts_hash t = luaS_hash (ts_str t) \<and> ts_addr t < next_addr tb) \<and>
     distinct (map ts_str (strings tb)) \<and> distinct (map ts_addr (strings tb))"
  by (auto simp: strt_ok_def in_bucket_def)

lemma strt_ok_cong:
  assumes "mset (strings a) = mset (strings b)" "next_addr a = next_addr b" "k < 31" "in_bucket (2 ^ k) (strt a)" "strt_ok b"
  shows "strt_ok a"
proof -
  have "set (strings a) = set (strings b)" using assms(1) by (metis set_mset_mset)
  moreover have "distinct (map ts_str (strings a)) = distinct (map ts_str (strings b))" "distinct (map ts_addr (strings a)) = distinct (map ts_addr (strings b))"
    using assms(1) by (metis mset_eq_imp_distinct_iff mset_map)+
  ultimately show ?thesis using assms unfolding strt_ok_bucket by auto
qed

text \<open>What a client sees of the table: the address, the contents and the mark of every string.\<close>

definition objects :: "stringtable \<Rightarrow> (nat \<times> string \<times> nat) set" where
  "objects tb = (\<lambda>t. (ts_addr t, ts_str t, ts_reserved t)) ` set (strings tb)"

lemma newlstr_ok:
  assumes "strt_ok tb" "str \<notin> ts_str ` set (strings tb)" "length str + 1 \<le> MAX_SIZET - sizeof_TString"
  shows "\<exists>ts tb'. newlstr str (luaS_hash str) tb = Inr (ts, tb') \<and> strt_ok tb' \<and> ts_str ts = str \<and> ts_reserved ts = 0 \<and>
    objects tb' = insert (ts_addr ts, str, 0) (objects tb) \<and> ts_addr ts = next_addr tb"
proof -
  define ts where "ts = \<lparr>ts_addr = next_addr tb, ts_str = str, ts_hash = luaS_hash str, ts_reserved = 0, ts_dead = False, ts_fixed = False\<rparr>"
  define h where "h = lmod (luaS_hash str) (length (strt tb))"
  define t1 where "t1 = tb\<lparr>strt := (strt tb)[h := ts # strt tb ! h], nuse := nuse tb + 1, next_addr := next_addr tb + 1\<rparr>"
  define t2 where "t2 = (if nuse t1 > of_nat (length (strt t1)) \<and> int (length (strt t1)) \<le> MAX_INT div 2 then luaS_resize (length (strt t1) * 2) t1 else t1)"
  obtain k where k: "k < 31" "in_bucket (2 ^ k) (strt tb)" using assms(1) by (auto simp: strt_ok_bucket)
  have n: "length (strt tb) = 2 ^ k" using k by (simp add: in_bucket_def)
  have e: "newlstr str (luaS_hash str) tb = Inr (ts, t2)"
    using assms(3) by (simp add: newlstr_def Let_def t2_def t1_def h_def ts_def)
  have hl: "h < length (strt tb)" using lmod_less [of k] k(1) unfolding h_def n by simp
  have m: "mset (strings t1) = add_mset ts (mset (strings tb))" using mset_concat_push [OF hl] by (simp add: t1_def strings_def)
  have b1: "in_bucket (2 ^ k) (strt t1)"
    using k(2) hl n by (auto simp: in_bucket_def t1_def nth_list_update h_def ts_def)
  have set1: "set (strings t1) = insert ts (set (strings tb))" using m by (metis set_mset_add_mset_insert set_mset_mset)
  have ok1: "strt_ok t1" unfolding strt_ok_bucket
  proof (intro conjI)
    have "mset (map ts_str (strings t1)) = mset (ts_str ts # map ts_str (strings tb))" "mset (map ts_addr (strings t1)) = mset (ts_addr ts # map ts_addr (strings tb))"
      using m by (metis mset.simps(2) mset_map list.simps(9))+
    then have "distinct (map ts_str (strings t1)) \<longleftrightarrow> distinct (str # map ts_str (strings tb))" "distinct (map ts_addr (strings t1)) \<longleftrightarrow> distinct (next_addr tb # map ts_addr (strings tb))"
      by (metis mset_eq_imp_distinct_iff ts_def TString.select_convs(1,2))+
    then show "distinct (map ts_str (strings t1))" "distinct (map ts_addr (strings t1))"
      using assms(1,2) by (auto simp: strt_ok_bucket)
    show "\<forall>t\<in>set (strings t1). ts_hash t = luaS_hash (ts_str t) \<and> ts_addr t < next_addr t1"
      using assms(1) unfolding set1 by (auto simp: strt_ok_bucket t1_def ts_def)
  qed (use k(1) b1 in blast)
  have ok2: "strt_ok t2 \<and> set (strings t2) = set (strings t1)"
  proof (cases "t2 = t1")
    case False
    then have t2: "t2 = luaS_resize (2 ^ Suc k) t1" "int (2 ^ k) \<le> MAX_INT div 2" "\<not> sweeping t1"
      using b1 by (auto simp: t2_def in_bucket_def luaS_resize_def mult.commute split: if_splits)
    have "k < 30" using t2(2) power_increasing [of 30 k "2 :: int"] by (cases "k < 30") (auto simp: MAX_INT_def)
    then have k1: "Suc k < 31" by simp
    from resize_ok [of "Suc k" t1] k1 t2(3) have r: "in_bucket (2 ^ Suc k) (strt t2)" "mset (strings t2) = mset (strings t1)" "next_addr t2 = next_addr t1"
      unfolding t2(1) by auto
    from strt_ok_cong [OF r(2,3) k1 r(1) ok1] r(2) show ?thesis by (metis set_mset_mset)
  qed (use ok1 in simp)
  have "objects t2 = insert (next_addr tb, str, 0) (objects tb)"
    using ok2 set1 by (simp add: objects_def ts_def)
  then show ?thesis using e ok2 by (auto simp: ts_def)
qed

lemma update_objects:
  assumes "\<And>t. ts_str (f t) = ts_str t \<and> ts_addr (f t) = ts_addr t \<and> ts_hash (f t) = ts_hash t"
  shows "strt_ok tb \<Longrightarrow> strt_ok (update_ts a f tb)"
    and "objects (update_ts a f tb) = (\<lambda>t. (ts_addr t, ts_str t, ts_reserved (if ts_addr t = a then f t else t))) ` set (strings tb)"
proof -
  let ?g = "\<lambda>t. if ts_addr t = a then f t else t"
  have s: "strings (update_ts a f tb) = map ?g (strings tb)" by (simp add: strings_def update_ts_def map_concat)
  have m: "map ts_str (strings (update_ts a f tb)) = map ts_str (strings tb)" "map ts_addr (strings (update_ts a f tb)) = map ts_addr (strings tb)"
    using assms by (auto simp: s)
  have n: "\<forall>t\<in>set (strings (update_ts a f tb)). ts_hash t = luaS_hash (ts_str t) \<and> ts_addr t < next_addr (update_ts a f tb)" if "strt_ok tb"
    using that assms unfolding s by (auto simp: strt_ok_bucket update_ts_def)
  have "in_bucket n (strt tb) \<Longrightarrow> in_bucket n (strt (update_ts a f tb))" for n
    using assms by (auto simp: in_bucket_def update_ts_def)
  with n show "strt_ok tb \<Longrightarrow> strt_ok (update_ts a f tb)" unfolding strt_ok_bucket m by blast
  show "objects (update_ts a f tb) = (\<lambda>t. (ts_addr t, ts_str t, ts_reserved (if ts_addr t = a then f t else t))) ` set (strings tb)"
    unfolding objects_def s set_map image_image using assms by (intro image_cong) auto
qed

lemma find_append: "find P (xs @ ys) = (case find P xs of None \<Rightarrow> find P ys | Some x \<Rightarrow> Some x)"
  by (induction xs) auto

lemma find_string:
  assumes "strt_ok tb"
  shows "find (\<lambda>t. length (ts_str t) = length str \<and> ts_str t = str) (strt tb ! lmod (luaS_hash str) (length (strt tb))) =
    find (\<lambda>t. ts_str t = str) (strings tb)"
proof -
  obtain k where k: "k < 31" "in_bucket (2 ^ k) (strt tb)" using assms by (auto simp: strt_ok_bucket)
  have n: "length (strt tb) = 2 ^ k" using k by (simp add: in_bucket_def)
  define h where "h = lmod (luaS_hash str) (length (strt tb))"
  have hl: "h < length (strt tb)" using lmod_less [of k] k(1) unfolding h_def n by simp
  have other: "\<forall>t\<in>set (strt tb ! i). ts_str t \<noteq> str" if "i < length (strt tb)" "i \<noteq> h" for i
  proof
    fix t assume t: "t \<in> set (strt tb ! i)"
    then have "lmod (ts_hash t) (length (strt tb)) = i" using k(2) that(1) by (auto simp: in_bucket_def)
    moreover have "t \<in> set (strings tb)" using t that(1) by (auto simp: strings_def)
    then have "ts_hash t = luaS_hash (ts_str t)" using assms by (auto simp: strt_ok_bucket)
    ultimately show "ts_str t \<noteq> str" using that(2) by (auto simp: h_def)
  qed
  have "strings tb = concat (take h (strt tb)) @ strt tb ! h @ concat (drop (Suc h) (strt tb))"
    using id_take_nth_drop [OF hl] by (metis concat.simps(2) concat_append strings_def)
  moreover have "find (\<lambda>t. ts_str t = str) (concat (take h (strt tb))) = None" "find (\<lambda>t. ts_str t = str) (concat (drop (Suc h) (strt tb))) = None"
    using other hl
    by (auto simp: find_None_iff in_set_conv_nth [of _ "take h (strt tb)"] in_set_conv_nth [of _ "drop (Suc h) (strt tb)"])
      (metis less_trans less_irrefl, metis Suc_eq_plus1 add.commute add_Suc_right less_add_Suc1 less_diff_conv less_irrefl)
  ultimately have "find (\<lambda>t. ts_str t = str) (strings tb) = find (\<lambda>t. ts_str t = str) (strt tb ! h)"
    by (simp add: find_append split: option.splits)
  moreover have "find (\<lambda>t. length (ts_str t) = length str \<and> ts_str t = str) xs = find (\<lambda>t. ts_str t = str) xs" for xs
    by (induction xs) auto
  ultimately show ?thesis by (simp only: h_def)
qed

definition too_big :: "string \<Rightarrow> bool" where
  "too_big str = (length str + 1 > MAX_SIZET - sizeof_TString)"

lemma luaS_newlstr_ok:
  assumes "strt_ok tb" "\<not> too_big str"
  shows "\<exists>ts tb'. luaS_newlstr str tb = Inr (ts, tb') \<and> strt_ok tb' \<and> ts_str ts = str \<and>
    objects tb' = insert (ts_addr ts, str, ts_reserved ts) (objects tb) \<and> (str \<notin> ts_str ` set (strings tb) \<longrightarrow> ts_reserved ts = 0)"
proof (cases "find (\<lambda>t. ts_str t = str) (strings tb)")
  case None
  then have "str \<notin> ts_str ` set (strings tb)" by (auto simp: find_None_iff)
  from newlstr_ok [OF assms(1) this] assms(2) None find_string [OF assms(1), of str] show ?thesis
    by (simp add: luaS_newlstr_def Let_def too_big_def) metis
next
  case (Some ts)
  then have t: "ts \<in> set (strings tb)" "ts_str ts = str" by (auto simp: find_Some_iff)
  define tb' where "tb' = (if ts_dead ts then update_ts (ts_addr ts) (\<lambda>t. t\<lparr>ts_dead := False\<rparr>) tb else tb)"
  define ts' where "ts' = (if ts_dead ts then ts\<lparr>ts_dead := False\<rparr> else ts)"
  have "luaS_newlstr str tb = Inr (ts', tb')"
    using Some find_string [OF assms(1), of str] by (simp add: luaS_newlstr_def Let_def ts'_def tb'_def)
  moreover have "strt_ok tb'" using assms(1) update_objects(1) [of "\<lambda>t. t\<lparr>ts_dead := False\<rparr>"] by (simp add: tb'_def)
  moreover have "objects tb' = objects tb"
  proof (cases "ts_dead ts")
    case True
    then have "objects tb' = (\<lambda>t. (ts_addr t, ts_str t, ts_reserved (if ts_addr t = ts_addr ts then t\<lparr>ts_dead := False\<rparr> else t))) ` set (strings tb)"
      unfolding tb'_def using update_objects(2) [of "\<lambda>t. t\<lparr>ts_dead := False\<rparr>"] by simp
    also have "\<dots> = objects tb" unfolding objects_def by (intro image_cong) auto
    finally show ?thesis .
  qed (simp add: tb'_def)
  moreover have "(ts_addr ts', str, ts_reserved ts') \<in> objects tb" using t by (auto simp: objects_def ts'_def)
  moreover have "ts_str ts' = str" using t(2) by (simp add: ts'_def)
  moreover have "str \<in> ts_str ` set (strings tb)" using t by blast
  ultimately show ?thesis by (intro exI [of _ ts'] exI [of _ tb']) auto
qed

text \<open>C26: The string table interns strings: looking up a string, found or new, returns an object with its contents, keeps all other objects, and keeps
  the invariant of the table, also when the table grows; so two strings of the table are the same object exactly when they have the same contents.\<close>

theorem luaS_newlstr_interns:
  assumes "strt_ok tb" "\<not> too_big str"
  shows "\<exists>ts tb'. luaS_newlstr str tb = Inr (ts, tb') \<and> strt_ok tb' \<and> ts_str ts = str \<and>
    objects tb' = insert (ts_addr ts, str, ts_reserved ts) (objects tb) \<and>
    (\<forall>(a, s, r)\<in>objects tb'. \<forall>(b, t, q)\<in>objects tb'. a = b \<longleftrightarrow> s = t)"
proof -
  from luaS_newlstr_ok [OF assms] obtain ts tb' where n: "luaS_newlstr str tb = Inr (ts, tb')" "strt_ok tb'" "ts_str ts = str"
    "objects tb' = insert (ts_addr ts, str, ts_reserved ts) (objects tb)" by blast
  have "ts_addr x = ts_addr y \<longleftrightarrow> ts_str x = ts_str y" if "x \<in> set (strings tb')" "y \<in> set (strings tb')" for x y
    using n(2) that by (auto simp: strt_ok_bucket distinct_map dest: inj_onD)
  then have "\<forall>(a, s, r)\<in>objects tb'. \<forall>(b, t, q)\<in>objects tb'. a = b \<longleftrightarrow> s = t" by (auto simp: objects_def)
  with n show ?thesis by blast
qed

lemma strt_init_ok: "strt_ok strt_init" "strings strt_init = []"
proof -
  show "strings strt_init = []" by (simp add: strings_def strt_init_def luaS_resize_def)
  moreover have "in_bucket (2 ^ 5) (strt strt_init)"
    using resize_ok [of 5 "\<lparr>strt = [], nuse = 0, sweeping = False, next_addr = 0\<rparr>"] by (simp add: strt_init_def MINSTRTABSIZE_def)
  then have "\<exists>k<31. in_bucket (2 ^ k) (strt strt_init)" by (intro exI [of _ 5]) simp
  ultimately show "strt_ok strt_init" by (simp add: strt_ok_bucket)
qed

lemma small_not_too_big: "length str < 1000 \<Longrightarrow> \<not> too_big str"
  by (simp add: too_big_def MAX_SIZET_def sizeof_TString_def)

theorem luaS_newlstr_interns_witness:
  "\<exists>ts tb'. luaS_newlstr ''while'' strt_init = Inr (ts, tb') \<and> strt_ok tb' \<and> ts_str ts = ''while'' \<and> objects tb' = {(ts_addr ts, ''while'', ts_reserved ts)}"
  using luaS_newlstr_interns [of strt_init "''while''"] strt_init_ok small_not_too_big [of "''while''"] by (auto simp: objects_def)

subsection \<open>Reserved words\<close>

definition marked :: "(string \<Rightarrow> nat) \<Rightarrow> stringtable \<Rightarrow> bool" where
  "marked m tb \<longleftrightarrow> (\<forall>(a, s, r)\<in>objects tb. r = m s) \<and> (\<forall>s. m s \<noteq> 0 \<longrightarrow> (\<exists>a r. (a, s, r) \<in> objects tb))"

lemma marked_strings: "(\<exists>a r. (a, s, r) \<in> objects tb) \<longleftrightarrow> s \<in> ts_str ` set (strings tb)"
  by (auto simp: objects_def)

lemma marked_lookup:
  assumes "strt_ok tb" "marked m tb" "\<not> too_big w"
  shows "\<exists>ts tb'. luaS_newlstr w tb = Inr (ts, tb') \<and> strt_ok tb' \<and> marked m tb' \<and> ts_str ts = w \<and> ts_reserved ts = m w \<and> (ts_addr ts, w, m w) \<in> objects tb'"
proof -
  from luaS_newlstr_ok [OF assms(1,3)] obtain ts tb' where n: "luaS_newlstr w tb = Inr (ts, tb')" "strt_ok tb'" "ts_str ts = w"
    "objects tb' = insert (ts_addr ts, w, ts_reserved ts) (objects tb)" "w \<notin> ts_str ` set (strings tb) \<longrightarrow> ts_reserved ts = 0" by blast
  have "ts_reserved ts = m w"
  proof (cases "w \<in> ts_str ` set (strings tb)")
    case False
    with n(5) assms(2) show ?thesis unfolding marked_def marked_strings by auto
  next
    case True
    then obtain a r where o: "(a, w, r) \<in> objects tb" using marked_strings [of w tb] by blast
    moreover have "x = y" if "x \<in> objects tb'" "y \<in> objects tb'" "fst (snd x) = fst (snd y)" for x y
      using that n(2) by (auto simp: objects_def strt_ok_bucket distinct_map dest: inj_onD)
    from this [of "(a, w, r)" "(ts_addr ts, w, ts_reserved ts)"] have "ts_reserved ts = r" using o n(4) by auto
    ultimately show ?thesis using assms(2) by (auto simp: marked_def)
  qed
  moreover have "marked m tb'" if "ts_reserved ts = m w"
    using assms(2) n(4) that unfolding marked_def by (auto, blast)
  ultimately show ?thesis using n by auto
qed

lemma mark_word:
  assumes "strt_ok tb" "marked m tb" "(a, w, m w) \<in> objects tb"
  shows "strt_ok (update_ts a (\<lambda>t. t\<lparr>ts_fixed := True, ts_reserved := n\<rparr>) tb)" "marked (m(w := n)) (update_ts a (\<lambda>t. t\<lparr>ts_fixed := True, ts_reserved := n\<rparr>) tb)"
proof -
  let ?f = "\<lambda>t. t\<lparr>ts_fixed := True, ts_reserved := n\<rparr>"
  show "strt_ok (update_ts a ?f tb)" using update_objects(1) [of ?f] assms(1) by simp
  from assms(3) obtain x where x: "x \<in> set (strings tb)" "ts_addr x = a" "ts_str x = w" by (auto simp: objects_def)
  have e: "ts_addr t = a \<longleftrightarrow> ts_str t = w" if "t \<in> set (strings tb)" for t
    using that x assms(1) by (auto simp: strt_ok_bucket distinct_map dest: inj_onD)
  have "objects (update_ts a ?f tb) = (\<lambda>t. (ts_addr t, ts_str t, ts_reserved (if ts_addr t = a then ?f t else t))) ` set (strings tb)"
    using update_objects(2) [of ?f] by simp
  also have "\<dots> = (\<lambda>t. (ts_addr t, ts_str t, (m(w := n)) (ts_str t))) ` set (strings tb)"
    using assms(2) e by (intro image_cong) (auto simp: marked_def objects_def)
  finally have o: "objects (update_ts a ?f tb) = (\<lambda>t. (ts_addr t, ts_str t, (m(w := n)) (ts_str t))) ` set (strings tb)" .
  have "\<exists>t\<in>set (strings tb). ts_str t = s" if "(m(w := n)) s \<noteq> 0" for s
    using that x assms(2) marked_strings [of s tb] unfolding marked_def by (cases "s = w") auto
  then show "marked (m(w := n)) (update_ts a ?f tb)" unfolding marked_def o by blast
qed

lemma init_words_ok:
  assumes "strt_ok tb" "marked m tb" "\<forall>w\<in>set ws. \<not> too_big w" "distinct ws"
  shows "\<exists>tb'. init_words ws i tb = Inr tb' \<and> strt_ok tb' \<and> marked (\<lambda>s. if word_index ws i s = 0 then m s else word_index ws i s) tb'"
  using assms
proof (induction ws arbitrary: i tb m)
  case (Cons w ws)
  from marked_lookup [OF Cons.prems(1,2), of w] Cons.prems(3) obtain ts t1 where
    t1: "luaS_newlstr w tb = Inr (ts, t1)" "strt_ok t1" "marked m t1" "(ts_addr ts, w, m w) \<in> objects t1" by auto
  note t2 = mark_word [OF t1(2-4), of "i + 1"]
  have "\<exists>tb'. init_words ws (i + 1) (update_ts (ts_addr ts) (\<lambda>t. t\<lparr>ts_fixed := True, ts_reserved := i + 1\<rparr>) t1) = Inr tb' \<and> strt_ok tb' \<and>
      marked (\<lambda>s. if word_index ws (i + 1) s = 0 then (m(w := i + 1)) s else word_index ws (i + 1) s) tb'"
    using Cons.prems by (intro Cons.IH [OF t2]) auto
  moreover have "(\<lambda>s. if word_index ws (i + 1) s = 0 then (m(w := i + 1)) s else word_index ws (i + 1) s) =
      (\<lambda>s. if word_index (w # ws) i s = 0 then m s else word_index (w # ws) i s)"
    using Cons.prems(4) word_index_pos [of ws "i + 1" w] by (intro ext) auto
  ultimately show ?case using t1(1) by simp
qed simp

text \<open>After \<open>luaX_init\<close> the string object of every word carries the mark that the lexical analyzer takes for its reserved word, and every other string the
  mark 0, whether it was in the table before or is new.\<close>

theorem luaX_init_marks:
  assumes "strt_ok tb" "\<forall>(a, s, r)\<in>objects tb. r = 0"
  shows "\<exists>tb'. luaX_init tb = Inr tb' \<and> strt_ok tb' \<and>
    (\<forall>w. \<not> too_big w \<longrightarrow> (\<exists>ts tb''. luaS_newlstr w tb' = Inr (ts, tb'') \<and> ts_str ts = w \<and> ts_reserved ts = reserved w))"
proof -
  have "\<forall>w\<in>set (take NUM_RESERVED luaX_tokens). length w < 1000" "distinct (take NUM_RESERVED luaX_tokens)" by code_simp+
  moreover have "marked (\<lambda>_. 0) tb" using assms(2) by (auto simp: marked_def)
  ultimately obtain tb' where t: "luaX_init tb = Inr tb'" "strt_ok tb'" "marked reserved tb'"
    using init_words_ok [OF assms(1), of "\<lambda>_. 0" "take NUM_RESERVED luaX_tokens" 0] small_not_too_big
    by (fastforce simp: luaX_init_def reserved_def [abs_def])
  with marked_lookup [OF t(2,3)] show ?thesis by blast
qed

theorem luaX_init_marks_witness:
  "\<exists>tb' ts tb''. luaX_init strt_init = Inr tb' \<and> luaS_newlstr ''while'' tb' = Inr (ts, tb'') \<and> ts_reserved ts = 21"
proof -
  have "reserved ''while'' = 21" by code_simp
  with luaX_init_marks [of strt_init] strt_init_ok small_not_too_big [of "''while''"] show ?thesis by (fastforce simp: objects_def)
qed

end
