(* ===== verification/Lua_Table.thy ===== *)
theory Lua_Table
  imports Lua_String
begin

text \<open>
  \<^verbatim>\<open>src/src/ltable.c\<close>: the tables of Lua, an array part and a hash part that is a scatter table with chains through its own nodes.  A pointer to a node is its index, a
  null pointer is \<open>None\<close>; \<open>None\<close> as a value is nil.  A string is its contents, which the string table makes the same as its address.  Numbers are the
  64 bits of a double.  Loops along chains are partial functions, where \<open>None\<close> means that they do not return; the recursion of \<open>newkey\<close> through
  \<open>rehash\<close> has fuel, and no fuel left is the same result.
\<close>

subsection \<open>Doubles\<close>

definition dbl_exponent :: "64 word \<Rightarrow> nat" where "dbl_exponent w = unat w div 2 ^ 52 mod 2 ^ 11"
definition dbl_mantissa :: "64 word \<Rightarrow> nat" where "dbl_mantissa w = unat w mod 2 ^ 52"

definition luai_numisnan :: "64 word \<Rightarrow> bool" where
  "luai_numisnan w = (dbl_exponent w = 2047 \<and> dbl_mantissa w \<noteq> 0)"

definition dbl_zero :: "64 word \<Rightarrow> bool" where
  "dbl_zero w = (unat w mod 2 ^ 63 = 0)"

definition luai_numeq :: "64 word \<Rightarrow> 64 word \<Rightarrow> bool" where
  "luai_numeq x y = (\<not> luai_numisnan x \<and> \<not> luai_numisnan y \<and> (x = y \<or> dbl_zero x \<and> dbl_zero y))"

fun ilog2 :: "nat \<Rightarrow> nat" where
  "ilog2 n = (if n < 2 then 0 else Suc (ilog2 (n div 2)))"

declare ilog2.simps [simp del]

text \<open>The conversion of an \<open>int\<close>, which is exact, and the conversion to \<open>int\<close>, which truncates and gives the smallest \<open>int\<close> out of range.\<close>

definition num_of_int :: "int \<Rightarrow> 64 word" where
  "num_of_int i = (if i = 0 then 0 else let m = nat \<bar>i\<bar>; e = ilog2 m in
     of_nat ((if i < 0 then 2 ^ 63 else 0) + (e + 1023) * 2 ^ 52 + (m * 2 ^ (52 - e) - 2 ^ 52)))"

definition lua_number2int :: "64 word \<Rightarrow> int" where
  "lua_number2int w = (let e = dbl_exponent w; m = (2 ^ 52 + dbl_mantissa w) div 2 ^ (52 - (e - 1023)) in
     if e < 1023 then 0
     else if e \<le> 1023 + 30 then (if unat w \<ge> 2 ^ 63 then - int m else int m)
     else - (2 ^ 31))"

subsection \<open>Keys and nodes\<close>

datatype TKey = NilKey | BoolKey bool | NumKey "64 word" | StrKey string | LightKey "64 word" | ObjKey "64 word"

record 'v node =
  i_val :: "'v option"
  i_key :: TKey
  n_next :: "nat option"

record 'v table =
  t_array :: "'v option list"
  t_node :: "'v node list"
  t_dummy :: bool
  lsizenode :: nat
  lastfree :: int
  t_flags :: byte

definition dummynode :: "'v node" where
  "dummynode = \<lparr>i_val = None, i_key = NilKey, n_next = None\<rparr>"

definition MAXBITS :: nat where "MAXBITS = 26"
definition MAXASIZE :: nat where "MAXASIZE = 2 ^ MAXBITS"

fun luaO_rawequalObj :: "TKey \<Rightarrow> TKey \<Rightarrow> bool" where
  "luaO_rawequalObj NilKey NilKey = True"
| "luaO_rawequalObj (NumKey a) (NumKey b) = luai_numeq a b"
| "luaO_rawequalObj (BoolKey a) (BoolKey b) = (a = b)"
| "luaO_rawequalObj (LightKey a) (LightKey b) = (a = b)"
| "luaO_rawequalObj (StrKey a) (StrKey b) = (a = b)"
| "luaO_rawequalObj (ObjKey a) (ObjKey b) = (a = b)"
| "luaO_rawequalObj _ _ = False"

definition hashpow2 :: "nat \<Rightarrow> 32 word \<Rightarrow> nat" where
  "hashpow2 lsize n = lmod n (2 ^ lsize)"

definition hashmod :: "nat \<Rightarrow> 32 word \<Rightarrow> nat" where
  "hashmod lsize n = unat n mod ((2 ^ lsize - 1) OR 1)"

text \<open>\<open>IntPoint\<close> takes the low half of a pointer.\<close>

definition hashpointer :: "nat \<Rightarrow> 64 word \<Rightarrow> nat" where
  "hashpointer lsize p = hashmod lsize (ucast p)"

definition hashnum :: "nat \<Rightarrow> 64 word \<Rightarrow> nat" where
  "hashnum lsize n = (if luai_numeq n 0 then 0 else hashmod lsize (ucast n + ucast (drop_bit 32 n)))"

text \<open>The main position is never asked for nil.\<close>

fun mainposition :: "nat \<Rightarrow> TKey \<Rightarrow> nat" where
  "mainposition lsize (NumKey n) = hashnum lsize n"
| "mainposition lsize (StrKey s) = hashpow2 lsize (luaS_hash s)"
| "mainposition lsize (BoolKey b) = hashpow2 lsize (if b then 1 else 0)"
| "mainposition lsize (LightKey p) = hashpointer lsize p"
| "mainposition lsize (ObjKey p) = hashpointer lsize p"
| "mainposition lsize NilKey = 0"

fun arrayindex :: "TKey \<Rightarrow> int" where
  "arrayindex (NumKey n) = (let k = lua_number2int n in if luai_numeq (num_of_int k) n then k else - 1)"
| "arrayindex _ = - 1"

subsection \<open>Search\<close>

datatype slot = NilObject | ArraySlot nat | NodeSlot nat

partial_function (option) find_chain :: "('v node \<Rightarrow> bool) \<Rightarrow> 'v node list \<Rightarrow> nat \<Rightarrow> slot option" where
  "find_chain f ns n =
     (if f (ns ! n) then Some (NodeSlot n)
      else case n_next (ns ! n) of None \<Rightarrow> Some NilObject | Some m \<Rightarrow> find_chain f ns m)"

declare find_chain.simps [code]

definition is_number :: "64 word \<Rightarrow> 'v node \<Rightarrow> bool" where
  "is_number nk n = (case i_key n of NumKey m \<Rightarrow> luai_numeq m nk | _ \<Rightarrow> False)"

definition luaH_getnum :: "'v table \<Rightarrow> int \<Rightarrow> slot option" where
  "luaH_getnum t key = (
     if unat (of_int (key - 1) :: 32 word) < length (t_array t) then Some (ArraySlot (nat (key - 1)))
     else find_chain (is_number (num_of_int key)) (t_node t) (hashnum (lsizenode t) (num_of_int key)))"

definition luaH_getstr :: "'v table \<Rightarrow> string \<Rightarrow> slot option" where
  "luaH_getstr t key = find_chain (\<lambda>n. i_key n = StrKey key) (t_node t) (hashpow2 (lsizenode t) (luaS_hash key))"

definition get_generic :: "'v table \<Rightarrow> TKey \<Rightarrow> slot option" where
  "get_generic t key = find_chain (\<lambda>n. luaO_rawequalObj (i_key n) key) (t_node t) (mainposition (lsizenode t) key)"

fun luaH_get :: "'v table \<Rightarrow> TKey \<Rightarrow> slot option" where
  "luaH_get t NilKey = Some NilObject"
| "luaH_get t (StrKey s) = luaH_getstr t s"
| "luaH_get t (NumKey n) = (let k = lua_number2int n in if luai_numeq (num_of_int k) n then luaH_getnum t k else get_generic t (NumKey n))"
| "luaH_get t key = get_generic t key"

text \<open>Reading and writing through the pointer that a search returns.\<close>

fun slot_get :: "'v table \<Rightarrow> slot \<Rightarrow> 'v option" where
  "slot_get t NilObject = None"
| "slot_get t (ArraySlot i) = t_array t ! i"
| "slot_get t (NodeSlot i) = i_val (t_node t ! i)"

fun slot_set :: "'v table \<Rightarrow> slot \<Rightarrow> 'v option \<Rightarrow> 'v table" where
  "slot_set t NilObject v = t"
| "slot_set t (ArraySlot i) v = t\<lparr>t_array := (t_array t)[i := v]\<rparr>"
| "slot_set t (NodeSlot i) v = t\<lparr>t_node := (t_node t)[i := (t_node t ! i)\<lparr>i_val := v\<rparr>]\<rparr>"

subsection \<open>Insertion\<close>

text \<open>The loop of \<open>getfreepos\<close>: nodes are free when they never had a key.\<close>

fun free_loop :: "'v node list \<Rightarrow> nat \<Rightarrow> nat option" where
  "free_loop ns 0 = None"
| "free_loop ns (Suc i) = (if i_key (ns ! i) = NilKey then Some i else free_loop ns i)"

definition getfreepos :: "'v table \<Rightarrow> nat option \<times> 'v table" where
  "getfreepos t = (case free_loop (t_node t) (nat (lastfree t)) of
     Some i \<Rightarrow> (Some i, t\<lparr>lastfree := int i\<rparr>)
   | None \<Rightarrow> (None, t\<lparr>lastfree := min 0 (lastfree t) - 1\<rparr>))"

text \<open>The search for the node whose successor is \<open>mp\<close>.\<close>

partial_function (option) find_prev :: "'v node list \<Rightarrow> nat \<Rightarrow> nat \<Rightarrow> nat option" where
  "find_prev ns mp othern =
     (if n_next (ns ! othern) = Some mp then Some othern
      else case n_next (ns ! othern) of None \<Rightarrow> None | Some m \<Rightarrow> find_prev ns mp m)"

declare find_prev.simps [code]

text \<open>Results of functions that may raise an error, or not return.\<close>

type_synonym 'a lua_run = "(string + 'a) option"

definition rbind :: "'a lua_run \<Rightarrow> ('a \<Rightarrow> 'b lua_run) \<Rightarrow> 'b lua_run" where
  "rbind m f = (case m of None \<Rightarrow> None | Some (Inl e) \<Rightarrow> Some (Inl e) | Some (Inr x) \<Rightarrow> f x)"

type_synonym 'v setter = "'v table \<Rightarrow> TKey \<Rightarrow> (slot \<times> 'v table) lua_run"

definition place_key :: "nat \<Rightarrow> TKey \<Rightarrow> 'v table \<Rightarrow> 'v table" where
  "place_key mp key t = t\<lparr>t_node := (t_node t)[mp := (t_node t ! mp)\<lparr>i_key := key\<rparr>]\<rparr>"

definition set_next :: "nat \<Rightarrow> nat option \<Rightarrow> 'v node list \<Rightarrow> 'v node list" where
  "set_next n m ns = ns[n := (ns ! n)\<lparr>n_next := m\<rparr>]"

text \<open>The two ways of making room at \<open>mp\<close>: the colliding node goes to the free position \<open>n\<close>, or the new key does.\<close>

definition move_colliding :: "nat \<Rightarrow> nat \<Rightarrow> nat \<Rightarrow> 'v node list \<Rightarrow> 'v node list" where
  "move_colliding othern mp n ns = (let
     ns = set_next othern (Some n) ns;
     ns = ns[n := ns ! mp]
   in ns[mp := (ns ! mp)\<lparr>n_next := None, i_val := None\<rparr>])"

definition chain_after :: "nat \<Rightarrow> nat \<Rightarrow> 'v node list \<Rightarrow> 'v node list" where
  "chain_after mp n ns = set_next mp (Some n) (set_next n (n_next (ns ! mp)) ns)"

text \<open>\<open>newkey\<close>, for the function \<open>grow\<close> that it calls when there is no free position.\<close>

definition newkey_with :: "'v setter \<Rightarrow> 'v setter" where
  "newkey_with grow t key = (let mp = mainposition (lsizenode t) key in
     if i_val (t_node t ! mp) \<noteq> None \<or> t_dummy t then
       (case getfreepos t of
          (None, t) \<Rightarrow> grow t key
        | (Some n, t) \<Rightarrow>
           (let othern = mainposition (lsizenode t) (i_key (t_node t ! mp)) in
            if othern \<noteq> mp then
              (case find_prev (t_node t) mp othern of
                 None \<Rightarrow> None
               | Some othern \<Rightarrow> Some (Inr (NodeSlot mp, place_key mp key (t\<lparr>t_node := move_colliding othern mp n (t_node t)\<rparr>))))
            else Some (Inr (NodeSlot n, place_key n key (t\<lparr>t_node := chain_after mp n (t_node t)\<rparr>)))))
     else Some (Inr (NodeSlot mp, place_key mp key t)))"

definition luaH_set_with :: "'v setter \<Rightarrow> 'v setter" where
  "luaH_set_with newkey t key = (case luaH_get t key of
     None \<Rightarrow> None
   | Some p \<Rightarrow> (let t = t\<lparr>t_flags := 0\<rparr> in
       if p \<noteq> NilObject then Some (Inr (p, t))
       else if key = NilKey then Some (Inl ''table index is nil'')
       else if (case key of NumKey n \<Rightarrow> luai_numisnan n | _ \<Rightarrow> False) then Some (Inl ''table index is NaN'')
       else newkey t key))"

definition luaH_setnum_with :: "'v setter \<Rightarrow> 'v table \<Rightarrow> int \<Rightarrow> (slot \<times> 'v table) lua_run" where
  "luaH_setnum_with newkey t key = (case luaH_getnum t key of
     None \<Rightarrow> None
   | Some p \<Rightarrow> if p \<noteq> NilObject then Some (Inr (p, t)) else newkey t (NumKey (num_of_int key)))"

definition luaH_setstr_with :: "'v setter \<Rightarrow> 'v table \<Rightarrow> string \<Rightarrow> (slot \<times> 'v table) lua_run" where
  "luaH_setstr_with newkey t key = (case luaH_getstr t key of
     None \<Rightarrow> None
   | Some p \<Rightarrow> if p \<noteq> NilObject then Some (Inr (p, t)) else newkey t (StrKey key))"

subsection \<open>Rehash\<close>

definition setarrayvector :: "nat \<Rightarrow> 'v table \<Rightarrow> 'v table" where
  "setarrayvector size' t = t\<lparr>t_array := take size' (t_array t) @ replicate (size' - length (t_array t)) None\<rparr>"

definition setnodevector :: "nat \<Rightarrow> 'v table \<Rightarrow> 'v table lua_run" where
  "setnodevector size' t = (
     if size' = 0 then Some (Inr (t\<lparr>t_node := [dummynode], t_dummy := True, lsizenode := 0, lastfree := 0\<rparr>))
     else let lsize = ceillog2 (of_nat size') in
       if lsize > int MAXBITS then Some (Inl ''table overflow'')
       else let size' = 2 ^ nat lsize in
         Some (Inr (t\<lparr>t_node := replicate size' dummynode, t_dummy := False, lsizenode := nat lsize, lastfree := int size'\<rparr>)))"

text \<open>The loops of \<open>resize\<close> that insert again the values of a vanishing slice of the array part, from key \<open>i\<close> on, and the nodes of the old hash part.\<close>

fun reinsert_array :: "'v setter \<Rightarrow> nat \<Rightarrow> 'v option list \<Rightarrow> 'v table \<Rightarrow> 'v table lua_run" where
  "reinsert_array newkey i [] t = Some (Inr t)"
| "reinsert_array newkey i (v # vs) t =
     (if v \<noteq> None then rbind (luaH_setnum_with newkey t (int i)) (\<lambda>(p, t). reinsert_array newkey (i + 1) vs (slot_set t p v))
      else reinsert_array newkey (i + 1) vs t)"

fun reinsert_hash :: "'v setter \<Rightarrow> 'v node list \<Rightarrow> 'v table \<Rightarrow> 'v table lua_run" where
  "reinsert_hash newkey [] t = Some (Inr t)"
| "reinsert_hash newkey (old # ns) t =
     (if i_val old \<noteq> None then rbind (luaH_set_with newkey t (i_key old)) (\<lambda>(p, t). reinsert_hash newkey ns (slot_set t p (i_val old)))
      else reinsert_hash newkey ns t)"

definition resize :: "'v setter \<Rightarrow> 'v table \<Rightarrow> nat \<Rightarrow> nat \<Rightarrow> 'v table lua_run" where
  "resize newkey t nasize nhsize = (let
     oldasize = length (t_array t);
     nold = t_node t;
     t = (if nasize > oldasize then setarrayvector nasize t else t)
   in rbind (setnodevector nhsize t) (\<lambda>t.
      rbind (if nasize < oldasize
             then reinsert_array newkey (nasize + 1) (drop nasize (t_array t)) (t\<lparr>t_array := take nasize (t_array t)\<rparr>)
             else Some (Inr t)) (\<lambda>t.
      reinsert_hash newkey (rev nold) t)))"

definition luaH_resizearray_with :: "'v setter \<Rightarrow> 'v table \<Rightarrow> nat \<Rightarrow> 'v table lua_run" where
  "luaH_resizearray_with newkey t nasize = (let nsize = (if t_dummy t then 0 else 2 ^ lsizenode t) in resize newkey t nasize nsize)"

text \<open>Counting: \<open>nums ! i\<close> is the number of integer keys between \<open>2 ^ (i - 1) + 1\<close> and \<open>2 ^ i\<close>.\<close>

definition bump :: "nat \<Rightarrow> nat \<Rightarrow> nat list \<Rightarrow> nat list" where
  "bump i n nums = nums[i := nums ! i + n]"

definition countint :: "TKey \<Rightarrow> nat list \<Rightarrow> nat \<times> nat list" where
  "countint key nums = (let k = arrayindex key in
     if 0 < k \<and> k \<le> int MAXASIZE then (1, bump (nat (ceillog2 (of_int k))) 1 nums) else (0, nums))"

text \<open>The outer loop of \<open>numusearray\<close> from \<open>lg\<close> on; \<open>i\<close> is the next key to look at.\<close>

function numuse_loop :: "'v option list \<Rightarrow> nat \<Rightarrow> nat \<Rightarrow> nat \<Rightarrow> nat list \<Rightarrow> nat \<times> nat list" where
  "numuse_loop arr lg i ause nums =
     (if lg \<le> MAXBITS then
        (let lim = (if 2 ^ lg > length arr then length arr else 2 ^ lg) in
         if 2 ^ lg > length arr \<and> i > lim then (ause, nums)
         else let lc = length (filter (\<lambda>v. v \<noteq> None) (take (lim + 1 - i) (drop (i - 1) arr)))
              in numuse_loop arr (lg + 1) (max i (lim + 1)) (ause + lc) (bump lg lc nums))
      else (ause, nums))"
  by pat_completeness auto
termination by (relation "measure (\<lambda>(arr, lg, i, ause, nums). Suc MAXBITS - lg)") auto

declare numuse_loop.simps [simp del]

definition numusearray :: "'v table \<Rightarrow> nat list \<Rightarrow> nat \<times> nat list" where
  "numusearray t nums = numuse_loop (t_array t) 0 1 0 nums"

text \<open>The loop of \<open>numusehash\<close> over the nodes from the last to the first: the number of array indices, of all keys, and the counts.\<close>

fun numusehash_loop :: "'v node list \<Rightarrow> nat \<Rightarrow> nat \<Rightarrow> nat list \<Rightarrow> nat \<times> nat \<times> nat list" where
  "numusehash_loop [] ause totaluse nums = (ause, totaluse, nums)"
| "numusehash_loop (n # ns) ause totaluse nums =
     (if i_val n \<noteq> None then (case countint (i_key n) nums of (c, nums) \<Rightarrow> numusehash_loop ns (ause + c) (totaluse + 1) nums)
      else numusehash_loop ns ause totaluse nums)"

definition numusehash :: "'v table \<Rightarrow> nat list \<Rightarrow> nat \<Rightarrow> nat \<times> nat \<times> nat list" where
  "numusehash t nums pnasize = (case numusehash_loop (rev (t_node t)) 0 0 nums of (ause, totaluse, nums) \<Rightarrow> (totaluse, pnasize + ause, nums))"

function sizes_loop :: "nat list \<Rightarrow> nat \<Rightarrow> nat \<Rightarrow> nat \<Rightarrow> nat \<Rightarrow> nat \<Rightarrow> nat \<times> nat" where
  "sizes_loop nums narray i a na n =
     (if 2 ^ i div 2 < narray then
        (let (a, na, n) = (if nums ! i > 0
              then (let a = a + nums ! i in if a > 2 ^ i div 2 then (a, a, 2 ^ i) else (a, na, n))
              else (a, na, n))
         in if a = narray then (na, n) else sizes_loop nums narray (i + 1) a na n)
      else (na, n))"
  by pat_completeness auto
termination
proof (relation "measure (\<lambda>(nums, narray, i, a, na, n). 2 * narray + 1 - i)", simp, goal_cases)
  case (1 nums narray i a na n)
  have "i < 2 ^ i" by (rule less_exp)
  then show ?case using 1(1) by (cases i) auto
qed

declare sizes_loop.simps [simp del]

text \<open>The number of keys for the array part, and its size.\<close>

definition computesizes :: "nat list \<Rightarrow> nat \<Rightarrow> nat \<times> nat" where
  "computesizes nums narray = sizes_loop nums narray 0 0 0 0"

definition rehash_sizes :: "'v table \<Rightarrow> TKey \<Rightarrow> nat \<times> nat" where
  "rehash_sizes t ek = (let
     nums = replicate (MAXBITS + 1) 0;
     (nasize, nums) = numusearray t nums;
     totaluse = nasize;
     (tu, nasize, nums) = numusehash t nums nasize;
     totaluse = totaluse + tu;
     (c, nums) = countint ek nums;
     nasize = nasize + c;
     totaluse = totaluse + 1;
     (na, nasize) = computesizes nums nasize
   in (nasize, totaluse - na))"

definition rehash :: "'v setter \<Rightarrow> 'v table \<Rightarrow> TKey \<Rightarrow> 'v table lua_run" where
  "rehash newkey t ek = (case rehash_sizes t ek of (nasize, nhsize) \<Rightarrow> resize newkey t nasize nhsize)"

text \<open>The recursion, with the number of nested calls of \<open>rehash\<close> as fuel.\<close>

primrec newkey :: "nat \<Rightarrow> 'v setter" where
  "newkey 0 = newkey_with (\<lambda>t key. None)"
| "newkey (Suc f) = newkey_with (\<lambda>t key. rbind (rehash (newkey f) t key) (\<lambda>t. luaH_set_with (newkey f) t key))"

definition luaH_set :: "'v setter" where "luaH_set = luaH_set_with (newkey 1)"
definition luaH_setnum :: "'v table \<Rightarrow> int \<Rightarrow> (slot \<times> 'v table) lua_run" where "luaH_setnum = luaH_setnum_with (newkey 1)"
definition luaH_setstr :: "'v table \<Rightarrow> string \<Rightarrow> (slot \<times> 'v table) lua_run" where "luaH_setstr = luaH_setstr_with (newkey 1)"
definition luaH_resizearray :: "'v table \<Rightarrow> nat \<Rightarrow> 'v table lua_run" where "luaH_resizearray = luaH_resizearray_with (newkey 0)"

definition luaH_new :: "nat \<Rightarrow> nat \<Rightarrow> 'v table lua_run" where
  "luaH_new narray nhash = setnodevector nhash (setarrayvector narray
     \<lparr>t_array = [], t_node = [dummynode], t_dummy = True, lsizenode = 0, lastfree = 0, t_flags = 255\<rparr>)"

subsection \<open>Traversal\<close>

text \<open>The position of a key: elements of the array part first, then nodes; -1 before the first.  Keys that the garbage collector has marked dead do not occur.\<close>

definition findindex :: "'v table \<Rightarrow> TKey \<Rightarrow> int lua_run" where
  "findindex t key = (
     if key = NilKey then Some (Inr (- 1))
     else let i = arrayindex key in
       if 0 < i \<and> i \<le> int (length (t_array t)) then Some (Inr (i - 1))
       else case get_generic t key of
           Some (NodeSlot i) \<Rightarrow> Some (Inr (int (i + length (t_array t))))
         | Some _ \<Rightarrow> Some (Inl (''invalid key to '' @ LUA_QL ''next''))
         | None \<Rightarrow> None)"

text \<open>The two loops of \<open>luaH_next\<close>, over what is left of the array part, whose next index is \<open>i\<close>, and of the hash part.\<close>

fun next_array :: "nat \<Rightarrow> 'v option list \<Rightarrow> (TKey \<times> 'v) option" where
  "next_array i [] = None"
| "next_array i (None # vs) = next_array (i + 1) vs"
| "next_array i (Some v # vs) = Some (NumKey (num_of_int (int i + 1)), v)"

fun next_hash :: "'v node list \<Rightarrow> (TKey \<times> 'v) option" where
  "next_hash [] = None"
| "next_hash (n # ns) = (case i_val n of None \<Rightarrow> next_hash ns | Some v \<Rightarrow> Some (i_key n, v))"

definition luaH_next :: "'v table \<Rightarrow> TKey \<Rightarrow> (TKey \<times> 'v) option lua_run" where
  "luaH_next t key = rbind (findindex t key) (\<lambda>i. let i = nat (i + 1) in
     Some (Inr (case next_array i (drop i (t_array t)) of
         Some r \<Rightarrow> Some r
       | None \<Rightarrow> next_hash (drop (i - length (t_array t)) (t_node t)))))"

subsection \<open>Boundaries\<close>

text \<open>Whether there is a value at an index; the index is an \<open>unsigned int\<close> that becomes an \<open>int\<close>.\<close>

definition present :: "'v table \<Rightarrow> 32 word \<Rightarrow> bool option" where
  "present t j = map_option (\<lambda>p. slot_get t p \<noteq> None) (luaH_getnum t (sint j))"

partial_function (option) linear_loop :: "'v table \<Rightarrow> 32 word \<Rightarrow> 32 word option" where
  "linear_loop t i = Option.bind (present t i) (\<lambda>b. if b then linear_loop t (i + 1) else Some (i - 1))"

declare linear_loop.simps [code]

text \<open>The search for \<open>i\<close> and \<open>j\<close> such that \<open>i\<close> is present and \<open>j\<close> is not; a result on the left is the one of the linear search.\<close>

partial_function (option) double_loop :: "'v table \<Rightarrow> 32 word \<Rightarrow> 32 word \<Rightarrow> (32 word + 32 word \<times> 32 word) option" where
  "double_loop t i j = Option.bind (present t j) (\<lambda>b.
     if b then (if j * 2 > 2147483647 then map_option Inl (linear_loop t 1) else double_loop t j (j * 2))
     else Some (Inr (i, j)))"

declare double_loop.simps [code]

partial_function (option) binary_loop :: "'v table \<Rightarrow> 32 word \<Rightarrow> 32 word \<Rightarrow> 32 word option" where
  "binary_loop t i j =
     (if j - i > 1 then Option.bind (present t ((i + j) div 2)) (\<lambda>b. if b then binary_loop t ((i + j) div 2) j else binary_loop t i ((i + j) div 2))
      else Some i)"

declare binary_loop.simps [code]

definition unbound_search :: "'v table \<Rightarrow> 32 word \<Rightarrow> 32 word option" where
  "unbound_search t j = Option.bind (double_loop t j (j + 1)) (\<lambda>r. case r of Inl i \<Rightarrow> Some i | Inr (i, j) \<Rightarrow> binary_loop t i j)"

text \<open>The binary search in the array part.\<close>

function array_loop :: "'v option list \<Rightarrow> nat \<Rightarrow> nat \<Rightarrow> nat" where
  "array_loop arr i j =
     (if j - i > 1 then (if arr ! ((i + j) div 2 - 1) = None then array_loop arr i ((i + j) div 2) else array_loop arr ((i + j) div 2) j)
      else i)"
  by pat_completeness auto
termination by (relation "measure (\<lambda>(arr, i, j). j - i)") auto

declare array_loop.simps [simp del]

definition luaH_getn :: "'v table \<Rightarrow> int option" where
  "luaH_getn t = (let j = length (t_array t) in
     if j > 0 \<and> t_array t ! (j - 1) = None then Some (int (array_loop (t_array t) 0 j))
     else if t_dummy t then Some (int j)
     else map_option sint (unbound_search t (of_nat j)))"

end
