(* ===== verification/Lua_Key.thy ===== *)
theory Lua_Key
  imports Lua_Table
begin

text \<open>
  Keys of Lua tables: doubles that come from integers, equality of keys, and the positions of keys in the array part and in the hash part.
\<close>

subsection \<open>Doubles\<close>

lemma ilog2_bounds: "0 < n \<Longrightarrow> 2 ^ ilog2 n \<le> n \<and> n < 2 ^ (ilog2 n + 1)"
proof (induction n rule: ilog2.induct)
  case (1 n)
  show ?case
  proof (cases "n < 2")
    case True
    with "1.prems" show ?thesis by (simp add: ilog2.simps [of n])
  next
    case False
    define q where "q = (2 :: nat) ^ ilog2 (n div 2)"
    from False "1.IH" have "q \<le> n div 2" "n div 2 < 2 * q" by (simp_all add: q_def)
    then have "2 * q \<le> n" "n < 4 * q" by linarith+
    with False show ?thesis by (simp add: ilog2.simps [of n] q_def)
  qed
qed

lemma dbl_zero_not_nan: "dbl_zero w \<Longrightarrow> \<not> luai_numisnan w"
proof -
  assume z: "dbl_zero w"
  have "unat w mod 2 ^ 52 = unat w mod 2 ^ 63 mod 2 ^ 52" by (simp add: mod_mod_cancel)
  with z have "dbl_mantissa w = 0" by (simp add: dbl_zero_def dbl_mantissa_def)
  then show ?thesis by (simp add: luai_numisnan_def)
qed

lemma numeq_refl: "\<not> luai_numisnan x \<Longrightarrow> luai_numeq x x"
  by (simp add: luai_numeq_def)

lemma numeq_sym: "luai_numeq x y \<Longrightarrow> luai_numeq y x"
  by (auto simp: luai_numeq_def)

lemma numeq_trans: "luai_numeq x y \<Longrightarrow> luai_numeq y z \<Longrightarrow> luai_numeq x z"
  by (auto simp: luai_numeq_def)

lemma numeq_zero: "luai_numeq x 0 \<longleftrightarrow> dbl_zero x"
proof -
  have "dbl_zero 0" by (simp add: dbl_zero_def)
  then show ?thesis using dbl_zero_not_nan by (auto simp: luai_numeq_def)
qed

lemma dbl_exponent_zero: "dbl_zero w \<Longrightarrow> dbl_exponent w = 0"
proof -
  assume z: "dbl_zero w"
  then obtain q where q: "unat w = 2 ^ 63 * q" unfolding dbl_zero_def by (metis dvd_def mod_eq_0_iff_dvd)
  have "unat w div 2 ^ 52 = 2 ^ 11 * q" unfolding q by simp
  then show ?thesis by (simp add: dbl_exponent_def)
qed

lemma number2int_cong: "luai_numeq x y \<Longrightarrow> lua_number2int x = lua_number2int y"
  by (auto simp: luai_numeq_def lua_number2int_def dbl_exponent_zero)

lemma dbl_fields:
  assumes "w = of_nat (s * 2 ^ 63 + e * 2 ^ 52 + m)" "s < 2" "e < 2 ^ 11" "m < 2 ^ 52"
  shows "dbl_exponent w = e" "dbl_mantissa w = m" "unat w \<ge> 2 ^ 63 \<longleftrightarrow> s = 1" "dbl_zero w \<longleftrightarrow> e = 0 \<and> m = 0"
proof -
  have l: "e * 2 ^ 52 + m < 2 ^ 63" using assms(3,4) by simp
  have "s * 2 ^ 63 + e * 2 ^ 52 + m < 2 ^ 64" using l assms(2) by (cases s) auto
  then have w: "unat w = s * 2 ^ 63 + e * 2 ^ 52 + m" unfolding assms(1) by (simp only: unat_of_nat take_bit_nat_eq_self_iff len_bit0 len_num1) simp
  have w': "unat w = m + 2 ^ 52 * (s * 2 ^ 11 + e)" unfolding w by simp
  have "unat w div 2 ^ 52 = s * 2 ^ 11 + e" "unat w mod 2 ^ 52 = m" using assms(4) unfolding w' by (simp_all only: div_mult_self2 mod_mult_self2) simp_all
  then show "dbl_exponent w = e" "dbl_mantissa w = m" using assms(3) by (simp_all add: dbl_exponent_def dbl_mantissa_def)
  have "unat w mod 2 ^ 63 = e * 2 ^ 52 + m" using l unfolding w by (simp add: add.assoc)
  then show "dbl_zero w \<longleftrightarrow> e = 0 \<and> m = 0" by (simp add: dbl_zero_def)
  show "unat w \<ge> 2 ^ 63 \<longleftrightarrow> s = 1" using l assms(2) unfolding w by (cases s) auto
qed

lemma num_of_int:
  assumes "- (2 ^ 31) \<le> i" "i < 2 ^ 31"
  shows "lua_number2int (num_of_int i) = i" "\<not> luai_numisnan (num_of_int i)"
proof -
  have "lua_number2int (num_of_int i) = i \<and> \<not> luai_numisnan (num_of_int i)"
  proof (cases "i = 0")
    case True
    then show ?thesis by (simp add: num_of_int_def lua_number2int_def luai_numisnan_def dbl_exponent_def Let_def)
  next
    case False
    define m where "m = nat \<bar>i\<bar>"
    define e where "e = ilog2 m"
    have m: "0 < m" "m \<le> 2 ^ 31" using False assms by (auto simp: m_def)
    have l: "2 ^ e \<le> m" "m < 2 ^ (e + 1)" using ilog2_bounds [OF m(1)] by (simp_all add: e_def)
    have "(2 :: nat) ^ e \<le> 2 ^ 31" using l(1) m(2) by linarith
    then have e: "e \<le> 31" by (simp only: power_increasing_iff)
    have p: "(2 :: nat) ^ e * 2 ^ (52 - e) = 2 ^ 52" using e by (simp flip: power_add)
    have a: "2 ^ 52 \<le> m * 2 ^ (52 - e)" using mult_le_mono1 [OF l(1), of "2 ^ (52 - e)"] p by simp
    have b: "m * 2 ^ (52 - e) < 2 * 2 ^ 52" 
    proof -
      have "m * 2 ^ (52 - e) < 2 ^ (e + 1) * 2 ^ (52 - e)" using l(2) by (intro mult_strict_right_mono) auto
      also have "\<dots> = 2 * (2 ^ e * 2 ^ (52 - e))" by simp
      finally show ?thesis unfolding p .
    qed
    define s where "s = (if i < 0 then 1 else 0 :: nat)"
    have w: "num_of_int i = of_nat (s * 2 ^ 63 + (e + 1023) * 2 ^ 52 + (m * 2 ^ (52 - e) - 2 ^ 52))"
      using False by (auto simp: num_of_int_def Let_def m_def e_def s_def)
    have "s < 2" "e + 1023 < 2 ^ 11" "m * 2 ^ (52 - e) - 2 ^ 52 < 2 ^ 52" using e b by (auto simp: s_def)
    note f = dbl_fields [OF w this]
    have n: "(2 ^ 52 + dbl_mantissa (num_of_int i)) div 2 ^ (52 - e) = m" unfolding f using a by simp
    have "lua_number2int (num_of_int i) = i"
    proof (cases "e = 31")
      case True
      then have "2 ^ 31 \<le> m" using l(1) by simp
      then have "i = - (2 ^ 31)" using assms by (auto simp: m_def)
      moreover have "dbl_exponent (num_of_int i) = 1054" using True f(1) by simp
      then have "lua_number2int (num_of_int i) = - (2 ^ 31)" by (simp add: lua_number2int_def Let_def)
      ultimately show ?thesis by simp
    next
      case False
      then show ?thesis using e n f(1,3) by (auto simp: lua_number2int_def Let_def s_def m_def)
    qed
    moreover have "\<not> luai_numisnan (num_of_int i)" using e by (simp add: luai_numisnan_def f(1))
    ultimately show ?thesis by blast
  qed
  then show "lua_number2int (num_of_int i) = i" "\<not> luai_numisnan (num_of_int i)" by blast+
qed

lemma number2int_range: "- (2 ^ 31) \<le> lua_number2int w \<and> lua_number2int w < 2 ^ 31"
proof -
  define e where "e = dbl_exponent w"
  define m where "m = (2 ^ 52 + dbl_mantissa w) div 2 ^ (52 - (e - 1023))"
  have "m < 2 ^ 31" if "1023 \<le> e" "e \<le> 1053"
  proof -
    have "(2 ^ 52 + dbl_mantissa w) < 2 ^ 53" by (simp add: dbl_mantissa_def)
    moreover have "(2 :: nat) ^ 53 \<le> 2 ^ 31 * 2 ^ (52 - (e - 1023))"
      unfolding power_add [symmetric] using that by (intro power_increasing) auto
    ultimately show ?thesis unfolding m_def by (simp add: less_mult_imp_div_less)
  qed
  then have "int m < 2 ^ 31" if "1023 \<le> e" "e \<le> 1053" using that by auto
  moreover have "lua_number2int w = (if e < 1023 then 0 else if e \<le> 1023 + 30 then (if unat w \<ge> 2 ^ 63 then - int m else int m) else - (2 ^ 31))"
    unfolding lua_number2int_def Let_def m_def e_def ..
  ultimately show ?thesis by auto
qed

subsection \<open>Equality of keys\<close>

definition valid_key :: "TKey \<Rightarrow> bool" where
  "valid_key k = (case k of NilKey \<Rightarrow> False | NumKey n \<Rightarrow> \<not> luai_numisnan n | _ \<Rightarrow> True)"

lemma keq_refl: "valid_key k \<Longrightarrow> luaO_rawequalObj k k"
  by (cases k) (auto simp: valid_key_def numeq_refl)

lemma keq_sym: "luaO_rawequalObj a b \<Longrightarrow> luaO_rawequalObj b a"
  by (induction a b rule: luaO_rawequalObj.induct) (auto simp: numeq_sym)

lemma keq_trans: "luaO_rawequalObj a b \<Longrightarrow> luaO_rawequalObj b c \<Longrightarrow> luaO_rawequalObj a c"
  by (cases a; cases b; cases c) (auto dest: numeq_trans)

lemma keq_nil: "luaO_rawequalObj a NilKey \<longleftrightarrow> a = NilKey" "luaO_rawequalObj NilKey a \<longleftrightarrow> a = NilKey"
  by (cases a; simp)+

lemma hashnum_cong: "luai_numeq x y \<Longrightarrow> hashnum ls x = hashnum ls y"
  using numeq_zero by (auto simp: luai_numeq_def hashnum_def)

lemma mainposition_cong: "luaO_rawequalObj a b \<Longrightarrow> mainposition ls a = mainposition ls b"
  by (induction a b rule: luaO_rawequalObj.induct) (auto simp: hashnum_cong)

lemma arrayindex_cong: "luaO_rawequalObj a b \<Longrightarrow> arrayindex a = arrayindex b"
proof (induction a b rule: luaO_rawequalObj.induct)
  case (2 a b)
  then have e: "luai_numeq a b" by simp
  note k = number2int_cong [OF e]
  show ?case using numeq_trans [OF _ e] numeq_trans [OF _ numeq_sym [OF e]] k by (auto simp: Let_def)
qed auto

lemma hashmod_less: "ls < 32 \<Longrightarrow> hashmod ls n < 2 ^ ls"
proof -
  assume "ls < 32"
  have "(2 ^ ls - 1) OR 1 \<le> (2 ^ ls - 1 :: nat) \<or> ls = 0"
  proof (cases ls)
    case (Suc k)
    have "odd (2 ^ ls - 1 :: nat)" using Suc by simp
    then have "(2 ^ ls - 1) OR 1 = (2 ^ ls - 1 :: nat)" by (simp add: or_one_eq or_Suc_0_eq)
    then show ?thesis by simp
  qed simp
  moreover have "0 < (2 ^ ls - 1) OR (1 :: nat)" by (metis bot_nat_0.not_eq_extremum or_eq_0_iff zero_neq_one)
  then have "hashmod ls n < (2 ^ ls - 1) OR 1" unfolding hashmod_def by (rule mod_less_divisor)
  ultimately have "hashmod ls n < 2 ^ ls - 1 \<or> ls = 0" by linarith
  then show ?thesis
  proof
    assume "ls = 0"
    with \<open>hashmod ls n < (2 ^ ls - 1) OR 1\<close> show ?thesis by simp
  qed linarith
qed

lemma mainposition_less: "ls < 32 \<Longrightarrow> mainposition ls k < 2 ^ ls"
  using lmod_less [of ls] hashmod_less [of ls] by (cases k) (auto simp: hashnum_def hashpow2_def hashpointer_def)

text \<open>The index of a key in the array part, when it has one.\<close>

lemma arrayindex_NumKey: "arrayindex k > 0 \<Longrightarrow> \<exists>n. k = NumKey n \<and> arrayindex k = lua_number2int n \<and> luai_numeq (num_of_int (arrayindex k)) n"
  by (cases k) (auto simp: Let_def split: if_splits)

lemma arrayindex_of_int: "- (2 ^ 31) \<le> i \<Longrightarrow> i < 2 ^ 31 \<Longrightarrow> arrayindex (NumKey (num_of_int i)) = i"
  by (simp add: num_of_int numeq_refl)

lemma arrayindex_range: "arrayindex k < 2 ^ 31"
  using number2int_range by (cases k) (auto simp: Let_def)

lemma arrayindex_inj: "0 < arrayindex a \<Longrightarrow> arrayindex a = arrayindex b \<Longrightarrow> luaO_rawequalObj a b"
proof -
  assume a: "0 < arrayindex a" "arrayindex a = arrayindex b"
  obtain n where n: "a = NumKey n" "luai_numeq (num_of_int (arrayindex a)) n" using arrayindex_NumKey [OF a(1)] by blast
  obtain m where m: "b = NumKey m" "luai_numeq (num_of_int (arrayindex a)) m" using arrayindex_NumKey [of b] a by auto
  show ?thesis using n m numeq_trans [OF numeq_sym [OF n(2)] m(2)] by simp
qed

end
