(* ===== verification/Lua_Scatter.thy ===== *)
theory Lua_Scatter
  imports Lua_Key
begin

text \<open>
  The structure of the hash part of a table, abstracted from the values: successors, keys and main positions.  Every used key is on the chain that starts at
  its main position, chains do not merge and end, and the node at a main position that is in use holds a key that belongs there.  The three ways in
  which \<open>newkey\<close> adds a key keep this invariant.
\<close>

fun chain :: "(nat \<Rightarrow> nat option) \<Rightarrow> nat option \<Rightarrow> nat list \<Rightarrow> bool" where
  "chain nx p [] = (p = None)"
| "chain nx p (a # as) = (p = Some a \<and> chain nx (nx a) as)"

lemma chain_unique: "chain nx p as \<Longrightarrow> chain nx p bs \<Longrightarrow> as = bs"
proof (induction as arbitrary: p bs)
  case Nil
  then show ?case by (cases bs) auto
next
  case (Cons a as)
  then show ?case by (cases bs) auto
qed

lemma chain_suffix: "chain nx p (as @ a # bs) \<Longrightarrow> chain nx (Some a) (a # bs)"
  by (induction as arbitrary: p) auto

lemma chain_distinct: "chain nx p as \<Longrightarrow> distinct as"
proof (induction as arbitrary: p)
  case (Cons a as)
  have "a \<notin> set as"
  proof
    assume "a \<in> set as"
    then obtain xs ys where s: "as = xs @ a # ys" by (auto simp: in_set_conv_decomp)
    have "chain nx (Some a) (a # as)" "chain nx (Some a) (a # ys)" using Cons.prems chain_suffix [of nx p "a # xs" a ys] s by auto
    from chain_unique [OF this] s show False by simp
  qed
  with Cons show ?case by auto
qed simp

lemma chain_cong: "chain nx p as \<Longrightarrow> \<forall>a\<in>set as. nx' a = nx a \<Longrightarrow> chain nx' p as"
  by (induction as arbitrary: p) auto

lemma chain_not_in: "chain nx p as \<Longrightarrow> p \<noteq> Some n \<Longrightarrow> \<forall>j\<in>set as. nx j \<noteq> Some n \<Longrightarrow> n \<notin> set as"
  by (induction as arbitrary: p) auto

definition scatter_ok :: "nat \<Rightarrow> (TKey \<Rightarrow> nat) \<Rightarrow> (nat \<Rightarrow> nat option) \<Rightarrow> (nat \<Rightarrow> TKey) \<Rightarrow> bool" where
  "scatter_ok N mp nx ky \<longleftrightarrow>
     (\<forall>i<N. \<exists>as. chain nx (Some i) as \<and> set as \<subseteq> {..<N}) \<and>
     (\<forall>i<N. \<forall>j<N. nx i \<noteq> None \<longrightarrow> nx i = nx j \<longrightarrow> i = j) \<and>
     (\<forall>i<N. ky i = NilKey \<longrightarrow> nx i = None \<and> (\<forall>j<N. nx j \<noteq> Some i)) \<and>
     (\<forall>i<N. ky i \<noteq> NilKey \<longrightarrow> valid_key (ky i) \<and> (\<exists>as. chain nx (Some (mp (ky i))) as \<and> i \<in> set as)) \<and>
     (\<forall>i<N. ky i \<noteq> NilKey \<longrightarrow> ky (mp (ky i)) \<noteq> NilKey \<and> mp (ky (mp (ky i))) = mp (ky i)) \<and>
     (\<forall>i<N. \<forall>j<N. ky i \<noteq> NilKey \<longrightarrow> luaO_rawequalObj (ky i) (ky j) \<longrightarrow> i = j)"

lemma scatter_chain: "scatter_ok N mp nx ky \<Longrightarrow> i < N \<Longrightarrow> \<exists>as. chain nx (Some i) as \<and> set as \<subseteq> {..<N}"
  unfolding scatter_ok_def by blast

lemma scatter_inj: "scatter_ok N mp nx ky \<Longrightarrow> i < N \<Longrightarrow> j < N \<Longrightarrow> nx i = Some a \<Longrightarrow> nx j = Some a \<Longrightarrow> i = j"
  unfolding scatter_ok_def by (metis option.distinct(1))

lemma scatter_free: "scatter_ok N mp nx ky \<Longrightarrow> i < N \<Longrightarrow> ky i = NilKey \<Longrightarrow> nx i = None \<and> (\<forall>j<N. nx j \<noteq> Some i)"
  unfolding scatter_ok_def by blast

lemma scatter_key: "scatter_ok N mp nx ky \<Longrightarrow> i < N \<Longrightarrow> ky i \<noteq> NilKey \<Longrightarrow> valid_key (ky i) \<and> (\<exists>as. chain nx (Some (mp (ky i))) as \<and> i \<in> set as)"
  unfolding scatter_ok_def by blast

lemma scatter_own: "scatter_ok N mp nx ky \<Longrightarrow> i < N \<Longrightarrow> ky i \<noteq> NilKey \<Longrightarrow> ky (mp (ky i)) \<noteq> NilKey \<and> mp (ky (mp (ky i))) = mp (ky i)"
  unfolding scatter_ok_def by blast

lemma scatter_distinct: "scatter_ok N mp nx ky \<Longrightarrow> i < N \<Longrightarrow> j < N \<Longrightarrow> ky i \<noteq> NilKey \<Longrightarrow> luaO_rawequalObj (ky i) (ky j) \<Longrightarrow> i = j"
  unfolding scatter_ok_def by blast

lemma scatter_empty: "scatter_ok N mp (\<lambda>_. None) (\<lambda>_. NilKey)"
  unfolding scatter_ok_def by (auto intro!: exI [of _ "[_]"])

definition absent :: "nat \<Rightarrow> (nat \<Rightarrow> TKey) \<Rightarrow> TKey \<Rightarrow> bool" where
  "absent N ky k \<longleftrightarrow> (\<forall>i<N. \<not> luaO_rawequalObj (ky i) k)"

lemma distinct_insert:
  assumes "scatter_ok N mp nx ky" "absent N ky k"
  shows "\<forall>i<N. \<forall>j<N. (ky(n := k)) i \<noteq> NilKey \<longrightarrow> luaO_rawequalObj ((ky(n := k)) i) ((ky(n := k)) j) \<longrightarrow> i = j"
  using assms scatter_distinct [OF assms(1)] by (auto simp: absent_def dest: keq_sym)

lemma scatter_overwrite:
  assumes ok: "scatter_ok N mp nx ky" and m: "mp k = m" "m < N" and k: "valid_key k" "absent N ky k"
  shows "scatter_ok N mp nx (ky(m := k))"
  unfolding scatter_ok_def
proof (intro conjI)
  let ?ky = "ky(m := k)"
  have nil: "k \<noteq> NilKey" using k(1) by (auto simp: valid_key_def)
  show "\<forall>i<N. \<exists>as. chain nx (Some i) as \<and> set as \<subseteq> {..<N}" using scatter_chain [OF ok] by blast
  show "\<forall>i<N. \<forall>j<N. nx i \<noteq> None \<longrightarrow> nx i = nx j \<longrightarrow> i = j" using scatter_inj [OF ok] by (metis not_None_eq)
  show "\<forall>i<N. ?ky i = NilKey \<longrightarrow> nx i = None \<and> (\<forall>j<N. nx j \<noteq> Some i)" using scatter_free [OF ok] nil by auto
  obtain as where as: "chain nx (Some m) as" using scatter_chain [OF ok m(2)] by blast
  then have "m \<in> set as" by (cases as) auto
  then show "\<forall>i<N. ?ky i \<noteq> NilKey \<longrightarrow> valid_key (?ky i) \<and> (\<exists>as. chain nx (Some (mp (?ky i))) as \<and> i \<in> set as)"
    using scatter_key [OF ok] k(1) m(1) as by auto
  show "\<forall>i<N. ?ky i \<noteq> NilKey \<longrightarrow> ?ky (mp (?ky i)) \<noteq> NilKey \<and> mp (?ky (mp (?ky i))) = mp (?ky i)"
    using scatter_own [OF ok] m(1) nil by auto
qed (rule distinct_insert [OF ok k(2)])

lemma chain_insert:
  assumes "chain nx p as" "n \<notin> set as" "n \<noteq> m"
  shows "chain (nx(n := nx m, m := Some n)) p (concat (map (\<lambda>a. if a = m then [m, n] else [a]) as))"
  using assms by (induction as arbitrary: p) auto

lemma scatter_insert:
  assumes ok: "scatter_ok N mp nx ky" and m: "mp k = m" "m < N" "ky m \<noteq> NilKey" "mp (ky m) = m" and n: "n < N" "ky n = NilKey"
    and k: "valid_key k" "absent N ky k" and mp: "\<And>k. mp k < N"
  shows "scatter_ok N mp (nx(n := nx m, m := Some n)) (ky(n := k))"
  unfolding scatter_ok_def
proof (intro conjI)
  let ?nx = "nx(n := nx m, m := Some n)" and ?ky = "ky(n := k)"
  let ?g = "\<lambda>as. concat (map (\<lambda>a. if a = m then [m, n] else [a]) as)"
  have nm: "n \<noteq> m" using m(3) n(2) by auto
  have nil: "k \<noteq> NilKey" using k(1) by (auto simp: valid_key_def)
  have free: "nx n = None" "\<And>j. j < N \<Longrightarrow> nx j \<noteq> Some n" using scatter_free [OF ok n] by auto
  have g: "set (?g as) \<subseteq> insert n (set as)" "set as \<subseteq> set (?g as)" "m \<in> set as \<Longrightarrow> n \<in> set (?g as)" for as by (induction as) auto
  have trans: "chain ?nx (Some i) (?g as)" if "chain nx (Some i) as" "i < N" "i \<noteq> n" for i as
  proof -
    have "set as \<subseteq> {..<N}" using scatter_chain [OF ok that(2)] chain_unique [OF that(1)] by auto
    then have "n \<notin> set as" using that free by (intro chain_not_in [OF that(1)]) auto
    from chain_insert [OF that(1) this nm] show ?thesis .
  qed
  obtain ms where ms: "chain nx (Some m) ms" "set ms \<subseteq> {..<N}" using scatter_chain [OF ok m(2)] by blast
  then obtain ms' where ms': "ms = m # ms'" by (cases ms) auto
  have tm: "chain ?nx (Some m) (?g ms)" by (rule trans [OF ms(1) m(2)]) (use nm in simp)
  show "\<forall>i<N. \<exists>as. chain ?nx (Some i) as \<and> set as \<subseteq> {..<N}"
  proof (intro allI impI)
    fix i assume i: "i < N"
    show "\<exists>as. chain ?nx (Some i) as \<and> set as \<subseteq> {..<N}"
    proof (cases "i = n")
      case True
      have "chain ?nx (Some n) (n # ?g ms')" using tm nm by (simp add: ms')
      moreover have "set (n # ?g ms') \<subseteq> {..<N}" using g(1) [of ms'] ms(2) n(1) ms' by auto
      ultimately show ?thesis using True by blast
    next
      case False
      obtain as where as: "chain nx (Some i) as" "set as \<subseteq> {..<N}" using scatter_chain [OF ok i] by blast
      show ?thesis using trans [OF as(1) i False] g(1) [of as] as(2) n(1) by (intro exI [of _ "?g as"]) auto
    qed
  qed
  show "\<forall>i<N. \<forall>j<N. ?nx i \<noteq> None \<longrightarrow> ?nx i = ?nx j \<longrightarrow> i = j"
    using free(2) scatter_inj [OF ok] m(2) by (auto, (metis not_None_eq)+)
  show "\<forall>i<N. ?ky i = NilKey \<longrightarrow> ?nx i = None \<and> (\<forall>j<N. ?nx j \<noteq> Some i)"
    using scatter_free [OF ok] nil m(2,3) by auto
  show "\<forall>i<N. ?ky i \<noteq> NilKey \<longrightarrow> valid_key (?ky i) \<and> (\<exists>as. chain ?nx (Some (mp (?ky i))) as \<and> i \<in> set as)"
  proof (intro allI impI)
    fix i assume i: "i < N" "?ky i \<noteq> NilKey"
    show "valid_key (?ky i) \<and> (\<exists>as. chain ?nx (Some (mp (?ky i))) as \<and> i \<in> set as)"
    proof (cases "i = n")
      case True
      have "n \<in> set (?g ms)" using g(3) [of ms] ms' by simp
      with True k(1) m(1) tm show ?thesis by (intro conjI exI [of _ "?g ms"]) auto
    next
      case False
      with i have ki: "ky i \<noteq> NilKey" by simp
      from scatter_key [OF ok i(1) ki] obtain as where as: "valid_key (ky i)" "chain nx (Some (mp (ky i))) as" "i \<in> set as" by blast
      have "mp (ky i) \<noteq> n" using scatter_own [OF ok i(1) ki] n(2) by auto
      from trans [OF as(2) mp this] g(2) [of as] as False show ?thesis by (intro conjI exI [of _ "?g as"]) auto
    qed
  qed
  show "\<forall>i<N. ?ky i \<noteq> NilKey \<longrightarrow> ?ky (mp (?ky i)) \<noteq> NilKey \<and> mp (?ky (mp (?ky i))) = mp (?ky i)"
    using scatter_own [OF ok] m n nm nil by auto
qed (rule distinct_insert [OF ok k(2)])

lemma chain_move:
  assumes "chain nx p as" "n \<notin> set as" "n \<noteq> m" "nx other = Some m" "other \<noteq> m" "\<forall>a\<in>set as. a \<noteq> other \<longrightarrow> nx a \<noteq> Some m"
  shows "chain (nx(other := Some n, n := nx m, m := None)) (map_option (\<lambda>a. if a = m then n else a) p) (map (\<lambda>a. if a = m then n else a) as)"
  using assms
proof (induction as arbitrary: p)
  case (Cons a as)
  let ?nx = "nx(other := Some n, n := nx m, m := None)" and ?f = "\<lambda>a. if a = m then n else a"
  have I: "chain ?nx (map_option ?f (nx a)) (map ?f as)" using Cons.prems by (intro Cons.IH) auto
  have e: "?nx (?f a) = map_option ?f (nx a)"
    using Cons.prems by (cases "nx a") (auto split: if_splits)
  have p: "p = Some a" using Cons.prems(1) by simp
  show ?case unfolding p list.map option.map chain.simps(2) e using I by blast
qed simp

lemma scatter_move:
  assumes ok: "scatter_ok N mp nx ky" and m: "mp k = m" "m < N" "ky m \<noteq> NilKey" "mp (ky m) \<noteq> m" and n: "n < N" "ky n = NilKey"
    and other: "other < N" "nx other = Some m" and k: "valid_key k" "absent N ky k" and mp: "\<And>k. mp k < N"
  shows "scatter_ok N mp (nx(other := Some n, n := nx m, m := None)) (ky(n := ky m, m := k))"
  unfolding scatter_ok_def
proof (intro conjI)
  let ?nx = "nx(other := Some n, n := nx m, m := None)" and ?ky = "ky(n := ky m, m := k)"
  let ?f = "\<lambda>a. if a = m then n else a"
  have nm: "n \<noteq> m" using m(3) n(2) by auto
  have nil: "k \<noteq> NilKey" using k(1) by (auto simp: valid_key_def)
  have free: "nx n = None" "\<And>j. j < N \<Longrightarrow> nx j \<noteq> Some n" using scatter_free [OF ok n] by auto
  have on: "other \<noteq> n" using other(2) free(1) by auto
  have om: "other \<noteq> m"
  proof
    assume "other = m"
    obtain as where as: "chain nx (Some m) as" using scatter_chain [OF ok m(2)] by blast
    then have "chain nx (Some m) (m # as)" using other(2) \<open>other = m\<close> by simp
    from chain_unique [OF as this] show False by simp
  qed
  have pred: "a = other" if "nx a = Some m" "a < N" for a using scatter_inj [OF ok that(2) other(1) that(1) other(2)] .
  have own: "mp (ky i) \<noteq> m" if "i < N" "ky i \<noteq> NilKey" for i using scatter_own [OF ok that] m(4) by auto
  have trans: "chain ?nx (Some (?f i)) (map ?f as) \<and> ?f ` set as \<subseteq> {..<N}" if "chain nx (Some i) as" "i < N" "i \<noteq> n" for i as
  proof -
    have s: "set as \<subseteq> {..<N}" using scatter_chain [OF ok that(2)] chain_unique [OF that(1)] by auto
    then have "n \<notin> set as" using that free by (intro chain_not_in [OF that(1)]) auto
    moreover have "\<forall>a\<in>set as. a \<noteq> other \<longrightarrow> nx a \<noteq> Some m" using pred s by auto
    ultimately show ?thesis using chain_move [OF that(1) _ nm other(2) om] s n(1) by auto
  qed
  show "\<forall>i<N. \<exists>as. chain ?nx (Some i) as \<and> set as \<subseteq> {..<N}"
  proof (intro allI impI)
    fix i assume i: "i < N"
    consider "i = m" | "i = n" | "i \<noteq> m" "i \<noteq> n" by blast
    then show "\<exists>as. chain ?nx (Some i) as \<and> set as \<subseteq> {..<N}"
    proof cases
      case 1
      then show ?thesis using m(2) by (intro exI [of _ "[m]"]) simp
    next
      case 2
      obtain as where "chain nx (Some m) as" using scatter_chain [OF ok m(2)] by blast
      from trans [OF this m(2)] nm 2 show ?thesis by (intro exI [of _ "map ?f as"]) auto
    next
      case 3
      obtain as where "chain nx (Some i) as" using scatter_chain [OF ok i] by blast
      from trans [OF this i 3(2)] 3(1) show ?thesis by (intro exI [of _ "map ?f as"]) auto
    qed
  qed
  show "\<forall>i<N. \<forall>j<N. ?nx i \<noteq> None \<longrightarrow> ?nx i = ?nx j \<longrightarrow> i = j"
  proof (intro allI impI)
    fix i j assume ij: "i < N" "j < N" "?nx i \<noteq> None" "?nx i = ?nx j"
    define g where "g a = (if a = n then m else a)" for a
    obtain x where x: "?nx i = Some x" "?nx j = Some x" using ij(3,4) by auto
    have c: "a = other \<or> x \<noteq> n \<and> a \<noteq> m \<and> nx (g a) = Some x \<and> g a < N" if "?nx a = Some x" "a < N" for a
      using that free(2) m(2) by (auto simp: g_def split: if_splits)
    show "i = j"
    proof (cases "x = n")
      case True
      with c [OF x(1) ij(1)] c [OF x(2) ij(2)] show ?thesis by blast
    next
      case False
      have "?nx other = Some n" using on om by simp
      with False x have "i \<noteq> other" "j \<noteq> other" by auto
      with c [OF x(1) ij(1)] c [OF x(2) ij(2)] have c': "i \<noteq> m" "j \<noteq> m" "nx (g i) = Some x" "g i < N" "nx (g j) = Some x" "g j < N" by blast+
      from scatter_inj [OF ok c'(4,6,3,5)] c'(1,2) show ?thesis by (auto simp: g_def split: if_splits)
    qed
  qed
  show "\<forall>i<N. ?ky i = NilKey \<longrightarrow> ?nx i = None \<and> (\<forall>j<N. ?nx j \<noteq> Some i)"
    using scatter_free [OF ok] nil m(2,3) other by auto
  show "\<forall>i<N. ?ky i \<noteq> NilKey \<longrightarrow> valid_key (?ky i) \<and> (\<exists>as. chain ?nx (Some (mp (?ky i))) as \<and> i \<in> set as)"
  proof (intro allI impI)
    fix i assume i: "i < N" "?ky i \<noteq> NilKey"
    have moved: "valid_key (ky j) \<and> (\<exists>as. chain ?nx (Some (mp (ky j))) as \<and> ?f j \<in> set as)" if j: "j < N" "ky j \<noteq> NilKey" for j
    proof -
      from scatter_key [OF ok j] obtain as where as: "valid_key (ky j)" "chain nx (Some (mp (ky j))) as" "j \<in> set as" by blast
      have "mp (ky j) \<noteq> n" using scatter_own [OF ok j] n(2) by auto
      from trans [OF as(2) mp this] own [OF j] as show ?thesis by (intro conjI exI [of _ "map ?f as"]) auto
    qed
    consider "i = m" | "i = n" | "i \<noteq> m" "i \<noteq> n" by blast
    then show "valid_key (?ky i) \<and> (\<exists>as. chain ?nx (Some (mp (?ky i))) as \<and> i \<in> set as)"
    proof cases
      case 1
      then show ?thesis using k(1) m(1) by (intro conjI exI [of _ "[m]"]) auto
    next
      case 2
      with moved [OF m(2,3)] nm show ?thesis by simp
    next
      case 3
      with moved [of i] i show ?thesis by simp
    qed
  qed
  show "\<forall>i<N. ?ky i \<noteq> NilKey \<longrightarrow> ?ky (mp (?ky i)) \<noteq> NilKey \<and> mp (?ky (mp (?ky i))) = mp (?ky i)"
    using scatter_own [OF ok] own m n nil by auto
  show "\<forall>i<N. \<forall>j<N. ?ky i \<noteq> NilKey \<longrightarrow> luaO_rawequalObj (?ky i) (?ky j) \<longrightarrow> i = j"
    using k(2) scatter_distinct [OF ok] m(2,3) n(2) nil by (auto simp: absent_def keq_nil dest: keq_sym)
qed

subsection \<open>Search\<close>

lemma find_chain_spec:
  assumes "chain (\<lambda>i. n_next (ns ! i)) (Some n) as"
  shows "find_chain f ns n = Some (case find (\<lambda>i. f (ns ! i)) as of None \<Rightarrow> NilObject | Some i \<Rightarrow> NodeSlot i)"
  using assms
proof (induction as arbitrary: n)
  case (Cons a as)
  then show ?case by (cases as) (auto simp: find_chain.simps [of f ns a] split: option.splits)
qed simp

lemma find_prev_spec:
  assumes "chain (\<lambda>i. n_next (ns ! i)) (Some p) as" "m \<in> set as" "m \<noteq> p"
  shows "\<exists>o'. find_prev ns m p = Some o' \<and> n_next (ns ! o') = Some m \<and> o' \<in> set as"
  using assms
proof (induction as arbitrary: p)
  case (Cons a as)
  show ?case
  proof (cases "n_next (ns ! p) = Some m")
    case True
    with Cons.prems(1) show ?thesis by (auto simp: find_prev.simps [of ns m a])
  next
    case False
    from Cons.prems have a: "a = p" "m \<in> set as" "chain (\<lambda>i. n_next (ns ! i)) (n_next (ns ! p)) as" by auto
    then obtain q where q: "n_next (ns ! p) = Some q" by (cases as) auto
    from Cons.IH [of q] a q False show ?thesis by (auto simp: find_prev.simps [of ns m p])
  qed
qed simp

end
