(* ===== verification/Lua_Table_Props.thy ===== *)
theory Lua_Table_Props
  imports Lua_Scatter
begin

text \<open>
  Correctness of tables: the invariant, search, insertion and growing.  Abstractly a table is the function from keys to values that \<open>luaH_get\<close> computes; setting a key changes this
  function at the keys equal to it and nowhere else, also when the table is rehashed.
\<close>

subsection \<open>The invariant\<close>

abbreviation keyof :: "'v table \<Rightarrow> nat \<Rightarrow> TKey" where "keyof t i \<equiv> i_key (t_node t ! i)"
abbreviation succof :: "'v table \<Rightarrow> nat \<Rightarrow> nat option" where "succof t i \<equiv> n_next (t_node t ! i)"
abbreviation valof :: "'v table \<Rightarrow> nat \<Rightarrow> 'v option" where "valof t i \<equiv> i_val (t_node t ! i)"
abbreviation nnodes :: "'v table \<Rightarrow> nat" where "nnodes t \<equiv> length (t_node t)"

definition in_array :: "'v table \<Rightarrow> TKey \<Rightarrow> bool" where
  "in_array t k \<longleftrightarrow> 0 < arrayindex k \<and> arrayindex k \<le> int (length (t_array t))"

definition table_ok :: "'v table \<Rightarrow> bool" where
  "table_ok t \<longleftrightarrow> lsizenode t \<le> MAXBITS \<and> nnodes t = 2 ^ lsizenode t \<and> length (t_array t) \<le> MAXASIZE \<and>
     scatter_ok (nnodes t) (mainposition (lsizenode t)) (succof t) (keyof t) \<and>
     (\<forall>i<nnodes t. keyof t i = NilKey \<longrightarrow> valof t i = None) \<and>
     (\<forall>i<nnodes t. keyof t i \<noteq> NilKey \<longrightarrow> \<not> in_array t (keyof t i)) \<and>
     (if t_dummy t then t_node t = [dummynode] \<and> lastfree t \<le> 0
      else lastfree t \<le> int (nnodes t) \<and> (\<forall>i<nnodes t. lastfree t \<le> int i \<longrightarrow> keyof t i \<noteq> NilKey))"

lemma table_mp: "table_ok t \<Longrightarrow> mainposition (lsizenode t) k < nnodes t"
  using mainposition_less [of "lsizenode t" k] by (simp add: table_ok_def MAXBITS_def)

lemma table_scatter: "table_ok t \<Longrightarrow> scatter_ok (nnodes t) (mainposition (lsizenode t)) (succof t) (keyof t)"
  unfolding table_ok_def by blast

definition locate :: "'v table \<Rightarrow> TKey \<Rightarrow> slot" where
  "locate t k = (if in_array t k then ArraySlot (nat (arrayindex k - 1))
     else case find (\<lambda>i. luaO_rawequalObj (keyof t i) k) [0..<nnodes t] of Some i \<Rightarrow> NodeSlot i | None \<Rightarrow> NilObject)"

lemma find_unique:
  assumes "\<forall>a\<in>set xs. \<forall>b\<in>set xs. P a \<and> P b \<longrightarrow> a = b"
  shows "find P xs = Some i \<longleftrightarrow> i \<in> set xs \<and> P i"
  using assms by (induction xs) auto

lemma key_unique:
  assumes "table_ok t" "valid_key k" "i < nnodes t" "j < nnodes t" "luaO_rawequalObj (keyof t i) k" "luaO_rawequalObj (keyof t j) k"
  shows "i = j"
proof -
  have "luaO_rawequalObj (keyof t i) (keyof t j)" using assms(5,6) by (blast intro: keq_trans keq_sym)
  moreover have "keyof t i \<noteq> NilKey" using assms(2,5) by (auto simp: keq_nil valid_key_def)
  ultimately show ?thesis using assms(1,3,4) scatter_distinct unfolding table_ok_def by blast
qed

lemma get_generic_locate:
  assumes ok: "table_ok t" and k: "k \<noteq> NilKey" and a: "\<not> in_array t k"
  shows "get_generic t k = Some (locate t k)"
proof -
  let ?P = "\<lambda>i. luaO_rawequalObj (keyof t i) k"
  note sc = table_scatter [OF ok]
  obtain as where as: "chain (succof t) (Some (mainposition (lsizenode t) k)) as" "set as \<subseteq> {..<nnodes t}"
    using scatter_chain [OF sc table_mp [OF ok]] by blast
  have g: "get_generic t k = Some (case find ?P as of None \<Rightarrow> NilObject | Some i \<Rightarrow> NodeSlot i)"
    unfolding get_generic_def by (rule find_chain_spec [OF as(1)])
  have mem: "i \<in> set as" if "i < nnodes t" "?P i" for i
  proof -
    have "keyof t i \<noteq> NilKey" using that(2) k by (auto simp: keq_nil)
    from scatter_key [OF sc that(1) this] obtain bs where "chain (succof t) (Some (mainposition (lsizenode t) (keyof t i))) bs" "i \<in> set bs" by blast
    with as(1) show ?thesis using mainposition_cong [OF that(2), of "lsizenode t"] chain_unique by auto
  qed
  have u: "i = j" if "i < nnodes t" "j < nnodes t" "?P i" "?P j" for i j
  proof -
    have "keyof t i \<noteq> NilKey" using that(3) k by (auto simp: keq_nil)
    moreover have "luaO_rawequalObj (keyof t i) (keyof t j)" using that(3,4) by (blast intro: keq_trans keq_sym)
    ultimately show ?thesis using scatter_distinct [OF sc that(1,2)] by blast
  qed
  have "find ?P as = find ?P [0..<nnodes t]"
  proof (cases "find ?P as")
    case None
    then have "\<not> (\<exists>i<nnodes t. ?P i)" using mem by (auto simp: find_None_iff)
    then have "find ?P [0..<nnodes t] = None" by (auto simp: find_None_iff)
    with None show ?thesis by simp
  next
    case (Some i)
    then have "?P i" "i \<in> set as" by (auto simp: find_Some_iff)
    moreover have "find ?P [0..<nnodes t] = Some i \<longleftrightarrow> i \<in> set [0..<nnodes t] \<and> ?P i" by (rule find_unique) (use u in auto)
    ultimately show ?thesis using Some as(2) by auto
  qed
  with g a show ?thesis by (auto simp: locate_def split: option.splits)
qed

lemma array_index_unsigned:
  assumes "- (2 ^ 31) \<le> i" "i < 2 ^ 31" "n \<le> 2 ^ 26"
  shows "unat (of_int (i - 1) :: 32 word) < n \<longleftrightarrow> 0 < i \<and> i \<le> int n"
proof -
  have "int (unat (of_int x :: 32 word)) = x mod 2 ^ 32" for x by (simp add: uint_word_of_int flip: uint_nat)
  define m where "m = unat (of_int (i - 1) :: 32 word)"
  have u: "int m = (i - 1) mod 2 ^ 32" unfolding m_def by fact
  have "m < n \<longleftrightarrow> 0 < i \<and> i \<le> int n"
  proof (cases "0 < i")
    case True
    then have "(i - 1) mod 2 ^ 32 = i - 1" using assms(2) by (intro mod_pos_pos_trivial) auto
    with u True show ?thesis by linarith
  next
    case False
    have "(i - 1) mod 2 ^ 32 = (i - 1 + 2 ^ 32) mod 2 ^ 32" by (rule mod_add_self2 [symmetric])
    also have "\<dots> = i - 1 + 2 ^ 32" using False assms(1) by (intro mod_pos_pos_trivial) auto
    finally have "(i - 1) mod 2 ^ 32 = i - 1 + 2 ^ 32" .
    with u assms(1,3) have "\<not> m < n" by simp
    with False show ?thesis by blast
  qed
  then show ?thesis by (simp only: m_def)
qed

lemma luaH_getnum_locate:
  assumes ok: "table_ok t" and k: "- (2 ^ 31) \<le> i" "i < 2 ^ 31"
  shows "luaH_getnum t i = Some (locate t (NumKey (num_of_int i)))"
proof -
  have ai: "arrayindex (NumKey (num_of_int i)) = i" by (rule arrayindex_of_int [OF k])
  have u: "unat (of_int (i - 1) :: 32 word) < length (t_array t) \<longleftrightarrow> in_array t (NumKey (num_of_int i))"
    using array_index_unsigned [OF k, of "length (t_array t)"] ok unfolding in_array_def ai by (simp add: table_ok_def MAXASIZE_def MAXBITS_def)
  show ?thesis
  proof (cases "in_array t (NumKey (num_of_int i))")
    case True
    then show ?thesis using u ai by (simp add: luaH_getnum_def locate_def)
  next
    case False
    have "is_number (num_of_int i) n = luaO_rawequalObj (i_key n) (NumKey (num_of_int i))" for n :: "'a node"
      by (cases "i_key n") (auto simp: is_number_def)
    then have "luaH_getnum t i = get_generic t (NumKey (num_of_int i))"
      using False u by (simp add: luaH_getnum_def get_generic_def) (metis (mono_tags, lifting) ext)
    with get_generic_locate [OF ok _ False] show ?thesis by simp
  qed
qed

text \<open>Every search finds the slot of the key, or the nil object.\<close>

lemma luaH_get_locate:
  assumes ok: "table_ok t"
  shows "luaH_get t k = Some (if k = NilKey then NilObject else locate t k)"
proof (cases k)
  case (NumKey n)
  define i where "i = lua_number2int n"
  have r: "- (2 ^ 31) \<le> i" "i < 2 ^ 31" using number2int_range [of n] by (simp_all add: i_def)
  show ?thesis
  proof (cases "luai_numeq (num_of_int i) n")
    case True
    then have q: "luaO_rawequalObj (NumKey (num_of_int i)) (NumKey n)" by simp
    have "luaO_rawequalObj a (NumKey (num_of_int i)) = luaO_rawequalObj a (NumKey n)" for a
      using keq_trans [OF _ q] keq_trans [OF _ keq_sym [OF q]] by blast
    then have "locate t (NumKey (num_of_int i)) = locate t (NumKey n)"
      using arrayindex_cong [OF q] by (simp add: locate_def in_array_def)
    with luaH_getnum_locate [OF ok r] True NumKey show ?thesis by (simp add: i_def Let_def)
  next
    case False
    then have "arrayindex k = - 1" using NumKey by (simp add: i_def Let_def)
    then have "\<not> in_array t k" by (simp add: in_array_def)
    with get_generic_locate [OF ok _ this] False NumKey show ?thesis by (simp add: i_def Let_def)
  qed
next
  case (StrKey s)
  have "luaO_rawequalObj a (StrKey s) \<longleftrightarrow> a = StrKey s" for a by (cases a) auto
  then have "luaH_getstr t s = get_generic t k" by (simp add: luaH_getstr_def get_generic_def StrKey)
  with get_generic_locate [OF ok, of k] StrKey show ?thesis by (simp add: in_array_def)
qed (use get_generic_locate [OF ok, of k] in \<open>simp_all add: in_array_def\<close>)

subsection \<open>Contents\<close>

definition tget :: "'v table \<Rightarrow> TKey \<Rightarrow> 'v option" where
  "tget t k = (case luaH_get t k of Some p \<Rightarrow> slot_get t p | None \<Rightarrow> None)"

text \<open>The live entries of the hash part.\<close>

definition entries :: "'v table \<Rightarrow> (TKey \<times> 'v) set" where
  "entries t = {(keyof t i, v) | i v. i < nnodes t \<and> valof t i = Some v}"

lemma locate_node:
  assumes "table_ok t" "valid_key k" "\<not> in_array t k"
  shows "locate t k = NodeSlot i \<longleftrightarrow> i < nnodes t \<and> luaO_rawequalObj (keyof t i) k"
    and "locate t k = NilObject \<longleftrightarrow> absent (nnodes t) (keyof t) k"
proof -
  let ?P = "\<lambda>i. luaO_rawequalObj (keyof t i) k"
  have "find ?P [0..<nnodes t] = Some i \<longleftrightarrow> i \<in> set [0..<nnodes t] \<and> ?P i"
    using key_unique [OF assms(1,2)] by (intro find_unique) auto
  then show "locate t k = NodeSlot i \<longleftrightarrow> i < nnodes t \<and> luaO_rawequalObj (keyof t i) k"
    using assms(3) by (auto simp: locate_def split: option.splits)
  show "locate t k = NilObject \<longleftrightarrow> absent (nnodes t) (keyof t) k"
    using assms(3) by (auto simp: locate_def absent_def find_None_iff find_Some_iff split: option.splits)
qed

lemma tget_locate: "table_ok t \<Longrightarrow> valid_key k \<Longrightarrow> tget t k = slot_get t (locate t k)"
  by (auto simp: tget_def luaH_get_locate valid_key_def)

lemma tget_array: "table_ok t \<Longrightarrow> in_array t k \<Longrightarrow> tget t k = t_array t ! nat (arrayindex k - 1)"
proof -
  assume "table_ok t" and a: "in_array t k"
  moreover have "k \<noteq> NilKey" using a by (auto simp: in_array_def)
  ultimately show ?thesis by (simp add: tget_def luaH_get_locate locate_def)
qed

lemma tget_hash:
  assumes "table_ok t" "valid_key k" "\<not> in_array t k"
  shows "tget t k = Some v \<longleftrightarrow> (\<exists>k0. (k0, v) \<in> entries t \<and> luaO_rawequalObj k0 k)"
proof -
  note l = locate_node [OF assms]
  have "tget t k = Some v \<longleftrightarrow> (\<exists>i. locate t k = NodeSlot i \<and> valof t i = Some v)"
    using assms by (cases "locate t k") (auto simp: tget_locate locate_def split: option.splits)
  then show ?thesis unfolding l entries_def by auto
qed

lemma tget_cong: "table_ok t \<Longrightarrow> valid_key k \<Longrightarrow> valid_key k' \<Longrightarrow> luaO_rawequalObj k k' \<Longrightarrow> tget t k = tget t k'"
proof -
  assume ok: "table_ok t" "valid_key k" "valid_key k'" and q: "luaO_rawequalObj k k'"
  have "luaO_rawequalObj a k = luaO_rawequalObj a k'" for a using keq_trans [OF _ q] keq_trans [OF _ keq_sym [OF q]] by blast
  then have "locate t k = locate t k'" using arrayindex_cong [OF q] by (simp add: locate_def in_array_def)
  with ok show ?thesis by (simp add: tget_locate)
qed

subsection \<open>Adding a key\<close>

definition used :: "'v table \<Rightarrow> nat" where
  "used t = card {i. i < nnodes t \<and> keyof t i \<noteq> NilKey}"

lemma free_loop_spec:
  "case free_loop ns l of None \<Rightarrow> \<forall>j<l. i_key (ns ! j) \<noteq> NilKey
   | Some i \<Rightarrow> i < l \<and> i_key (ns ! i) = NilKey \<and> (\<forall>j<l. i < j \<longrightarrow> i_key (ns ! j) \<noteq> NilKey)"
  by (induction l) (auto simp: less_Suc_eq split: option.splits)

lemma getfreepos_spec:
  assumes ok: "table_ok t" "\<not> t_dummy t" and free: "i < nnodes t" "keyof t i = NilKey"
  shows "\<exists>n. getfreepos t = (Some n, t\<lparr>lastfree := int n\<rparr>) \<and> n < nnodes t \<and> keyof t n = NilKey \<and> (\<forall>j<nnodes t. n < j \<longrightarrow> keyof t j \<noteq> NilKey)"
proof -
  have l: "lastfree t \<le> int (nnodes t)" "\<And>j. j < nnodes t \<Longrightarrow> lastfree t \<le> int j \<Longrightarrow> keyof t j \<noteq> NilKey"
    using ok by (auto simp: table_ok_def)
  then have "int i < lastfree t" using free by (meson not_le)
  then have i: "i < nat (lastfree t)" by simp
  show ?thesis
  proof (cases "free_loop (t_node t) (nat (lastfree t))")
    case None
    with free_loop_spec [where ns = "t_node t" and l = "nat (lastfree t)"] i free show ?thesis by auto
  next
    case (Some n)
    with free_loop_spec [where ns = "t_node t" and l = "nat (lastfree t)"] have n: "n < nat (lastfree t)" "keyof t n = NilKey"
      "\<forall>j<nat (lastfree t). n < j \<longrightarrow> keyof t j \<noteq> NilKey" by auto
    have "\<forall>j<nnodes t. n < j \<longrightarrow> keyof t j \<noteq> NilKey" using n(3) l(2) by (metis int_nat_eq nat_less_iff not_le of_nat_less_0_iff zless_nat_eq_int_zless)
    with n l(1) Some show ?thesis by (auto simp: getfreepos_def)
  qed
qed

lemma used_upd:
  assumes "nnodes t' = nnodes t" "{i. i < nnodes t \<and> keyof t' i \<noteq> NilKey} \<subseteq> insert x {i. i < nnodes t \<and> keyof t i \<noteq> NilKey}"
  shows "used t' \<le> used t + 1"
proof -
  have "used t' \<le> card (insert x {i. i < nnodes t \<and> keyof t i \<noteq> NilKey})"
    unfolding used_def assms(1) by (intro card_mono assms(2)) auto
  also have "\<dots> \<le> used t + 1" unfolding used_def by (simp add: card_insert_if)
  finally show ?thesis .
qed

lemma node_fields:
  assumes "mp < nnodes t" "n < nnodes t" "n \<noteq> mp"
  shows "keyof (place_key n k (t\<lparr>lastfree := l, t_node := chain_after mp n (t_node t)\<rparr>)) = (keyof t)(n := k)"
    "succof (place_key n k (t\<lparr>lastfree := l, t_node := chain_after mp n (t_node t)\<rparr>)) = (succof t)(n := succof t mp, mp := Some n)"
    "valof (place_key n k (t\<lparr>lastfree := l, t_node := chain_after mp n (t_node t)\<rparr>)) = valof t"
  using assms by (auto simp: place_key_def chain_after_def set_next_def nth_list_update fun_eq_iff)

lemma moved_fields:
  assumes "mp < nnodes t" "n < nnodes t" "n \<noteq> mp" "other < nnodes t" "other \<noteq> n" "other \<noteq> mp"
  shows "keyof (place_key mp k (t\<lparr>lastfree := l, t_node := move_colliding other mp n (t_node t)\<rparr>)) = (keyof t)(n := keyof t mp, mp := k)"
    "succof (place_key mp k (t\<lparr>lastfree := l, t_node := move_colliding other mp n (t_node t)\<rparr>)) =
      (succof t)(other := Some n, n := succof t mp, mp := None)"
    "valof (place_key mp k (t\<lparr>lastfree := l, t_node := move_colliding other mp n (t_node t)\<rparr>)) = (valof t)(n := valof t mp, mp := None)"
  using assms by (auto simp: place_key_def move_colliding_def set_next_def Let_def nth_list_update fun_eq_iff)

lemma placed_fields:
  assumes "mp < nnodes t"
  shows "keyof (place_key mp k t) = (keyof t)(mp := k)" "succof (place_key mp k t) = succof t" "valof (place_key mp k t) = valof t"
  using assms by (auto simp: place_key_def nth_list_update fun_eq_iff)

lemma entries_cong:
  assumes "nnodes t' = nnodes t" "\<And>i. i < nnodes t \<Longrightarrow> valof t' i = valof t i"
    "\<And>i. i < nnodes t \<Longrightarrow> valof t i \<noteq> None \<Longrightarrow> keyof t' i = keyof t i"
  shows "entries t' = entries t"
proof -
  have "i < nnodes t' \<and> valof t' i = Some v \<longleftrightarrow> i < nnodes t \<and> valof t i = Some v" for i v using assms(1,2) by auto
  moreover have "keyof t' i = keyof t i" if "i < nnodes t" "valof t i = Some v" for i v using assms(3) that by auto
  ultimately show ?thesis unfolding entries_def by (metis (mono_tags, lifting))
qed

lemma entries_move:
  assumes "nnodes t' = nnodes t" "m < nnodes t" "n < nnodes t" "n \<noteq> m" "valof t n = None"
    and "keyof t' = (keyof t)(n := keyof t m, m := k)" "valof t' = (valof t)(n := valof t m, m := None)"
  shows "entries t' = entries t"
proof -
  define g where "g j = (if j = m then n else j)" for j
  have "\<exists>j<nnodes t. keyof t' i = keyof t j \<and> valof t j = Some v" if "i < nnodes t" "valof t' i = Some v" for i v
    using that assms(2-5) fun_cong [OF assms(6)] fun_cong [OF assms(7)] by (cases "i = n") (auto split: if_splits)
  moreover have "\<exists>j<nnodes t. keyof t' j = keyof t i \<and> valof t' j = Some v" if "i < nnodes t" "valof t i = Some v" for i v
    using that assms(2-5) fun_cong [OF assms(6)] fun_cong [OF assms(7)] by (intro exI [of _ "g i"]) (auto simp: g_def)
  ultimately show ?thesis unfolding entries_def assms(1) by (auto, metis, metis)
qed

text \<open>What adding a key does to a table: the key sits at a node without a value, and the entries are as before.\<close>

definition added :: "'v table \<Rightarrow> TKey \<Rightarrow> nat \<Rightarrow> 'v table \<Rightarrow> bool" where
  "added t k i t' \<longleftrightarrow> table_ok t' \<and> i < nnodes t' \<and> keyof t' i = k \<and> valof t' i = None \<and> entries t' = entries t \<and>
     t_array t' = t_array t \<and> lsizenode t' = lsizenode t \<and> \<not> t_dummy t' \<and> used t' \<le> used t + 1"

lemma added_intro:
  assumes ok: "table_ok t" "\<not> t_dummy t" "\<not> in_array t k" "k \<noteq> NilKey"
    and same: "nnodes t' = nnodes t" "lsizenode t' = lsizenode t" "t_array t' = t_array t" "\<not> t_dummy t'"
    and sc: "scatter_ok (nnodes t) (mainposition (lsizenode t)) (succof t') (keyof t')"
    and lf: "lastfree t' \<le> int (nnodes t)" "\<forall>i<nnodes t. lastfree t' \<le> int i \<longrightarrow> keyof t' i \<noteq> NilKey"
    and i: "i < nnodes t" "keyof t' i = k" "valof t' i = None" "entries t' = entries t"
    and keys: "\<forall>j<nnodes t. keyof t' j \<noteq> NilKey \<longrightarrow> keyof t' j = k \<or> (\<exists>j'<nnodes t. keyof t' j = keyof t j')"
    and vals: "\<forall>j<nnodes t. keyof t' j = NilKey \<longrightarrow> valof t' j = None"
    and u: "used t' \<le> used t + 1"
  shows "added t k i t'"
proof -
  have "\<not> in_array t' (keyof t' j)" if "j < nnodes t" "keyof t' j \<noteq> NilKey" for j
    using keys that ok(1,3) same(3) unfolding table_ok_def in_array_def by metis
  then show ?thesis
    using ok same sc lf i vals u by (auto simp: added_def table_ok_def)
qed

lemma newkey_room:
  assumes ok: "table_ok t" "\<not> t_dummy t" and k: "valid_key k" "locate t k = NilObject"
    and room: "valof t (mainposition (lsizenode t) k) = None \<or> f < nnodes t \<and> keyof t f = NilKey"
  shows "\<exists>i t'. newkey_with grow t k = Some (Inr (NodeSlot i, t')) \<and> added t k i t'"
proof -
  let ?mp = "mainposition (lsizenode t)"
  define m where "m = ?mp k"
  note sc = table_scatter [OF ok(1)]
  have m: "m < nnodes t" using table_mp [OF ok(1)] by (simp add: m_def)
  have na: "\<not> in_array t k" using k(2) by (auto simp: locate_def)
  have abs: "absent (nnodes t) (keyof t) k" using locate_node(2) [OF ok(1) k(1) na] k(2) by blast
  have nil: "k \<noteq> NilKey" using k(1) by (auto simp: valid_key_def)
  have vals: "keyof t i = NilKey \<Longrightarrow> valof t i = None" if "i < nnodes t" for i using ok(1) that by (auto simp: table_ok_def)
  have lf: "lastfree t \<le> int (nnodes t)" "\<forall>i<nnodes t. lastfree t \<le> int i \<longrightarrow> keyof t i \<noteq> NilKey" using ok by (auto simp: table_ok_def)
  note mp = table_mp [OF ok(1)]
  show ?thesis
  proof (cases "valof t m")
    case None
    define t' where "t' = place_key m k t"
    note f = placed_fields [OF m, of k, folded t'_def]
    note f' = f [THEN fun_cong]
    have "newkey_with grow t k = Some (Inr (NodeSlot m, t'))" using None ok(2) by (simp add: newkey_with_def Let_def m_def t'_def)
    moreover have l: "nnodes t' = nnodes t" "lsizenode t' = lsizenode t" "t_array t' = t_array t" "t_dummy t' = t_dummy t" "lastfree t' = lastfree t"
      by (simp_all add: t'_def place_key_def)
    have "added t k m t'"
    proof (rule added_intro [OF ok na nil])
      show "scatter_ok (nnodes t) ?mp (succof t') (keyof t')" unfolding f by (rule scatter_overwrite [OF sc _ m k(1) abs]) (simp add: m_def)
      show "entries t' = entries t" by (rule entries_cong [OF l(1)]) (use None in \<open>auto simp: f'\<close>)
      show "used t' \<le> used t + 1" by (rule used_upd [of _ _ m, OF l(1)]) (auto simp: f')
    qed (use lf None vals m nil ok(2) l in \<open>auto simp: f'\<close>)
    ultimately show ?thesis by blast
  next
    case (Some v)
    then have km: "keyof t m \<noteq> NilKey" and free: "f < nnodes t" "keyof t f = NilKey" using vals [OF m] room by (auto simp: m_def)
    from getfreepos_spec [OF ok free] obtain n where n: "getfreepos t = (Some n, t\<lparr>lastfree := int n\<rparr>)" "n < nnodes t" "keyof t n = NilKey"
      "\<forall>j<nnodes t. n < j \<longrightarrow> keyof t j \<noteq> NilKey" by blast
    have nm: "n \<noteq> m" using km n(3) by auto
    have vn: "valof t n = None" using vals n(2,3) by blast
    define other where "other = ?mp (keyof t m)"
    show ?thesis
    proof (cases "other = m")
      case True
      define t' where "t' = place_key n k (t\<lparr>lastfree := int n, t_node := chain_after m n (t_node t)\<rparr>)"
      note f = node_fields [OF m n(2) nm, of k "int n", folded t'_def]
      note f' = f [THEN fun_cong]
      have "newkey_with grow t k = Some (Inr (NodeSlot n, t'))"
        using Some n(1) True by (simp add: newkey_with_def Let_def m_def [symmetric] other_def [symmetric] t'_def)
      moreover have l: "nnodes t' = nnodes t" "lsizenode t' = lsizenode t" "t_array t' = t_array t" "t_dummy t' = t_dummy t" "lastfree t' = int n"
        by (simp_all add: t'_def place_key_def chain_after_def set_next_def)
      have "added t k n t'"
      proof (rule added_intro [OF ok na nil])
        show "scatter_ok (nnodes t) ?mp (succof t') (keyof t')"
          unfolding f using True by (intro scatter_insert [OF sc _ m km _ n(2,3) k(1) abs mp]) (simp_all add: m_def other_def)
        show "entries t' = entries t" by (rule entries_cong [OF l(1)]) (use vn n(3) vals in \<open>auto simp: f'\<close>)
        show "used t' \<le> used t + 1" by (rule used_upd [of _ _ n, OF l(1)]) (auto simp: f')
      qed (use n vals nil vn ok(2) l in \<open>auto simp: f' order_le_less\<close>)
      ultimately show ?thesis by blast
    next
      case False
      obtain as where as: "chain (succof t) (Some other) as" "m \<in> set as" using scatter_key [OF sc m km] by (auto simp: other_def)
      have asN: "set as \<subseteq> {..<nnodes t}" using scatter_chain [OF sc mp] as(1) chain_unique unfolding other_def by blast
      from find_prev_spec [OF as False [symmetric]] obtain o' where o': "find_prev (t_node t) m other = Some o'" "succof t o' = Some m" "o' < nnodes t"
        using asN by auto
      have on: "o' \<noteq> n" using scatter_free [OF sc n(2,3)] o'(2) by auto
      have om: "o' \<noteq> m"
      proof
        assume e: "o' = m"
        obtain bs where bs: "chain (succof t) (Some m) bs" using scatter_chain [OF sc m] by blast
        then have "chain (succof t) (Some m) (m # bs)" using o'(2) e by simp
        from chain_unique [OF bs this] show False by simp
      qed
      define t' where "t' = place_key m k (t\<lparr>lastfree := int n, t_node := move_colliding o' m n (t_node t)\<rparr>)"
      note f = moved_fields [OF m n(2) nm o'(3) on om, of k "int n", folded t'_def]
      note f' = f [THEN fun_cong]
      have "newkey_with grow t k = Some (Inr (NodeSlot m, t'))"
        using Some n(1) False o'(1) by (simp add: newkey_with_def Let_def m_def [symmetric] other_def [symmetric] t'_def)
      moreover have l: "nnodes t' = nnodes t" "lsizenode t' = lsizenode t" "t_array t' = t_array t" "t_dummy t' = t_dummy t" "lastfree t' = int n"
        by (simp_all add: t'_def place_key_def move_colliding_def set_next_def Let_def)
      have "added t k m t'"
      proof (rule added_intro [OF ok na nil])
        show "scatter_ok (nnodes t) ?mp (succof t') (keyof t')"
          unfolding f using False by (intro scatter_move [OF sc _ m km _ n(2,3) o'(3,2) k(1) abs mp]) (simp_all add: m_def other_def)
        show "entries t' = entries t" by (rule entries_move [OF l(1) m n(2) nm vn f(1,3)])
        show "used t' \<le> used t + 1" by (rule used_upd [of _ _ n, OF l(1)]) (auto simp: f' km m)
      qed (use n vals nil vn m km ok(2) l in \<open>auto simp: f' order_le_less\<close>)
      ultimately show ?thesis by blast
    qed
  qed
qed

end
