(* ===== verification/Lua_Table_Put.thy ===== *)
theory Lua_Table_Put
  imports Lua_Table_Props
begin

text \<open>
  Storing a value at the place that a search or \<open>newkey\<close> gives, and the loops of \<open>resize\<close> that store the old contents again.
\<close>

subsection \<open>Storing one value\<close>

text \<open>What \<open>slot_set t' p v\<close> is when \<open>p\<close> and \<open>t'\<close> come from setting the key \<open>k\<close> of \<open>t\<close>.\<close>

definition put :: "'v table \<Rightarrow> TKey \<Rightarrow> 'v option \<Rightarrow> 'v table \<Rightarrow> bool" where
  "put t k v t' \<longleftrightarrow> table_ok t' \<and> (\<forall>k'. valid_key k' \<longrightarrow> tget t' k' = (if luaO_rawequalObj k' k then v else tget t k')) \<and>
     length (t_array t') = length (t_array t) \<and> lsizenode t' = lsizenode t \<and> t_dummy t' = t_dummy t \<and>
     used t' \<le> used t + (if locate t k = NilObject then 1 else 0)"

lemma in_array_cong: "length (t_array t') = length (t_array t) \<Longrightarrow> in_array t' = in_array t"
  by (simp add: in_array_def fun_eq_iff)

lemma flags_ok: "table_ok (t\<lparr>t_flags := f\<rparr>) = table_ok t" "locate (t\<lparr>t_flags := f\<rparr>) = locate t" "used (t\<lparr>t_flags := f\<rparr>) = used t"
  "in_array (t\<lparr>t_flags := f\<rparr>) = in_array t" "entries (t\<lparr>t_flags := f\<rparr>) = entries t"
  by (simp_all add: table_ok_def locate_def used_def in_array_def entries_def fun_eq_iff)

lemma tget_flags: "tget (t\<lparr>t_flags := f\<rparr>) k = tget t k"
proof -
  have s: "slot_get (t\<lparr>t_flags := f\<rparr>) p = slot_get t p" for p by (cases p) auto
  have "luaH_getnum (t\<lparr>t_flags := f\<rparr>) i = luaH_getnum t i" "get_generic (t\<lparr>t_flags := f\<rparr>) k = get_generic t k" for i k
    by (simp_all add: luaH_getnum_def get_generic_def)
  then have "luaH_get (t\<lparr>t_flags := f\<rparr>) k = luaH_get t k" by (cases k) (simp_all add: luaH_getstr_def Let_def)
  then show ?thesis unfolding tget_def s by simp
qed

lemma put_flags: "put (t\<lparr>t_flags := f\<rparr>) k v t' = put t k v t'"
  by (simp add: put_def tget_flags flags_ok)

lemma node_not_dummy: "table_ok t \<Longrightarrow> i < nnodes t \<Longrightarrow> keyof t i \<noteq> NilKey \<Longrightarrow> \<not> t_dummy t"
  unfolding table_ok_def by (cases i) (auto simp: dummynode_def)

lemma put_at_array:
  assumes ok: "table_ok t" and k: "valid_key k" "in_array t k"
  shows "put t k v (slot_set t (locate t k) v)"
proof -
  define i where "i = nat (arrayindex k - 1)"
  define t' where "t' = slot_set t (locate t k) v"
  have t': "t' = t\<lparr>t_array := (t_array t)[i := v]\<rparr>" using k by (simp add: t'_def locate_def i_def)
  have l: "length (t_array t') = length (t_array t)" by (simp add: t')
  note a = in_array_cong [OF l]
  have n: "t_node t' = t_node t" "lsizenode t' = lsizenode t" "t_dummy t' = t_dummy t" "lastfree t' = lastfree t" by (simp_all add: t')
  have ok': "table_ok t'" using ok unfolding table_ok_def a l n .
  have i: "i < length (t_array t)" using k by (auto simp: in_array_def i_def)
  have "tget t' k' = (if luaO_rawequalObj k' k then v else tget t k')" if k': "valid_key k'" for k'
  proof (cases "in_array t k'")
    case True
    have "nat (arrayindex k' - 1) = i \<longleftrightarrow> arrayindex k' = arrayindex k" using True k(2) by (auto simp: in_array_def i_def)
    also have "\<dots> \<longleftrightarrow> luaO_rawequalObj k' k" using arrayindex_inj [of k' k] arrayindex_cong [of k' k] True by (auto simp: in_array_def)
    finally have e: "luaO_rawequalObj k' k \<longleftrightarrow> nat (arrayindex k' - 1) = i" ..
    have "tget t' k' = t_array t' ! nat (arrayindex k' - 1)" using True by (intro tget_array [OF ok']) (simp add: a)
    moreover have "t_array t' = (t_array t)[i := v]" by (simp add: t')
    ultimately show ?thesis unfolding e using True i by (auto simp: tget_array [OF ok])
  next
    case False
    then have e: "\<not> luaO_rawequalObj k' k" using arrayindex_cong [of k' k] k(2) by (auto simp: in_array_def)
    have "locate t' k' = locate t k'" using False unfolding locate_def a n(1) by simp
    moreover have "slot_get t' (locate t k') = slot_get t (locate t k')" using False by (auto simp: locate_def t' split: option.splits)
    ultimately show ?thesis using e by (simp add: tget_locate ok ok' k')
  qed
  then show ?thesis using ok' l unfolding put_def t'_def [symmetric] by (auto simp: t' used_def)
qed

lemma put_at_node:
  assumes ok: "table_ok t" and k: "valid_key k" "\<not> in_array t k" and i: "i < nnodes t" "luaO_rawequalObj (keyof t i) k"
  shows "put t k v (slot_set t (NodeSlot i) v)"
proof -
  define t' where "t' = slot_set t (NodeSlot i) v"
  have t': "t' = t\<lparr>t_node := (t_node t)[i := (t_node t ! i)\<lparr>i_val := v\<rparr>]\<rparr>" by (simp add: t'_def)
  have f: "keyof t' = keyof t" "succof t' = succof t" "valof t' = (valof t)(i := v)"
    using i by (auto simp: t' nth_list_update fun_eq_iff)
  note f' = f [THEN fun_cong]
  have l: "length (t_array t') = length (t_array t)" "nnodes t' = nnodes t" "t_array t' = t_array t" "lsizenode t' = lsizenode t"
    "t_dummy t' = t_dummy t" "lastfree t' = lastfree t" by (simp_all add: t')
  note a = in_array_cong [OF l(1)]
  have nk: "keyof t i \<noteq> NilKey" using i(2) k(1) by (auto simp: keq_nil valid_key_def)
  have nd: "\<not> t_dummy t" using node_not_dummy [OF ok i(1) nk] .
  have ok': "table_ok t'" using ok nd nk unfolding table_ok_def a l f by (auto simp: f')
  have "tget t' k' = (if luaO_rawequalObj k' k then v else tget t k')" if k': "valid_key k'" for k'
  proof -
    have q: "luaO_rawequalObj k' k \<longleftrightarrow> luaO_rawequalObj (keyof t i) k'"
      using i(2) keq_sym keq_trans by blast
    show ?thesis
    proof (cases "in_array t k'")
      case True
      then have e: "\<not> luaO_rawequalObj k' k" using arrayindex_cong [of k' k] k(2) by (auto simp: in_array_def)
      with True show ?thesis by (simp add: tget_array [OF ok'] tget_array [OF ok] a l)
    next
      case False
      have lo: "locate t' k' = locate t k'" using False unfolding locate_def a l f' by simp
      have "locate t k' = NodeSlot i \<longleftrightarrow> luaO_rawequalObj k' k" using locate_node(1) [OF ok k' False, of i] i(1) q by simp
      moreover have "slot_get t' (locate t k') = (if locate t k' = NodeSlot i then v else slot_get t (locate t k'))"
        using False by (auto simp: locate_def f' split: option.splits)
      ultimately show ?thesis by (simp add: tget_locate ok ok' k' lo)
    qed
  qed
  then show ?thesis using ok' l k unfolding put_def t'_def [symmetric] by (auto simp: used_def f')
qed

lemma put_at_locate:
  assumes ok: "table_ok t" and k: "valid_key k" "locate t k \<noteq> NilObject"
  shows "put t k v (slot_set t (locate t k) v)"
proof (cases "in_array t k")
  case True
  then show ?thesis by (rule put_at_array [OF ok k(1)])
next
  case False
  with k(2) obtain i where i: "locate t k = NodeSlot i" by (cases "locate t k") (auto simp: locate_def split: option.splits)
  with locate_node(1) [OF ok k(1) False] have "i < nnodes t" "luaO_rawequalObj (keyof t i) k" by auto
  from put_at_node [OF ok k(1) False this] i show ?thesis by simp
qed

lemma tget_entries:
  assumes "table_ok t" "table_ok t'" "entries t' = entries t" "t_array t' = t_array t" "valid_key k"
  shows "tget t' k = tget t k"
proof -
  have ia: "in_array t' = in_array t" by (rule in_array_cong) (simp add: assms(4))
  show ?thesis
  proof (cases "in_array t k")
    case True
    then show ?thesis using tget_array [OF assms(1)] tget_array [OF assms(2)] by (simp add: ia assms(4))
  next
    case False
    have "tget t' k = Some v \<longleftrightarrow> tget t k = Some v" for v
      using tget_hash [OF assms(1,5) False] tget_hash [OF assms(2,5)] False ia assms(3) by simp
    then show ?thesis by (metis not_Some_eq)
  qed
qed

lemma put_added:
  assumes ok: "table_ok t" "\<not> t_dummy t" and k: "valid_key k" "locate t k = NilObject" and a: "added t k i t'"
  shows "slot_get t' (NodeSlot i) = tget t k \<and> put t k v (slot_set t' (NodeSlot i) v)"
proof -
  have "slot_get t' (NodeSlot i) = tget t k" using a k tget_locate [OF ok(1) k(1)] by (simp add: added_def)
  moreover
  have t': "table_ok t'" "i < nnodes t'" "keyof t' i = k" "entries t' = entries t" "t_array t' = t_array t" "lsizenode t' = lsizenode t" "\<not> t_dummy t'"
    "used t' \<le> used t + 1" using a by (auto simp: added_def)
  have ia: "in_array t' = in_array t" by (rule in_array_cong) (simp add: t')
  have na: "\<not> in_array t' k" using k(2) by (auto simp: ia locate_def)
  have e: "luaO_rawequalObj (keyof t' i) k" using k(1) t'(3) keq_refl by simp
  have p: "put t' k v (slot_set t' (NodeSlot i) v)" by (rule put_at_node [OF t'(1) k(1) na t'(2) e])
  have l: "locate t' k \<noteq> NilObject" using locate_node(1) [OF t'(1) k(1) na, of i] t'(2) e by auto
  have "tget t' k' = tget t k'" if "valid_key k'" for k' by (rule tget_entries [OF ok(1) t'(1,4,5) that])
  with p l t' ok(2) k(2) have "put t k v (slot_set t' (NodeSlot i) v)" unfolding put_def by auto
  ultimately show ?thesis by blast
qed

text \<open>Setting a key when it has a place, or there is a free node.\<close>

definition room :: "'v table \<Rightarrow> bool" where
  "room t \<longleftrightarrow> \<not> t_dummy t \<and> used t < nnodes t"

lemma room_free: "room t \<Longrightarrow> \<exists>f. f < nnodes t \<and> keyof t f = NilKey"
proof (rule ccontr)
  assume r: "room t" and n: "\<not> ?thesis"
  then have "{i. i < nnodes t \<and> keyof t i \<noteq> NilKey} = {..<nnodes t}" by auto
  then have "used t = nnodes t" by (simp add: used_def)
  with r show False by (simp add: room_def)
qed

lemma newkey_put:
  assumes ok: "table_ok t" and k: "valid_key k" "locate t k = NilObject" and r: "room t"
  shows "\<exists>i t'. newkey_with grow t k = Some (Inr (NodeSlot i, t')) \<and> slot_get t' (NodeSlot i) = tget t k \<and> put t k v (slot_set t' (NodeSlot i) v)"
proof -
  have nd: "\<not> t_dummy t" using r by (simp add: room_def)
  obtain f where "f < nnodes t \<and> keyof t f = NilKey" using room_free [OF r] by blast
  from newkey_room [OF ok nd k disjI2, OF this] put_added [OF ok nd k] show ?thesis by metis
qed

text \<open>In any case: the key gets a node, or the table has to grow.\<close>

lemma newkey_cases:
  assumes ok: "table_ok t" and k: "valid_key k" "locate t k = NilObject"
  shows "(\<exists>i t'. newkey_with grow t k = Some (Inr (NodeSlot i, t')) \<and> slot_get t' (NodeSlot i) = tget t k \<and> put t k v (slot_set t' (NodeSlot i) v)) \<or>
    (\<exists>l. newkey_with grow t k = grow (t\<lparr>lastfree := l\<rparr>) k)"
proof (cases "t_dummy t \<or> valof t (mainposition (lsizenode t) k) \<noteq> None")
  case False
  then have nd: "\<not> t_dummy t" by simp
  from newkey_room [OF ok nd k disjI1] False put_added [OF ok nd k] show ?thesis by metis
next
  case True
  show ?thesis
  proof (cases "fst (getfreepos t)")
    case None
    then have "getfreepos t = (None, t\<lparr>lastfree := min 0 (lastfree t) - 1\<rparr>)" by (simp add: getfreepos_def split: option.splits)
    with True have "newkey_with grow t k = grow (t\<lparr>lastfree := min 0 (lastfree t) - 1\<rparr>) k" by (auto simp: newkey_with_def Let_def)
    then show ?thesis by blast
  next
    case (Some n)
    then have f: "free_loop (t_node t) (nat (lastfree t)) = Some n" by (simp add: getfreepos_def split: option.splits)
    then have nd: "\<not> t_dummy t" using ok by (auto simp: table_ok_def)
    from f free_loop_spec [where ns = "t_node t" and l = "nat (lastfree t)"] have "n < nat (lastfree t)" "keyof t n = NilKey" by auto
    moreover have "lastfree t \<le> int (nnodes t)" using ok nd by (auto simp: table_ok_def)
    ultimately have "n < nnodes t \<and> keyof t n = NilKey" by simp
    from newkey_room [OF ok nd k disjI2, OF this] put_added [OF ok nd k] show ?thesis by metis
  qed
qed

lemma set_put:
  assumes ok: "table_ok t" and k: "valid_key k" and r: "locate t k = NilObject \<Longrightarrow> room t"
  shows "\<exists>p t'. luaH_set_with (newkey_with grow) t k = Some (Inr (p, t')) \<and> p \<noteq> NilObject \<and> slot_get t' p = tget t k \<and> put t k v (slot_set t' p v)"
proof -
  have nil: "k \<noteq> NilKey" "(case k of NumKey n \<Rightarrow> luai_numisnan n | _ \<Rightarrow> False) = False" using k by (auto simp: valid_key_def split: TKey.splits)
  let ?t = "t\<lparr>t_flags := 0\<rparr>"
  have s: "luaH_set_with (newkey_with grow) t k = (if locate t k \<noteq> NilObject then Some (Inr (locate t k, ?t)) else newkey_with grow ?t k)"
    using nil by (auto simp: luaH_set_with_def luaH_get_locate ok)
  have ok': "table_ok ?t" using ok by (simp add: flags_ok)
  show ?thesis
  proof (cases "locate t k = NilObject")
    case False
    have "slot_get ?t (locate t k) = tget t k" using tget_locate [OF ok' k] by (simp add: flags_ok tget_flags)
    with False s put_at_locate [OF ok' k] show ?thesis by (auto simp: flags_ok put_flags)
  next
    case True
    have "room ?t" using r [OF True] by (simp add: room_def flags_ok)
    from newkey_put [OF ok' k _ this] True s show ?thesis by (fastforce simp: flags_ok put_flags tget_flags)
  qed
qed

lemma setnum_put:
  assumes ok: "table_ok t" and i: "0 < i" "i < 2 ^ 31" and r: "locate t (NumKey (num_of_int i)) = NilObject \<Longrightarrow> room t"
  shows "\<exists>p t'. luaH_setnum_with (newkey_with grow) t i = Some (Inr (p, t')) \<and> p \<noteq> NilObject \<and> slot_get t' p = tget t (NumKey (num_of_int i)) \<and> put t (NumKey (num_of_int i)) v (slot_set t' p v)"
proof -
  let ?k = "NumKey (num_of_int i)"
  have k: "valid_key ?k" using num_of_int(2) [of i] i by (simp add: valid_key_def)
  have s: "luaH_setnum_with (newkey_with grow) t i = (if locate t ?k \<noteq> NilObject then Some (Inr (locate t ?k, t)) else newkey_with grow t ?k)"
    using i by (simp add: luaH_setnum_with_def luaH_getnum_locate ok)
  show ?thesis
  proof (cases "locate t ?k = NilObject")
    case False
    with s put_at_locate [OF ok k] tget_locate [OF ok k] show ?thesis by auto
  next
    case True
    from newkey_put [OF ok k True r [OF True]] True s show ?thesis by fastforce
  qed
qed

subsection \<open>Storing a slice of an array, and the nodes of a hash part\<close>

definition live :: "'a option list \<Rightarrow> nat" where
  "live vs = length (filter (\<lambda>v. v \<noteq> None) vs)"

text \<open>A table after at most \<open>n\<close> new keys in its hash part.\<close>

definition grown :: "nat \<Rightarrow> 'v table \<Rightarrow> 'v table \<Rightarrow> bool" where
  "grown n t t' \<longleftrightarrow> table_ok t' \<and> length (t_array t') = length (t_array t) \<and> lsizenode t' = lsizenode t \<and> t_dummy t' = t_dummy t \<and> used t' \<le> used t + n"

lemma grown_refl: "table_ok t \<Longrightarrow> grown n t t"
  by (simp add: grown_def)

lemma grown_trans: "grown m t t' \<Longrightarrow> grown n t' t'' \<Longrightarrow> grown (m + n) t t''"
  by (auto simp: grown_def)

definition has_room :: "nat \<Rightarrow> 'v table \<Rightarrow> bool" where
  "has_room n t \<longleftrightarrow> n = 0 \<or> \<not> t_dummy t \<and> used t + n \<le> nnodes t"

lemma has_room_Suc: "has_room (Suc n) t \<Longrightarrow> room t"
  by (simp add: has_room_def room_def)

lemma has_room_grown: "has_room (m + n) t \<Longrightarrow> table_ok t \<Longrightarrow> grown m t t' \<Longrightarrow> has_room n t'"
  by (auto simp: has_room_def grown_def table_ok_def)

lemma put_grown: "put t k v t' \<Longrightarrow> grown (if locate t k = NilObject then 1 else 0) t t'"
  by (simp add: put_def grown_def)

lemma put_grown1: "put t k v t' \<Longrightarrow> grown 1 t t'"
  by (auto simp: put_def grown_def split: if_splits)

lemma put_tget: "put t k v t' \<Longrightarrow> valid_key k' \<Longrightarrow> tget t' k' = (if luaO_rawequalObj k' k then v else tget t k')"
  by (simp add: put_def)

definition arr_get :: "nat \<Rightarrow> 'v option list \<Rightarrow> TKey \<Rightarrow> 'v option" where
  "arr_get i vs k = (if int i \<le> arrayindex k \<and> arrayindex k < int (i + length vs) then vs ! nat (arrayindex k - int i) else None)"

lemma arr_get_Nil [simp]: "arr_get i [] k = None"
  by (auto simp: arr_get_def)

lemma arr_get_Cons: "arr_get i (v # vs) k = (if arrayindex k = int i then v else arr_get (Suc i) vs k)"
proof -
  have "nat (arrayindex k - int i) = Suc (nat (arrayindex k - int (Suc i)))" if "int i < arrayindex k" using that by simp
  then show ?thesis by (auto simp: arr_get_def)
qed

lemma arr_get_other: "arrayindex k = int i \<Longrightarrow> arr_get (Suc i) vs k = None"
  by (simp add: arr_get_def)

definition or_else :: "'a option \<Rightarrow> 'a option \<Rightarrow> 'a option" where
  "or_else a b = (case a of None \<Rightarrow> b | Some x \<Rightarrow> Some x)"

lemma or_else_simps [simp]: "or_else None b = b" "or_else (Some x) b = Some x" "or_else a None = a"
  by (simp_all add: or_else_def split: option.splits)

lemma keq_num_of_int:
  assumes "0 < i" "i < 2 ^ 31"
  shows "luaO_rawequalObj k (NumKey (num_of_int i)) \<longleftrightarrow> arrayindex k = i"
proof -
  have a: "arrayindex (NumKey (num_of_int i)) = i" using assms by (intro arrayindex_of_int) auto
  show ?thesis using arrayindex_cong [of k] arrayindex_inj [of k] a assms(1) by metis
qed

lemma reinsert_array_put:
  assumes "table_ok t" "0 < i" "i + length vs \<le> 2 ^ 31" "has_room (live vs) t"
  shows "\<exists>t'. reinsert_array (newkey_with grow) i vs t = Some (Inr t') \<and> grown (live vs) t t' \<and>
    (\<forall>k. valid_key k \<longrightarrow> tget t' k = or_else (arr_get i vs k) (tget t k))"
  using assms
proof (induction vs arbitrary: i t)
  case Nil
  then show ?case by (simp add: grown_refl)
next
  case (Cons v vs)
  show ?case
  proof (cases v)
    case None
    have e: "arr_get i (None # vs) k = arr_get (Suc i) vs k" for k
      by (cases "arrayindex k = int i") (simp_all add: arr_get_Cons, simp add: arr_get_def)
    from Cons.IH [of t "Suc i"] Cons.prems None show ?thesis by (simp add: live_def e)
  next
    case (Some w)
    let ?k = "NumKey (num_of_int (int i))"
    have i: "0 < int i" "int i < 2 ^ 31" using Cons.prems by auto
    have l: "live (v # vs) = 1 + live vs" by (simp add: live_def Some)
    have "room t" using Cons.prems(4) has_room_Suc unfolding l by simp
    with setnum_put [OF Cons.prems(1) i, of grow v] obtain p t1 where s: "luaH_setnum_with (newkey_with grow) t (int i) = Some (Inr (p, t1))"
      "put t ?k v (slot_set t1 p v)" by blast
    define t2 where "t2 = slot_set t1 p v"
    have g: "grown 1 t t2" using put_grown1 [OF s(2)] by (simp add: t2_def)
    have r: "has_room (live vs) t2" using has_room_grown [OF Cons.prems(4) [unfolded l] Cons.prems(1) g] .
    have "table_ok t2" using g by (simp add: grown_def)
    from Cons.IH [OF this _ _ r, of "Suc i"] Cons.prems(3) obtain t' where t': "reinsert_array (newkey_with grow) (Suc i) vs t2 = Some (Inr t')"
      "grown (live vs) t2 t'" "\<forall>k. valid_key k \<longrightarrow> tget t' k = or_else (arr_get (Suc i) vs k) (tget t2 k)" by auto
    have "reinsert_array (newkey_with grow) i (v # vs) t = Some (Inr t')" using Some s(1) t'(1) by (simp add: rbind_def t2_def)
    moreover have "tget t' k = or_else (arr_get i (v # vs) k) (tget t k)" if "valid_key k" for k
      using t'(3) that put_tget [OF s(2) that] keq_num_of_int [OF i, of k] Some
      by (cases "arrayindex k = int i") (simp_all add: arr_get_Cons arr_get_other t2_def)
    ultimately show ?thesis using grown_trans [OF g t'(2)] unfolding l by blast
  qed
qed

definition hash_get :: "'v node list \<Rightarrow> TKey \<Rightarrow> 'v option" where
  "hash_get ns k = (case find (\<lambda>n. i_val n \<noteq> None \<and> luaO_rawequalObj (i_key n) k) ns of None \<Rightarrow> None | Some n \<Rightarrow> i_val n)"

definition outside :: "'v table \<Rightarrow> 'v node list \<Rightarrow> nat" where
  "outside t ns = length (filter (\<lambda>n. i_val n \<noteq> None \<and> \<not> in_array t (i_key n)) ns)"

definition nodes_ok :: "'v node list \<Rightarrow> bool" where
  "nodes_ok ns \<longleftrightarrow> (\<forall>n\<in>set ns. i_val n \<noteq> None \<longrightarrow> valid_key (i_key n)) \<and>
     sorted_wrt (\<lambda>a b. i_val a \<noteq> None \<and> i_val b \<noteq> None \<longrightarrow> \<not> luaO_rawequalObj (i_key a) (i_key b)) ns"

lemma reinsert_hash_put:
  assumes "table_ok t" "nodes_ok ns" "has_room (outside t ns) t"
  shows "\<exists>t'. reinsert_hash (newkey_with grow) ns t = Some (Inr t') \<and> grown (outside t ns) t t' \<and>
    (\<forall>k. valid_key k \<longrightarrow> tget t' k = or_else (hash_get ns k) (tget t k))"
  using assms
proof (induction ns arbitrary: t)
  case Nil
  then show ?case by (simp add: grown_refl hash_get_def)
next
  case (Cons n ns)
  have nok: "nodes_ok ns" using Cons.prems(2) by (simp add: nodes_ok_def)
  show ?case
  proof (cases "i_val n")
    case None
    with Cons.IH [OF Cons.prems(1) nok] Cons.prems(3) show ?thesis by (simp add: outside_def hash_get_def)
  next
    case (Some w)
    let ?k = "i_key n"
    have k: "valid_key ?k" using Cons.prems(2) Some by (simp add: nodes_ok_def)
    define c where "c = (if in_array t ?k then 0 else 1 :: nat)"
    have l: "outside t (n # ns) = c + outside t ns" by (simp add: outside_def Some c_def)
    have "room t" if "locate t ?k = NilObject"
    proof -
      have "c = 1" using that by (auto simp: c_def locate_def)
      then show ?thesis using Cons.prems(3) has_room_Suc [of _ t] unfolding l by simp
    qed
    with set_put [OF Cons.prems(1) k, of grow "Some w"] obtain p t1 where s: "luaH_set_with (newkey_with grow) t ?k = Some (Inr (p, t1))"
      "put t ?k (Some w) (slot_set t1 p (Some w))" by blast
    define t2 where "t2 = slot_set t1 p (Some w)"
    have g: "grown c t t2" using put_grown [OF s(2)] by (auto simp: t2_def c_def grown_def locate_def split: if_splits)
    have o: "outside t2 ns = outside t ns" using g in_array_cong [of t2 t] by (simp add: outside_def grown_def)
    have r: "has_room (outside t2 ns) t2" using has_room_grown [OF Cons.prems(3) [unfolded l] Cons.prems(1) g] unfolding o .
    have "table_ok t2" using g by (simp add: grown_def)
    from Cons.IH [OF this nok r] obtain t' where t': "reinsert_hash (newkey_with grow) ns t2 = Some (Inr t')"
      "grown (outside t ns) t2 t'" "\<forall>k. valid_key k \<longrightarrow> tget t' k = or_else (hash_get ns k) (tget t2 k)" unfolding o by blast
    have "reinsert_hash (newkey_with grow) (n # ns) t = Some (Inr t')" using Some s(1) t'(1) by (simp add: rbind_def t2_def)
    moreover have "tget t' k = or_else (hash_get (n # ns) k) (tget t k)" if v: "valid_key k" for k
    proof (cases "luaO_rawequalObj ?k k")
      case True
      have "\<not> luaO_rawequalObj (i_key b) k" if "b \<in> set ns" "i_val b \<noteq> None" for b
        using Cons.prems(2) that Some True keq_trans [OF True keq_sym] by (auto simp: nodes_ok_def)
      then have "hash_get ns k = None" by (auto simp: hash_get_def find_Some_iff split: option.splits)
      with t'(3) v put_tget [OF s(2) v] keq_sym [OF True] Some True show ?thesis by (simp add: hash_get_def t2_def)
    next
      case False
      then have "hash_get (n # ns) k = hash_get ns k" by (simp add: hash_get_def)
      with t'(3) v put_tget [OF s(2) v] False keq_sym [of k ?k] show ?thesis by (auto simp: t2_def)
    qed
    ultimately show ?thesis using grown_trans [OF g t'(2)] unfolding l by blast
  qed
qed

end
