(* ===== verification/Lua_Rehash.thy ===== *)
theory Lua_Rehash
  imports Lua_Table_Put
begin

text \<open>
  Growing a table: \<open>resize\<close> keeps the contents when the new hash part has enough nodes, and \<open>rehash\<close> computes sizes for which it has.
\<close>

subsection \<open>The contents as a list of nodes\<close>

lemma hash_get_Some:
  assumes "nodes_ok ns" "valid_key k"
  shows "hash_get ns k = Some v \<longleftrightarrow> (\<exists>n\<in>set ns. i_val n = Some v \<and> luaO_rawequalObj (i_key n) k)"
  using assms
proof (induction ns)
  case (Cons n ns)
  have nok: "nodes_ok ns" using Cons.prems(1) by (simp add: nodes_ok_def)
  show ?case
  proof (cases "i_val n \<noteq> None \<and> luaO_rawequalObj (i_key n) k")
    case True
    have "\<not> luaO_rawequalObj (i_key b) k" if "b \<in> set ns" "i_val b \<noteq> None" for b
      using Cons.prems(1) that True keq_trans [of "i_key n" k "i_key b"] keq_sym [of "i_key b" k] by (auto simp: nodes_ok_def)
    with True show ?thesis by (auto simp: hash_get_def)
  next
    case False
    then have "hash_get (n # ns) k = hash_get ns k" unfolding hash_get_def by simp (metis not_None_eq)
    with Cons.IH [OF nok Cons.prems(2)] False show ?thesis by auto
  qed
qed (simp add: hash_get_def)

lemma table_nodes_ok: "table_ok t \<Longrightarrow> nodes_ok (rev (t_node t))"
proof -
  assume ok: "table_ok t"
  note sc = table_scatter [OF ok]
  have nn: "keyof t i \<noteq> NilKey" if "i < nnodes t" "valof t i \<noteq> None" for i using ok that by (auto simp: table_ok_def)
  have "valid_key (i_key n)" if "n \<in> set (t_node t)" "i_val n \<noteq> None" for n
    using that nn scatter_key [OF sc] by (metis in_set_conv_nth)
  moreover have "\<not> luaO_rawequalObj (keyof t i) (keyof t j)" if "i < nnodes t" "j < i" "valof t i \<noteq> None" for i j
    using scatter_distinct [OF sc that(1), of j] that nn by auto
  ultimately show ?thesis unfolding nodes_ok_def sorted_wrt_rev by (auto simp: sorted_wrt_iff_nth_less)
qed

lemma entries_nodes: "(k, v) \<in> entries t \<longleftrightarrow> (\<exists>n\<in>set (t_node t). i_key n = k \<and> i_val n = Some v)"
  unfolding entries_def by (auto, metis in_set_conv_nth)

lemma tget_nodes:
  assumes ok: "table_ok t" and k: "valid_key k"
  shows "tget t k = or_else (hash_get (rev (t_node t)) k) (arr_get 1 (t_array t) k)"
proof -
  note h = hash_get_Some [OF table_nodes_ok [OF ok] k]
  show ?thesis
  proof (cases "in_array t k")
    case True
    have "hash_get (rev (t_node t)) k \<noteq> Some v" for v
    proof
      assume "hash_get (rev (t_node t)) k = Some v"
      then obtain i where i: "i < nnodes t" "valof t i = Some v" "luaO_rawequalObj (keyof t i) k" unfolding h by (auto simp: in_set_conv_nth)
      then have "keyof t i \<noteq> NilKey" using ok by (auto simp: table_ok_def)
      with ok i(1) have "\<not> in_array t (keyof t i)" by (auto simp: table_ok_def)
      with True arrayindex_cong [OF i(3)] show False by (simp add: in_array_def)
    qed
    then have "hash_get (rev (t_node t)) k = None" by (metis not_Some_eq)
    moreover have "arr_get 1 (t_array t) k = t_array t ! nat (arrayindex k - 1)" using True by (simp add: arr_get_def in_array_def)
    ultimately show ?thesis using tget_array [OF ok True] by simp
  next
    case False
    have "tget t k = Some v \<longleftrightarrow> hash_get (rev (t_node t)) k = Some v" for v
      unfolding h tget_hash [OF ok k False] by (auto simp: entries_nodes)
    then have "tget t k = hash_get (rev (t_node t)) k" by (metis not_Some_eq)
    moreover have "arr_get 1 (t_array t) k = None" using False by (auto simp: arr_get_def in_array_def)
    ultimately show ?thesis by simp
  qed
qed

subsection \<open>Resizing\<close>

lemma scatter_fresh: "(\<And>i. i < N \<Longrightarrow> nx i = None \<and> ky i = NilKey) \<Longrightarrow> scatter_ok N mp nx ky"
  unfolding scatter_ok_def by (auto intro!: exI [of _ "[_]"])

lemma fresh_table:
  assumes n: "t_node t = replicate (2 ^ lsizenode t) dummynode" "lsizenode t \<le> MAXBITS" "length (t_array t) \<le> MAXASIZE"
    and d: "if t_dummy t then lsizenode t = 0 \<and> lastfree t = 0 else lastfree t = 2 ^ lsizenode t"
  shows "table_ok t" "used t = 0" "valid_key k \<Longrightarrow> tget t k = arr_get 1 (t_array t) k"
proof -
  have f: "keyof t i = NilKey" "succof t i = None" "valof t i = None" if "i < nnodes t" for i
    using that by (simp_all add: n(1) dummynode_def)
  have l: "nnodes t = 2 ^ lsizenode t" by (simp add: n(1))
  have "scatter_ok (nnodes t) (mainposition (lsizenode t)) (succof t) (keyof t)" by (rule scatter_fresh) (simp add: f)
  then show ok: "table_ok t" unfolding table_ok_def using n d l f by auto
  show "used t = 0" unfolding used_def using f by simp
  have "hash_get (rev (t_node t)) k = None" by (auto simp: hash_get_def n(1) dummynode_def find_Some_iff split: option.splits)
  then show "valid_key k \<Longrightarrow> tget t k = arr_get 1 (t_array t) k" by (simp add: tget_nodes [OF ok])
qed

lemma ceillog2_le:
  assumes "0 < n" "n \<le> 2 ^ 31"
  shows "0 \<le> ceillog2 (of_nat n)" "nat (ceillog2 (of_nat n)) \<le> j \<longleftrightarrow> n \<le> 2 ^ j"
proof -
  define x where "x = (of_nat n - 1 :: 32 word)"
  have x: "unat x = n - 1"
  proof -
    have "x = of_nat (n - 1)" using assms(1) by (simp add: x_def of_nat_diff)
    then show ?thesis using assms(2) by (simp add: unat_of_nat take_bit_nat_eq_self_iff)
  qed
  have c: "ceillog2 (of_nat n) = luaO_log2 x + 1" by (simp add: ceillog2_def x_def)
  have "0 \<le> ceillog2 (of_nat n) \<and> (nat (ceillog2 (of_nat n)) \<le> j \<longleftrightarrow> n \<le> 2 ^ j)"
  proof (cases "n = 1")
    case True
    have "luaO_log2 0 = - 1" by (simp add: luaO_log2_def log2_loop.simps log_2_def)
    then show ?thesis using True by (simp add: ceillog2_def)
  next
    case False
    then have "x \<noteq> 0" using x assms(1) by auto
    note s = luaO_log2_spec [OF this, unfolded x]
    define l where "l = nat (luaO_log2 x)"
    have l: "2 ^ l < n" "n \<le> 2 ^ Suc l" using s False assms(1) by (auto simp: l_def)
    have "Suc l \<le> j \<longleftrightarrow> n \<le> 2 ^ j"
    proof
      assume "Suc l \<le> j"
      then have "(2 :: nat) ^ Suc l \<le> 2 ^ j" by (intro power_increasing) auto
      then show "n \<le> 2 ^ j" using l(2) by linarith
    next
      assume "n \<le> 2 ^ j"
      then have "(2 :: nat) ^ l < 2 ^ j" using l(1) by linarith
      then show "Suc l \<le> j" by (simp add: Suc_le_eq)
    qed
    moreover have "nat (ceillog2 (of_nat n)) = Suc l" using s by (simp add: c l_def nat_add_distrib)
    ultimately show ?thesis using s by (simp add: c)
  qed
  then show "0 \<le> ceillog2 (of_nat n)" "nat (ceillog2 (of_nat n)) \<le> j \<longleftrightarrow> n \<le> 2 ^ j" by blast+
qed

lemma setnodevector_ok:
  assumes "n \<le> MAXASIZE" "length (t_array t) \<le> MAXASIZE"
  shows "\<exists>t'. setnodevector n t = Some (Inr t') \<and> t_array t' = t_array t \<and> t_node t' = replicate (2 ^ lsizenode t') dummynode \<and> lsizenode t' \<le> MAXBITS \<and>
    (if t_dummy t' then lsizenode t' = 0 \<and> lastfree t' = 0 else lastfree t' = 2 ^ lsizenode t') \<and> (n \<noteq> 0 \<longrightarrow> \<not> t_dummy t' \<and> n \<le> nnodes t')"
proof (cases "n = 0")
  case True
  then show ?thesis by (simp add: setnodevector_def)
next
  case False
  have l: "0 < n" "n \<le> 2 ^ 31" using False assms(1) by (simp_all add: MAXASIZE_def MAXBITS_def)
  note c = ceillog2_le [OF l]
  define k where "k = nat (ceillog2 (of_nat n))"
  have k: "ceillog2 (of_nat n) = int k" using c(1) by (simp add: k_def)
  have "k \<le> MAXBITS" using c(2) [of MAXBITS] assms(1) by (simp add: k_def MAXASIZE_def)
  moreover have "n \<le> 2 ^ k" using c(2) [of k] by (simp add: k_def)
  ultimately show ?thesis using False by (simp add: setnodevector_def k)
qed

lemma live_append [simp]: "live (xs @ ys) = live xs + live ys"
  by (simp add: live_def)

lemma arr_get_append_None: "arr_get i (vs @ replicate m None) k = arr_get i vs k"
  by (auto simp: arr_get_def nth_append)

lemma arr_get_split:
  assumes "n \<le> length vs"
  shows "or_else (arr_get (n + 1) (drop n vs) k) (arr_get 1 (take n vs) k) = arr_get 1 vs k"
proof (cases "arrayindex k \<le> int n")
  case True
  then show ?thesis using assms by (auto simp: arr_get_def)
next
  case False
  then have "n + nat (arrayindex k - int (n + 1)) = nat (arrayindex k - 1)" by simp
  then have "vs ! nat (arrayindex k - 1) = drop n vs ! nat (arrayindex k - int (n + 1))" using assms by (simp only: nth_drop)
  with False assms show ?thesis by (auto simp: arr_get_def)
qed

text \<open>The number of values that have to go to the hash part.\<close>

definition evicted :: "'v table \<Rightarrow> nat \<Rightarrow> nat" where
  "evicted t na = live (drop na (t_array t)) + length (filter (\<lambda>n. i_val n \<noteq> None \<and> \<not> (0 < arrayindex (i_key n) \<and> arrayindex (i_key n) \<le> int na)) (t_node t))"

lemma resize_keeps:
  assumes ok: "table_ok t" and na: "na \<le> MAXASIZE" and nh: "nh \<le> MAXASIZE" and ev: "evicted t na \<le> nh"
  shows "\<exists>t'. resize (newkey_with grow) t na nh = Some (Inr t') \<and> table_ok t' \<and> length (t_array t') = na \<and> used t' \<le> evicted t na \<and>
    (nh \<noteq> 0 \<longrightarrow> \<not> t_dummy t' \<and> nh \<le> nnodes t') \<and> (\<forall>k. valid_key k \<longrightarrow> tget t' k = tget t k)"
proof -
  let ?a = "t_array t"
  define t1 where "t1 = (if na > length ?a then setarrayvector na t else t)"
  define a where "a = ?a @ replicate (na - length ?a) None"
  have t1: "t_array t1 = a" by (auto simp: t1_def a_def setarrayvector_def)
  have la: "length ?a \<le> MAXASIZE" using ok by (simp add: table_ok_def)
  have na': "na \<le> length a" "length a \<le> MAXASIZE" using na la by (auto simp: a_def)
  have dr: "live (drop na a) = live (drop na ?a)" by (simp add: a_def live_def)
  obtain t2 where t2: "setnodevector nh t1 = Some (Inr t2)" "t_array t2 = a" "t_node t2 = replicate (2 ^ lsizenode t2) dummynode" "lsizenode t2 \<le> MAXBITS"
    "if t_dummy t2 then lsizenode t2 = 0 \<and> lastfree t2 = 0 else lastfree t2 = 2 ^ lsizenode t2" "nh \<noteq> 0 \<longrightarrow> \<not> t_dummy t2 \<and> nh \<le> nnodes t2"
    using setnodevector_ok [OF nh, of t1] na'(2) t1 by auto
  define t3 where "t3 = t2\<lparr>t_array := take na a\<rparr>"
  have l3: "length (t_array t3) = na" "t_array t3 = take na a" using na' by (simp_all add: t3_def)
  have f: "table_ok t3" "used t3 = 0" "\<And>k. valid_key k \<Longrightarrow> tget t3 k = arr_get 1 (take na a) k"
    using fresh_table [of t3] t2 na by (simp_all add: t3_def)
  have out: "outside t' (rev (t_node t)) = evicted t na - live (drop na ?a)" if "length (t_array t') = na" for t'
    using that by (simp add: outside_def evicted_def in_array_def rev_filter [symmetric])
  have e: "evicted t na = live (drop na a) + outside t3 (rev (t_node t))" using out [OF l3(1)] dr by (simp add: evicted_def)
  have room: "has_room (live (drop na a) + outside t3 (rev (t_node t))) t3"
    unfolding has_room_def using f(2) t2(6) ev e by (cases "nh = 0") (auto simp: t3_def)
  then have r1: "has_room (live (drop na a)) t3" by (auto simp: has_room_def)
  have b: "na + 1 + length (drop na a) \<le> 2 ^ 31" using na' by (simp add: MAXASIZE_def MAXBITS_def)
  from reinsert_array_put [OF f(1) _ b r1] obtain t4 where t4: "reinsert_array (newkey_with grow) (na + 1) (drop na a) t3 = Some (Inr t4)"
    "grown (live (drop na a)) t3 t4" "\<And>k. valid_key k \<Longrightarrow> tget t4 k = or_else (arr_get (na + 1) (drop na a) k) (tget t3 k)" by auto
  have g4: "tget t4 k = arr_get 1 ?a k" if "valid_key k" for k
    unfolding t4(3) [OF that] f(3) [OF that] arr_get_split [OF na'(1)] by (simp add: a_def arr_get_append_None)
  have l4: "length (t_array t4) = na" "table_ok t4" using t4(2) l3 by (simp_all add: grown_def)
  have o4: "outside t4 (rev (t_node t)) = outside t3 (rev (t_node t))" using out [OF l3(1)] out [OF l4(1)] by simp
  from has_room_grown [OF room f(1) t4(2)] have r2: "has_room (outside t4 (rev (t_node t))) t4" unfolding o4 .
  from reinsert_hash_put [OF l4(2) table_nodes_ok [OF ok] r2] obtain t5 where t5: "reinsert_hash (newkey_with grow) (rev (t_node t)) t4 = Some (Inr t5)"
    "grown (outside t3 (rev (t_node t))) t4 t5" "\<And>k. valid_key k \<Longrightarrow> tget t5 k = or_else (hash_get (rev (t_node t)) k) (tget t4 k)"
    unfolding o4 by blast
  have "(if na < length ?a then reinsert_array (newkey_with grow) (na + 1) (drop na (t_array t2)) (t2\<lparr>t_array := take na (t_array t2)\<rparr>) else Some (Inr t2)) = Some (Inr t4)"
    using t4(1) l3 t2(2) na'(1) by (auto simp: t3_def a_def)
  then have "resize (newkey_with grow) t na nh = Some (Inr t5)"
    using t2(1) t5(1) by (simp add: resize_def Let_def rbind_def t1_def [symmetric])
  moreover have "grown (evicted t na) t3 t5" unfolding e by (rule grown_trans [OF t4(2) t5(2)])
  moreover have "tget t5 k = tget t k" if "valid_key k" for k
    using t5(3) [OF that] g4 [OF that] tget_nodes [OF ok that] by simp
  ultimately show ?thesis using f(2) l3(1) t2(3,6) unfolding grown_def by (auto simp: t3_def table_ok_def)
qed

subsection \<open>Counting integer keys\<close>

definition psum :: "nat list \<Rightarrow> nat \<Rightarrow> nat" where
  "psum nums j = sum_list (take (Suc j) nums)"

lemma psum_bump:
  assumes "i < length nums"
  shows "psum (bump i n nums) j = psum nums j + (if i \<le> j then n else 0)" "length (bump i n nums) = length nums"
proof -
  have "sum_list (take m (xs[i := xs ! i + n])) = sum_list (take m xs) + (if i < m then n else 0)" if "i < length xs" for m and xs :: "nat list"
    using that
  proof (induction xs arbitrary: i m)
    case (Cons x xs)
    then show ?case by (cases i; cases m) auto
  qed simp
  from this [OF assms, of "Suc j"] show "psum (bump i n nums) j = psum nums j + (if i \<le> j then n else 0)"
    by (simp add: psum_def bump_def less_Suc_eq_le)
qed (simp add: bump_def)

lemma psum_step: "Suc j < length nums \<Longrightarrow> psum nums (Suc j) = psum nums j + nums ! Suc j"
  by (simp add: psum_def take_Suc_conv_app_nth)

lemma psum_0: "0 < length nums \<Longrightarrow> psum nums 0 = nums ! 0"
  by (cases nums) (simp_all add: psum_def)

text \<open>Whether a key is an index between 1 and \<open>n\<close>.\<close>

definition index_upto :: "nat \<Rightarrow> TKey \<Rightarrow> bool" where
  "index_upto n k \<longleftrightarrow> 0 < arrayindex k \<and> arrayindex k \<le> int n"

lemma countint_spec:
  assumes "length nums = Suc MAXBITS"
  shows "countint k nums = (c, nums') \<Longrightarrow> length nums' = Suc MAXBITS \<and> c = (if index_upto MAXASIZE k then 1 else 0) \<and>
    (\<forall>j\<le>MAXBITS. psum nums' j = psum nums j + (if index_upto (2 ^ j) k then 1 else 0))"
proof -
  assume c: "countint k nums = (c, nums')"
  have mono: "index_upto (2 ^ j) k \<Longrightarrow> index_upto MAXASIZE k" if "j \<le> MAXBITS" for j
  proof -
    assume "index_upto (2 ^ j) k"
    moreover have "(2 :: nat) ^ j \<le> 2 ^ MAXBITS" using that by (intro power_increasing) auto
    then have "int (2 ^ j) \<le> int (2 ^ MAXBITS)" by (rule zle_int [THEN iffD2])
    ultimately show ?thesis unfolding index_upto_def MAXASIZE_def by linarith
  qed
  show ?thesis
  proof (cases "index_upto MAXASIZE k")
    case True
    define n where "n = nat (arrayindex k)"
    have n: "0 < n" "arrayindex k = int n" "n \<le> MAXASIZE" using True by (auto simp: n_def index_upto_def)
    have n': "n \<le> 2 ^ 31" using n(3) by (simp add: MAXASIZE_def MAXBITS_def)
    note l = ceillog2_le [OF n(1) n']
    define i where "i = nat (ceillog2 (of_nat n))"
    have i: "i < length nums" using l(2) [of MAXBITS] n(3) assms by (simp add: i_def MAXASIZE_def)
    have le: "i \<le> j \<longleftrightarrow> index_upto (2 ^ j) k" for j
    proof -
      have "index_upto (2 ^ j) k \<longleftrightarrow> n \<le> 2 ^ j" unfolding index_upto_def n(2) using n(1) by (simp only: zle_int of_nat_0_less_iff) simp
      with l(2) [of j] show ?thesis by (simp add: i_def)
    qed
    have "countint k nums = (1, bump i 1 nums)" using True n(2) by (simp add: countint_def index_upto_def i_def)
    with c True psum_bump [OF i] assms le show ?thesis by auto
  next
    case False
    then have "countint k nums = (0, nums)" by (auto simp: countint_def index_upto_def)
    with c False mono assms show ?thesis by auto
  qed
qed

lemma live_take_drop: "a \<le> b \<Longrightarrow> live (take b xs) = live (take a xs) + live (take (b - a) (drop a xs))"
proof -
  assume "a \<le> b"
  then have "take b xs = take a xs @ take (b - a) (drop a xs)" by (simp flip: take_add)
  then show ?thesis by simp
qed

definition half :: "nat \<Rightarrow> nat" where "half lg = (if lg = 0 then 0 else 2 ^ (lg - 1))"

lemma numuse_loop_spec:
  assumes "length nums = Suc MAXBITS" "lg \<le> Suc MAXBITS" "i = Suc (min (half lg) (length arr))" "ause = live (take (half lg) arr)"
    "\<forall>j\<le>MAXBITS. psum nums j = live (take (min (2 ^ j) (half lg)) arr)" "length arr \<le> MAXASIZE"
  shows "\<exists>nums'. numuse_loop arr lg i ause nums = (live arr, nums') \<and> length nums' = Suc MAXBITS \<and>
    (\<forall>j\<le>MAXBITS. psum nums' j = live (take (2 ^ j) arr))"
  using assms
proof (induction arr lg i ause nums rule: numuse_loop.induct)
  case (1 arr lg i ause nums)
  have all: "take (half lg) arr = arr" if "length arr \<le> half lg" using that by simp
  have psall: "psum nums j = live (take (2 ^ j) arr)" if "j \<le> MAXBITS" "length arr \<le> half lg" for j
    using "1.prems"(5) that by (simp add: min_def)
  show ?case
  proof (cases "lg \<le> MAXBITS")
    case False
    then have "half lg = MAXASIZE" using "1.prems"(2) by (simp add: half_def MAXASIZE_def le_Suc_eq)
    then have le: "length arr \<le> half lg" using "1.prems"(6) by simp
    from False have "numuse_loop arr lg i ause nums = (ause, nums)" by (simp add: numuse_loop.simps)
    then show ?thesis using all [OF le] psall [OF _ le] "1.prems"(1,4) by simp
  next
    case True
    define lim where "lim = min (2 ^ lg) (length arr)"
    have lim: "(if 2 ^ lg > length arr then length arr else 2 ^ lg) = lim" by (auto simp: lim_def)
    show ?thesis
    proof (cases "2 ^ lg > length arr \<and> i > lim")
      case stop: True
      then have le: "length arr \<le> half lg" using "1.prems"(3) by (auto simp: lim_def)
      have "numuse_loop arr lg i ause nums = (ause, nums)" using True stop lim by (simp add: numuse_loop.simps Let_def)
      then show ?thesis using all [OF le] psall [OF _ le] "1.prems"(1,4) by simp
    next
      case go: False
      define lc where "lc = length (filter (\<lambda>v. v \<noteq> None) (take (lim + 1 - i) (drop (i - 1) arr)))"
      have hl: "half lg \<le> 2 ^ lg" "half (Suc lg) = 2 ^ lg" by (simp_all add: half_def power_increasing)
      have m: "min (half lg) (length arr) \<le> lim" using hl(1) by (auto simp: lim_def)
      have tk: "live (take (min a (length arr)) arr) = live (take a arr)" for a by (simp add: min_def)
      have "live (take lim arr) = live (take (min (half lg) (length arr)) arr) + live (take (lim + 1 - i) (drop (i - 1) arr))"
        using live_take_drop [OF m, of arr] "1.prems"(3) by simp
      then have lc: "live (take (2 ^ lg) arr) = live (take (half lg) arr) + lc" unfolding lc_def live_def [symmetric] by (simp add: tk lim_def)
      have i: "max i (lim + 1) = Suc (min (half (Suc lg)) (length arr))" using "1.prems"(3) m unfolding hl(2) by (simp add: lim_def)
      have lg: "lg < length nums" using True "1.prems"(1) by simp
      have ps: "psum (bump lg lc nums) j = live (take (min (2 ^ j) (half (Suc lg))) arr)" if "j \<le> MAXBITS" for j
      proof (cases "lg \<le> j")
        case True
        then have p: "(2 :: nat) ^ lg \<le> 2 ^ j" by (intro power_increasing) auto
        then have "half lg \<le> 2 ^ j" using hl(1) by linarith
        with True p that "1.prems"(5) psum_bump(1) [OF lg] lc hl(2) show ?thesis by (simp add: min_def)
      next
        case False
        then have "j \<le> lg - 1" "lg \<noteq> 0" by auto
        then have "(2 :: nat) ^ j \<le> 2 ^ (lg - 1)" by (intro power_increasing) auto
        then have "2 ^ j \<le> half lg" "(2 :: nat) ^ j \<le> half (Suc lg)" using \<open>lg \<noteq> 0\<close> hl by (simp_all add: half_def)
        with False that "1.prems"(5) psum_bump(1) [OF lg] show ?thesis by (simp add: min_def)
      qed
      have "\<exists>nums'. numuse_loop arr (lg + 1) (max i (lim + 1)) (ause + lc) (bump lg lc nums) = (live arr, nums') \<and> length nums' = Suc MAXBITS \<and>
          (\<forall>j\<le>MAXBITS. psum nums' j = live (take (2 ^ j) arr))"
        by (rule "1.IH" [OF True lim [symmetric] go lc_def])
          (use True i lc hl(2) ps psum_bump(2) [OF lg] "1.prems" in simp_all)
      moreover have "numuse_loop arr lg i ause nums = numuse_loop arr (lg + 1) (max i (lim + 1)) (ause + lc) (bump lg lc nums)"
        unfolding numuse_loop.simps [of arr lg i] Let_def lim lc_def by (simp only: True go if_True if_False)
      ultimately show ?thesis by simp
    qed
  qed
qed

lemma numusearray_spec:
  assumes "length (t_array t) \<le> MAXASIZE"
  shows "\<exists>nums. numusearray t (replicate (MAXBITS + 1) 0) = (live (t_array t), nums) \<and> length nums = Suc MAXBITS \<and>
    (\<forall>j\<le>MAXBITS. psum nums j = live (take (2 ^ j) (t_array t)))"
proof -
  have "psum (replicate (MAXBITS + 1) 0) j = 0" if "j \<le> MAXBITS" for j using that by (simp add: psum_def sum_list_replicate)
  then show ?thesis unfolding numusearray_def using assms
    by (intro numuse_loop_spec) (simp_all add: half_def live_def)
qed

definition live_keys :: "(TKey \<Rightarrow> bool) \<Rightarrow> 'v node list \<Rightarrow> nat" where
  "live_keys P ns = length (filter (\<lambda>n. i_val n \<noteq> None \<and> P (i_key n)) ns)"

lemma numusehash_loop_spec:
  assumes "length nums = Suc MAXBITS"
  shows "\<exists>nums'. numusehash_loop ns a u nums = (a + live_keys (index_upto MAXASIZE) ns, u + live_keys (\<lambda>k. True) ns, nums') \<and> length nums' = Suc MAXBITS \<and>
    (\<forall>j\<le>MAXBITS. psum nums' j = psum nums j + live_keys (index_upto (2 ^ j)) ns)"
  using assms
proof (induction ns arbitrary: a u nums)
  case (Cons n ns)
  show ?case
  proof (cases "i_val n")
    case None
    with Cons.IH [OF Cons.prems] show ?thesis by (simp add: live_keys_def)
  next
    case (Some v)
    obtain c nums1 where c: "countint (i_key n) nums = (c, nums1)" by fastforce
    note s = countint_spec [OF Cons.prems c]
    with Cons.IH [of nums1 "a + c" "u + 1"] c Some show ?thesis by (auto simp: live_keys_def)
  qed
qed (simp add: live_keys_def)

lemma live_keys_rev [simp]: "live_keys P (rev ns) = live_keys P ns"
  by (simp add: live_keys_def rev_filter [symmetric])

text \<open>The sizes that \<open>computesizes\<close> finds: \<open>na\<close> of the integer keys are at most \<open>n\<close>, which is 0 or a power of 2 of which more than the half is used.\<close>

definition sizes_ok :: "nat list \<Rightarrow> nat \<Rightarrow> nat \<Rightarrow> bool" where
  "sizes_ok nums na n \<longleftrightarrow> na = 0 \<and> n = 0 \<or> (\<exists>j\<le>MAXBITS. n = 2 ^ j \<and> na = psum nums j \<and> n < 2 * na)"

text \<open>No larger size among the first \<open>i\<close> powers of 2 will do; the counts come from different indices.\<close>

definition sizes_max :: "nat list \<Rightarrow> nat \<Rightarrow> nat \<Rightarrow> bool" where
  "sizes_max nums i n \<longleftrightarrow> (\<forall>j\<le>MAXBITS. psum nums j \<le> 2 ^ j) \<longrightarrow> (\<forall>j<i. 2 ^ j < 2 * psum nums j \<longrightarrow> 2 ^ j \<le> n)"

lemma psum_mono: "i \<le> j \<Longrightarrow> psum nums i \<le> psum nums j"
proof -
  assume "i \<le> j"
  then have "take (Suc j) nums = take (Suc i) nums @ take (j - i) (drop (Suc i) nums)" by (simp flip: take_add)
  then show ?thesis by (simp add: psum_def)
qed

lemma sizes_max_stop:
  assumes "sizes_max nums i n" "psum nums MAXBITS \<le> 2 ^ i div 2"
  shows "sizes_max nums (Suc MAXBITS) n"
  unfolding sizes_max_def
proof (intro impI allI)
  fix j assume b: "\<forall>j\<le>MAXBITS. psum nums j \<le> 2 ^ j" and j: "j < Suc MAXBITS" "2 ^ j < 2 * psum nums j"
  show "2 ^ j \<le> n"
  proof (cases "j < i")
    case True
    with assms(1) b j(2) show ?thesis unfolding sizes_max_def by blast
  next
    case False
    then have "(2 :: nat) ^ i \<le> 2 ^ j" by (intro power_increasing) auto
    moreover have "psum nums j \<le> psum nums MAXBITS" using j(1) by (intro psum_mono) simp
    ultimately have "2 ^ j \<le> (0 :: nat)" using j(2) assms(2) by linarith
    then show ?thesis by simp
  qed
qed

lemma sizes_max_step:
  assumes "sizes_max nums i n" "i \<le> MAXBITS" "length nums = Suc MAXBITS"
  shows "sizes_max nums (i + 1) (if nums ! i > 0 \<and> 2 ^ i < 2 * psum nums i then 2 ^ i else n)"
  unfolding sizes_max_def
proof (intro impI allI)
  let ?n = "if nums ! i > 0 \<and> 2 ^ i < 2 * psum nums i then 2 ^ i else n"
  fix j assume b: "\<forall>j\<le>MAXBITS. psum nums j \<le> 2 ^ j" and j: "j < i + 1" "2 ^ j < 2 * psum nums j"
  show "2 ^ j \<le> ?n"
  proof (cases "j < i")
    case True
    then have "(2 :: nat) ^ j \<le> 2 ^ i" by (intro power_increasing) auto
    moreover have "2 ^ j \<le> n" using assms(1) b True j(2) unfolding sizes_max_def by blast
    ultimately show ?thesis by simp
  next
    case False
    with j have e: "j = i" by simp
    have "nums ! i > 0"
    proof (rule ccontr)
      assume z: "\<not> ?thesis"
      show False
      proof (cases i)
        case 0
        then show False using z j(2) psum_0 [of nums] assms(3) e by simp
      next
        case (Suc k)
        have "psum nums i = psum nums k" using z psum_step [of k nums] assms(2,3) Suc by simp
        moreover have "psum nums k \<le> 2 ^ k" using b assms(2) Suc by simp
        ultimately show False using j(2) e Suc by simp
      qed
    qed
    then show ?thesis using j(2) e by simp
  qed
qed

lemma sizes_loop_spec:
  assumes "length nums = Suc MAXBITS" "psum nums MAXBITS = narray" "sizes_ok nums na n" "i \<le> Suc MAXBITS"
    and "a = (if i = 0 then 0 else psum nums (i - 1))" "a < narray \<or> narray = 0" "sizes_max nums i n"
  shows "case sizes_loop nums narray i a na n of (na, n) \<Rightarrow> sizes_ok nums na n \<and> sizes_max nums (Suc MAXBITS) n"
  using assms
proof (induction nums narray i a na n rule: sizes_loop.induct)
  case (1 nums narray i a na n)
  show ?case
  proof (cases "2 ^ i div 2 < narray")
    case False
    then have "sizes_max nums (Suc MAXBITS) n" using "1.prems"(2,7) by (intro sizes_max_stop) auto
    with False "1.prems"(3) show ?thesis by (simp add: sizes_loop.simps)
  next
    case True
    have "i \<noteq> Suc MAXBITS" using "1.prems" True by auto
    then have i: "i \<le> MAXBITS" using "1.prems"(4) by simp
    define b where "b = a + nums ! i"
    have b: "b = psum nums i" using "1.prems"(1,5) i psum_0 [of nums] psum_step [of "i - 1" nums] by (auto simp: b_def)
    define r where "r = (if nums ! i > 0 then (let a = a + nums ! i in if a > 2 ^ i div 2 then (a, a, 2 ^ i) else (a, na, n)) else (a, na, n))"
    have big: "b > 2 ^ i div 2 \<longleftrightarrow> 2 ^ i < 2 * psum nums i" using b by (cases i) auto
    note mx = sizes_max_step [OF "1.prems"(7) i "1.prems"(1)]
    obtain na' n' where r: "r = (b, na', n')" "sizes_ok nums na' n'" "sizes_max nums (i + 1) n'"
    proof (cases "nums ! i > 0 \<and> b > 2 ^ i div 2")
      case up: True
      have "(2 :: nat) ^ i < 2 * b" using up by (cases i) auto
      then have "sizes_ok nums b (2 ^ i)" using i b unfolding sizes_ok_def by blast
      with up that mx big show ?thesis by (simp add: r_def b_def Let_def)
    next
      case same: False
      then have "r = (b, na, n)" by (auto simp: r_def b_def Let_def)
      with "1.prems"(3) that mx same big show ?thesis by auto
    qed
    have step: "sizes_loop nums narray i a na n = (if b = narray then (na', n') else sizes_loop nums narray (i + 1) b na' n')"
      using True r(1) unfolding sizes_loop.simps [of nums narray i] r_def by simp
    show ?thesis
    proof (cases "b = narray")
      case True
      have "sizes_max nums (Suc MAXBITS) n'"
        unfolding sizes_max_def
      proof (intro impI)
        assume bd: "\<forall>j\<le>MAXBITS. psum nums j \<le> 2 ^ j"
        then have "psum nums i \<le> 2 ^ i" using i by blast
        then have "psum nums MAXBITS \<le> 2 ^ (i + 1) div 2" using True b "1.prems"(2) by simp
        from sizes_max_stop [OF r(3) this] bd show "\<forall>j<Suc MAXBITS. 2 ^ j < 2 * psum nums j \<longrightarrow> 2 ^ j \<le> n'" by (simp add: sizes_max_def)
      qed
      with True show ?thesis using step r(2) by simp
    next
      case False
      have "b \<le> narray" using psum_mono [OF i, of nums] "1.prems"(2) b by simp
      with False have lt: "b < narray" by simp
      have "case sizes_loop nums narray (i + 1) b na' n' of (na, n) \<Rightarrow> sizes_ok nums na n \<and> sizes_max nums (Suc MAXBITS) n"
        by (rule "1.IH" [OF True r(1) [unfolded r_def, symmetric] refl refl False]) (use lt r(2,3) "1.prems"(1,2) i b in simp_all)
      with step False show ?thesis by simp
    qed
  qed
qed

subsection \<open>Growing\<close>

text \<open>The number of values in a table.\<close>

definition size_of :: "'v table \<Rightarrow> nat" where
  "size_of t = live (t_array t) + live_keys (\<lambda>k. True) (t_node t)"

lemma live_keys_split: "live_keys (\<lambda>k. True) ns = live_keys P ns + live_keys (\<lambda>k. \<not> P k) ns"
  by (induction ns) (auto simp: live_keys_def)

lemma evicted_live: "evicted t n = live (drop n (t_array t)) + live_keys (\<lambda>k. \<not> index_upto n k) (t_node t)"
  by (simp add: evicted_def live_keys_def index_upto_def)

lemma size_split: "size_of t = live (take n (t_array t)) + live_keys (index_upto n) (t_node t) + evicted t n"
proof -
  have "live (t_array t) = live (take n (t_array t)) + live (drop n (t_array t))" by (simp flip: live_append)
  with live_keys_split [of "t_node t" "index_upto n"] show ?thesis by (simp add: size_of_def evicted_live)
qed

text \<open>The number of integer keys between 1 and \<open>n\<close>, with the new key \<open>ek\<close>.\<close>

definition indices :: "'v table \<Rightarrow> TKey \<Rightarrow> nat \<Rightarrow> nat" where
  "indices t ek n = live (take n (t_array t)) + live_keys (index_upto n) (t_node t) + (if index_upto n ek then 1 else 0)"

lemma rehash_sizes_spec:
  assumes arr: "length (t_array t) \<le> MAXASIZE" and r: "rehash_sizes t ek = (na, nh)"
  shows "na \<le> MAXASIZE \<and> nh \<le> Suc (size_of t) \<and> nh = evicted t na + (if index_upto na ek then 0 else 1)"
    and "na = 0 \<or> (\<exists>j\<le>MAXBITS. na = 2 ^ j) \<and> na < 2 * indices t ek na"
    and "\<forall>j\<le>MAXBITS. indices t ek (2 ^ j) \<le> 2 ^ j \<Longrightarrow> \<forall>j\<le>MAXBITS. 2 ^ j < 2 * indices t ek (2 ^ j) \<longrightarrow> 2 ^ j \<le> na"
    and "nh = size_of t + 1 - indices t ek na"
proof -
  let ?a = "t_array t" and ?ns = "t_node t"
  obtain n1 where n1: "numusearray t (replicate (MAXBITS + 1) 0) = (live ?a, n1)" "length n1 = Suc MAXBITS"
    "\<And>j. j \<le> MAXBITS \<Longrightarrow> psum n1 j = live (take (2 ^ j) ?a)" using numusearray_spec [OF arr] by blast
  obtain n2 where n2: "numusehash_loop (rev ?ns) 0 0 n1 = (live_keys (index_upto MAXASIZE) ?ns, live_keys (\<lambda>k. True) ?ns, n2)" "length n2 = Suc MAXBITS"
    "\<And>j. j \<le> MAXBITS \<Longrightarrow> psum n2 j = psum n1 j + live_keys (index_upto (2 ^ j)) ?ns" using numusehash_loop_spec [OF n1(2), of "rev ?ns" 0 0] by auto
  obtain c n3 where n3: "countint ek n2 = (c, n3)" by fastforce
  note s = countint_spec [OF n2(2) n3]
  define narray where "narray = live ?a + live_keys (index_upto MAXASIZE) ?ns + c"
  have ps: "psum n3 j = live (take (2 ^ j) ?a) + live_keys (index_upto (2 ^ j)) ?ns + (if index_upto (2 ^ j) ek then 1 else 0)" if "j \<le> MAXBITS" for j
    using s n2(3) n1(3) that by simp
  have full: "psum n3 MAXBITS = narray" using ps [of MAXBITS] s arr by (simp add: narray_def MAXASIZE_def)
  obtain cnt n where cs: "computesizes n3 narray = (cnt, n)" by fastforce
  have "case computesizes n3 narray of (na, n) \<Rightarrow> sizes_ok n3 na n \<and> sizes_max n3 (Suc MAXBITS) n" unfolding computesizes_def
    by (rule sizes_loop_spec) (use s full in \<open>auto simp: sizes_ok_def sizes_max_def\<close>)
  then have so: "sizes_ok n3 cnt n" and sm: "sizes_max n3 (Suc MAXBITS) n" by (simp_all add: cs)
  have res: "na = n" "nh = size_of t + 1 - cnt"
    using r n1(1) n2(1) n3 cs by (simp_all add: rehash_sizes_def numusehash_def Let_def narray_def size_of_def add.commute)
  have up0: "index_upto 0 = (\<lambda>k. False)" by (simp add: index_upto_def fun_eq_iff)
  have cnt: "cnt = live (take n ?a) + live_keys (index_upto n) ?ns + (if index_upto n ek then 1 else 0)"
    using so ps unfolding sizes_ok_def by (auto simp: up0 live_keys_def live_def)
  have "n \<le> MAXASIZE" using so unfolding sizes_ok_def MAXASIZE_def by (auto intro: power_increasing)
  with cnt res size_split [of t n] show "na \<le> MAXASIZE \<and> nh \<le> Suc (size_of t) \<and> nh = evicted t na + (if index_upto na ek then 0 else 1)" by auto
  have ix: "psum n3 j = indices t ek (2 ^ j)" if "j \<le> MAXBITS" for j using ps [OF that] by (simp add: indices_def)
  show "na = 0 \<or> (\<exists>j\<le>MAXBITS. na = 2 ^ j) \<and> na < 2 * indices t ek na" using so ix res(1) unfolding sizes_ok_def by auto
  show "\<forall>j\<le>MAXBITS. 2 ^ j < 2 * indices t ek (2 ^ j) \<longrightarrow> 2 ^ j \<le> na" if "\<forall>j\<le>MAXBITS. indices t ek (2 ^ j) \<le> 2 ^ j"
    using sm ix that res(1) unfolding sizes_max_def by (auto simp: less_Suc_eq_le)
  show "nh = size_of t + 1 - indices t ek na" using cnt res by (simp add: indices_def)
qed

text \<open>\<open>lastfree\<close> is not looked at when a table is rehashed.\<close>

lemma resize_lastfree: "resize f (t\<lparr>lastfree := l\<rparr>) na nh = resize f t na nh"
proof -
  have e: "setnodevector nh (t\<lparr>lastfree := l\<rparr>) = setnodevector nh t" for nh t l by (simp add: setnodevector_def Let_def)
  have "setarrayvector na (t\<lparr>lastfree := l\<rparr>) = (setarrayvector na t)\<lparr>lastfree := l\<rparr>" by (simp add: setarrayvector_def)
  then show ?thesis by (simp add: resize_def Let_def e)
qed

lemma rehash_lastfree: "rehash f (t\<lparr>lastfree := l\<rparr>) k = rehash f t k"
  by (simp add: rehash_def rehash_sizes_def numusearray_def numusehash_def resize_lastfree)

lemma setnodevector_overflow: "MAXASIZE < n \<Longrightarrow> n \<le> 2 ^ 31 \<Longrightarrow> setnodevector n t = Some (Inl ''table overflow'')"
proof -
  assume n: "MAXASIZE < n" "n \<le> 2 ^ 31"
  have "\<not> nat (ceillog2 (of_nat n)) \<le> MAXBITS" using ceillog2_le(2) [of n MAXBITS] n by (simp add: MAXASIZE_def)
  then show ?thesis using n by (simp add: setnodevector_def Let_def)
qed

lemma size_of_le: "table_ok t \<Longrightarrow> size_of t \<le> 2 ^ 27"
proof -
  assume ok: "table_ok t"
  have "nnodes t \<le> 2 ^ MAXBITS" using ok power_increasing [of "lsizenode t" MAXBITS "2 :: nat"] by (simp add: table_ok_def)
  moreover have "length (t_array t) \<le> 2 ^ MAXBITS" using ok by (simp add: table_ok_def MAXASIZE_def)
  moreover have "live (t_array t) \<le> length (t_array t)" "live_keys (\<lambda>k. True) (t_node t) \<le> nnodes t" by (simp_all add: live_def live_keys_def)
  ultimately show ?thesis by (simp add: size_of_def MAXBITS_def)
qed

text \<open>A table that has \<open>v\<close> at \<open>k\<close> and else what \<open>t\<close> has.\<close>

definition stored :: "'v table \<Rightarrow> TKey \<Rightarrow> 'v option \<Rightarrow> 'v table \<Rightarrow> bool" where
  "stored t k v t' \<longleftrightarrow> table_ok t' \<and> (\<forall>k'. valid_key k' \<longrightarrow> tget t' k' = (if luaO_rawequalObj k' k then v else tget t k'))"

lemma put_stored: "put t k v t' \<Longrightarrow> stored t k v t'"
  by (simp add: put_def stored_def)

text \<open>The outcomes of setting a key.\<close>

definition sets :: "'v table \<Rightarrow> TKey \<Rightarrow> (slot \<times> 'v table) lua_run \<Rightarrow> bool" where
  "sets t k r \<longleftrightarrow> (\<exists>p t'. r = Some (Inr (p, t')) \<and> p \<noteq> NilObject \<and> slot_get t' p = tget t k \<and> (\<forall>v. stored t k v (slot_set t' p v))) \<or>
     MAXASIZE \<le> size_of t \<and> r = Some (Inl ''table overflow'')"

text \<open>The call of \<open>rehash\<close> and the second attempt.\<close>

lemma grow_sets:
  assumes ok: "table_ok t" and k: "valid_key k"
  shows "sets t k (rbind (rehash (newkey_with g) t k) (\<lambda>t. luaH_set_with (newkey_with g) t k))"
proof -
  obtain na nh where s: "rehash_sizes t k = (na, nh)" by fastforce
  have arr: "length (t_array t) \<le> MAXASIZE" using ok by (simp add: table_ok_def)
  from rehash_sizes_spec(1) [OF arr s] have n: "na \<le> MAXASIZE" "nh \<le> Suc (size_of t)" "nh = evicted t na + (if index_upto na k then 0 else 1)" by auto
  show ?thesis
  proof (cases "nh \<le> MAXASIZE")
    case False
    then have "setnodevector nh t' = Some (Inl ''table overflow'')" for t' :: "'a table"
      using size_of_le [OF ok] n(2) by (intro setnodevector_overflow) auto
    then show ?thesis using False n(2) s by (simp add: sets_def rehash_def resize_def rbind_def Let_def)
  next
    case True
    obtain t1 where t1: "resize (newkey_with g) t na nh = Some (Inr t1)" "table_ok t1" "length (t_array t1) = na" "used t1 \<le> evicted t na"
      "nh \<noteq> 0 \<longrightarrow> \<not> t_dummy t1 \<and> nh \<le> nnodes t1" "\<And>k. valid_key k \<Longrightarrow> tget t1 k = tget t k"
      using resize_keeps [OF ok n(1) True, of g] n(3) by (auto split: if_splits)
    have room: "room t1" if "locate t1 k = NilObject"
    proof -
      have "\<not> index_upto na k" using that t1(3) by (auto simp: locate_def in_array_def index_upto_def)
      with n(3) t1(4,5) show ?thesis by (simp add: room_def)
    qed
    have "stored t k v t'" if "put t1 k v t'" for v t' using that t1(6) by (simp add: put_def stored_def)
    with set_put [OF t1(2) k room, of g] t1(1) t1(6) [OF k] s show ?thesis
      unfolding sets_def by (simp add: rehash_def rbind_def) (metis option.inject Pair_inject sum.inject(2))
  qed
qed

text \<open>\<open>newkey\<close> with fuel for one call of \<open>rehash\<close>.\<close>

lemma newkey_sets:
  assumes ok: "table_ok t" and k: "valid_key k" "locate t k = NilObject"
  shows "sets t k (newkey 1 t k)"
proof -
  define grow where "grow = (\<lambda>(t :: 'a table) key. rbind (rehash (newkey 0) t key) (\<lambda>t. luaH_set_with (newkey 0) t key))"
  have n: "newkey 1 = newkey_with grow" by (simp add: grow_def)
  have g: "sets t k (grow (t\<lparr>lastfree := l\<rparr>) k)" for l
    unfolding grow_def rehash_lastfree newkey.simps by (rule grow_sets [OF ok k(1)])
  note c = newkey_cases [OF ok k, of grow]
  show ?thesis
  proof (cases "\<exists>l. newkey_with grow t k = grow (t\<lparr>lastfree := l\<rparr>) k")
    case True
    with g n show ?thesis by auto
  next
    case False
    with c have "\<exists>i t'. newkey_with grow t k = Some (Inr (NodeSlot i, t')) \<and> slot_get t' (NodeSlot i) = tget t k \<and> stored t k v (slot_set t' (NodeSlot i) v)" for v using put_stored by blast
    then show ?thesis unfolding sets_def n by (metis option.inject Pair_inject sum.inject(2) slot.distinct(3))
  qed
qed

lemma set_sets:
  assumes ok: "table_ok t" and k: "valid_key k"
  shows "sets t k (luaH_set t k)"
proof -
  have nil: "k \<noteq> NilKey" "(case k of NumKey n \<Rightarrow> luai_numisnan n | _ \<Rightarrow> False) = False" using k by (auto simp: valid_key_def split: TKey.splits)
  let ?t = "t\<lparr>t_flags := 0\<rparr>"
  have s: "luaH_set t k = (if locate t k \<noteq> NilObject then Some (Inr (locate t k, ?t)) else newkey 1 ?t k)"
    using nil unfolding luaH_set_def by (auto simp: luaH_set_with_def luaH_get_locate ok simp del: newkey.simps)
  have ok': "table_ok ?t" using ok by (simp add: flags_ok)
  have e: "sets ?t k r = sets t k r" for r by (simp add: sets_def stored_def tget_flags size_of_def)
  show ?thesis
  proof (cases "locate t k = NilObject")
    case False
    then have "stored t k v (slot_set ?t (locate t k) v)" for v
      using put_at_locate [OF ok' k, of v] put_stored by (auto simp: flags_ok put_flags)
    moreover have "slot_get ?t (locate t k) = tget t k" using tget_locate [OF ok' k] by (simp add: flags_ok tget_flags)
    ultimately show ?thesis using s False by (auto simp: sets_def)
  next
    case True
    with newkey_sets [OF ok' k] s e show ?thesis by (simp add: flags_ok del: newkey.simps)
  qed
qed

end
