(* ===== verification/Lua_Table_Main.thy ===== *)
theory Lua_Table_Main
  imports Lua_Rehash
begin

text \<open>
  The contract of tables: search, storing, growing, traversal and boundaries.
\<close>

subsection \<open>Reading\<close>

text \<open>Reading as \<open>lua_rawget\<close> does it; \<open>None\<close> when the search does not return.\<close>

definition rawget :: "'v table \<Rightarrow> TKey \<Rightarrow> 'v option option" where
  "rawget t k = map_option (slot_get t) (luaH_get t k)"

lemma rawget_tget: "table_ok t \<Longrightarrow> rawget t k = Some (tget t k)"
  by (simp add: rawget_def tget_def luaH_get_locate)

lemma keq_valid: "luaO_rawequalObj a b \<Longrightarrow> valid_key b \<Longrightarrow> valid_key a"
  by (cases a; cases b) (auto simp: valid_key_def luai_numeq_def)

lemma keq_invalid: "\<not> valid_key k \<Longrightarrow> a \<noteq> NilKey \<Longrightarrow> \<not> luaO_rawequalObj a k"
  by (cases k; cases a) (auto simp: valid_key_def luai_numeq_def split: TKey.splits)

lemma locate_invalid: "table_ok t \<Longrightarrow> \<not> valid_key k \<Longrightarrow> k \<noteq> NilKey \<Longrightarrow> locate t k = NilObject"
proof -
  assume ok: "table_ok t" and k: "\<not> valid_key k" "k \<noteq> NilKey"
  have "\<not> luaO_rawequalObj a k" for a using keq_invalid [OF k(1), of a] k(2) by (cases "a = NilKey") (auto simp: keq_nil)
  moreover have "\<not> in_array t k"
  proof
    assume "in_array t k"
    then have "0 < arrayindex k" by (simp add: in_array_def)
    from arrayindex_NumKey [OF this] show False using k(1) by (auto simp: valid_key_def luai_numeq_def)
  qed
  moreover have "find (\<lambda>i. False) xs = None" for xs :: "nat list" by (induction xs) auto
  ultimately show ?thesis by (simp add: locate_def)
qed

lemma tget_invalid: "table_ok t \<Longrightarrow> \<not> valid_key k \<Longrightarrow> tget t k = None"
  using locate_invalid [of t k] by (cases "k = NilKey") (simp_all add: tget_def luaH_get_locate)

subsection \<open>Indices that are present\<close>

definition has_index :: "'v table \<Rightarrow> nat \<Rightarrow> bool" where
  "has_index t n \<longleftrightarrow> 0 < n \<and> tget t (NumKey (num_of_int (int n))) \<noteq> None"

lemma valid_num_of_int: "- (2 ^ 31) \<le> i \<Longrightarrow> i < 2 ^ 31 \<Longrightarrow> valid_key (NumKey (num_of_int i))"
  using num_of_int(2) [of i] by (simp add: valid_key_def)

lemma has_index_array:
  assumes "table_ok t" "0 < n" "n \<le> length (t_array t)"
  shows "has_index t n \<longleftrightarrow> t_array t ! (n - 1) \<noteq> None"
proof -
  have "n < 2 ^ 31" using assms(1,3) by (simp add: table_ok_def MAXASIZE_def MAXBITS_def)
  then have a: "arrayindex (NumKey (num_of_int (int n))) = int n" by (intro arrayindex_of_int) auto
  then have "in_array t (NumKey (num_of_int (int n)))" using assms(2,3) by (simp add: in_array_def)
  from tget_array [OF assms(1) this] a assms(2) show ?thesis by (simp add: has_index_def nat_diff_distrib)
qed

lemma has_index_bound:
  assumes ok: "table_ok t" and all: "\<forall>n. 0 < n \<longrightarrow> n \<le> m \<longrightarrow> has_index t n" and m: "m < 2 ^ 31"
  shows "m \<le> length (t_array t) + nnodes t"
proof -
  let ?l = "length (t_array t)"
  have "\<exists>i<nnodes t. arrayindex (keyof t i) = int n" if n: "n \<in> {?l + 1..m}" for n
  proof -
    let ?k = "NumKey (num_of_int (int n))"
    have b: "int n < 2 ^ 31" using n m by auto
    have a: "arrayindex ?k = int n" using b by (intro arrayindex_of_int) auto
    have v: "valid_key ?k" using b by (intro valid_num_of_int) auto
    have "\<not> in_array t ?k" using n a by (simp add: in_array_def)
    moreover have "tget t ?k \<noteq> None" using all n by (simp add: has_index_def)
    ultimately obtain k0 v where "(k0, v) \<in> entries t" "luaO_rawequalObj k0 ?k" using tget_hash [OF ok v] by blast
    then show ?thesis using arrayindex_cong [of k0 ?k] a unfolding entries_def by auto
  qed
  then obtain f where f: "\<And>n. n \<in> {?l + 1..m} \<Longrightarrow> f n < nnodes t \<and> arrayindex (keyof t (f n)) = int n" by metis
  have "inj_on f {?l + 1..m}" by (rule inj_onI) (metis f of_nat_eq_iff)
  moreover have "f ` {?l + 1..m} \<subseteq> {..<nnodes t}" using f by auto
  ultimately have "card {?l + 1..m} \<le> card {..<nnodes t}" by (intro card_inj_on_le) auto
  then show ?thesis by simp
qed

lemma present_spec:
  assumes ok: "table_ok t" and n: "0 < n" "n < 2 ^ 31"
  shows "present t (of_nat n) = Some (has_index t n)"
proof -
  have s: "sint (of_nat n :: 32 word) = int n" using n by (simp add: signed_of_nat signed_take_bit_int_eq_self)
  have b: "- (2 ^ 31) \<le> int n" "int n < 2 ^ 31" using n by auto
  from luaH_getnum_locate [OF ok b] show ?thesis
    using n tget_locate [OF ok valid_num_of_int [OF b]] by (simp add: present_def s has_index_def)
qed

subsection \<open>Boundaries\<close>

definition boundary :: "'v table \<Rightarrow> nat \<Rightarrow> bool" where
  "boundary t n \<longleftrightarrow> (n = 0 \<or> has_index t n) \<and> \<not> has_index t (n + 1)"

lemma array_loop_spec:
  assumes "i < j" "i = 0 \<or> arr ! (i - 1) \<noteq> None" "arr ! (j - 1) = None"
  shows "i \<le> array_loop arr i j \<and> array_loop arr i j < j \<and> (array_loop arr i j = 0 \<or> arr ! (array_loop arr i j - 1) \<noteq> None) \<and> arr ! (array_loop arr i j) = None"
  using assms
proof (induction arr i j rule: array_loop.induct)
  case (1 arr i j)
  define m where "m = (i + j) div 2"
  show ?case
  proof (cases "j - i > 1")
    case False
    then have "j = Suc i" using "1.prems"(1) by simp
    then show ?thesis using False "1.prems" by (simp add: array_loop.simps)
  next
    case True
    have m: "i < m" "m < j" using True by (auto simp: m_def)
    show ?thesis
    proof (cases "arr ! (m - 1) = None")
      case n: True
      have "array_loop arr i j = array_loop arr i m" unfolding array_loop.simps [of arr i j] m_def [symmetric] using True n by simp
      then show ?thesis using "1.IH"(1) [folded m_def, OF True n m(1) "1.prems"(2) n] m by auto
    next
      case p: False
      have "array_loop arr i j = array_loop arr m j" unfolding array_loop.simps [of arr i j] m_def [symmetric] by (simp only: True p if_True if_False)
      then show ?thesis using "1.IH"(2) [folded m_def, OF True p m(2) _ "1.prems"(3)] m p by auto
    qed
  qed
qed

lemma linear_loop_spec:
  assumes ok: "table_ok t" and n: "0 < i" "i \<le> n" "n < 2 ^ 31" "\<not> has_index t n" "\<forall>k. 0 < k \<longrightarrow> k < n \<longrightarrow> has_index t k"
  shows "linear_loop t (of_nat i) = Some (of_nat (n - 1))"
  using n
proof (induction "n - i" arbitrary: i)
  case 0
  then show ?case using present_spec [OF ok, of n] by (simp add: linear_loop.simps)
next
  case (Suc d)
  have "present t (of_nat i) = Some True" using present_spec [OF ok, of i] Suc.prems Suc.hyps by simp
  moreover have "(of_nat i + 1 :: 32 word) = of_nat (Suc i)" by simp
  moreover have "linear_loop t (of_nat (Suc i)) = Some (of_nat (n - 1))" using Suc.hyps Suc.prems by (intro Suc.hyps(1)) auto
  ultimately show ?case using linear_loop.simps [of t "of_nat i"] by (simp del: of_nat_Suc)
qed

lemma absent_index:
  assumes ok: "table_ok t"
  shows "\<exists>n. 0 < n \<and> n < 2 ^ 31 \<and> \<not> has_index t n \<and> (\<forall>k. 0 < k \<longrightarrow> k < n \<longrightarrow> has_index t k)"
proof -
  have "length (t_array t) \<le> 2 ^ 26" "nnodes t \<le> 2 ^ 26"
    using ok power_increasing [of "lsizenode t" 26 "2 :: nat"] by (simp_all add: table_ok_def MAXASIZE_def MAXBITS_def)
  then have "\<exists>n. 0 < n \<and> n \<le> 2 ^ 28 \<and> \<not> has_index t n" using has_index_bound [OF ok, of "2 ^ 28"] by force
  then have "\<exists>n. (0 < n \<and> n \<le> 2 ^ 28 \<and> \<not> has_index t n) \<and> (\<forall>k<n. \<not> (0 < k \<and> k \<le> 2 ^ 28 \<and> \<not> has_index t k))"
    by (rule exists_least_iff [THEN iffD1])
  then obtain n where n: "0 < n" "n \<le> 2 ^ 28" "\<not> has_index t n" "\<And>k. k < n \<Longrightarrow> 0 < k \<Longrightarrow> k \<le> 2 ^ 28 \<Longrightarrow> has_index t k" by blast
  then show ?thesis by (intro exI [of _ n]) auto
qed

lemma linear_loop_boundary:
  assumes ok: "table_ok t"
  shows "\<exists>n. linear_loop t 1 = Some (of_nat n) \<and> n < 2 ^ 31 \<and> boundary t n"
proof -
  obtain n where n: "0 < n" "n < 2 ^ 31" "\<not> has_index t n" "\<forall>k. 0 < k \<longrightarrow> k < n \<longrightarrow> has_index t k" using absent_index [OF ok] by blast
  from linear_loop_spec [OF ok _ _ n(2-4), of 1] n(1) have "linear_loop t 1 = Some (of_nat (n - 1))" by simp
  moreover have "boundary t (n - 1)" using n by (cases "n = 1") (auto simp: boundary_def)
  ultimately show ?thesis using n(2) by (intro exI [of _ "n - 1"]) auto
qed

lemma double_loop_spec:
  assumes ok: "table_ok t" and j: "i < j" "j < 2 ^ 31" "i = 0 \<or> has_index t i"
  shows "(\<exists>n. double_loop t (of_nat i) (of_nat j) = Some (Inl (of_nat n)) \<and> n < 2 ^ 31 \<and> boundary t n) \<or>
    (\<exists>i' j'. double_loop t (of_nat i) (of_nat j) = Some (Inr (of_nat i', of_nat j')) \<and> i' < j' \<and> j' < 2 ^ 31 \<and> (i' = 0 \<or> has_index t i') \<and> \<not> has_index t j')"
  using j
proof (induction "2 ^ 31 - j" arbitrary: i j rule: less_induct)
  case less
  have p: "present t (of_nat j) = Some (has_index t j)" using less.prems by (intro present_spec [OF ok]) auto
  show ?case
  proof (cases "has_index t j")
    case False
    then show ?thesis using p less.prems double_loop.simps [of t "of_nat i" "of_nat j"] by auto
  next
    case True
    have u: "unat (of_nat j * 2 :: 32 word) = 2 * j"
    proof -
      have "(of_nat j * 2 :: 32 word) = of_nat (2 * j)" by simp
      then show ?thesis using less.prems(2) by (simp only: unat_of_nat take_bit_nat_eq_self_iff) simp
    qed
    then have g: "of_nat j * 2 > (2147483647 :: 32 word) \<longleftrightarrow> 2 * j \<ge> 2 ^ 31" by (simp add: word_less_nat_alt, presburger)
    show ?thesis
    proof (cases "2 * j \<ge> 2 ^ 31")
      case big: True
      obtain n where "linear_loop t 1 = Some (of_nat n)" "n < 2 ^ 31" "boundary t n" using linear_loop_boundary [OF ok] by blast
      with p True big g double_loop.simps [of t "of_nat i" "of_nat j"] show ?thesis by auto
    next
      case small: False
      then have "double_loop t (of_nat i) (of_nat j) = double_loop t (of_nat j) (of_nat (2 * j))"
        using p True g double_loop.simps [of t "of_nat i" "of_nat j"] by (simp add: mult.commute)
      with less.hyps [of "2 * j" j] less.prems small True show ?thesis by auto
    qed
  qed
qed

lemma binary_loop_spec:
  assumes ok: "table_ok t" and j: "i < j" "j < 2 ^ 31" "i = 0 \<or> has_index t i" "\<not> has_index t j"
  shows "\<exists>n. binary_loop t (of_nat i) (of_nat j) = Some (of_nat n) \<and> n < j \<and> boundary t n"
  using j
proof (induction "j - i" arbitrary: i j rule: less_induct)
  case less
  have u: "unat (of_nat n :: 32 word) = n" if "n < 2 ^ 32" for n using that by (simp add: unat_of_nat take_bit_nat_eq_self_iff)
  have "(of_nat j - of_nat i :: 32 word) = of_nat (j - i)" using less.prems(1) by (simp add: of_nat_diff)
  then have g: "(of_nat j - of_nat i :: 32 word) > 1 \<longleftrightarrow> j - i > 1" using u [of "j - i"] less.prems by (simp add: word_less_nat_alt)
  define m where "m = (i + j) div 2"
  have "(of_nat i + of_nat j :: 32 word) = of_nat (i + j)" by simp
  then have mw: "(of_nat i + of_nat j :: 32 word) div 2 = of_nat m"
    using u [of "i + j"] u [of m] less.prems by (intro word_unat_eq_iff [THEN iffD2]) (simp add: unat_div m_def del: of_nat_add)
  show ?case
  proof (cases "j - i > 1")
    case False
    then have "j = i + 1" using less.prems(1) by simp
    then show ?thesis using False g less.prems binary_loop.simps [of t "of_nat i" "of_nat j"] by (intro exI [of _ i]) (auto simp: boundary_def)
  next
    case True
    have m: "i < m" "m < j" using True by (auto simp: m_def)
    have p: "present t (of_nat m) = Some (has_index t m)" using m less.prems by (intro present_spec [OF ok]) auto
    show ?thesis
    proof (cases "has_index t m")
      case True
      then have "binary_loop t (of_nat i) (of_nat j) = binary_loop t (of_nat m) (of_nat j)"
        using p g \<open>j - i > 1\<close> mw binary_loop.simps [of t "of_nat i" "of_nat j"] by simp
      with less.hyps [of j m] less.prems m True show ?thesis by auto
    next
      case False
      then have "binary_loop t (of_nat i) (of_nat j) = binary_loop t (of_nat i) (of_nat m)"
        using p g \<open>j - i > 1\<close> mw binary_loop.simps [of t "of_nat i" "of_nat j"] by simp
      with less.hyps [of m i] less.prems m False show ?thesis by fastforce
    qed
  qed
qed

lemma getn_boundary:
  assumes ok: "table_ok t"
  shows "\<exists>n. luaH_getn t = Some (int n) \<and> boundary t n"
proof -
  let ?a = "t_array t"
  define j where "j = length ?a"
  have j: "j \<le> 2 ^ 26" using ok by (simp add: table_ok_def MAXASIZE_def MAXBITS_def j_def)
  have arr: "has_index t n \<longleftrightarrow> ?a ! (n - 1) \<noteq> None" if "0 < n" "n \<le> j" for n using has_index_array [OF ok that(1)] that(2) by (simp add: j_def)
  show ?thesis
  proof (cases "j > 0 \<and> ?a ! (j - 1) = None")
    case True
    define n where "n = array_loop ?a 0 j"
    have n: "n < j" "n = 0 \<or> ?a ! (n - 1) \<noteq> None" "?a ! n = None"
      using array_loop_spec [of 0 j ?a] True by (auto simp: n_def)
    have "boundary t n" using n arr [of n] arr [of "n + 1"] by (auto simp: boundary_def)
    then show ?thesis using True by (auto simp: luaH_getn_def j_def n_def)
  next
    case False
    have last: "j = 0 \<or> has_index t j" using arr [of j] False by auto
    show ?thesis
    proof (cases "t_dummy t")
      case True
      then have d: "nnodes t = 1" "keyof t 0 = NilKey" using ok by (auto simp: table_ok_def dummynode_def)
      have v: "valid_key (NumKey (num_of_int (int (j + 1))))" using j by (intro valid_num_of_int) auto
      have "arrayindex (NumKey (num_of_int (int (j + 1)))) = int (j + 1)" using j by (intro arrayindex_of_int) auto
      then have "\<not> in_array t (NumKey (num_of_int (int (j + 1))))" by (simp add: in_array_def j_def)
      then have "locate t (NumKey (num_of_int (int (j + 1)))) = NilObject" by (simp add: locate_def d)
      then have "\<not> has_index t (j + 1)" using tget_locate [OF ok v] by (simp add: has_index_def)
      then have "boundary t j" using last by (simp add: boundary_def)
      then show ?thesis using True False by (auto simp: luaH_getn_def Let_def j_def)
    next
      case nd: False
      have fin: "sint (of_nat n :: 32 word) = int n" if "n < 2 ^ 31" for n
        using that by (simp add: signed_of_nat signed_take_bit_int_eq_self)
      have "\<exists>n. unbound_search t (of_nat j) = Some (of_nat n) \<and> n < 2 ^ 31 \<and> boundary t n"
      proof -
        have e: "(of_nat j + 1 :: 32 word) = of_nat (j + 1)" by simp
        from double_loop_spec [OF ok, of j "j + 1"] j last consider
          (linear) n where "double_loop t (of_nat j) (of_nat (j + 1)) = Some (Inl (of_nat n))" "n < 2 ^ 31" "boundary t n"
        | (search) i' j' where "double_loop t (of_nat j) (of_nat (j + 1)) = Some (Inr (of_nat i', of_nat j'))" "i' < j'" "j' < 2 ^ 31"
            "i' = 0 \<or> has_index t i'" "\<not> has_index t j'" by auto
        then show ?thesis
        proof cases
          case linear
          then show ?thesis unfolding unbound_search_def e by auto
        next
          case search
          with binary_loop_spec [OF ok search(2-5)] show ?thesis unfolding unbound_search_def e by fastforce
        qed
      qed
      then obtain n where "unbound_search t (of_nat j) = Some (of_nat n)" "n < 2 ^ 31" "boundary t n" by blast
      with fin nd False show ?thesis by (auto simp: luaH_getn_def Let_def j_def)
    qed
  qed
qed

subsection \<open>Traversal\<close>

text \<open>The pairs in the order of \<open>luaH_next\<close>.\<close>

fun array_pairs :: "nat \<Rightarrow> 'v option list \<Rightarrow> (TKey \<times> 'v) list" where
  "array_pairs i [] = []"
| "array_pairs i (None # vs) = array_pairs (i + 1) vs"
| "array_pairs i (Some v # vs) = (NumKey (num_of_int (int i + 1)), v) # array_pairs (i + 1) vs"

fun hash_pairs :: "'v node list \<Rightarrow> (TKey \<times> 'v) list" where
  "hash_pairs [] = []"
| "hash_pairs (n # ns) = (case i_val n of None \<Rightarrow> hash_pairs ns | Some v \<Rightarrow> (i_key n, v) # hash_pairs ns)"

definition pairs :: "'v table \<Rightarrow> (TKey \<times> 'v) list" where
  "pairs t = array_pairs 0 (t_array t) @ hash_pairs (t_node t)"

definition hd_opt :: "'a list \<Rightarrow> 'a option" where
  "hd_opt xs = (case xs of [] \<Rightarrow> None | x # _ \<Rightarrow> Some x)"

lemma next_array_hd: "next_array i vs = hd_opt (array_pairs i vs)"
  by (induction i vs rule: next_array.induct) (simp_all add: hd_opt_def)

lemma next_hash_hd: "next_hash ns = hd_opt (hash_pairs ns)"
  by (induction ns) (auto simp: hd_opt_def split: option.splits)

lemma array_pairs_append: "array_pairs i (xs @ ys) = array_pairs i xs @ array_pairs (i + length xs) ys"
  by (induction i xs rule: array_pairs.induct) simp_all

lemma hash_pairs_append: "hash_pairs (xs @ ys) = hash_pairs xs @ hash_pairs ys"
  by (induction xs) (auto split: option.splits)

lemma hash_pairs_in: "p \<in> set (hash_pairs ns) \<longleftrightarrow> (\<exists>n\<in>set ns. i_key n = fst p \<and> i_val n = Some (snd p))"
  by (induction ns) (auto split: option.splits)

lemma array_pairs_in: "p \<in> set (array_pairs i vs) \<longleftrightarrow> (\<exists>j<length vs. fst p = NumKey (num_of_int (int (i + j) + 1)) \<and> vs ! j = Some (snd p))"
proof (induction i vs rule: array_pairs.induct)
  case (2 i vs)
  have "(\<exists>j<length (None # vs). P j \<and> (None # vs) ! j = Some x) \<longleftrightarrow> (\<exists>j<length vs. P (Suc j) \<and> vs ! j = Some x)" for P x
    by (auto simp: less_Suc_eq_0_disj)
  with 2 show ?case by simp
next
  case (3 i v vs)
  have "(\<exists>j<length (Some v # vs). P j \<and> (Some v # vs) ! j = Some x) \<longleftrightarrow> P 0 \<and> v = x \<or> (\<exists>j<length vs. P (Suc j) \<and> vs ! j = Some x)" for P x
    by (auto simp: less_Suc_eq_0_disj)
  with 3 show ?case by (cases p) auto
qed simp

text \<open>What comes after a pair.\<close>

lemma array_pairs_after:
  "array_pairs i vs = ps @ p # qs \<Longrightarrow> \<exists>j<length vs. fst p = NumKey (num_of_int (int (i + j) + 1)) \<and> qs = array_pairs (i + j + 1) (drop (j + 1) vs)"
proof (induction i vs arbitrary: ps rule: array_pairs.induct)
  case (2 i vs)
  then obtain j where "j < length vs" "fst p = NumKey (num_of_int (int (i + 1 + j) + 1))" "qs = array_pairs (i + 1 + j + 1) (drop (j + 1) vs)" by auto
  then show ?case by (intro exI [of _ "Suc j"]) simp
next
  case (3 i v vs)
  show ?case
  proof (cases ps)
    case Nil
    with 3 show ?thesis by (intro exI [of _ 0]) auto
  next
    case (Cons a ps')
    with 3 obtain j where "j < length vs" "fst p = NumKey (num_of_int (int (i + 1 + j) + 1))" "qs = array_pairs (i + 1 + j + 1) (drop (j + 1) vs)" by auto
    then show ?thesis by (intro exI [of _ "Suc j"]) simp
  qed
qed simp

lemma hash_pairs_after:
  "hash_pairs ns = ps @ p # qs \<Longrightarrow> \<exists>j<length ns. i_key (ns ! j) = fst p \<and> i_val (ns ! j) = Some (snd p) \<and> qs = hash_pairs (drop (j + 1) ns)"
proof (induction ns arbitrary: ps)
  case (Cons n ns)
  have later: ?case if "hash_pairs ns = ps' @ p # qs" for ps'
  proof -
    from Cons.IH [OF that] obtain j where "j < length ns" "i_key (ns ! j) = fst p" "i_val (ns ! j) = Some (snd p)" "qs = hash_pairs (drop (j + 1) ns)" by blast
    then show ?thesis by (intro exI [of _ "Suc j"]) simp
  qed
  show ?case
  proof (cases "i_val n")
    case None
    with Cons.prems later [of ps] show ?thesis by simp
  next
    case (Some v)
    show ?thesis
    proof (cases ps)
      case Nil
      with Some Cons.prems show ?thesis by (intro exI [of _ 0]) auto
    next
      case (Cons a ps')
      with Some Cons.prems later [of ps'] show ?thesis by simp
    qed
  qed
qed simp

lemma next_after:
  assumes ok: "table_ok t" and p: "pairs t = ps @ p # qs"
  shows "luaH_next t (fst p) = Some (Inr (hd_opt qs))"
proof -
  let ?a = "t_array t" and ?n = "t_node t"
  have la: "length ?a \<le> 2 ^ 26" using ok by (simp add: table_ok_def MAXASIZE_def MAXBITS_def)
  from p [unfolded pairs_def] consider
      (arr) us where "array_pairs 0 ?a = ps @ p # us" "qs = us @ hash_pairs ?n"
    | (hash) us where "hash_pairs ?n = us @ p # qs"
    unfolding append_eq_append_conv2 by (auto simp: Cons_eq_append_conv append_eq_Cons_conv)
  then show ?thesis
  proof cases
    case arr
    from array_pairs_after [OF arr(1)] obtain j where j: "j < length ?a" "fst p = NumKey (num_of_int (int j + 1))" "us = array_pairs (j + 1) (drop (j + 1) ?a)" by auto
    have "arrayindex (fst p) = int j + 1" unfolding j(2) using j(1) la by (intro arrayindex_of_int) auto
    then have "findindex t (fst p) = Some (Inr (int j))" using j by (simp add: findindex_def)
    moreover have "nat (int j + 1) = Suc j" "Suc j - length ?a = 0" "array_pairs (Suc j) (drop (Suc j) ?a) = us" using j(1,3) by simp_all
    ultimately show ?thesis unfolding arr(2) luaH_next_def rbind_def next_array_hd next_hash_hd by (cases us) (simp_all add: hd_opt_def)
  next
    case hash
    from hash_pairs_after [OF hash] obtain j where j: "j < nnodes t" "keyof t j = fst p" "valof t j = Some (snd p)" "qs = hash_pairs (drop (j + 1) ?n)" by blast
    have nk: "keyof t j \<noteq> NilKey" using ok j by (auto simp: table_ok_def)
    have na: "\<not> in_array t (fst p)" using ok j nk by (auto simp: table_ok_def)
    have v: "valid_key (fst p)" using scatter_key [OF table_scatter [OF ok] j(1) nk] j(2) by simp
    have "locate t (fst p) = NodeSlot j" using locate_node(1) [OF ok v na, of j] j(1,2) keq_refl [OF v] by simp
    then have "get_generic t (fst p) = Some (NodeSlot j)" using get_generic_locate [OF ok _ na] nk j(2) by simp
    then have "findindex t (fst p) = Some (Inr (int (j + length ?a)))" using na nk j(2) by (auto simp: findindex_def in_array_def)
    moreover have "nat (int (j + length ?a) + 1) = Suc (j + length ?a)" by simp
    ultimately show ?thesis using j(4) unfolding luaH_next_def by (simp add: rbind_def next_array_hd next_hash_hd hd_opt_def [of "[]"])
  qed
qed

lemma pairs_get:
  assumes ok: "table_ok t" and k: "valid_key k"
  shows "tget t k = Some v \<longleftrightarrow> (\<exists>k0. (k0, v) \<in> set (pairs t) \<and> luaO_rawequalObj k0 k)"
proof -
  have la: "length (t_array t) \<le> 2 ^ 26" using ok by (simp add: table_ok_def MAXASIZE_def MAXBITS_def)
  have h: "(\<exists>k0. (k0, v) \<in> set (hash_pairs (t_node t)) \<and> luaO_rawequalObj k0 k) \<longleftrightarrow> hash_get (rev (t_node t)) k = Some v"
    unfolding hash_get_Some [OF table_nodes_ok [OF ok] k] by (auto simp: hash_pairs_in)
  have q: "luaO_rawequalObj (NumKey (num_of_int (int j + 1))) k \<longleftrightarrow> arrayindex k = int j + 1" if "j < length (t_array t)" for j
    using keq_num_of_int [of "int j + 1" k] keq_sym [of k] keq_sym [of _ k] that la by auto
  have "(\<exists>k0. (k0, v) \<in> set (array_pairs 0 (t_array t)) \<and> luaO_rawequalObj k0 k) \<longleftrightarrow>
      (\<exists>j<length (t_array t). luaO_rawequalObj (NumKey (num_of_int (int j + 1))) k \<and> t_array t ! j = Some v)"
    by (auto simp: array_pairs_in)
  also have "\<dots> \<longleftrightarrow> (\<exists>j<length (t_array t). arrayindex k = int j + 1 \<and> t_array t ! j = Some v)" using q by blast
  also have "\<dots> \<longleftrightarrow> arr_get 1 (t_array t) k = Some v"
    unfolding arr_get_def by (auto intro!: exI [of _ "nat (arrayindex k - 1)"])
  finally have a: "(\<exists>k0. (k0, v) \<in> set (array_pairs 0 (t_array t)) \<and> luaO_rawequalObj k0 k) \<longleftrightarrow> arr_get 1 (t_array t) k = Some v" .
  have "hash_get (rev (t_node t)) k = None \<or> arr_get 1 (t_array t) k = None"
  proof (rule ccontr)
    assume n: "\<not> ?thesis"
    then have "in_array t k" by (auto simp: arr_get_def in_array_def split: if_splits)
    moreover obtain w where "hash_get (rev (t_node t)) k = Some w" using n by auto
    then obtain i where i: "i < nnodes t" "valof t i = Some w" "luaO_rawequalObj (keyof t i) k"
      unfolding hash_get_Some [OF table_nodes_ok [OF ok] k] by (auto simp: in_set_conv_nth)
    moreover have "\<not> in_array t (keyof t i)" using ok i by (auto simp: table_ok_def)
    ultimately show False using arrayindex_cong [OF i(3)] by (simp add: in_array_def)
  qed
  then have "tget t k = Some v \<longleftrightarrow> hash_get (rev (t_node t)) k = Some v \<or> arr_get 1 (t_array t) k = Some v"
    unfolding tget_nodes [OF ok k] by (auto simp: or_else_def split: option.splits)
  then show ?thesis using h a by (auto simp: pairs_def)
qed

end
