(* ===== verification/Lua_Table_Spec.thy ===== *)
theory Lua_Table_Spec
  imports Lua_Table_Main
begin

text \<open>
  What the tables of Lua promise their users.  The locale \<open>key_store\<close> is the interface that the rest of Lua relies on (a store that returns the value
  written last for a key equal to the one asked for), with its consequences for sequences of assignments; it is interpreted on the operations of \<^verbatim>\<open>ltable.c\<close>.
\<close>

subsection \<open>The interface\<close>

locale key_store =
  fixes ok :: "'t \<Rightarrow> bool" and get :: "'t \<Rightarrow> TKey \<Rightarrow> 'v option" and assign :: "'t \<Rightarrow> TKey \<Rightarrow> 'v option \<Rightarrow> 't lua_run"
    and entries_of :: "'t \<Rightarrow> nat" and capacity :: nat
  assumes assign_returns: "ok t \<Longrightarrow> valid_key k \<Longrightarrow> assign t k v \<noteq> None"
    and assign_ok: "ok t \<Longrightarrow> valid_key k \<Longrightarrow> assign t k v = Some (Inr t') \<Longrightarrow> ok t'"
    and get_assign: "ok t \<Longrightarrow> valid_key k \<Longrightarrow> assign t k v = Some (Inr t') \<Longrightarrow> get t' k' = (if luaO_rawequalObj k' k then v else get t k')"
    and assign_grows: "ok t \<Longrightarrow> valid_key k \<Longrightarrow> assign t k v = Some (Inr t') \<Longrightarrow> entries_of t' \<le> entries_of t + 1"
    and assign_succeeds: "ok t \<Longrightarrow> valid_key k \<Longrightarrow> entries_of t < capacity \<Longrightarrow> \<exists>t'. assign t k v = Some (Inr t')"

fun assign_all :: "('t \<Rightarrow> TKey \<Rightarrow> 'v option \<Rightarrow> 't lua_run) \<Rightarrow> 't \<Rightarrow> (TKey \<times> 'v option) list \<Rightarrow> 't lua_run" where
  "assign_all assign t [] = Some (Inr t)"
| "assign_all assign t ((k, v) # kvs) = rbind (assign t k v) (\<lambda>t. assign_all assign t kvs)"

text \<open>The value of the last pair whose key is \<open>k\<close>, or else \<open>d\<close>.\<close>

fun last_value :: "'v option \<Rightarrow> (TKey \<times> 'v option) list \<Rightarrow> TKey \<Rightarrow> 'v option" where
  "last_value d [] k = d"
| "last_value d ((k0, v) # kvs) k = last_value (if luaO_rawequalObj k k0 then v else d) kvs k"

context key_store begin

lemma assign_all_get:
  "ok t \<Longrightarrow> \<forall>(k, v)\<in>set kvs. valid_key k \<Longrightarrow> assign_all assign t kvs = Some (Inr t') \<Longrightarrow>
   ok t' \<and> get t' k' = last_value (get t k') kvs k'"
proof (induction kvs arbitrary: t)
  case (Cons kv kvs)
  obtain k v where kv: "kv = (k, v)" by (cases kv)
  from Cons.prems kv obtain t1 where t1: "assign t k v = Some (Inr t1)" "assign_all assign t1 kvs = Some (Inr t')"
    by (auto simp: rbind_def split: option.splits sum.splits)
  have "valid_key k" using Cons.prems kv by simp
  with Cons.IH [OF assign_ok [OF Cons.prems(1) this t1(1)] _ t1(2)] get_assign [OF Cons.prems(1) this t1(1)] Cons.prems(2) kv show ?case by simp
qed simp

lemma assign_all_succeeds:
  "ok t \<Longrightarrow> \<forall>(k, v)\<in>set kvs. valid_key k \<Longrightarrow> entries_of t + length kvs \<le> capacity \<Longrightarrow> \<exists>t'. assign_all assign t kvs = Some (Inr t')"
proof (induction kvs arbitrary: t)
  case (Cons kv kvs)
  obtain k v where kv: "kv = (k, v)" by (cases kv)
  have k: "valid_key k" using Cons.prems kv by simp
  obtain t1 where t1: "assign t k v = Some (Inr t1)" using assign_succeeds [OF Cons.prems(1) k, of v] Cons.prems(3) by auto
  have "entries_of t1 + length kvs \<le> capacity" using assign_grows [OF Cons.prems(1) k t1] Cons.prems(3) by simp
  with Cons.IH [OF assign_ok [OF Cons.prems(1) k t1]] Cons.prems(2) kv t1 show ?case by (simp add: rbind_def)
qed simp

end

subsection \<open>The interface provided\<close>

text \<open>An assignment as \<open>lua_rawset\<close> makes it: the value is stored through the pointer that \<open>luaH_set\<close> returns.\<close>

definition rawset :: "'v table \<Rightarrow> TKey \<Rightarrow> 'v option \<Rightarrow> 'v table lua_run" where
  "rawset t k v = rbind (luaH_set t k) (\<lambda>(p, t). Some (Inr (slot_set t p v)))"

lemma stored_tget: "table_ok t \<Longrightarrow> valid_key k \<Longrightarrow> stored t k v t' \<Longrightarrow> tget t' k' = (if luaO_rawequalObj k' k then v else tget t k')"
  using tget_invalid [of t k'] tget_invalid [of t' k'] keq_valid [of k' k] by (cases "valid_key k'") (auto simp: stored_def)

lemma rawset_cases:
  assumes "table_ok t" "valid_key k"
  shows "(\<exists>t'. rawset t k v = Some (Inr t') \<and> stored t k v t') \<or> rawset t k v = Some (Inl ''table overflow'') \<and> MAXASIZE \<le> size_of t"
  using set_sets [OF assms] by (auto simp: sets_def rawset_def rbind_def)

lemma length_pairs: "length (pairs t) = size_of t"
proof -
  have "length (array_pairs i vs) = live vs" for i vs by (induction i vs rule: array_pairs.induct) (simp_all add: live_def)
  moreover have "length (hash_pairs ns) = live_keys (\<lambda>k. True) ns" for ns :: "'a node list"
    by (induction ns) (auto simp: live_keys_def split: option.splits)
  ultimately show ?thesis by (simp add: pairs_def size_of_def)
qed

lemma pairs_valid: "table_ok t \<Longrightarrow> p \<in> set (pairs t) \<Longrightarrow> valid_key (fst p)"
proof -
  assume ok: "table_ok t" and p: "p \<in> set (pairs t)"
  then consider j where "j < length (t_array t)" "fst p = NumKey (num_of_int (int j + 1))" | i where "i < nnodes t" "keyof t i = fst p" "valof t i = Some (snd p)"
    unfolding pairs_def set_append Un_iff array_pairs_in hash_pairs_in by (auto simp: in_set_conv_nth)
  then show ?thesis
  proof cases
    case 1
    then show ?thesis using ok by (auto simp: table_ok_def MAXASIZE_def MAXBITS_def intro!: valid_num_of_int)
  next
    case 2
    then have "keyof t i \<noteq> NilKey" using ok by (auto simp: table_ok_def)
    then show ?thesis using scatter_key [OF table_scatter [OF ok] 2(1)] 2(2) by simp
  qed
qed

text \<open>No key occurs twice.\<close>

lemma array_pairs_sorted: "i + length vs < 2 ^ 31 \<Longrightarrow> sorted_wrt (\<lambda>a b. arrayindex (fst a) < arrayindex (fst b)) (array_pairs i vs)"
proof (induction i vs rule: array_pairs.induct)
  case (3 i v vs)
  have "arrayindex (NumKey (num_of_int (int i + 1))) < arrayindex (fst b)" if b: "b \<in> set (array_pairs (i + 1) vs)" for b
  proof -
    from b obtain j where j: "j < length vs" "fst b = NumKey (num_of_int (int (i + 1 + j) + 1))" by (auto simp: array_pairs_in)
    have "arrayindex (fst b) = int (i + 1 + j) + 1" unfolding j(2) using j(1) "3.prems" by (intro arrayindex_of_int) auto
    moreover have "arrayindex (NumKey (num_of_int (int i + 1))) = int i + 1" using "3.prems" by (intro arrayindex_of_int) auto
    ultimately show ?thesis by simp
  qed
  with 3 show ?case by (simp del: arrayindex.simps)
qed simp_all

lemma pairs_distinct: "table_ok t \<Longrightarrow> sorted_wrt (\<lambda>a b. \<not> luaO_rawequalObj (fst a) (fst b)) (pairs t)"
proof -
  assume ok: "table_ok t"
  have la: "length (t_array t) < 2 ^ 31" using ok by (simp add: table_ok_def MAXASIZE_def MAXBITS_def)
  have "sorted_wrt (\<lambda>a b. \<not> luaO_rawequalObj (fst a) (fst b)) (array_pairs 0 (t_array t))"
    by (rule sorted_wrt_mono_rel [OF _ array_pairs_sorted]) (use la arrayindex_cong in force)+
  moreover have "sorted_wrt (\<lambda>a b. \<not> luaO_rawequalObj (fst a) (fst b)) (hash_pairs ns)" if "nodes_ok (rev ns)" for ns :: "'a node list"
    using that by (induction ns) (auto simp: nodes_ok_def hash_pairs_in sorted_wrt_append split: option.splits, blast dest: keq_sym)
  moreover have "\<not> luaO_rawequalObj (fst a) (fst b)" if a: "a \<in> set (array_pairs 0 (t_array t))" and b: "b \<in> set (hash_pairs (t_node t))" for a b
  proof
    assume q: "luaO_rawequalObj (fst a) (fst b)"
    obtain j where j: "j < length (t_array t)" "fst a = NumKey (num_of_int (int j + 1))"
      using a unfolding array_pairs_in by auto
    have "arrayindex (fst a) = int j + 1" unfolding j(2) using j(1) la by (intro arrayindex_of_int) auto
    then have "in_array t (fst b)" using arrayindex_cong [OF q] j(1) by (simp add: in_array_def)
    moreover obtain i where "i < nnodes t" "keyof t i = fst b" "valof t i \<noteq> None"
      using b unfolding hash_pairs_in by (auto simp: in_set_conv_nth)
    ultimately show False using ok by (auto simp: table_ok_def)
  qed
  ultimately show ?thesis using table_nodes_ok [OF ok] by (auto simp: pairs_def sorted_wrt_append)
qed

lemma pairs_index:
  assumes "table_ok t" "i < size_of t" "j < size_of t" "luaO_rawequalObj (fst (pairs t ! i)) (fst (pairs t ! j))"
  shows "i = j"
proof -
  have "\<not> luaO_rawequalObj (fst (pairs t ! a)) (fst (pairs t ! b))" if "a < b" "b < size_of t" for a b
    using pairs_distinct [OF assms(1)] that unfolding sorted_wrt_iff_nth_less length_pairs by blast
  then show ?thesis using assms(2-4) keq_sym by (metis linorder_neqE_nat)
qed

text \<open>An assignment adds at most one entry.\<close>

lemma stored_size:
  assumes ok: "table_ok t" and k: "valid_key k" and s: "stored t k v t'"
  shows "size_of t' \<le> size_of t + 1"
proof -
  define P Q where "P = pairs t" and "Q = pairs t'"
  have ok': "table_ok t'" using s by (simp add: stored_def)
  have "\<exists>j \<le> size_of t. (if luaO_rawequalObj (fst (Q ! i)) k then j = size_of t else j < size_of t \<and> luaO_rawequalObj (fst (P ! j)) (fst (Q ! i)))"
    if i: "i < size_of t'" for i
  proof -
    have q: "Q ! i \<in> set Q" using i by (simp add: length_pairs Q_def)
    note vk = pairs_valid [OF ok' q [unfolded Q_def], folded Q_def]
    obtain k0 v0 where kv: "Q ! i = (k0, v0)" by (cases "Q ! i")
    have v0: "valid_key k0" using vk kv by simp
    have "(k0, v0) \<in> set (pairs t')" using q kv by (simp add: Q_def)
    then have "tget t' k0 = Some v0" using pairs_get [OF ok' v0] keq_refl [OF v0] by blast
    then have "\<exists>k1. (k1, v0) \<in> set P \<and> luaO_rawequalObj k1 k0" if "\<not> luaO_rawequalObj k0 k"
      using that stored_tget [OF ok k s, of k0] pairs_get [OF ok v0] by (simp add: P_def)
    then have "\<exists>j < size_of t. luaO_rawequalObj (fst (P ! j)) k0" if "\<not> luaO_rawequalObj k0 k"
      using that unfolding P_def in_set_conv_nth length_pairs by (metis fst_conv)
    then show ?thesis by (auto simp: kv intro: less_imp_le)
  qed
  then obtain f where f: "\<And>i. i < size_of t' \<Longrightarrow> f i \<le> size_of t \<and> (if luaO_rawequalObj (fst (Q ! i)) k then f i = size_of t
      else f i < size_of t \<and> luaO_rawequalObj (fst (P ! f i)) (fst (Q ! i)))" by metis
  have "inj_on f {..<size_of t'}"
  proof (rule inj_onI)
    fix i j assume i: "i \<in> {..<size_of t'}" and j: "j \<in> {..<size_of t'}" and e: "f i = f j"
    have "luaO_rawequalObj (fst (Q ! i)) (fst (Q ! j))"
    proof (cases "f i = size_of t")
      case True
      then have "luaO_rawequalObj (fst (Q ! i)) k" "luaO_rawequalObj (fst (Q ! j)) k" using f [of i] f [of j] i j e by (auto split: if_splits)
      then show ?thesis by (rule keq_trans [OF _ keq_sym])
    next
      case False
      then have "luaO_rawequalObj (fst (P ! f i)) (fst (Q ! i))" "luaO_rawequalObj (fst (P ! f i)) (fst (Q ! j))" using f [of i] f [of j] i j e by (auto split: if_splits)
      then show ?thesis by (rule keq_trans [OF keq_sym])
    qed
    then show "i = j" using pairs_index [OF ok'] i j by (simp add: Q_def)
  qed
  moreover have "f ` {..<size_of t'} \<subseteq> {..size_of t}" using f by auto
  ultimately have "card {..<size_of t'} \<le> card {..size_of t}" by (intro card_inj_on_le) auto
  then show ?thesis by simp
qed

interpretation lua_table: key_store table_ok tget rawset size_of MAXASIZE
proof
  fix t t' :: "'v table" and k k' v
  assume t: "table_ok t" and k: "valid_key k"
  show "rawset t k v \<noteq> None" using rawset_cases [OF t k, of v] by auto
  show "\<exists>t'. rawset t k v = Some (Inr t')" if "size_of t < MAXASIZE" using rawset_cases [OF t k, of v] that by auto
  assume r: "rawset t k v = Some (Inr t')"
  then have s: "stored t k v t'" using rawset_cases [OF t k, of v] by auto
  show "table_ok t'" using s by (simp add: stored_def)
  show "tget t' k' = (if luaO_rawequalObj k' k then v else tget t k')" by (rule stored_tget [OF t k s])
  show "size_of t' \<le> size_of t + 1" by (rule stored_size [OF t k s])
qed

subsection \<open>New tables\<close>

lemma new_ok:
  assumes "na \<le> MAXASIZE" "nh \<le> MAXASIZE"
  shows "\<exists>t :: 'v table. luaH_new na nh = Some (Inr t) \<and> table_ok t \<and> (\<forall>k. tget t k = None)"
proof -
  define t0 :: "'v table" where "t0 = setarrayvector na \<lparr>t_array = [], t_node = [dummynode], t_dummy = True, lsizenode = 0, lastfree = 0, t_flags = 255\<rparr>"
  have a: "t_array t0 = replicate na None" by (simp add: t0_def setarrayvector_def)
  obtain t where t: "setnodevector nh t0 = Some (Inr t)" "t_array t = replicate na None" "t_node t = replicate (2 ^ lsizenode t) dummynode" "lsizenode t \<le> MAXBITS"
    "if t_dummy t then lsizenode t = 0 \<and> lastfree t = 0 else lastfree t = 2 ^ lsizenode t"
    using setnodevector_ok [OF assms(2), of t0] a assms(1) by auto
  have l: "length (t_array t) \<le> MAXASIZE" using t(2) assms(1) by simp
  note f = fresh_table [OF t(3,4) l t(5)]
  have "tget t k = None" for k
  proof (cases "valid_key k")
    case True
    then show ?thesis using f(3) [OF True] t(2) arr_get_append_None [of 1 "[]" na k] by simp
  next
    case False
    then show ?thesis by (rule tget_invalid [OF f(1)])
  qed
  then show ?thesis using t(1) f(1) by (auto simp: luaH_new_def t0_def)
qed

subsection \<open>The number of indices in use\<close>

definition in_use :: "'v table \<Rightarrow> TKey \<Rightarrow> nat \<Rightarrow> nat set" where
  "in_use t k n = {m. 0 < m \<and> m \<le> n \<and> (has_index t m \<or> int m = arrayindex k)}"

lemma live_card: "live xs = card {i. i < length xs \<and> xs ! i \<noteq> None}"
  by (simp add: live_def length_filter_conv_card)

lemma index_of_key: "0 < m \<Longrightarrow> m \<le> MAXASIZE \<Longrightarrow> arrayindex (NumKey (num_of_int (int m))) = int m \<and> valid_key (NumKey (num_of_int (int m)))"
  by (intro conjI arrayindex_of_int valid_num_of_int) (simp_all add: MAXASIZE_def MAXBITS_def)

lemma indices_in_use:
  assumes ok: "table_ok t" and k: "tget t k = None" "valid_key k" and n: "n \<le> MAXASIZE"
  shows "indices t k n = card (in_use t k n)"
proof -
  let ?a = "t_array t"
  let ?A = "{i. i < length (take n ?a) \<and> take n ?a ! i \<noteq> None}"
  let ?H = "{i. i < nnodes t \<and> valof t i \<noteq> None \<and> index_upto n (keyof t i)}"
  let ?K = "if index_upto n k then {nat (arrayindex k)} else {}"
  let ?f = "\<lambda>i. nat (arrayindex (keyof t i))"
  have key: "valid_key (keyof t i)" "\<not> in_array t (keyof t i)" if "i < nnodes t" "valof t i \<noteq> None" for i
  proof -
    have nk: "keyof t i \<noteq> NilKey" using ok that by (auto simp: table_ok_def)
    then show "valid_key (keyof t i)" using scatter_key [OF table_scatter [OF ok] that(1)] by simp
    show "\<not> in_array t (keyof t i)" using nk ok that by (auto simp: table_ok_def)
  qed
  have H: "i \<in> ?H \<Longrightarrow> ?f i \<le> n \<and> length ?a < ?f i \<and> has_index t (?f i)" for i
  proof -
    assume i: "i \<in> ?H"
    then have x: "0 < ?f i" "int (?f i) = arrayindex (keyof t i)" "?f i \<le> n" by (auto simp: index_upto_def)
    have "\<not> in_array t (keyof t i)" using key(2) i by blast
    then have l: "length ?a < ?f i" using x by (simp add: in_array_def)
    let ?m = "NumKey (num_of_int (int (?f i)))"
    note ix = index_of_key [OF x(1) order_trans [OF x(3) n]]
    have q: "luaO_rawequalObj (keyof t i) ?m" by (rule arrayindex_inj) (use x ix in auto)
    have "\<not> in_array t ?m" using l unfolding in_array_def conjunct1 [OF ix] of_nat_le_iff by linarith
    then have "tget t ?m \<noteq> None" using tget_hash [OF ok conjunct2 [OF ix]] q i unfolding entries_def by blast
    then show ?thesis using x l by (simp add: has_index_def)
  qed
  have inj: "inj_on ?f ?H"
  proof (rule inj_onI)
    fix i j assume i: "i \<in> ?H" and j: "j \<in> ?H" and e: "?f i = ?f j"
    have "luaO_rawequalObj (keyof t i) (keyof t j)" by (rule arrayindex_inj) (use i j e in \<open>auto simp: index_upto_def\<close>)
    with key_unique [OF ok key(1), of j i j] i j keq_refl [OF key(1)] show "i = j" by auto
  qed
  have K: "m \<notin> Suc ` ?A \<and> m \<notin> ?f ` ?H" if "m \<in> ?K" for m
  proof -
    from that have m: "0 < arrayindex k" "m = nat (arrayindex k)" "0 < m" "m \<le> n" by (auto simp: index_upto_def split: if_splits)
    note ix = index_of_key [OF m(3) order_trans [OF m(4) n]]
    have "luaO_rawequalObj k (NumKey (num_of_int (int m)))" by (rule arrayindex_inj) (use m ix in auto)
    from tget_cong [OF ok k(2) conjunct2 [OF ix] this] have no: "\<not> has_index t m" using k(1) by (simp add: has_index_def)
    have "m \<notin> Suc ` ?A" using no has_index_array [OF ok, of m] by auto
    then show ?thesis using no H by auto
  qed
  have "in_use t k n = Suc ` ?A \<union> ?f ` ?H \<union> ?K"
  proof (intro set_eqI iffI)
    fix m assume m: "m \<in> in_use t k n"
    then have r: "0 < m" "m \<le> n" by (auto simp: in_use_def)
    note ix = index_of_key [OF r(1) order_trans [OF r(2) n]]
    consider "int m = arrayindex k" | "has_index t m" "m \<le> length ?a" | "has_index t m" "length ?a < m" using m unfolding in_use_def by (cases "m \<le> length ?a") auto
    then show "m \<in> Suc ` ?A \<union> ?f ` ?H \<union> ?K"
    proof cases
      case 1
      then show ?thesis using r by (auto simp: index_upto_def)
    next
      case 2
      then have "m - 1 \<in> ?A" using has_index_array [OF ok r(1)] r by auto
      then have "Suc (m - 1) \<in> Suc ` ?A" by (rule imageI)
      then show ?thesis using r(1) by simp
    next
      case 3
      have "\<not> in_array t (NumKey (num_of_int (int m)))" using 3 unfolding in_array_def conjunct1 [OF ix] by simp
      with 3(1) obtain k0 v where "(k0, v) \<in> entries t" "luaO_rawequalObj k0 (NumKey (num_of_int (int m)))"
        using tget_hash [OF ok conjunct2 [OF ix]] unfolding has_index_def by blast
      then obtain i where i: "i < nnodes t" "valof t i \<noteq> None" "arrayindex (keyof t i) = int m"
        using arrayindex_cong ix unfolding entries_def by fastforce
      then have "i \<in> ?H" "?f i = m" using r by (auto simp: index_upto_def)
      then show ?thesis by blast
    qed
  next
    fix m assume "m \<in> Suc ` ?A \<union> ?f ` ?H \<union> ?K"
    then consider (a) i where "m = Suc i" "i \<in> ?A" | (h) i where "m = ?f i" "i \<in> ?H" | (k) "m \<in> ?K" by blast
    then show "m \<in> in_use t k n"
    proof cases
      case a
      then show ?thesis using has_index_array [OF ok, of m] by (auto simp: in_use_def)
    next
      case h
      then show ?thesis using H [OF h(2)] by (auto simp: in_use_def)
    next
      case k
      then show ?thesis by (auto simp: in_use_def index_upto_def split: if_splits)
    qed
  qed
  moreover have "Suc ` ?A \<inter> ?f ` ?H = {}" using H by fastforce
  moreover have "finite ?A" "finite ?H" "finite ?K" by auto
  ultimately have "card (in_use t k n) = card ?A + card ?H + card ?K"
    using K inj by (subst card_Un_disjoint | auto simp: card_image)+
  then show ?thesis unfolding indices_def live_card live_keys_def length_filter_conv_card by (simp add: conj_assoc)
qed

lemma in_use_le: "card (in_use t k n) \<le> n"
proof -
  have "card (in_use t k n) \<le> card {1..n}" by (rule card_mono) (auto simp: in_use_def)
  then show ?thesis by simp
qed

subsection \<open>Properties\<close>

text \<open>A table with values at 1 and 3, for the witnesses.\<close>

definition sample :: "nat table" where
  "sample = \<lparr>t_array = [Some 10, None, Some 30], t_node = replicate (2 ^ 1) dummynode, t_dummy = False, lsizenode = 1, lastfree = 2, t_flags = 0\<rparr>"

lemma sample_ok: "table_ok sample" "size_of sample = 2"
  by (rule fresh_table(1)) (simp_all add: sample_def MAXBITS_def MAXASIZE_def size_of_def live_def live_keys_def dummynode_def)

lemma string_key [simp]: "valid_key (StrKey s)" "arrayindex (StrKey s) = - 1"
  by (simp_all add: valid_key_def)

lemma set_refuses:
  assumes "table_ok t" "\<not> valid_key k"
  shows "luaH_set t k = Some (Inl (if k = NilKey then ''table index is nil'' else ''table index is NaN'')) \<and> rawget t k = Some None"
proof -
  have "luaH_get t k = Some NilObject" using luaH_get_locate [OF assms(1), of k] locate_invalid [OF assms] by simp
  moreover have "k = NilKey \<or> (\<exists>n. k = NumKey n \<and> luai_numisnan n)" using assms(2) by (auto simp: valid_key_def split: TKey.splits)
  ultimately show ?thesis by (auto simp: luaH_set_def luaH_set_with_def rawget_def)
qed

text \<open>C27: Setting any key of a table always returns, whatever collisions, moves and rehashing it takes: either the table is full, or the pointer that it returns holds the
  present value of the key, a value stored there is read back from every key equal to the given one, every other key reads what it read before, and the invariant of the table is kept.\<close>

theorem luaH_set_stores:
  assumes "table_ok t" "valid_key k"
  shows "(\<exists>p t'. luaH_set t k = Some (Inr (p, t')) \<and> rawget t k = Some (slot_get t' p) \<and>
      (\<forall>v. table_ok (slot_set t' p v) \<and> (\<forall>k'. rawget (slot_set t' p v) k' = (if luaO_rawequalObj k' k then Some v else rawget t k')))) \<or>
    luaH_set t k = Some (Inl ''table overflow'') \<and> MAXASIZE \<le> size_of t"
proof -
  have "table_ok t' \<and> (\<forall>k'. rawget t' k' = (if luaO_rawequalObj k' k then Some v else rawget t k'))" if "stored t k v t'" for t' v
    using that stored_tget [OF assms that] assms(1) by (simp add: rawget_tget stored_def)
  note st = this
  from set_sets [OF assms] consider "luaH_set t k = Some (Inl ''table overflow'') \<and> MAXASIZE \<le> size_of t"
    | p t' where "luaH_set t k = Some (Inr (p, t'))" "slot_get t' p = tget t k" "\<And>v. stored t k v (slot_set t' p v)"
    unfolding sets_def by blast
  then show ?thesis
  proof cases
    case 2
    then have "rawget t k = Some (slot_get t' p)" by (simp add: rawget_tget assms(1))
    with 2 st show ?thesis by blast
  qed blast
qed

theorem luaH_set_stores_witness:
  "\<exists>p t'. luaH_set sample (StrKey ''x'') = Some (Inr (p, t')) \<and> rawget (slot_set t' p (Some 7)) (StrKey ''x'') = Some (Some 7) \<and>
     rawget (slot_set t' p (Some 7)) (StrKey ''y'') = rawget sample (StrKey ''y'')"
  using luaH_set_stores [OF sample_ok(1) string_key(1), of "''x''"] sample_ok(2) by (auto simp: MAXASIZE_def MAXBITS_def)

text \<open>C31: A table made for any sizes and filled with fewer than \<open>2 ^ 26\<close> pairs, in any order and with repeated or removed keys, takes them all, and every key then
  reads the value of the last pair with that key, or nil.\<close>

theorem table_of_pairs:
  assumes "na \<le> MAXASIZE" "nh \<le> MAXASIZE" "\<forall>(k, v)\<in>set kvs. valid_key k" "length kvs \<le> MAXASIZE"
  shows "\<exists>(t :: 'v table) t'. luaH_new na nh = Some (Inr t) \<and> assign_all rawset t kvs = Some (Inr t') \<and> (\<forall>k. rawget t' k = Some (last_value None kvs k))"
proof -
  obtain t :: "'v table" where t: "luaH_new na nh = Some (Inr t)" "table_ok t" "\<And>k. tget t k = None" using new_ok [OF assms(1,2)] by blast
  have "size_of t = 0"
  proof (rule ccontr)
    assume "size_of t \<noteq> 0"
    then obtain p where p: "p \<in> set (pairs t)" using length_pairs [of t] by (cases "pairs t") auto
    note v = pairs_valid [OF t(2) p]
    have "tget t (fst p) = Some (snd p)" using pairs_get [OF t(2) v] p keq_refl [OF v] by (metis prod.collapse)
    then show False using t(3) by simp
  qed
  then obtain t' where t': "assign_all rawset t kvs = Some (Inr t')"
    using lua_table.assign_all_succeeds [OF t(2) assms(3)] assms(4) by auto
  have "table_ok t' \<and> tget t' k = last_value None kvs k" for k
    using lua_table.assign_all_get [OF t(2) assms(3) t', of k] t(3) by simp
  then show ?thesis using t(1) t' by (auto simp: rawget_tget)
qed

theorem table_of_pairs_witness:
  "\<exists>(t :: nat table) t'. luaH_new 0 0 = Some (Inr t) \<and> assign_all rawset t [(StrKey ''x'', Some 1), (NumKey (num_of_int 1), Some 2), (StrKey ''x'', None)] = Some (Inr t') \<and>
     rawget t' (StrKey ''x'') = Some None \<and> rawget t' (NumKey (num_of_int 1)) = Some (Some 2)"
  using table_of_pairs [of 0 0 "[(StrKey ''x'', Some 1), (NumKey (num_of_int 1), Some (2 :: nat)), (StrKey ''x'', None)]"]
    valid_num_of_int [of 1] numeq_refl [of "num_of_int 1"] num_of_int(2) [of 1]
  by (fastforce simp: MAXASIZE_def MAXBITS_def)

text \<open>A table never takes nil or a NaN as a key: setting such a key raises the error with the right message, and reading it gives nil.\<close>

theorem luaH_set_refuses:
  assumes "table_ok t" "\<not> valid_key k"
  shows "luaH_set t k = Some (Inl (if k = NilKey then ''table index is nil'' else ''table index is NaN'')) \<and> rawget t k = Some None"
  by (rule set_refuses [OF assms])

theorem luaH_set_refuses_witness: "luaH_set sample (NumKey 0x7FF8000000000000) = Some (Inl ''table index is NaN'')"
proof -
  have "\<not> valid_key (NumKey 0x7FF8000000000000)" by (simp add: valid_key_def luai_numisnan_def dbl_exponent_def dbl_mantissa_def)
  from luaH_set_refuses [OF sample_ok(1) this] show ?thesis by simp
qed

text \<open>C28: Going through a table with \<open>luaH_next\<close> from nil visits every pair exactly once and ends: each call gives the pair after the one whose key it got,
  the pairs are exactly the contents of the table, and no two have equal keys.\<close>

theorem luaH_next_visits:
  assumes "table_ok t"
  shows "luaH_next t NilKey = Some (Inr (if pairs t = [] then None else Some (pairs t ! 0))) \<and>
    (\<forall>i < length (pairs t). luaH_next t (fst (pairs t ! i)) = Some (Inr (if Suc i < length (pairs t) then Some (pairs t ! Suc i) else None)) \<and>
       rawget t (fst (pairs t ! i)) = Some (Some (snd (pairs t ! i))) \<and>
       (\<forall>j < length (pairs t). luaO_rawequalObj (fst (pairs t ! i)) (fst (pairs t ! j)) \<longrightarrow> i = j)) \<and>
    (\<forall>k v. rawget t k = Some (Some v) \<longrightarrow> (\<exists>i < length (pairs t). luaO_rawequalObj (fst (pairs t ! i)) k \<and> snd (pairs t ! i) = v))"
proof (intro conjI allI impI)
  have "luaH_next t NilKey = Some (Inr (case hd_opt (array_pairs 0 (t_array t)) of Some r \<Rightarrow> Some r | None \<Rightarrow> hd_opt (hash_pairs (t_node t))))"
    by (cases "hd_opt (array_pairs 0 (t_array t))") (simp_all add: luaH_next_def findindex_def rbind_def next_array_hd next_hash_hd)
  then show "luaH_next t NilKey = Some (Inr (if pairs t = [] then None else Some (pairs t ! 0)))"
    by (cases "array_pairs 0 (t_array t)"; cases "hash_pairs (t_node t)") (simp_all add: pairs_def hd_opt_def)
next
  fix i assume i: "i < length (pairs t)"
  have "pairs t = take i (pairs t) @ pairs t ! i # drop (Suc i) (pairs t)" using i by (rule id_take_nth_drop)
  from next_after [OF assms this] show "luaH_next t (fst (pairs t ! i)) = Some (Inr (if Suc i < length (pairs t) then Some (pairs t ! Suc i) else None))"
    by (cases "Suc i < length (pairs t)") (simp_all add: hd_opt_def Cons_nth_drop_Suc [symmetric])
  note v = pairs_valid [OF assms nth_mem [OF i]]
  have "tget t (fst (pairs t ! i)) = Some (snd (pairs t ! i))" using pairs_get [OF assms v] nth_mem [OF i] keq_refl [OF v] by (metis prod.collapse)
  then show "rawget t (fst (pairs t ! i)) = Some (Some (snd (pairs t ! i)))" by (simp add: rawget_tget assms)
  show "i = j" if "j < length (pairs t)" "luaO_rawequalObj (fst (pairs t ! i)) (fst (pairs t ! j))" for j
    using pairs_index [OF assms] i that by (simp add: length_pairs)
next
  fix k v assume r: "rawget t k = Some (Some v)"
  then have v: "valid_key k" using tget_invalid [OF assms, of k] by (auto simp: rawget_tget assms)
  have "tget t k = Some v" using r by (simp add: rawget_tget assms)
  then obtain k0 where "(k0, v) \<in> set (pairs t)" "luaO_rawequalObj k0 k" using pairs_get [OF assms v] by blast
  then show "\<exists>i < length (pairs t). luaO_rawequalObj (fst (pairs t ! i)) k \<and> snd (pairs t ! i) = v" by (metis fst_conv in_set_conv_nth snd_conv)
qed

theorem luaH_next_visits_witness: "luaH_next sample NilKey = Some (Inr (Some (NumKey (num_of_int 1), 10)))"
proof -
  have "pairs sample ! 0 = (NumKey (num_of_int 1), 10)" "pairs sample \<noteq> []" by (simp_all add: pairs_def sample_def)
  with luaH_next_visits [OF sample_ok(1)] show ?thesis by simp
qed

text \<open>C29: The length operator gives a boundary of the table, for every table: an index that holds a value (or 0) followed by one that does not; its searches terminate
  and their doubling of an \<open>unsigned int\<close> does not overflow.\<close>

theorem luaH_getn_boundary:
  assumes "table_ok t"
  shows "\<exists>n. luaH_getn t = Some (int n) \<and> (n = 0 \<or> rawget t (NumKey (num_of_int (int n))) \<noteq> Some None) \<and> rawget t (NumKey (num_of_int (int n + 1))) = Some None"
  using getn_boundary [OF assms] by (auto simp: boundary_def has_index_def rawget_tget assms add.commute)

theorem luaH_getn_boundary_witness:
  "\<exists>n. luaH_getn sample = Some (int n) \<and> (n = 0 \<or> rawget sample (NumKey (num_of_int (int n))) \<noteq> Some None) \<and> rawget sample (NumKey (num_of_int (int n + 1))) = Some None"
  by (rule luaH_getn_boundary [OF sample_ok(1)])

text \<open>With 2 as the only integer key, half of the first two indices are in use; the array part gets no room, and the key goes to the hash part.\<close>

lemma half_is_too_little: "computesizes (0 # 1 # replicate 25 0) 1 = (0, 0)"
  by (simp add: computesizes_def sizes_loop.simps)

text \<open>C30: \<open>rehash\<close> counts right and makes the array part as large as it may be: its new size is 0 or a power of 2 with more than half of the indices in use, no larger
  power of 2 has that, and the hash part gets room for exactly the other entries.  (The comment at the head of \<^verbatim>\<open>ltable.c\<close> says \<open>at least half\<close>; the
  lemma \<open>half_is_too_little\<close> has a case in which the two differ.)\<close>

theorem rehash_sizes_optimal:
  assumes "table_ok t" "valid_key k" "rawget t k = Some None" "rehash_sizes t k = (na, nh)"
  shows "(na = 0 \<or> (\<exists>j\<le>MAXBITS. na = 2 ^ j) \<and> na < 2 * card (in_use t k na)) \<and>
    (\<forall>j\<le>MAXBITS. 2 ^ j < 2 * card (in_use t k (2 ^ j)) \<longrightarrow> 2 ^ j \<le> na) \<and> nh = length (pairs t) + 1 - card (in_use t k na)"
proof -
  have k: "tget t k = None" using assms(1,3) by (simp add: rawget_tget)
  have arr: "length (t_array t) \<le> MAXASIZE" using assms(1) by (simp add: table_ok_def)
  note s = rehash_sizes_spec [OF arr assms(4)]
  note u = indices_in_use [OF assms(1) k assms(2)]
  have p: "(2 :: nat) ^ j \<le> MAXASIZE" if "j \<le> MAXBITS" for j unfolding MAXASIZE_def using that by (intro power_increasing) auto
  have "na \<le> MAXASIZE" using s(1) by blast
  moreover have "\<forall>j\<le>MAXBITS. indices t k (2 ^ j) \<le> 2 ^ j" using u p by (simp add: in_use_le)
  ultimately show ?thesis using s(2) s(3) s(4) u p by (simp add: length_pairs)
qed

theorem rehash_sizes_optimal_witness:
  "case rehash_sizes sample (StrKey ''x'') of (na, nh) \<Rightarrow> na = 0 \<or> (\<exists>j\<le>MAXBITS. na = 2 ^ j) \<and> na < 2 * card (in_use sample (StrKey ''x'') na)"
proof -
  obtain na nh where s: "rehash_sizes sample (StrKey ''x'') = (na, nh)" by fastforce
  have "tget sample (StrKey ''x'') = None"
    by (subst fresh_table(3)) (simp_all add: sample_def arr_get_def MAXBITS_def MAXASIZE_def)
  then have "rawget sample (StrKey ''x'') = Some None" by (simp add: rawget_tget sample_ok)
  from rehash_sizes_optimal [OF sample_ok(1) string_key(1) this s] show ?thesis by (simp add: s)
qed

end
