(* ===== verification/Lua_Code.thy ===== *)
theory Lua_Code
  imports Lua_Table_Spec Lua_Check
begin

text \<open>
  \<^verbatim>\<open>src/src/lcode.c\<close>: the code generator of Lua.  A function is generated in a state that holds the instructions so far (\<open>pc\<close> is their number),
  the constants with the table that finds them again, and the registers; operations on it raise an error, or do not return when a list of jumps is
  cyclic.  Jumps that wait for their target are linked through their own instructions.  An expression descriptor that the C code modifies through a
  pointer is returned.  The arithmetic of the C compiler and of \<^verbatim>\<open>libm\<close> on doubles is an argument.
\<close>

subsection \<open>State\<close>

definition NO_JUMP :: int where "NO_JUMP = - 1"

datatype BinOpr = OPR_ADD | OPR_SUB | OPR_MUL | OPR_DIV | OPR_MOD | OPR_POW | OPR_CONCAT | OPR_NE | OPR_EQ | OPR_LT | OPR_LE | OPR_GT | OPR_GE |
  OPR_AND | OPR_OR | OPR_NOBINOPR
datatype UnOpr = OPR_MINUS | OPR_NOT | OPR_LEN | OPR_NOUNOPR

datatype expkind = VVOID | VNIL | VTRUE | VFALSE | VK | VKNUM | VLOCAL | VUPVAL | VGLOBAL | VINDEXED | VJMP | VRELOCABLE | VNONRELOC | VCALL | VVARARG

record expdesc =
  ek :: expkind
  info :: int
  aux :: int
  nval :: "64 word"
  t_list :: int
  f_list :: int

text \<open>\<open>fs_h\<close> maps a constant to its index, a number; \<open>fs_addr\<close> is the address of that table, its own key for the constant nil.  Of the prototype there are the
  code, the lines, the constants and the size of the stack; \<open>lastline\<close> is the one of the lexical analyzer.\<close>

record FuncState =
  fs_code :: "Instruction list"
  fs_lineinfo :: "int list"
  fs_k :: "TConst list"
  fs_h :: "64 word table"
  fs_addr :: "64 word"
  fs_maxstack :: int
  lasttarget :: int
  jpc :: int
  freereg_of :: int
  nactvar :: int
  lastline :: int

definition pc_of :: "FuncState \<Rightarrow> int" where "pc_of fs = int (length (fs_code fs))"

text \<open>An error is reported by \<open>luaX_syntaxerror\<close>, which adds the chunk, the line and the current token of the analyzer, or by \<open>luaG_runerror\<close>, which
  adds nothing while C code runs.\<close>

datatype gen_error = SyntaxError string | RunError string

type_synonym 'a gen = "FuncState \<Rightarrow> (gen_error + 'a \<times> FuncState) option"

definition gret :: "'a \<Rightarrow> 'a gen" where "gret x fs = Some (Inr (x, fs))"
definition gbind :: "'a gen \<Rightarrow> ('a \<Rightarrow> 'b gen) \<Rightarrow> 'b gen" where
  "gbind m f fs = (case m fs of None \<Rightarrow> None | Some (Inl e) \<Rightarrow> Some (Inl e) | Some (Inr (x, fs)) \<Rightarrow> f x fs)"
definition gthen :: "'a gen \<Rightarrow> 'b gen \<Rightarrow> 'b gen" where "gthen m n = gbind m (\<lambda>_. n)"
definition gget :: "(FuncState \<Rightarrow> 'a) \<Rightarrow> 'a gen" where "gget f fs = Some (Inr (f fs, fs))"
definition gmod :: "(FuncState \<Rightarrow> FuncState) \<Rightarrow> unit gen" where "gmod f fs = Some (Inr ((), f fs))"

text \<open>The instruction at an address, and its replacement.\<close>

definition code_at :: "int \<Rightarrow> Instruction list \<Rightarrow> Instruction" where "code_at pc c = c ! nat pc"
definition set_code :: "int \<Rightarrow> Instruction \<Rightarrow> Instruction list \<Rightarrow> Instruction list" where "set_code pc i c = c[nat pc := i]"
definition gset :: "int \<Rightarrow> (Instruction \<Rightarrow> Instruction) \<Rightarrow> unit gen" where
  "gset pc f = gmod (\<lambda>fs. fs\<lparr>fs_code := set_code pc (f (code_at pc (fs_code fs))) (fs_code fs)\<rparr>)"

definition hasjumps :: "expdesc \<Rightarrow> bool" where "hasjumps e = (t_list e \<noteq> f_list e)"
definition isnumeral :: "expdesc \<Rightarrow> bool" where "isnumeral e = (ek e = VKNUM \<and> t_list e = NO_JUMP \<and> f_list e = NO_JUMP)"

subsection \<open>Lists of jumps\<close>

definition fixjump :: "int \<Rightarrow> int \<Rightarrow> Instruction list \<Rightarrow> gen_error + Instruction list" where
  "fixjump pc dest c = (let offset = dest - (pc + 1) in
     if \<bar>offset\<bar> > MAXARG_sBx then Inl (SyntaxError ''control structure too long'') else Inr (set_code pc (SETARG_sBx (code_at pc c) offset) c))"

definition getjump :: "Instruction list \<Rightarrow> int \<Rightarrow> int" where
  "getjump c pc = (let offset = GETARG_sBx (code_at pc c) in if offset = NO_JUMP then NO_JUMP else (pc + 1) + offset)"

text \<open>Whether an instruction is a test; a word that is no instruction, such as the operand word of a long \<open>OP_SETLIST\<close>, is looked up like one, and beyond
  the table (where C reads whatever follows it) the answer here is no.\<close>

definition tests :: "Instruction \<Rightarrow> bool" where
  "tests i = (case GET_OPCODE i of Some op \<Rightarrow> testTMode op | None \<Rightarrow> False)"

definition getjumpcontrol :: "Instruction list \<Rightarrow> int \<Rightarrow> int" where
  "getjumpcontrol c pc = (if pc \<ge> 1 \<and> tests (code_at (pc - 1) c) then pc - 1 else pc)"

partial_function (option) need_value :: "Instruction list \<Rightarrow> int \<Rightarrow> bool option" where
  "need_value c list =
     (if list = NO_JUMP then Some False
      else if GET_OPCODE (code_at (getjumpcontrol c list) c) \<noteq> Some OP_TESTSET then Some True
      else need_value c (getjump c list))"

declare need_value.simps [code]

definition patchtestreg :: "int \<Rightarrow> int \<Rightarrow> Instruction list \<Rightarrow> bool \<times> Instruction list" where
  "patchtestreg node reg c = (let p = getjumpcontrol c node; i = code_at p c in
     if GET_OPCODE i \<noteq> Some OP_TESTSET then (False, c)
     else if reg \<noteq> NO_REG \<and> reg \<noteq> GETARG_B i then (True, set_code p (SETARG_A i reg) c)
     else (True, set_code p (CREATE_ABC OP_TEST (GETARG_B i) 0 (GETARG_C i)) c))"

partial_function (option) removevalues :: "int \<Rightarrow> Instruction list \<Rightarrow> Instruction list option" where
  "removevalues list c =
     (if list = NO_JUMP then Some c
      else (let c = snd (patchtestreg list NO_REG c) in removevalues (getjump c list) c))"

declare removevalues.simps [code]

partial_function (option) patchlistaux :: "int \<Rightarrow> int \<Rightarrow> int \<Rightarrow> int \<Rightarrow> Instruction list \<Rightarrow> (gen_error + Instruction list) option" where
  "patchlistaux list vtarget reg dtarget c =
     (if list = NO_JUMP then Some (Inr c)
      else (let next = getjump c list in
        case patchtestreg list reg c of (v, c) \<Rightarrow>
          (case fixjump list (if v then vtarget else dtarget) c of
             Inl e \<Rightarrow> Some (Inl e)
           | Inr c \<Rightarrow> patchlistaux next vtarget reg dtarget c)))"

declare patchlistaux.simps [code]

text \<open>Operations on the code as operations on the state.\<close>

definition on_code :: "(Instruction list \<Rightarrow> (gen_error + Instruction list) option) \<Rightarrow> unit gen" where
  "on_code f fs = (case f (fs_code fs) of None \<Rightarrow> None | Some (Inl e) \<Rightarrow> Some (Inl e) | Some (Inr c) \<Rightarrow> Some (Inr ((), fs\<lparr>fs_code := c\<rparr>)))"

definition dischargejpc :: "unit gen" where
  "dischargejpc fs = gthen (on_code (patchlistaux (jpc fs) (pc_of fs) NO_REG (pc_of fs))) (gmod (\<lambda>fs. fs\<lparr>jpc := NO_JUMP\<rparr>)) fs"

definition luaK_getlabel :: "int gen" where
  "luaK_getlabel = gthen (gmod (\<lambda>fs. fs\<lparr>lasttarget := pc_of fs\<rparr>)) (gget pc_of)"

text \<open>The last element of a list.\<close>

partial_function (option) last_jump :: "Instruction list \<Rightarrow> int \<Rightarrow> int option" where
  "last_jump c list = (if getjump c list \<noteq> NO_JUMP then last_jump c (getjump c list) else Some list)"

declare last_jump.simps [code]

definition luaK_concat :: "int \<Rightarrow> int \<Rightarrow> int gen" where
  "luaK_concat l1 l2 = (if l2 = NO_JUMP then gret l1
     else if l1 = NO_JUMP then gret l2
     else gthen (on_code (\<lambda>c. case last_jump c l1 of None \<Rightarrow> None | Some list \<Rightarrow> Some (fixjump list l2 c))) (gret l1))"

definition luaK_patchtohere :: "int \<Rightarrow> unit gen" where
  "luaK_patchtohere list = gthen luaK_getlabel (gbind (gget jpc) (\<lambda>j. gbind (luaK_concat j list) (\<lambda>j. gmod (\<lambda>fs. fs\<lparr>jpc := j\<rparr>))))"

definition luaK_patchlist :: "int \<Rightarrow> int \<Rightarrow> unit gen" where
  "luaK_patchlist list target = gbind (gget pc_of) (\<lambda>pc. if target = pc then luaK_patchtohere list else on_code (patchlistaux list target NO_REG target))"

subsection \<open>Emitting instructions\<close>

text \<open>The vectors grow to at most the largest \<open>int\<close>.\<close>

definition luaK_code :: "Instruction \<Rightarrow> int \<Rightarrow> int gen" where
  "luaK_code i line = gthen dischargejpc (\<lambda>fs.
     if pc_of fs \<ge> MAX_INT then Some (Inl (RunError ''code size overflow''))
     else Some (Inr (pc_of fs, fs\<lparr>fs_code := fs_code fs @ [i], fs_lineinfo := fs_lineinfo fs @ [line]\<rparr>)))"

definition luaK_codeABC :: "OpCode \<Rightarrow> int \<Rightarrow> int \<Rightarrow> int \<Rightarrow> int gen" where
  "luaK_codeABC op a b c = gbind (gget lastline) (luaK_code (CREATE_ABC op a b c))"

definition luaK_codeABx :: "OpCode \<Rightarrow> int \<Rightarrow> int \<Rightarrow> int gen" where
  "luaK_codeABx op a bc = gbind (gget lastline) (luaK_code (CREATE_ABx op a bc))"

definition luaK_codeAsBx :: "OpCode \<Rightarrow> int \<Rightarrow> int \<Rightarrow> int gen" where
  "luaK_codeAsBx op a sbx = luaK_codeABx op a (sbx + MAXARG_sBx)"

definition luaK_fixline :: "int \<Rightarrow> unit gen" where
  "luaK_fixline line = gmod (\<lambda>fs. fs\<lparr>fs_lineinfo := (fs_lineinfo fs)[nat (pc_of fs - 1) := line]\<rparr>)"

text \<open>Whether setting \<open>n\<close> registers from \<open>from\<close> on to nil needs no instruction, and then the code that does it.\<close>

definition nil_merged :: "int \<Rightarrow> int \<Rightarrow> FuncState \<Rightarrow> Instruction list option" where
  "nil_merged from n fs = (
     if pc_of fs > lasttarget fs then
       (if pc_of fs = 0 then (if from \<ge> nactvar fs then Some (fs_code fs) else None)
        else let previous = code_at (pc_of fs - 1) (fs_code fs) in
          if GET_OPCODE previous = Some OP_LOADNIL then
            (let pfrom = GETARG_A previous; pto = GETARG_B previous in
             if pfrom \<le> from \<and> from \<le> pto + 1 then
               (if from + n - 1 > pto then Some (set_code (pc_of fs - 1) (SETARG_B previous (from + n - 1)) (fs_code fs)) else Some (fs_code fs))
             else None)
          else None)
     else None)"

definition luaK_nil :: "int \<Rightarrow> int \<Rightarrow> unit gen" where
  "luaK_nil from n = gbind (gget (nil_merged from n)) (\<lambda>r. case r of
     Some c \<Rightarrow> gmod (\<lambda>fs. fs\<lparr>fs_code := c\<rparr>)
   | None \<Rightarrow> gthen (luaK_codeABC OP_LOADNIL from (from + n - 1) 0) (gret ()))"

definition luaK_jump :: "int gen" where
  "luaK_jump = gbind (gget jpc) (\<lambda>j0. gthen (gmod (\<lambda>fs. fs\<lparr>jpc := NO_JUMP\<rparr>)) (gbind (luaK_codeAsBx OP_JMP 0 NO_JUMP) (\<lambda>j. luaK_concat j j0)))"

definition luaK_ret :: "int \<Rightarrow> int \<Rightarrow> unit gen" where
  "luaK_ret first nret = gthen (luaK_codeABC OP_RETURN first (nret + 1) 0) (gret ())"

definition condjump :: "OpCode \<Rightarrow> int \<Rightarrow> int \<Rightarrow> int \<Rightarrow> int gen" where
  "condjump op a b c = gthen (luaK_codeABC op a b c) luaK_jump"

definition LFIELDS_PER_FLUSH :: int where "LFIELDS_PER_FLUSH = 50"

definition luaK_setlist :: "int \<Rightarrow> int \<Rightarrow> int \<Rightarrow> unit gen" where
  "luaK_setlist base nelems tostore = (let
     c = (nelems - 1) div LFIELDS_PER_FLUSH + 1;
     b = (if tostore = LUA_MULTRET then 0 else tostore)
   in gthen (if c \<le> MAXARG_C then luaK_codeABC OP_SETLIST base b c
             else gthen (luaK_codeABC OP_SETLIST base b 0) (gbind (gget lastline) (luaK_code (of_int c))))
      (gmod (\<lambda>fs. fs\<lparr>freereg_of := base + 1\<rparr>)))"

subsection \<open>Registers\<close>

definition luaK_checkstack :: "int \<Rightarrow> unit gen" where
  "luaK_checkstack n fs = (let newstack = freereg_of fs + n in
     if newstack > fs_maxstack fs then
       (if newstack \<ge> MAXSTACK then Some (Inl (SyntaxError ''function or expression too complex'')) else Some (Inr ((), fs\<lparr>fs_maxstack := newstack\<rparr>)))
     else Some (Inr ((), fs)))"

definition luaK_reserveregs :: "int \<Rightarrow> unit gen" where
  "luaK_reserveregs n = gthen (luaK_checkstack n) (gmod (\<lambda>fs. fs\<lparr>freereg_of := freereg_of fs + n\<rparr>))"

definition freereg :: "int \<Rightarrow> unit gen" where
  "freereg reg = gmod (\<lambda>fs. if \<not> ISK reg \<and> reg \<ge> nactvar fs then fs\<lparr>freereg_of := freereg_of fs - 1\<rparr> else fs)"

definition freeexp :: "expdesc \<Rightarrow> unit gen" where
  "freeexp e = (if ek e = VNONRELOC then freereg (info e) else gret ())"

subsection \<open>Constants\<close>

definition addk :: "TKey \<Rightarrow> TConst \<Rightarrow> int gen" where
  "addk key v fs = (case luaH_set (fs_h fs) key of
     None \<Rightarrow> None
   | Some (Inl e) \<Rightarrow> Some (Inl (RunError e))
   | Some (Inr (idx, h)) \<Rightarrow>
       (case slot_get h idx of
          Some n \<Rightarrow> Some (Inr (lua_number2int n, fs\<lparr>fs_h := h\<rparr>))
        | None \<Rightarrow> (let nk = int (length (fs_k fs)) in
            if nk \<ge> MAXARG_Bx then Some (Inl (RunError ''constant table overflow''))
            else Some (Inr (nk, fs\<lparr>fs_h := slot_set h idx (Some (num_of_int nk)), fs_k := fs_k fs @ [v]\<rparr>)))))"

definition luaK_stringK :: "string \<Rightarrow> int gen" where
  "luaK_stringK s = addk (StrKey s) (KString (Some (map of_char s)))"

definition luaK_numberK :: "64 word \<Rightarrow> int gen" where
  "luaK_numberK r = addk (NumKey r) (KNumber r)"

definition boolK :: "bool \<Rightarrow> int gen" where
  "boolK b = addk (BoolKey b) (KBool b)"

definition nilK :: "int gen" where
  "nilK = gbind (gget fs_addr) (\<lambda>a. addk (ObjKey a) KNil)"

subsection \<open>Expressions\<close>

text \<open>Changes of a descriptor, and of the instruction that a descriptor stands for.\<close>

definition to_reg :: "int \<Rightarrow> expdesc \<Rightarrow> expdesc" where "to_reg r e = e\<lparr>info := r, ek := VNONRELOC\<rparr>"
definition to_pc :: "int \<Rightarrow> expdesc \<Rightarrow> expdesc" where "to_pc pc e = e\<lparr>info := pc, ek := VRELOCABLE\<rparr>"
definition getcode :: "expdesc \<Rightarrow> FuncState \<Rightarrow> Instruction" where "getcode e fs = code_at (info e) (fs_code fs)"

definition luaK_setreturns :: "expdesc \<Rightarrow> int \<Rightarrow> unit gen" where
  "luaK_setreturns e nresults = (case ek e of
     VCALL \<Rightarrow> gset (info e) (\<lambda>i. SETARG_C i (nresults + 1))
   | VVARARG \<Rightarrow> gthen (gset (info e) (\<lambda>i. SETARG_B i (nresults + 1)))
       (gbind (gget freereg_of) (\<lambda>r. gthen (gset (info e) (\<lambda>i. SETARG_A i r)) (luaK_reserveregs 1)))
   | _ \<Rightarrow> gret ())"

definition luaK_setmultret :: "expdesc \<Rightarrow> unit gen" where "luaK_setmultret e = luaK_setreturns e LUA_MULTRET"

definition luaK_setoneret :: "expdesc \<Rightarrow> expdesc gen" where
  "luaK_setoneret e = (case ek e of
     VCALL \<Rightarrow> gbind (gget (getcode e)) (\<lambda>i. gret (e\<lparr>ek := VNONRELOC, info := GETARG_A i\<rparr>))
   | VVARARG \<Rightarrow> gthen (gset (info e) (\<lambda>i. SETARG_B i 2)) (gret (e\<lparr>ek := VRELOCABLE\<rparr>))
   | _ \<Rightarrow> gret e)"

definition luaK_dischargevars :: "expdesc \<Rightarrow> expdesc gen" where
  "luaK_dischargevars e = (case ek e of
     VLOCAL \<Rightarrow> gret (e\<lparr>ek := VNONRELOC\<rparr>)
   | VUPVAL \<Rightarrow> gbind (luaK_codeABC OP_GETUPVAL 0 (info e) 0) (\<lambda>pc. gret (to_pc pc e))
   | VGLOBAL \<Rightarrow> gbind (luaK_codeABx OP_GETGLOBAL 0 (info e)) (\<lambda>pc. gret (to_pc pc e))
   | VINDEXED \<Rightarrow> gthen (freereg (aux e)) (gthen (freereg (info e))
       (gbind (luaK_codeABC OP_GETTABLE 0 (info e) (aux e)) (\<lambda>pc. gret (to_pc pc e))))
   | VVARARG \<Rightarrow> luaK_setoneret e
   | VCALL \<Rightarrow> luaK_setoneret e
   | _ \<Rightarrow> gret e)"

definition code_label :: "int \<Rightarrow> int \<Rightarrow> int \<Rightarrow> int gen" where
  "code_label a b jump = gthen luaK_getlabel (luaK_codeABC OP_LOADBOOL a b jump)"

definition discharge2reg :: "expdesc \<Rightarrow> int \<Rightarrow> expdesc gen" where
  "discharge2reg e reg = gbind (luaK_dischargevars e) (\<lambda>e. case ek e of
     VNIL \<Rightarrow> gthen (luaK_nil reg 1) (gret (to_reg reg e))
   | VFALSE \<Rightarrow> gthen (luaK_codeABC OP_LOADBOOL reg 0 0) (gret (to_reg reg e))
   | VTRUE \<Rightarrow> gthen (luaK_codeABC OP_LOADBOOL reg 1 0) (gret (to_reg reg e))
   | VK \<Rightarrow> gthen (luaK_codeABx OP_LOADK reg (info e)) (gret (to_reg reg e))
   | VKNUM \<Rightarrow> gbind (luaK_numberK (nval e)) (\<lambda>i. gthen (luaK_codeABx OP_LOADK reg i) (gret (to_reg reg e)))
   | VRELOCABLE \<Rightarrow> gthen (gset (info e) (\<lambda>i. SETARG_A i reg)) (gret (to_reg reg e))
   | VNONRELOC \<Rightarrow> gthen (if reg \<noteq> info e then gthen (luaK_codeABC OP_MOVE reg (info e) 0) (gret ()) else gret ()) (gret (to_reg reg e))
   | _ \<Rightarrow> gret e)"

definition discharge2anyreg :: "expdesc \<Rightarrow> expdesc gen" where
  "discharge2anyreg e = (if ek e \<noteq> VNONRELOC then gthen (luaK_reserveregs 1) (gbind (gget freereg_of) (\<lambda>r. discharge2reg e (r - 1))) else gret e)"

text \<open>The part of \<open>exp2reg\<close> for an expression with jumps: the instructions that load the value of a comparison, and the targets of the jumps.\<close>

definition final_jumps :: "expdesc \<Rightarrow> int \<Rightarrow> unit gen" where
  "final_jumps e reg = gbind (\<lambda>fs. case need_value (fs_code fs) (t_list e) of
         None \<Rightarrow> None
       | Some True \<Rightarrow> Some (Inr (True, fs))
       | Some False \<Rightarrow> (case need_value (fs_code fs) (f_list e) of None \<Rightarrow> None | Some b \<Rightarrow> Some (Inr (b, fs))))
     (\<lambda>need. gbind
       (if need then
          gbind (if ek e = VJMP then gret NO_JUMP else luaK_jump) (\<lambda>fj.
          gbind (code_label reg 0 1) (\<lambda>p_f. gbind (code_label reg 1 0) (\<lambda>p_t. gthen (luaK_patchtohere fj) (gret (p_f, p_t)))))
        else gret (NO_JUMP, NO_JUMP))
     (\<lambda>(p_f, p_t). gbind luaK_getlabel (\<lambda>final.
        gthen (on_code (patchlistaux (f_list e) final reg p_f)) (on_code (patchlistaux (t_list e) final reg p_t)))))"

definition exp2reg :: "expdesc \<Rightarrow> int \<Rightarrow> expdesc gen" where
  "exp2reg e reg = gbind (discharge2reg e reg) (\<lambda>e.
     gbind (if ek e = VJMP then gbind (luaK_concat (t_list e) (info e)) (\<lambda>l. gret (e\<lparr>t_list := l\<rparr>)) else gret e) (\<lambda>e.
     gthen (if hasjumps e then final_jumps e reg else gret ())
       (gret (e\<lparr>f_list := NO_JUMP, t_list := NO_JUMP, info := reg, ek := VNONRELOC\<rparr>))))"

definition luaK_exp2nextreg :: "expdesc \<Rightarrow> expdesc gen" where
  "luaK_exp2nextreg e = gbind (luaK_dischargevars e) (\<lambda>e. gthen (freeexp e) (gthen (luaK_reserveregs 1)
     (gbind (gget freereg_of) (\<lambda>r. exp2reg e (r - 1)))))"

text \<open>The functions that the C code declares to return a register return the descriptor, whose \<open>info\<close> is the register.\<close>

definition luaK_exp2anyreg :: "expdesc \<Rightarrow> expdesc gen" where
  "luaK_exp2anyreg e = gbind (luaK_dischargevars e) (\<lambda>e. gbind (gget nactvar) (\<lambda>na.
     if ek e = VNONRELOC \<and> \<not> hasjumps e then gret e
     else if ek e = VNONRELOC \<and> info e \<ge> na then exp2reg e (info e)
     else luaK_exp2nextreg e))"

definition luaK_exp2val :: "expdesc \<Rightarrow> expdesc gen" where
  "luaK_exp2val e = (if hasjumps e then luaK_exp2anyreg e else luaK_dischargevars e)"

text \<open>The operand, a register or a constant, with the descriptor.\<close>

definition luaK_exp2RK :: "expdesc \<Rightarrow> (int \<times> expdesc) gen" where
  "luaK_exp2RK e = gbind (luaK_exp2val e) (\<lambda>e. gbind (gget (\<lambda>fs. int (length (fs_k fs)))) (\<lambda>nk.
     if ek e \<in> {VKNUM, VTRUE, VFALSE, VNIL} \<and> nk \<le> MAXINDEXRK then
       gbind (if ek e = VNIL then nilK else if ek e = VKNUM then luaK_numberK (nval e) else boolK (ek e = VTRUE))
         (\<lambda>i. gret (RKASK i, e\<lparr>info := i, ek := VK\<rparr>))
     else if ek e = VK \<and> info e \<le> MAXINDEXRK then gret (RKASK (info e), e)
     else gbind (luaK_exp2anyreg e) (\<lambda>e. gret (info e, e))))"

definition luaK_storevar :: "expdesc \<Rightarrow> expdesc \<Rightarrow> expdesc gen" where
  "luaK_storevar var ex = (case ek var of
     VLOCAL \<Rightarrow> gthen (freeexp ex) (exp2reg ex (info var))
   | VUPVAL \<Rightarrow> gbind (luaK_exp2anyreg ex) (\<lambda>ex. gthen (luaK_codeABC OP_SETUPVAL (info ex) (info var) 0) (gthen (freeexp ex) (gret ex)))
   | VGLOBAL \<Rightarrow> gbind (luaK_exp2anyreg ex) (\<lambda>ex. gthen (luaK_codeABx OP_SETGLOBAL (info ex) (info var)) (gthen (freeexp ex) (gret ex)))
   | VINDEXED \<Rightarrow> gbind (luaK_exp2RK ex) (\<lambda>(e, ex). gthen (luaK_codeABC OP_SETTABLE (info var) (aux var) e) (gthen (freeexp ex) (gret ex)))
   | _ \<Rightarrow> gthen (freeexp ex) (gret ex))"

text \<open>The key is put into its register or constant while the arguments of the call that emits \<open>OP_SELF\<close> are evaluated; the other arguments do not change.\<close>

definition luaK_self :: "expdesc \<Rightarrow> expdesc \<Rightarrow> expdesc gen" where
  "luaK_self e key = gbind (luaK_exp2anyreg e) (\<lambda>e. gthen (freeexp e) (gbind (gget freereg_of) (\<lambda>func. gthen (luaK_reserveregs 2)
     (gbind (luaK_exp2RK key) (\<lambda>(c, key). gthen (luaK_codeABC OP_SELF func (info e) c) (gthen (freeexp key) (gret (to_reg func e))))))))"

definition luaK_indexed :: "expdesc \<Rightarrow> expdesc \<Rightarrow> expdesc gen" where
  "luaK_indexed t key = gbind (luaK_exp2RK key) (\<lambda>(a, key). gret (t\<lparr>aux := a, ek := VINDEXED\<rparr>))"

subsection \<open>Conditions\<close>

definition invertjump :: "expdesc \<Rightarrow> unit gen" where
  "invertjump e = gbind (gget (\<lambda>fs. getjumpcontrol (fs_code fs) (info e))) (\<lambda>pc. gset pc (\<lambda>i. SETARG_A i (if GETARG_A i = 0 then 1 else 0)))"

text \<open>The condition as 0 or 1; a preceding \<open>OP_NOT\<close> is taken back.\<close>

definition jumponcond :: "expdesc \<Rightarrow> int \<Rightarrow> int gen" where
  "jumponcond e cond = gbind (gget (getcode e)) (\<lambda>ie.
     if ek e = VRELOCABLE \<and> GET_OPCODE ie = Some OP_NOT then
       gthen (gmod (\<lambda>fs. fs\<lparr>fs_code := butlast (fs_code fs), fs_lineinfo := butlast (fs_lineinfo fs)\<rparr>))
         (condjump OP_TEST (GETARG_B ie) 0 (if cond = 0 then 1 else 0))
     else gbind (discharge2anyreg e) (\<lambda>e. gthen (freeexp e) (condjump OP_TESTSET NO_REG (info e) cond)))"

definition luaK_goiftrue :: "expdesc \<Rightarrow> expdesc gen" where
  "luaK_goiftrue e = gbind (luaK_dischargevars e) (\<lambda>e.
     gbind (case ek e of
         VK \<Rightarrow> gret NO_JUMP | VKNUM \<Rightarrow> gret NO_JUMP | VTRUE \<Rightarrow> gret NO_JUMP
       | VJMP \<Rightarrow> gthen (invertjump e) (gret (info e))
       | _ \<Rightarrow> jumponcond e 0)
     (\<lambda>pc. gbind (luaK_concat (f_list e) pc) (\<lambda>l. gthen (luaK_patchtohere (t_list e)) (gret (e\<lparr>f_list := l, t_list := NO_JUMP\<rparr>)))))"

definition luaK_goiffalse :: "expdesc \<Rightarrow> expdesc gen" where
  "luaK_goiffalse e = gbind (luaK_dischargevars e) (\<lambda>e.
     gbind (case ek e of
         VNIL \<Rightarrow> gret NO_JUMP | VFALSE \<Rightarrow> gret NO_JUMP
       | VJMP \<Rightarrow> gret (info e)
       | _ \<Rightarrow> jumponcond e 1)
     (\<lambda>pc. gbind (luaK_concat (t_list e) pc) (\<lambda>l. gthen (luaK_patchtohere (f_list e)) (gret (e\<lparr>t_list := l, f_list := NO_JUMP\<rparr>)))))"

definition codenot :: "expdesc \<Rightarrow> expdesc gen" where
  "codenot e = gbind (luaK_dischargevars e) (\<lambda>e.
     gbind (case ek e of
         VNIL \<Rightarrow> gret (e\<lparr>ek := VTRUE\<rparr>) | VFALSE \<Rightarrow> gret (e\<lparr>ek := VTRUE\<rparr>)
       | VK \<Rightarrow> gret (e\<lparr>ek := VFALSE\<rparr>) | VKNUM \<Rightarrow> gret (e\<lparr>ek := VFALSE\<rparr>) | VTRUE \<Rightarrow> gret (e\<lparr>ek := VFALSE\<rparr>)
       | VJMP \<Rightarrow> gthen (invertjump e) (gret e)
       | VRELOCABLE \<Rightarrow> gbind (discharge2anyreg e) (\<lambda>e. gthen (freeexp e) (gbind (luaK_codeABC OP_NOT 0 (info e) 0) (\<lambda>pc. gret (to_pc pc e))))
       | VNONRELOC \<Rightarrow> gbind (discharge2anyreg e) (\<lambda>e. gthen (freeexp e) (gbind (luaK_codeABC OP_NOT 0 (info e) 0) (\<lambda>pc. gret (to_pc pc e))))
       | _ \<Rightarrow> gret e)
     (\<lambda>e. let e = e\<lparr>f_list := t_list e, t_list := f_list e\<rparr> in
        gthen (on_code (\<lambda>c. map_option Inr (removevalues (f_list e) c)))
          (gthen (on_code (\<lambda>c. map_option Inr (removevalues (t_list e) c))) (gret e))))"

subsection \<open>Operators\<close>

type_synonym arithmetic = "OpCode \<Rightarrow> 64 word \<Rightarrow> 64 word \<Rightarrow> 64 word"

definition constfolding :: "arithmetic \<Rightarrow> OpCode \<Rightarrow> expdesc \<Rightarrow> expdesc \<Rightarrow> expdesc option" where
  "constfolding arith op e1 e2 = (
     if \<not> isnumeral e1 \<or> \<not> isnumeral e2 then None
     else if op \<in> {OP_DIV, OP_MOD} \<and> luai_numeq (nval e2) 0 then None
     else if op = OP_LEN then None
     else let r = (if op \<in> {OP_ADD, OP_SUB, OP_MUL, OP_DIV, OP_MOD, OP_POW, OP_UNM} then arith op (nval e1) (nval e2) else 0) in
       if luai_numisnan r then None else Some (e1\<lparr>nval := r\<rparr>))"

definition codearith :: "arithmetic \<Rightarrow> OpCode \<Rightarrow> expdesc \<Rightarrow> expdesc \<Rightarrow> expdesc gen" where
  "codearith arith op e1 e2 = (case constfolding arith op e1 e2 of
     Some e \<Rightarrow> gret e
   | None \<Rightarrow>
       gbind (if op \<noteq> OP_UNM \<and> op \<noteq> OP_LEN then luaK_exp2RK e2 else gret (0, e2)) (\<lambda>(o2, e2).
       gbind (luaK_exp2RK e1) (\<lambda>(o1, e1).
       gthen (if o1 > o2 then gthen (freeexp e1) (freeexp e2) else gthen (freeexp e2) (freeexp e1))
         (gbind (luaK_codeABC op 0 o1 o2) (\<lambda>pc. gret (to_pc pc e1))))))"

definition codecomp :: "OpCode \<Rightarrow> int \<Rightarrow> expdesc \<Rightarrow> expdesc \<Rightarrow> expdesc gen" where
  "codecomp op cond e1 e2 =
     gbind (luaK_exp2RK e1) (\<lambda>(o1, e1). gbind (luaK_exp2RK e2) (\<lambda>(o2, e2).
     gthen (freeexp e2) (gthen (freeexp e1)
       (gbind (if cond = 0 \<and> op \<noteq> OP_EQ then condjump op 1 o2 o1 else condjump op cond o1 o2)
         (\<lambda>pc. gret (e1\<lparr>info := pc, ek := VJMP\<rparr>))))))"

definition luaK_prefix :: "arithmetic \<Rightarrow> UnOpr \<Rightarrow> expdesc \<Rightarrow> expdesc gen" where
  "luaK_prefix arith op e = (let e2 = \<lparr>ek = VKNUM, info = 0, aux = 0, nval = 0, t_list = NO_JUMP, f_list = NO_JUMP\<rparr> in
     case op of
       OPR_MINUS \<Rightarrow> gbind (if isnumeral e then gret e else luaK_exp2anyreg e) (\<lambda>e. codearith arith OP_UNM e e2)
     | OPR_NOT \<Rightarrow> codenot e
     | OPR_LEN \<Rightarrow> gbind (luaK_exp2anyreg e) (\<lambda>e. codearith arith OP_LEN e e2)
     | OPR_NOUNOPR \<Rightarrow> gret e)"

definition luaK_infix :: "BinOpr \<Rightarrow> expdesc \<Rightarrow> expdesc gen" where
  "luaK_infix op v = (case op of
     OPR_AND \<Rightarrow> luaK_goiftrue v
   | OPR_OR \<Rightarrow> luaK_goiffalse v
   | OPR_CONCAT \<Rightarrow> luaK_exp2nextreg v
   | _ \<Rightarrow> if op \<in> {OPR_ADD, OPR_SUB, OPR_MUL, OPR_DIV, OPR_MOD, OPR_POW} \<and> isnumeral v then gret v
          else gbind (luaK_exp2RK v) (\<lambda>(r, v). gret v))"

definition posfix_concat :: "arithmetic \<Rightarrow> expdesc \<Rightarrow> expdesc \<Rightarrow> expdesc gen" where
  "posfix_concat arith e1 e2 = gbind (luaK_exp2val e2) (\<lambda>e2. gbind (gget (getcode e2)) (\<lambda>i.
     if ek e2 = VRELOCABLE \<and> GET_OPCODE i = Some OP_CONCAT then
       gthen (freeexp e1) (gthen (gset (info e2) (\<lambda>i. SETARG_B i (info e1))) (gret (e1\<lparr>ek := VRELOCABLE, info := info e2\<rparr>)))
     else gbind (luaK_exp2nextreg e2) (\<lambda>e2. codearith arith OP_CONCAT e1 e2)))"

definition luaK_posfix :: "arithmetic \<Rightarrow> BinOpr \<Rightarrow> expdesc \<Rightarrow> expdesc \<Rightarrow> expdesc gen" where
  "luaK_posfix arith op e1 e2 = (case op of
     OPR_AND \<Rightarrow> gbind (luaK_dischargevars e2) (\<lambda>e2. gbind (luaK_concat (f_list e2) (f_list e1)) (\<lambda>l. gret (e2\<lparr>f_list := l\<rparr>)))
   | OPR_OR \<Rightarrow> gbind (luaK_dischargevars e2) (\<lambda>e2. gbind (luaK_concat (t_list e2) (t_list e1)) (\<lambda>l. gret (e2\<lparr>t_list := l\<rparr>)))
   | OPR_CONCAT \<Rightarrow> posfix_concat arith e1 e2
   | OPR_ADD \<Rightarrow> codearith arith OP_ADD e1 e2
   | OPR_SUB \<Rightarrow> codearith arith OP_SUB e1 e2
   | OPR_MUL \<Rightarrow> codearith arith OP_MUL e1 e2
   | OPR_DIV \<Rightarrow> codearith arith OP_DIV e1 e2
   | OPR_MOD \<Rightarrow> codearith arith OP_MOD e1 e2
   | OPR_POW \<Rightarrow> codearith arith OP_POW e1 e2
   | OPR_EQ \<Rightarrow> codecomp OP_EQ 1 e1 e2
   | OPR_NE \<Rightarrow> codecomp OP_EQ 0 e1 e2
   | OPR_LT \<Rightarrow> codecomp OP_LT 1 e1 e2
   | OPR_LE \<Rightarrow> codecomp OP_LE 1 e1 e2
   | OPR_GT \<Rightarrow> codecomp OP_LT 0 e1 e2
   | OPR_GE \<Rightarrow> codecomp OP_LE 0 e1 e2
   | OPR_NOBINOPR \<Rightarrow> gret e1)"

end
