(* ===== verification/Lua_Jump.thy ===== *)
theory Lua_Jump
  imports Lua_Code
begin

text \<open>
  Lists of jumps: the instructions that wait for the same target are linked through their own offsets, so that the code generator needs no memory for them.
  Abstractly such a list is the list of the addresses; joining two lists appends them, and patching a list sends every jump to its target.
\<close>

subsection \<open>Instructions\<close>

lemma op_SETARG_sBx [simp]: "GET_OPCODE (SETARG_sBx i b) = GET_OPCODE i"
  using op_field.get_set_other [of POS_Bx SIZE_Bx] by (simp add: GET_OPCODE_def SETARG_sBx_def SETARG_Bx_def field_defs)

lemma op_SETARG_A [simp]: "GET_OPCODE (SETARG_A i b) = GET_OPCODE i"
  using op_field.get_set_other [of POS_A SIZE_A] by (simp add: GET_OPCODE_def SETARG_A_def field_defs)

lemma GETARG_bounds: "0 \<le> GETARG_A i" "GETARG_A i \<le> MAXARG_A" "0 \<le> GETARG_B i" "GETARG_B i \<le> MAXARG_B" "0 \<le> GETARG_C i" "GETARG_C i \<le> MAXARG_C"
  using A_field.get_bound [of i] B_field.get_bound [of i] C_field.get_bound [of i]
  by (simp_all add: GETARG_A_def GETARG_B_def GETARG_C_def MAXARG_A_def MAXARG_B_def MAXARG_C_def)

lemma op_TEST: "GET_OPCODE (CREATE_ABC OP_TEST (GETARG_B i) 0 (GETARG_C i)) = Some OP_TEST" if "GETARG_B i \<le> MAXARG_A"
  using CREATE_ABC_fields [of "GETARG_B i" 0 "GETARG_C i" OP_TEST] GETARG_bounds that by (simp add: MAXARG_B_def)

lemma code_at_set: "0 \<le> p \<Longrightarrow> 0 \<le> q \<Longrightarrow> q < int (length c) \<Longrightarrow> code_at p (set_code q i c) = (if p = q then i else code_at p c)"
  by (auto simp: code_at_def set_code_def nat_eq_iff)

lemma length_set_code [simp]: "length (set_code q i c) = length c"
  by (simp add: set_code_def)

lemma fixjump_cases:
  "fixjump p dest c = (if \<bar>dest - (p + 1)\<bar> > MAXARG_sBx then Inl (SyntaxError ''control structure too long'')
     else Inr (set_code p (SETARG_sBx (code_at p c) (dest - (p + 1))) c))"
  by (simp add: fixjump_def Let_def)

lemma getjump_fixed:
  assumes "\<bar>dest - (p + 1)\<bar> \<le> MAXARG_sBx" "code_at p c = SETARG_sBx i (dest - (p + 1))" "dest \<noteq> p"
  shows "getjump c p = dest"
  using SETARG_sBx_roundtrip [of "dest - (p + 1)" i] assms by (auto simp: getjump_def NO_JUMP_def)

subsection \<open>Lists\<close>

fun jump_list :: "Instruction list \<Rightarrow> int \<Rightarrow> int list \<Rightarrow> bool" where
  "jump_list c l [] \<longleftrightarrow> l = NO_JUMP"
| "jump_list c l (a # as) \<longleftrightarrow> l = a \<and> 0 \<le> a \<and> a < int (length c) \<and> GET_OPCODE (code_at a c) = Some OP_JMP \<and> jump_list c (getjump c a) as"

lemma jump_list_range: "jump_list c l as \<Longrightarrow> \<forall>a\<in>set as. 0 \<le> a \<and> a < int (length c) \<and> GET_OPCODE (code_at a c) = Some OP_JMP"
  by (induction as arbitrary: l) auto

lemma jump_list_unique: "jump_list c l as \<Longrightarrow> jump_list c l bs \<Longrightarrow> as = bs"
proof (induction as arbitrary: l bs)
  case Nil
  then show ?case by (cases bs) (auto simp: NO_JUMP_def)
next
  case (Cons a as)
  then show ?case by (cases bs) (auto simp: NO_JUMP_def)
qed

lemma jump_list_suffix: "jump_list c l (as @ a # bs) \<Longrightarrow> jump_list c a (a # bs)"
  by (induction as arbitrary: l) auto

lemma jump_list_distinct: "jump_list c l as \<Longrightarrow> distinct as"
proof (induction as arbitrary: l)
  case (Cons a as)
  have "a \<notin> set as"
  proof
    assume "a \<in> set as"
    then obtain xs ys where s: "as = xs @ a # ys" by (auto simp: in_set_conv_decomp)
    have "jump_list c a (a # as)" "jump_list c a (a # ys)" using Cons.prems jump_list_suffix [of c l "a # xs" a ys] s by auto
    from jump_list_unique [OF this] show False by (simp add: s)
  qed
  with Cons show ?case by auto
qed simp

text \<open>A list depends only on its own instructions.\<close>

lemma jump_list_cong:
  "jump_list c l as \<Longrightarrow> length c' = length c \<Longrightarrow> \<forall>a\<in>set as. code_at a c' = code_at a c \<Longrightarrow> jump_list c' l as"
  by (induction as arbitrary: l) (auto simp: getjump_def)

lemma jump_list_longer: "jump_list c l as \<Longrightarrow> jump_list (c @ is) l as"
proof (induction as arbitrary: l)
  case (Cons a as)
  then have "code_at a (c @ is) = code_at a c" by (simp add: code_at_def nth_append nat_less_iff)
  with Cons show ?case by (simp add: getjump_def)
qed simp

subsection \<open>Joining\<close>

lemma last_jump_spec: "jump_list c l as \<Longrightarrow> as \<noteq> [] \<Longrightarrow> last_jump c l = Some (last as)"
proof (induction as arbitrary: l)
  case (Cons a as)
  show ?case
  proof (cases as)
    case Nil
    with Cons.prems show ?thesis by (simp add: last_jump.simps [of c a])
  next
    case (Cons b bs)
    then have "getjump c a = b" "b \<noteq> NO_JUMP" using Cons.prems by (auto simp: NO_JUMP_def)
    with Cons Cons.prems Cons.IH [of b] show ?thesis by (simp add: last_jump.simps [of c a])
  qed
qed simp

lemma jump_list_append:
  assumes "jump_list c l (as @ [a])" and l2: "jump_list c' l2 bs"
    and c': "length c' = length c" "\<forall>p\<in>set as. code_at p c' = code_at p c" "GET_OPCODE (code_at a c') = Some OP_JMP" "getjump c' a = l2"
  shows "jump_list c' l (as @ a # bs)"
  using assms(1) c'(2)
proof (induction as arbitrary: l)
  case Nil
  with c' l2 show ?case by simp
next
  case (Cons b as)
  from Cons.prems have b: "l = b" "0 \<le> b" "b < int (length c)" "GET_OPCODE (code_at b c) = Some OP_JMP" "jump_list c (getjump c b) (as @ [a])"
    "code_at b c' = code_at b c" by auto
  have "jump_list c' (getjump c b) (as @ a # bs)" using Cons.prems(2) by (intro Cons.IH [OF b(5)]) simp
  moreover have "getjump c' b = getjump c b" by (simp add: getjump_def b(6))
  ultimately show ?case using b c'(1) by simp
qed

definition too_far :: "int \<Rightarrow> int \<Rightarrow> bool" where "too_far p dest \<longleftrightarrow> \<bar>dest - (p + 1)\<bar> > MAXARG_sBx"

lemma concat_spec:
  assumes l1: "jump_list (fs_code fs) l1 as" and l2: "jump_list (fs_code fs) l2 bs" and dj: "set as \<inter> set bs = {}"
  shows "(as \<noteq> [] \<and> bs \<noteq> [] \<and> too_far (last as) (hd bs) \<and> luaK_concat l1 l2 fs = Some (Inl (SyntaxError ''control structure too long''))) \<or>
    (\<exists>l c. luaK_concat l1 l2 fs = Some (Inr (l, fs\<lparr>fs_code := c\<rparr>)) \<and> length c = length (fs_code fs) \<and> jump_list c l (as @ bs) \<and>
       (\<forall>p. 0 \<le> p \<longrightarrow> as = [] \<or> p \<noteq> last as \<longrightarrow> code_at p c = code_at p (fs_code fs)) \<and> (\<forall>p\<ge>0. GET_OPCODE (code_at p c) = GET_OPCODE (code_at p (fs_code fs))))"
proof -
  let ?c = "fs_code fs"
  have same: "fs\<lparr>fs_code := ?c\<rparr> = fs" by simp
  show ?thesis
  proof (cases "as = [] \<or> bs = []")
    case True
    then have "luaK_concat l1 l2 fs = Some (Inr (if bs = [] then l1 else l2, fs\<lparr>fs_code := ?c\<rparr>))"
      using l1 l2 by (cases as; cases bs) (auto simp: luaK_concat_def gret_def NO_JUMP_def)
    moreover have "jump_list ?c (if bs = [] then l1 else l2) (as @ bs)" using True l1 l2 by auto
    ultimately show ?thesis by blast
  next
    case False
    then obtain as' a b bs' where s: "as = as' @ [a]" "bs = b # bs'" by (metis append_butlast_last_id neq_Nil_conv)
    have a: "0 \<le> a" "a < int (length ?c)" "GET_OPCODE (code_at a ?c) = Some OP_JMP" using jump_list_range [OF l1] s by auto
    have l2b: "l2 = b" "b \<noteq> NO_JUMP" using l2 s by (auto simp: NO_JUMP_def)
    have l1n: "l1 \<noteq> NO_JUMP" using l1 s(1) by (cases as') (auto simp: NO_JUMP_def)
    have lj: "last_jump ?c l1 = Some a" using last_jump_spec [OF l1] s by simp
    define c where "c = set_code a (SETARG_sBx (code_at a ?c) (b - (a + 1))) ?c"
    have conc: "luaK_concat l1 l2 fs = (if too_far a b then Some (Inl (SyntaxError ''control structure too long'')) else Some (Inr (l1, fs\<lparr>fs_code := c\<rparr>)))"
      using l2b l1n lj by (simp add: luaK_concat_def gthen_def gbind_def on_code_def fixjump_cases too_far_def c_def gret_def)
    show ?thesis
    proof (cases "too_far a b")
      case True
      then show ?thesis using conc s by simp
    next
      case False
      have oth: "code_at p c = code_at p ?c" if "0 \<le> p" "p \<noteq> a" for p using that a by (simp add: c_def code_at_set)
      have at: "code_at a c = SETARG_sBx (code_at a ?c) (b - (a + 1))" using a by (simp add: c_def code_at_set)
      have lc: "length c = length ?c" by (simp add: c_def)
      have "b \<noteq> a" using dj s by auto
      then have "getjump c a = b" using False at by (intro getjump_fixed) (auto simp: too_far_def)
      moreover have "\<forall>p\<in>set as'. code_at p c = code_at p ?c"
      proof
        fix p assume p: "p \<in> set as'"
        then have "p \<noteq> a" using jump_list_distinct [OF l1] by (auto simp: s(1))
        moreover have "0 \<le> p" using jump_list_range [OF l1] p by (simp add: s(1))
        ultimately show "code_at p c = code_at p ?c" by (intro oth)
      qed
      moreover have "jump_list c l2 bs"
      proof (intro jump_list_cong [OF l2] ballI)
        fix p assume p: "p \<in> set bs"
        then have "p \<noteq> a" using dj by (auto simp: s(1))
        moreover have "0 \<le> p" using jump_list_range [OF l2] p by simp
        ultimately show "code_at p c = code_at p ?c" by (intro oth)
      qed (simp add: c_def)
      ultimately have "jump_list c l1 (as' @ a # bs)"
        using l1 [unfolded s(1)] by - (rule jump_list_append [where c = ?c and ?l2.0 = b], simp_all add: at a(3) l2b(1) lc)
      then have "jump_list c l1 (as @ bs)" by (simp add: s(1))
      moreover have "\<forall>p\<ge>0. GET_OPCODE (code_at p c) = GET_OPCODE (code_at p ?c)"
      proof (intro allI impI)
        fix p :: int assume "0 \<le> p"
        with oth at show "GET_OPCODE (code_at p c) = GET_OPCODE (code_at p ?c)" by (cases "p = a") simp_all
      qed
      moreover have "luaK_concat l1 l2 fs = Some (Inr (l1, fs\<lparr>fs_code := c\<rparr>))" using conc False by simp
      moreover note lc
      moreover have "\<forall>p. 0 \<le> p \<longrightarrow> as = [] \<or> p \<noteq> last as \<longrightarrow> code_at p c = code_at p ?c" using oth s(1) by simp
      ultimately show ?thesis by blast
    qed
  qed
qed

subsection \<open>Patching\<close>

text \<open>Whether the jump at \<open>a\<close> is controlled by an \<open>OP_TESTSET\<close>, the instruction before it.\<close>

definition has_testset :: "Instruction list \<Rightarrow> int \<Rightarrow> bool" where
  "has_testset c a \<longleftrightarrow> GET_OPCODE (code_at (getjumpcontrol c a) c) = Some OP_TESTSET"

lemma testset_before:
  assumes "has_testset c a" "GET_OPCODE (code_at a c) = Some OP_JMP"
  shows "1 \<le> a" "getjumpcontrol c a = a - 1" "GET_OPCODE (code_at (a - 1) c) = Some OP_TESTSET"
  using assms by (auto simp: has_testset_def getjumpcontrol_def split: if_splits)

lemma has_testset_iff:
  assumes "GET_OPCODE (code_at a c) = Some OP_JMP"
  shows "has_testset c a \<longleftrightarrow> 1 \<le> a \<and> GET_OPCODE (code_at (a - 1) c) = Some OP_TESTSET"
proof
  assume "has_testset c a"
  from testset_before [OF this assms] show "1 \<le> a \<and> GET_OPCODE (code_at (a - 1) c) = Some OP_TESTSET" by simp
next
  assume t: "1 \<le> a \<and> GET_OPCODE (code_at (a - 1) c) = Some OP_TESTSET"
  then have "tests (code_at (a - 1) c)" by (simp add: tests_def testTMode_iff)
  with t show "has_testset c a" by (simp add: has_testset_def getjumpcontrol_def)
qed

text \<open>What an \<open>OP_TESTSET\<close> becomes when its value has to go to \<open>reg\<close>.\<close>

definition set_reg :: "int \<Rightarrow> Instruction \<Rightarrow> Instruction" where
  "set_reg reg i = (if reg \<noteq> NO_REG \<and> reg \<noteq> GETARG_B i then SETARG_A i reg else CREATE_ABC OP_TEST (GETARG_B i) 0 (GETARG_C i))"

lemma patchtestreg_jump:
  assumes "GET_OPCODE (code_at a c) = Some OP_JMP"
  shows "patchtestreg a reg c = (if has_testset c a then (True, set_code (a - 1) (set_reg reg (code_at (a - 1) c)) c) else (False, c))"
proof (cases "has_testset c a")
  case True
  note b = testset_before [OF True assms]
  show ?thesis using True by (simp add: patchtestreg_def Let_def b(2,3) set_reg_def)
next
  case False
  then show ?thesis by (simp add: patchtestreg_def Let_def has_testset_def)
qed

text \<open>Where the jump at \<open>a\<close> goes.\<close>

definition target_of :: "Instruction list \<Rightarrow> int \<Rightarrow> int \<Rightarrow> int \<Rightarrow> int" where
  "target_of c vtarget dtarget a = (if has_testset c a then vtarget else dtarget)"

text \<open>The code after patching the jumps at \<open>as\<close>.\<close>

definition patched :: "int list \<Rightarrow> int \<Rightarrow> int \<Rightarrow> int \<Rightarrow> Instruction list \<Rightarrow> int \<Rightarrow> Instruction" where
  "patched as vtarget reg dtarget c p = (
     if p \<in> set as then SETARG_sBx (code_at p c) (target_of c vtarget dtarget p - (p + 1))
     else if p + 1 \<in> set as \<and> has_testset c (p + 1) then set_reg reg (code_at p c)
     else code_at p c)"

lemma patchlistaux_spec:
  assumes "jump_list c l as"
  shows "(\<exists>a\<in>set as. too_far a (target_of c vtarget dtarget a)) \<and> patchlistaux l vtarget reg dtarget c = Some (Inl (SyntaxError ''control structure too long'')) \<or>
    (\<forall>a\<in>set as. \<not> too_far a (target_of c vtarget dtarget a)) \<and>
    (\<exists>c'. patchlistaux l vtarget reg dtarget c = Some (Inr c') \<and> length c' = length c \<and> (\<forall>p\<ge>0. code_at p c' = patched as vtarget reg dtarget c p))"
  using assms
proof (induction as arbitrary: l c)
  case Nil
  then show ?case by (simp add: patchlistaux.simps [of NO_JUMP] patched_def)
next
  case (Cons a as)
  from Cons.prems have a: "l = a" "0 \<le> a" "a < int (length c)" "GET_OPCODE (code_at a c) = Some OP_JMP" "jump_list c (getjump c a) as" by auto
  have an: "a \<notin> set as" using jump_list_distinct [OF Cons.prems] by simp
  have jmp: "0 \<le> b \<and> b < int (length c) \<and> GET_OPCODE (code_at b c) = Some OP_JMP" if "b \<in> set as" for b using jump_list_range [OF a(5)] that by blast
  let ?t = "target_of c vtarget dtarget"
  note ts = testset_before [OF _ a(4)]
  define c1 where "c1 = snd (patchtestreg a reg c)"
  have p1: "patchtestreg a reg c = (has_testset c a, c1)" by (simp add: c1_def patchtestreg_jump [OF a(4)])
  have c1: "length c1 = length c" "code_at p c1 = (if has_testset c a \<and> p = a - 1 then set_reg reg (code_at p c) else code_at p c)" if "0 \<le> p" for p
    using ts a(2,3) that by (auto simp: c1_def patchtestreg_jump [OF a(4)] code_at_set)
  have ca: "code_at a c1 = code_at a c" using c1(2) [OF a(2)] by simp
  define c2 where "c2 = set_code a (SETARG_sBx (code_at a c1) (?t a - (a + 1))) c1"
  have run: "patchlistaux l vtarget reg dtarget c =
      (if too_far a (?t a) then Some (Inl (SyntaxError ''control structure too long'')) else patchlistaux (getjump c a) vtarget reg dtarget c2)"
    unfolding a(1) using a(2) by (simp add: patchlistaux.simps [of a vtarget reg dtarget c] NO_JUMP_def Let_def p1 fixjump_cases too_far_def target_of_def c2_def)
  have lc: "length c2 = length c" using c1(1) [OF order_refl] by (simp add: c2_def)
  have c2: "code_at p c2 = patched [a] vtarget reg dtarget c p" if "0 \<le> p" for p
  proof -
    have "a < int (length c1)" using c1(1) [OF a(2)] a(3) by simp
    then show ?thesis using c1(2) [OF that] ca a(2) that unfolding c2_def patched_def by (auto simp: code_at_set)
  qed
  have nb: "b - 1 \<noteq> a - 1" "GET_OPCODE (code_at (a - 1) c) \<noteq> Some OP_JMP \<Longrightarrow> b \<noteq> a - 1" if "b \<in> set as" for b using that an jmp by auto
  have keep: "code_at b c2 = code_at b c" if "b \<in> set as" for b
    using c2 [of b] jmp [OF that] that an nb [OF that] ts by (auto simp: patched_def)
  have op2: "GET_OPCODE (code_at p c2) = GET_OPCODE (code_at p c)" if "0 \<le> p" "p \<noteq> a - 1" for p using c2 [OF that(1)] that by (simp add: patched_def)
  have ht: "has_testset c2 b = has_testset c b" if b: "b \<in> set as" for b
  proof -
    have "b - 1 \<noteq> a - 1" using b an by auto
    then show ?thesis using has_testset_iff [of b c] has_testset_iff [of b c2] jmp [OF b] keep [OF b] op2 [of "b - 1"] by auto
  qed
  have tt: "target_of c2 vtarget dtarget b = ?t b" if "b \<in> set as" for b using ht [OF that] by (simp add: target_of_def)
  have "jump_list c2 (getjump c a) as" by (rule jump_list_cong [OF a(5) lc]) (use keep in blast)
  note IH = Cons.IH [OF this]
  have comb: "patched as vtarget reg dtarget c2 p = patched (a # as) vtarget reg dtarget c p" if p: "0 \<le> p" for p
  proof -
    consider "p \<in> set as" | "p \<notin> set as" "p + 1 \<in> set as" | "p \<notin> set as" "p + 1 \<notin> set as" by blast
    then show ?thesis
    proof cases
      case 1
      then show ?thesis using keep tt by (simp add: patched_def)
    next
      case 2
      have ne: "p \<noteq> a - 1" using 2(2) an by auto
      show ?thesis
      proof (cases "has_testset c (p + 1)")
        case True
        then have "GET_OPCODE (code_at p c) = Some OP_TESTSET" using has_testset_iff [of "p + 1" c] jmp [OF 2(2)] by simp
        then have "p \<noteq> a" using a(4) by auto
        with 2 ne True ht c2 [OF p] show ?thesis by (simp add: patched_def)
      next
        case False
        with 2 ne ht c2 [OF p] show ?thesis by (simp add: patched_def)
      qed
    next
      case 3
      with c2 [OF p] show ?thesis by (simp add: patched_def)
    qed
  qed
  show ?case
  proof (cases "too_far a (?t a)")
    case True
    then show ?thesis using run by simp
  next
    case False
    with IH run tt comb lc show ?thesis by simp
  qed
qed

lemma patched_target:
  assumes "jump_list c l as" "a \<in> set as" "\<not> too_far a (target_of c vtarget dtarget a)" "code_at a c' = patched as vtarget reg dtarget c a"
    "target_of c vtarget dtarget a \<noteq> a"
  shows "getjump c' a = target_of c vtarget dtarget a"
  using assms by (intro getjump_fixed [where i = "code_at a c"]) (auto simp: too_far_def patched_def)

end
