(* ===== verification/Lua_Gen.thy ===== *)
theory Lua_Gen
  imports Lua_Jump
begin

text \<open>
  What every operation of the code generator keeps: each instruction has a line, the registers in use fit in the declared stack, which is
  smaller than the limit, and every constant is in the table of constants under exactly one index.  A generator that keeps a
  condition is one that leads from states with it to states with it only; the collection \<open>keeps\<close> has a rule for each of them.
\<close>

named_theorems keeps

definition keeps :: "(FuncState \<Rightarrow> bool) \<Rightarrow> 'a gen \<Rightarrow> bool" where
  "keeps P m \<longleftrightarrow> (\<forall>fs x fs'. P fs \<longrightarrow> m fs = Some (Inr (x, fs')) \<longrightarrow> P fs')"

lemma keepsI: "(\<And>fs x fs'. P fs \<Longrightarrow> m fs = Some (Inr (x, fs')) \<Longrightarrow> P fs') \<Longrightarrow> keeps P m"
  by (auto simp: keeps_def)

lemma keepsD: "keeps P m \<Longrightarrow> m fs = Some (Inr (x, fs')) \<Longrightarrow> P fs \<Longrightarrow> P fs'"
  by (auto simp: keeps_def)

lemma keeps_gret [keeps]: "keeps P (gret x)"
  by (auto simp: keeps_def gret_def)

lemma keeps_gbind [keeps]: "keeps P m \<Longrightarrow> (\<And>x. keeps P (f x)) \<Longrightarrow> keeps P (gbind m f)"
proof (rule keepsI)
  fix fs y fs' assume m: "keeps P m" and f: "\<And>x. keeps P (f x)" and p: "P fs" and r: "gbind m f fs = Some (Inr (y, fs'))"
  then obtain x fs1 where "m fs = Some (Inr (x, fs1))" "f x fs1 = Some (Inr (y, fs'))" by (auto simp: gbind_def split: option.splits sum.splits)
  with keepsD [OF m _ p] keepsD [OF f] show "P fs'" by blast
qed

lemma keeps_gthen [keeps]: "keeps P m \<Longrightarrow> keeps P n \<Longrightarrow> keeps P (gthen m n)"
  by (simp add: gthen_def keeps_gbind)

lemma keeps_gget [keeps]: "keeps P (gget f)"
  by (auto simp: keeps_def gget_def)

lemma keeps_gmod: "(\<And>fs. P fs \<Longrightarrow> P (f fs)) \<Longrightarrow> keeps P (gmod f)"
  by (auto simp: keeps_def gmod_def)

lemma keeps_if [keeps]: "keeps P m \<Longrightarrow> keeps P n \<Longrightarrow> keeps P (if b then m else n)"
  by simp

lemma keeps_prod [keeps]: "(\<And>a b. keeps P (f a b)) \<Longrightarrow> keeps P (case p of (a, b) \<Rightarrow> f a b)"
  by (cases p) simp

lemma keeps_option [keeps]: "keeps P m \<Longrightarrow> (\<And>x. keeps P (f x)) \<Longrightarrow> keeps P (case r of None \<Rightarrow> m | Some x \<Rightarrow> f x)"
  by (cases r) simp_all

lemma keeps_expkind [keeps]:
  assumes "keeps P a" "keeps P b" "keeps P c" "keeps P d" "keeps P e" "keeps P f" "keeps P g" "keeps P h" "keeps P i" "keeps P j" "keeps P l" "keeps P m" "keeps P n"
    "keeps P q" "keeps P r"
  shows "keeps P (case x of VVOID \<Rightarrow> a | VNIL \<Rightarrow> b | VTRUE \<Rightarrow> c | VFALSE \<Rightarrow> d | VK \<Rightarrow> e | VKNUM \<Rightarrow> f | VLOCAL \<Rightarrow> g | VUPVAL \<Rightarrow> h | VGLOBAL \<Rightarrow> i |
    VINDEXED \<Rightarrow> j | VJMP \<Rightarrow> l | VRELOCABLE \<Rightarrow> m | VNONRELOC \<Rightarrow> n | VCALL \<Rightarrow> q | VVARARG \<Rightarrow> r)"
  using assms by (cases x) simp_all

lemma keeps_state: "(\<And>fs. keeps P (m fs)) \<Longrightarrow> keeps P (\<lambda>fs. m fs fs)"
  unfolding keeps_def by blast

lemma keeps_let [keeps]: "(\<And>x. keeps P (f x)) \<Longrightarrow> keeps P (let x = e in f x)"
  by simp

subsection \<open>Constants\<close>

text \<open>The key under which a constant is found.\<close>

fun key_of :: "64 word \<Rightarrow> TConst \<Rightarrow> TKey" where
  "key_of a KNil = ObjKey a"
| "key_of a (KBool b) = BoolKey b"
| "key_of a (KNumber r) = NumKey r"
| "key_of a (KString (Some s)) = StrKey (map (\<lambda>b. char_of (unat b)) s)"
| "key_of a (KString None) = NilKey"

definition consts_ok :: "FuncState \<Rightarrow> bool" where
  "consts_ok fs \<longleftrightarrow> table_ok (fs_h fs) \<and> int (length (fs_k fs)) \<le> MAXARG_Bx \<and>
     (\<forall>i<length (fs_k fs). valid_key (key_of (fs_addr fs) (fs_k fs ! i)) \<and> tget (fs_h fs) (key_of (fs_addr fs) (fs_k fs ! i)) = Some (num_of_int (int i))) \<and>
     (\<forall>key n. valid_key key \<longrightarrow> tget (fs_h fs) key = Some n \<longrightarrow>
        (\<exists>i<length (fs_k fs). n = num_of_int (int i) \<and> luaO_rawequalObj (key_of (fs_addr fs) (fs_k fs ! i)) key))"

text \<open>The same constant: two zeros of different signs are one.\<close>

definition same_const :: "64 word \<Rightarrow> TConst \<Rightarrow> TConst \<Rightarrow> bool" where
  "same_const a v w \<longleftrightarrow> luaO_rawequalObj (key_of a v) (key_of a w)"

lemma slot_set_same: "slot_set h p (slot_get h p) = h"
  by (cases p) simp_all

lemma addk_spec:
  assumes ok: "consts_ok fs" and v: "valid_key (key_of (fs_addr fs) v)"
  shows "(\<exists>e. addk (key_of (fs_addr fs) v) v fs = Some (Inl e) \<and> (e = RunError ''table overflow'' \<or> e = RunError ''constant table overflow'' \<and> int (length (fs_k fs)) = MAXARG_Bx)) \<or>
    (\<exists>i h ks. addk (key_of (fs_addr fs) v) v fs = Some (Inr (int i, fs\<lparr>fs_h := h, fs_k := ks\<rparr>)) \<and> consts_ok (fs\<lparr>fs_h := h, fs_k := ks\<rparr>) \<and>
       i < length ks \<and> same_const (fs_addr fs) (ks ! i) v \<and>
       (if \<exists>w\<in>set (fs_k fs). same_const (fs_addr fs) w v then ks = fs_k fs else ks = fs_k fs @ [v]))"
proof -
  let ?key = "key_of (fs_addr fs) v" and ?n = "length (fs_k fs)"
  have t: "table_ok (fs_h fs)" "int ?n \<le> MAXARG_Bx" using ok by (auto simp: consts_ok_def)
  have fw: "valid_key (key_of (fs_addr fs) (fs_k fs ! i)) \<and> tget (fs_h fs) (key_of (fs_addr fs) (fs_k fs ! i)) = Some (num_of_int (int i))" if "i < ?n" for i
    using ok that by (simp add: consts_ok_def)
  have bw: "\<exists>i<?n. n = num_of_int (int i) \<and> luaO_rawequalObj (key_of (fs_addr fs) (fs_k fs ! i)) key" if "valid_key key" "tget (fs_h fs) key = Some n" for key n
    using ok that unfolding consts_ok_def by blast
  have small: "- (2 ^ 31) \<le> int i" "int i < 2 ^ 31" if "i \<le> ?n" for i using t(2) that by (simp_all add: MAXARG_Bx_def field_defs)
  from set_sets [OF t(1) v] consider
      (full) "luaH_set (fs_h fs) ?key = Some (Inl ''table overflow'')"
    | (set) p h where "luaH_set (fs_h fs) ?key = Some (Inr (p, h))" "slot_get h p = tget (fs_h fs) ?key" "\<And>v. stored (fs_h fs) ?key v (slot_set h p v)"
    unfolding sets_def by blast
  then show ?thesis
  proof cases
    case full
    then show ?thesis by (simp add: addk_def)
  next
    case set
    have present: "(\<exists>w\<in>set (fs_k fs). same_const (fs_addr fs) w v) \<longleftrightarrow> tget (fs_h fs) ?key \<noteq> None"
    proof
      assume "\<exists>w\<in>set (fs_k fs). same_const (fs_addr fs) w v"
      then obtain i where i: "i < ?n" "luaO_rawequalObj (key_of (fs_addr fs) (fs_k fs ! i)) ?key" by (auto simp: same_const_def in_set_conv_nth)
      have "tget (fs_h fs) ?key = Some (num_of_int (int i))" using tget_cong [OF t(1) _ v i(2)] fw [OF i(1)] by simp
      then show "tget (fs_h fs) ?key \<noteq> None" by simp
    next
      assume "tget (fs_h fs) ?key \<noteq> None"
      then obtain i where "i < ?n" "luaO_rawequalObj (key_of (fs_addr fs) (fs_k fs ! i)) ?key" using bw [OF v] by blast
      then show "\<exists>w\<in>set (fs_k fs). same_const (fs_addr fs) w v" by (intro bexI [of _ "fs_k fs ! i"]) (simp_all add: same_const_def)
    qed
    show ?thesis
    proof (cases "tget (fs_h fs) ?key")
      case (Some n)
      from bw [OF v Some] obtain i where i: "i < ?n" "n = num_of_int (int i)" "luaO_rawequalObj (key_of (fs_addr fs) (fs_k fs ! i)) ?key" by blast
      have "lua_number2int n = int i" using num_of_int(1) small [of i] i by simp
      then have r: "addk ?key v fs = Some (Inr (int i, fs\<lparr>fs_h := h, fs_k := fs_k fs\<rparr>))" using set Some by (simp add: addk_def)
      have st: "slot_get h p = Some n" using set(2) Some by simp
      have same: "slot_set h p (Some n) = h" using slot_set_same [of h p] unfolding st .
      have "stored (fs_h fs) ?key (Some n) h" using set(3) [of "Some n"] same by simp
      then have h: "table_ok h" "\<And>k. valid_key k \<Longrightarrow> tget h k = tget (fs_h fs) k"
        using Some tget_cong [OF t(1) _ v] by (auto simp: stored_def split: if_splits)
      have "consts_ok (fs\<lparr>fs_h := h, fs_k := fs_k fs\<rparr>)" using fw bw t(2) h by (simp add: consts_ok_def)
      then show ?thesis using r i present Some by (auto simp: same_const_def)
    next
      case None
      show ?thesis
      proof (cases "int ?n \<ge> MAXARG_Bx")
        case True
        then show ?thesis using set None t(2) by (simp add: addk_def)
      next
        case False
        let ?h = "slot_set h p (Some (num_of_int (int ?n)))" and ?ks = "fs_k fs @ [v]"
        have r: "addk ?key v fs = Some (Inr (int ?n, fs\<lparr>fs_h := ?h, fs_k := ?ks\<rparr>))" using set None False by (simp add: addk_def Let_def)
        have h: "table_ok ?h" "\<And>k. valid_key k \<Longrightarrow> tget ?h k = (if luaO_rawequalObj k ?key then Some (num_of_int (int ?n)) else tget (fs_h fs) k)"
          using set(3) by (auto simp: stored_def)
        have no: "\<not> luaO_rawequalObj (key_of (fs_addr fs) (fs_k fs ! i)) ?key" if "i < ?n" for i
          using fw [OF that] tget_cong [OF t(1) _ v] None by fastforce
        have "consts_ok (fs\<lparr>fs_h := ?h, fs_k := ?ks\<rparr>)" unfolding consts_ok_def
        proof (intro conjI allI impI)
          show "int (length (fs_k (fs\<lparr>fs_h := ?h, fs_k := ?ks\<rparr>))) \<le> MAXARG_Bx" using False by simp
          fix i assume "i < length (fs_k (fs\<lparr>fs_h := ?h, fs_k := ?ks\<rparr>))"
          then consider "i < ?n" | "i = ?n" by (auto simp: less_Suc_eq)
          then show "valid_key (key_of (fs_addr (fs\<lparr>fs_h := ?h, fs_k := ?ks\<rparr>)) (fs_k (fs\<lparr>fs_h := ?h, fs_k := ?ks\<rparr>) ! i))"
            "tget (fs_h (fs\<lparr>fs_h := ?h, fs_k := ?ks\<rparr>)) (key_of (fs_addr (fs\<lparr>fs_h := ?h, fs_k := ?ks\<rparr>)) (fs_k (fs\<lparr>fs_h := ?h, fs_k := ?ks\<rparr>) ! i)) = Some (num_of_int (int i))"
            using fw no h(2) v keq_refl [OF v] by (cases; simp add: nth_append)+
        next
          fix key n assume kn: "valid_key key" "tget (fs_h (fs\<lparr>fs_h := ?h, fs_k := ?ks\<rparr>)) key = Some n"
          show "\<exists>i<length (fs_k (fs\<lparr>fs_h := ?h, fs_k := ?ks\<rparr>)). n = num_of_int (int i) \<and>
              luaO_rawequalObj (key_of (fs_addr (fs\<lparr>fs_h := ?h, fs_k := ?ks\<rparr>)) (fs_k (fs\<lparr>fs_h := ?h, fs_k := ?ks\<rparr>) ! i)) key"
          proof (cases "luaO_rawequalObj key ?key")
            case True
            then show ?thesis using kn h(2) keq_sym by (intro exI [of _ ?n]) simp
          next
            case F: False
            then have "tget (fs_h fs) key = Some n" using kn h(2) by simp
            from bw [OF kn(1) this] obtain i where "i < ?n" "n = num_of_int (int i)" "luaO_rawequalObj (key_of (fs_addr fs) (fs_k fs ! i)) key" by blast
            then show ?thesis by (intro exI [of _ i]) (simp add: nth_append)
          qed
        qed (use h(1) in simp)
        moreover have "same_const (fs_addr fs) (?ks ! ?n) v" using keq_refl [OF v] by (simp add: same_const_def)
        ultimately show ?thesis using r present None by (intro disjI2 exI [of _ ?n] exI [of _ ?h] exI [of _ ?ks]) simp
      qed
    qed
  qed
qed

lemma patchtestreg_length: "length (snd (patchtestreg node reg c)) = length c"
  by (simp add: patchtestreg_def Let_def)

lemma fixjump_length: "fixjump p d c = Inr c' \<Longrightarrow> length c' = length c"
  by (auto simp: fixjump_cases split: if_splits)

lemma patchlistaux_length:
  assumes "patchlistaux l v r d c = Some res"
  shows "case res of Inl _ \<Rightarrow> True | Inr c' \<Rightarrow> length c' = length c"
proof (rule patchlistaux.raw_induct [where P = "\<lambda>l v r d c res. case res of Inl _ \<Rightarrow> True | Inr c' \<Rightarrow> length c' = length c", OF _ assms], goal_cases)
  case (1 f l v r d c res)
  obtain b c1 where p: "patchtestreg l r c = (b, c1)" by fastforce
  then have c1: "length c1 = length c" using patchtestreg_length [of l r c] by simp
  show ?case
  proof (cases "l = NO_JUMP")
    case True
    then show ?thesis using 1(2) by auto
  next
    case False
    show ?thesis
    proof (cases "fixjump l (if b then v else d) c1")
      case (Inl e)
      then have "res = Inl e" using 1(2) p False by (cases b) (simp_all add: Let_def)
      then show ?thesis by simp
    next
      case (Inr c2)
      then have "f (getjump c l) v r d c2 = Some res" using 1(2) p False by (simp add: Let_def)
      from 1(1) [OF this] show ?thesis using c1 fixjump_length [OF Inr] by (simp split: sum.splits)
    qed
  qed
qed

lemma removevalues_length:
  assumes "removevalues l c = Some c'"
  shows "length c' = length c"
proof (rule removevalues.raw_induct [where P = "\<lambda>l c c'. length c' = length c", OF _ assms], goal_cases)
  case (1 f l c c')
  show ?case
  proof (cases "l = NO_JUMP")
    case False
    then show ?thesis using 1 patchtestreg_length [of l NO_REG c] by (auto simp: Let_def)
  qed (use 1(2) in simp)
qed

definition keeps_length :: "(Instruction list \<Rightarrow> (gen_error + Instruction list) option) \<Rightarrow> bool" where
  "keeps_length f \<longleftrightarrow> (\<forall>c c'. f c = Some (Inr c') \<longrightarrow> length c' = length c)"

lemma char_of_byte: "char_of (unat (of_char c :: byte)) = c"
proof -
  have "of_nat (of_char c) = (of_char c :: byte)" by (rule of_nat_of_char)
  moreover have "unat (of_nat (of_char c) :: byte) = of_char c"
    using uchar_nat_less [of c] by (simp add: unat_of_nat uchar_nat_def)
  ultimately show ?thesis by simp
qed

lemma keeps_lengths [keeps]:
  "keeps_length (patchlistaux l v r d)"
  "keeps_length (\<lambda>c. map_option Inr (removevalues l c))"
  "keeps_length (\<lambda>c. case last_jump c l1 of None \<Rightarrow> None | Some list \<Rightarrow> Some (fixjump list l2 c))"
  using patchlistaux_length [of l v r d] removevalues_length [of l]
  by (fastforce simp: keeps_length_def fixjump_length split: option.splits)+

subsection \<open>Invariants of the code generator\<close>

text \<open>A property of the state that is kept by the elementary changes that the operations are made of: instructions are replaced, appended and taken
  back together with their line, the stack grows, registers are reserved and released, constants are entered.  Every operation keeps such a property.\<close>

locale gen_invariant =
  fixes P :: "FuncState \<Rightarrow> bool"
  assumes code: "P fs \<Longrightarrow> length c = length (fs_code fs) \<Longrightarrow> P (fs\<lparr>fs_code := c\<rparr>)"
    and jumps: "P fs \<Longrightarrow> P (fs\<lparr>jpc := j\<rparr>)"
    and target: "P fs \<Longrightarrow> P (fs\<lparr>lasttarget := j\<rparr>)"
    and lines: "P fs \<Longrightarrow> length ls = length (fs_lineinfo fs) \<Longrightarrow> P (fs\<lparr>fs_lineinfo := ls\<rparr>)"
    and emit: "P fs \<Longrightarrow> P (fs\<lparr>fs_code := fs_code fs @ [i], fs_lineinfo := fs_lineinfo fs @ [line]\<rparr>)"
    and take_back: "P fs \<Longrightarrow> P (fs\<lparr>fs_code := butlast (fs_code fs), fs_lineinfo := butlast (fs_lineinfo fs)\<rparr>)"
    and stack: "P fs \<Longrightarrow> fs_maxstack fs < m \<Longrightarrow> m < MAXSTACK \<Longrightarrow> P (fs\<lparr>fs_maxstack := m\<rparr>)"
    and regs: "P fs \<Longrightarrow> (freereg_of fs \<le> fs_maxstack fs \<Longrightarrow> r \<le> fs_maxstack fs) \<Longrightarrow> P (fs\<lparr>freereg_of := r\<rparr>)"
    and constants: "P fs \<Longrightarrow> addk (key_of (fs_addr fs) v) v fs = Some (Inr (x, fs')) \<Longrightarrow> P fs'"
begin

lemma keeps_on_code [keeps]: "keeps_length f \<Longrightarrow> keeps P (on_code f)"
  by (auto simp: keeps_def on_code_def keeps_length_def code split: option.splits sum.splits)

lemma keeps_mods [keeps]:
  "keeps P (gmod (\<lambda>fs. fs\<lparr>jpc := f fs\<rparr>))"
  "keeps P (gmod (\<lambda>fs. fs\<lparr>lasttarget := f fs\<rparr>))"
  "keeps P (gset pc g)"
  by (auto intro!: keeps_gmod simp: gset_def jumps target code)

lemma keeps_jumps [keeps]:
  "keeps P dischargejpc" "keeps P luaK_getlabel" "keeps P (luaK_concat l1 l2)"
  "keeps P (luaK_patchtohere l1)" "keeps P (luaK_patchlist l1 target)"
proof -
  show d: "keeps P dischargejpc" unfolding dischargejpc_def [abs_def] by (rule keeps_state, intro keeps)
  show l: "keeps P luaK_getlabel" unfolding luaK_getlabel_def by (intro keeps)
  show c: "keeps P (luaK_concat l1 l2)" for l1 l2 unfolding luaK_concat_def by (intro keeps)
  show p: "keeps P (luaK_patchtohere l1)" unfolding luaK_patchtohere_def by (intro keeps l c)
  show "keeps P (luaK_patchlist l1 target)" unfolding luaK_patchlist_def by (intro keeps p)
qed

lemma keeps_luaK_code [keeps]: "keeps P (luaK_code i line)"
  unfolding luaK_code_def by (intro keeps) (auto simp: keeps_def emit split: if_splits)

lemma keeps_emit [keeps]:
  "keeps P (luaK_codeABC op a b c)" "keeps P (luaK_codeABx op a bc)" "keeps P (luaK_codeAsBx op a sbx)"
  "keeps P luaK_jump" "keeps P (luaK_ret first nret)" "keeps P (condjump op a b c)" "keeps P (luaK_nil from n)" "keeps P (luaK_fixline line)"
proof -
  show a: "keeps P (luaK_codeABC op a b c)" for op a b c unfolding luaK_codeABC_def by (intro keeps)
  show b: "keeps P (luaK_codeABx op a bc)" for op a bc unfolding luaK_codeABx_def by (intro keeps)
  show s: "keeps P (luaK_codeAsBx op a sbx)" for op a sbx unfolding luaK_codeAsBx_def by (intro b)
  show j: "keeps P luaK_jump" unfolding luaK_jump_def
    by (intro keeps_gbind keeps_gget keeps_gthen keeps_mods keeps_jumps s)
  show "keeps P (luaK_ret first nret)" unfolding luaK_ret_def by (intro keeps a)
  show "keeps P (condjump op a b c)" unfolding condjump_def by (intro keeps a j)
  show "keeps P (luaK_fixline line)" unfolding luaK_fixline_def by (intro keeps_gmod) (simp add: lines)
  have l: "length c = length (fs_code fs)" if "nil_merged from n fs = Some c" for c fs
    using that by (auto simp: nil_merged_def Let_def split: if_splits)
  show "keeps P (luaK_nil from n)"
  proof (rule keepsI)
    fix fs fs' and x :: unit assume ok: "P fs" and r: "luaK_nil from n fs = Some (Inr (x, fs'))"
    show "P fs'"
    proof (cases "nil_merged from n fs")
      case None
      then have "gthen (luaK_codeABC OP_LOADNIL from (from + n - 1) 0) (gret ()) fs = Some (Inr (x, fs'))" using r by (simp add: luaK_nil_def gbind_def gget_def)
      from keepsD [OF keeps_gthen [OF a keeps_gret] this ok] show ?thesis .
    next
      case (Some c)
      then have "fs' = fs\<lparr>fs_code := c\<rparr>" using r by (simp add: luaK_nil_def gbind_def gget_def gmod_def)
      then show ?thesis using code [OF ok l [OF Some]] by simp
    qed
  qed
qed

lemma keeps_regs [keeps]: "keeps P (luaK_checkstack n)" "keeps P (luaK_reserveregs n)" "keeps P (freereg r)" "keeps P (freeexp e)"
proof -
  show "keeps P (luaK_checkstack n)"
    by (auto simp: keeps_def luaK_checkstack_def Let_def stack split: if_splits)
  show "keeps P (luaK_reserveregs n)"
    by (auto simp: keeps_def luaK_reserveregs_def luaK_checkstack_def gthen_def gbind_def gmod_def Let_def intro!: stack regs split: if_splits)
  show f: "keeps P (freereg r)" for r unfolding freereg_def by (intro keeps_gmod) (simp add: regs)
  show "keeps P (freeexp e)" unfolding freeexp_def by (intro keeps f)
qed

lemma keeps_consts [keeps]: "keeps P (luaK_stringK s)" "keeps P (luaK_numberK r)" "keeps P (boolK b)" "keeps P nilK"
proof -
  have m: "map (\<lambda>b. char_of (unat b)) (map of_char s :: byte list) = s" by (induction s) (simp_all add: char_of_byte)
  have k: "luaK_stringK s fs = addk (key_of (fs_addr fs) (KString (Some (map of_char s)))) (KString (Some (map of_char s))) fs"
    "luaK_numberK r fs = addk (key_of (fs_addr fs) (KNumber r)) (KNumber r) fs" "boolK b fs = addk (key_of (fs_addr fs) (KBool b)) (KBool b) fs"
    "nilK fs = addk (key_of (fs_addr fs) KNil) KNil fs" for fs
    using m by (simp_all add: luaK_stringK_def luaK_numberK_def boolK_def nilK_def gbind_def gget_def)
  show "keeps P (luaK_stringK s)" "keeps P (luaK_numberK r)" "keeps P (boolK b)" "keeps P nilK"
    by (rule keepsI, simp only: k, erule (1) constants)+
qed

subsection \<open>Expressions\<close>

lemma keeps_returns [keeps]: "keeps P (luaK_setreturns e n)" "keeps P (luaK_setmultret e)" "keeps P (luaK_setoneret e)"
  unfolding luaK_setmultret_def luaK_setreturns_def luaK_setoneret_def by (intro keeps)+

lemma keeps_dischargevars [keeps]: "keeps P (luaK_dischargevars e)"
  unfolding luaK_dischargevars_def by (intro keeps)

lemma keeps_discharge2reg [keeps]: "keeps P (discharge2reg e r)"
  unfolding discharge2reg_def by (intro keeps)

lemma keeps_discharge2anyreg [keeps]: "keeps P (discharge2anyreg e)"
  unfolding discharge2anyreg_def by (intro keeps)

lemma keeps_final_jumps [keeps]: "keeps P (final_jumps e r)"
proof -
  have "keeps P (\<lambda>fs. case need_value (fs_code fs) t of None \<Rightarrow> None | Some True \<Rightarrow> Some (Inr (True, fs))
       | Some False \<Rightarrow> (case need_value (fs_code fs) f of None \<Rightarrow> None | Some b \<Rightarrow> Some (Inr (b, fs))))" for t f
    by (auto simp: keeps_def split: option.splits bool.splits)
  moreover have "keeps P (code_label a b j)" for a b j unfolding code_label_def by (intro keeps)
  ultimately show ?thesis unfolding final_jumps_def by (intro keeps)
qed

lemma keeps_exp2reg [keeps]: "keeps P (exp2reg e r)"
  unfolding exp2reg_def by (intro keeps)

lemma keeps_exp2nextreg [keeps]: "keeps P (luaK_exp2nextreg e)"
  unfolding luaK_exp2nextreg_def by (intro keeps)

lemma keeps_exp2anyreg [keeps]: "keeps P (luaK_exp2anyreg e)"
  unfolding luaK_exp2anyreg_def by (intro keeps)

lemma keeps_exp2val [keeps]: "keeps P (luaK_exp2val e)"
  unfolding luaK_exp2val_def by (intro keeps)

lemma keeps_exp2RK [keeps]: "keeps P (luaK_exp2RK e)"
  unfolding luaK_exp2RK_def by (intro keeps)

lemma keeps_vars [keeps]: "keeps P (luaK_storevar v e)" "keeps P (luaK_self e key)" "keeps P (luaK_indexed e key)"
  unfolding luaK_storevar_def luaK_self_def luaK_indexed_def by (intro keeps)+

lemma keeps_jumponcond [keeps]: "keeps P (jumponcond e c)"
proof -
  have "keeps P (gmod (\<lambda>fs. fs\<lparr>fs_code := butlast (fs_code fs), fs_lineinfo := butlast (fs_lineinfo fs)\<rparr>))"
    by (rule keeps_gmod) (simp add: take_back)
  then show ?thesis unfolding jumponcond_def by (intro keeps)
qed

lemma keeps_invertjump [keeps]: "keeps P (invertjump e)"
  unfolding invertjump_def by (intro keeps)

lemma keeps_conditions [keeps]: "keeps P (luaK_goiftrue e)" "keeps P (luaK_goiffalse e)" "keeps P (codenot e)"
  unfolding luaK_goiftrue_def luaK_goiffalse_def codenot_def by (intro keeps)+

lemma keeps_codearith [keeps]: "keeps P (codearith arith op e1 e2)" "keeps P (codecomp op c e1 e2)"
  unfolding codearith_def codecomp_def by (intro keeps)+

lemma keeps_operators [keeps]:
  "keeps P (luaK_prefix arith u e)" "keeps P (luaK_infix op e)" "keeps P (luaK_posfix arith op e1 e2)"
proof -
  show "keeps P (luaK_prefix arith u e)" by (cases u) (simp_all add: luaK_prefix_def Let_def keeps)
  show "keeps P (luaK_infix op e)" by (cases op) (simp_all add: luaK_infix_def keeps)
  have "keeps P (posfix_concat arith e1 e2)" unfolding posfix_concat_def by (intro keeps)
  then show "keeps P (luaK_posfix arith op e1 e2)" by (cases op) (simp_all add: luaK_posfix_def keeps)
qed

end

subsection \<open>The registers fit in the stack\<close>

definition gen_ok :: "FuncState \<Rightarrow> bool" where
  "gen_ok fs \<longleftrightarrow> length (fs_lineinfo fs) = length (fs_code fs) \<and> freereg_of fs \<le> fs_maxstack fs \<and> fs_maxstack fs < MAXSTACK \<and> consts_ok fs"

text \<open>What holds at any time, also when the parser sets the registers: the stack has at least the given size.\<close>

definition code_ok :: "int \<Rightarrow> FuncState \<Rightarrow> bool" where
  "code_ok n fs \<longleftrightarrow> length (fs_lineinfo fs) = length (fs_code fs) \<and> n \<le> fs_maxstack fs \<and> fs_maxstack fs < MAXSTACK \<and> consts_ok fs"

lemma consts_ok_cong: "fs_h fs' = fs_h fs \<Longrightarrow> fs_k fs' = fs_k fs \<Longrightarrow> fs_addr fs' = fs_addr fs \<Longrightarrow> consts_ok fs' = consts_ok fs"
  by (simp add: consts_ok_def)

lemma addk_keeps:
  assumes c: "consts_ok fs" and r: "addk (key_of (fs_addr fs) v) v fs = Some (Inr (x, fs'))"
  shows "\<exists>h ks. fs' = fs\<lparr>fs_h := h, fs_k := ks\<rparr> \<and> consts_ok fs'"
proof (cases "valid_key (key_of (fs_addr fs) v)")
  case True
  from addk_spec [OF c True] r obtain h ks where "fs' = fs\<lparr>fs_h := h, fs_k := ks\<rparr>" "consts_ok (fs\<lparr>fs_h := h, fs_k := ks\<rparr>)" by auto
  then show ?thesis by blast
next
  case False
  have "table_ok (fs_h fs)" using c by (simp add: consts_ok_def)
  from set_refuses [OF this False] r show ?thesis by (simp add: addk_def)
qed

interpretation gen_ok: gen_invariant gen_ok
proof
  fix fs v x fs' assume ok: "gen_ok fs" and r: "addk (key_of (fs_addr fs) v) v fs = Some (Inr (x, fs'))"
  from addk_keeps [OF _ r] ok show "gen_ok fs'" by (auto simp: gen_ok_def)
qed (auto simp: gen_ok_def consts_ok_def)

interpretation code_ok: gen_invariant "code_ok n" for n
proof
  fix fs v x fs' assume ok: "code_ok n fs" and r: "addk (key_of (fs_addr fs) v) v fs = Some (Inr (x, fs'))"
  from addk_keeps [OF _ r] ok show "code_ok n fs'" by (auto simp: code_ok_def)
qed (auto simp: code_ok_def consts_ok_def)

end
