(* ===== verification/Lua_Code_Props.thy ===== *)
theory Lua_Code_Props
  imports Lua_Gen
begin

text \<open>
  What the code generator of \<^verbatim>\<open>src/src/lcode.c\<close> promises to the parser: jumps that wait for a target reach it, constants are shared,
  the constants of a function are all different, and instructions that are merged do what the separate ones would have done.
\<close>

subsection \<open>A new function\<close>

text \<open>The part of \<^verbatim>\<open>open_func\<close> of \<^verbatim>\<open>src/src/lparser.c\<close> that the code generator works on; \<open>a\<close> is the address of the new table and
  \<open>line\<close> the line of the last token.\<close>

definition open_func :: "64 word \<Rightarrow> int \<Rightarrow> FuncState lua_run" where
  "open_func a line = (case luaH_new 0 0 of
     None \<Rightarrow> None
   | Some (Inl e) \<Rightarrow> Some (Inl e)
   | Some (Inr h) \<Rightarrow> Some (Inr \<lparr>fs_code = [], fs_lineinfo = [], fs_k = [], fs_h = h, fs_addr = a, fs_maxstack = 2, lasttarget = - 1, jpc = NO_JUMP,
       freereg_of = 0, nactvar = 0, lastline = line\<rparr>))"

lemma open_func_ok: "\<exists>fs. open_func a line = Some (Inr fs) \<and> gen_ok fs \<and> fs_code fs = [] \<and> fs_k fs = [] \<and> fs_addr fs = a \<and> jpc fs = NO_JUMP \<and> lasttarget fs = - 1 \<and>
  freereg_of fs = 0 \<and> nactvar fs = 0"
proof -
  obtain t :: "64 word table" where "luaH_new 0 0 = Some (Inr t)" "table_ok t" "\<And>k. tget t k = None" using new_ok [of 0 0] by (auto simp: MAXASIZE_def MAXBITS_def)
  then show ?thesis by (auto simp: open_func_def gen_ok_def consts_ok_def MAXSTACK_def MAXARG_Bx_def field_defs)
qed

subsection \<open>Jumps\<close>

text \<open>A function with two jumps that wait for a target, the first of them controlled by a test that also sets a register.\<close>

definition sample_state :: FuncState where
  "sample_state = \<lparr>fs_code = [CREATE_ABC OP_TESTSET 255 3 1, CREATE_ABx OP_JMP 0 (NO_JUMP + MAXARG_sBx), CREATE_ABx OP_JMP 0 (NO_JUMP + MAXARG_sBx)],
     fs_lineinfo = [1, 1, 1], fs_k = [], fs_h = \<lparr>t_array = [], t_node = [dummynode], t_dummy = True, lsizenode = 0, lastfree = 0, t_flags = 255\<rparr>, fs_addr = 0,
     fs_maxstack = 4, lasttarget = - 1, jpc = NO_JUMP, freereg_of = 4, nactvar = 4, lastline = 1\<rparr>"

lemma sample_jumps:
  "jump_list (fs_code sample_state) 1 [1]" "jump_list (fs_code sample_state) 2 [2]" "has_testset (fs_code sample_state) 1" "\<not> has_testset (fs_code sample_state) 2"
  by code_simp+

text \<open>Joining two lists of jumps that wait for a target gives the list of all of them, first those of the first list: only the last jump of the first
  list changes, and no instruction becomes another operation.  The only error is a distance that does not fit into the jump.\<close>

theorem luaK_concat_joins:
  assumes "jump_list (fs_code fs) l1 as" "jump_list (fs_code fs) l2 bs" "set as \<inter> set bs = {}"
  shows "if as \<noteq> [] \<and> bs \<noteq> [] \<and> too_far (last as) (hd bs) then luaK_concat l1 l2 fs = Some (Inl (SyntaxError ''control structure too long''))
    else \<exists>l c. luaK_concat l1 l2 fs = Some (Inr (l, fs\<lparr>fs_code := c\<rparr>)) \<and> jump_list c l (as @ bs) \<and> length c = length (fs_code fs) \<and>
      (\<forall>p\<ge>0. as = [] \<or> p \<noteq> last as \<longrightarrow> code_at p c = code_at p (fs_code fs)) \<and>
      (\<forall>p\<ge>0. GET_OPCODE (code_at p c) = GET_OPCODE (code_at p (fs_code fs)))"
proof -
  have ex: "\<not> (as \<noteq> [] \<and> bs \<noteq> [] \<and> too_far (last as) (hd bs))" if "luaK_concat l1 l2 fs = Some (Inr r)" for r
  proof
    assume e: "as \<noteq> [] \<and> bs \<noteq> [] \<and> too_far (last as) (hd bs)"
    then have n: "last_jump (fs_code fs) l1 = Some (last as)" "l1 \<noteq> NO_JUMP" "l2 = hd bs" "l2 \<noteq> NO_JUMP"
      using last_jump_spec [OF assms(1)] assms(1,2) by (cases as; cases bs; auto simp: NO_JUMP_def)+
    with e that show False by (simp add: luaK_concat_def gthen_def gbind_def on_code_def fixjump_cases too_far_def)
  qed
  from concat_spec [OF assms] show ?thesis
  proof
    assume "\<exists>l c. luaK_concat l1 l2 fs = Some (Inr (l, fs\<lparr>fs_code := c\<rparr>)) \<and> length c = length (fs_code fs) \<and> jump_list c l (as @ bs) \<and>
       (\<forall>p. 0 \<le> p \<longrightarrow> as = [] \<or> p \<noteq> last as \<longrightarrow> code_at p c = code_at p (fs_code fs)) \<and> (\<forall>p\<ge>0. GET_OPCODE (code_at p c) = GET_OPCODE (code_at p (fs_code fs)))"
    then obtain l c where "luaK_concat l1 l2 fs = Some (Inr (l, fs\<lparr>fs_code := c\<rparr>))" "length c = length (fs_code fs)" "jump_list c l (as @ bs)"
      "\<forall>p. 0 \<le> p \<longrightarrow> as = [] \<or> p \<noteq> last as \<longrightarrow> code_at p c = code_at p (fs_code fs)" "\<forall>p\<ge>0. GET_OPCODE (code_at p c) = GET_OPCODE (code_at p (fs_code fs))" by blast
    with ex show ?thesis by auto
  qed simp
qed

theorem luaK_concat_joins_witness:
  "\<exists>l c. luaK_concat 1 2 sample_state = Some (Inr (l, sample_state\<lparr>fs_code := c\<rparr>)) \<and> jump_list c l [1, 2] \<and> code_at 0 c = code_at 0 (fs_code sample_state)"
proof -
  have "\<not> too_far 1 2" by code_simp
  then show ?thesis using luaK_concat_joins [OF sample_jumps(1,2)] by auto
qed

text \<open>C36: Patching a list of jumps sends every jump to its target: a jump that is controlled by an instruction that also sets a register goes to
  the target for values, and that instruction sets the given register (or sets none, when there is none or it is the one it tests); any other
  jump goes to the default target, and in a jump only the offset changes.  No other instruction changes, a test that does not set a register
  included, and the only error is a target too far away.\<close>

theorem patchlistaux_targets:
  assumes "jump_list c l as"
  shows "if \<exists>a\<in>set as. too_far a (target_of c vtarget dtarget a) then patchlistaux l vtarget reg dtarget c = Some (Inl (SyntaxError ''control structure too long''))
    else \<exists>c'. patchlistaux l vtarget reg dtarget c = Some (Inr c') \<and> length c' = length c \<and>
      (\<forall>a\<in>set as. (target_of c vtarget dtarget a \<noteq> a \<longrightarrow> getjump c' a = target_of c vtarget dtarget a) \<and>
         code_at a c' = SETARG_sBx (code_at a c) (target_of c vtarget dtarget a - (a + 1)) \<and>
         (has_testset c a \<longrightarrow> code_at (a - 1) c' = set_reg reg (code_at (a - 1) c))) \<and>
      (\<forall>p\<ge>0. p \<notin> set as \<and> \<not> (p + 1 \<in> set as \<and> has_testset c (p + 1)) \<longrightarrow> code_at p c' = code_at p c)"
proof (cases "\<exists>a\<in>set as. too_far a (target_of c vtarget dtarget a)")
  case True
  with patchlistaux_spec [OF assms, of vtarget dtarget reg] show ?thesis by auto
next
  case False
  with patchlistaux_spec [OF assms, of vtarget dtarget reg] obtain c' where c': "patchlistaux l vtarget reg dtarget c = Some (Inr c')" "length c' = length c"
    "\<forall>p\<ge>0. code_at p c' = patched as vtarget reg dtarget c p" by auto
  have "(target_of c vtarget dtarget a \<noteq> a \<longrightarrow> getjump c' a = target_of c vtarget dtarget a) \<and>
         code_at a c' = SETARG_sBx (code_at a c) (target_of c vtarget dtarget a - (a + 1)) \<and>
         (has_testset c a \<longrightarrow> code_at (a - 1) c' = set_reg reg (code_at (a - 1) c))" if a: "a \<in> set as" for a
  proof (intro conjI impI)
    have r: "0 \<le> a" "GET_OPCODE (code_at a c) = Some OP_JMP" using jump_list_range [OF assms] a by auto
    show "getjump c' a = target_of c vtarget dtarget a" if "target_of c vtarget dtarget a \<noteq> a"
      using False a r c'(3) that by (intro patched_target [OF assms a]) auto
    show "code_at a c' = SETARG_sBx (code_at a c) (target_of c vtarget dtarget a - (a + 1))" using c'(3) a r(1) by (simp add: patched_def)
    assume h: "has_testset c a"
    from testset_before [OF this r(2)] have t: "1 \<le> a" "GET_OPCODE (code_at (a - 1) c) = Some OP_TESTSET" by auto
    then have "a - 1 \<notin> set as" using jump_list_range [OF assms] by fastforce
    with c'(3) t(1) a h show "code_at (a - 1) c' = set_reg reg (code_at (a - 1) c)" by (simp add: patched_def)
  qed
  moreover have "\<forall>p\<ge>0. p \<notin> set as \<and> \<not> (p + 1 \<in> set as \<and> has_testset c (p + 1)) \<longrightarrow> code_at p c' = code_at p c"
    using c'(3) by (simp add: patched_def)
  ultimately show ?thesis using False c'(1,2) by simp
qed

theorem patchlistaux_targets_witness:
  "\<exists>c'. patchlistaux 1 10 4 20 (fs_code sample_state) = Some (Inr c') \<and> getjump c' 1 = 10 \<and> code_at 0 c' = CREATE_ABC OP_TESTSET 4 3 1"
proof -
  have "\<not> too_far 1 10" "set_reg 4 (code_at 0 (fs_code sample_state)) = CREATE_ABC OP_TESTSET 4 3 1" by code_simp+
  then show ?thesis using patchlistaux_targets [OF sample_jumps(1), of 10 20 4] sample_jumps(3) by (auto simp: target_of_def)
qed

text \<open>C35: After a list of jumps is patched to the current position, the next instruction that is emitted is the target of all of them and of all jumps that
  waited for it before; none waits any longer, and the position is marked as a target, so that the instruction is not merged with the one before it.\<close>

theorem pending_jumps_reach:
  assumes "jump_list (fs_code fs) (jpc fs) as" "jump_list (fs_code fs) list bs" "set as \<inter> set bs = {}"
  shows "gthen (luaK_patchtohere list) (luaK_code i line) fs \<in> {Some (Inl (SyntaxError ''control structure too long'')), Some (Inl (RunError ''code size overflow''))} \<or>
    (\<exists>fs'. gthen (luaK_patchtohere list) (luaK_code i line) fs = Some (Inr (pc_of fs, fs')) \<and> pc_of fs' = pc_of fs + 1 \<and> code_at (pc_of fs) (fs_code fs') = i \<and>
       fs_lineinfo fs' = fs_lineinfo fs @ [line] \<and> jpc fs' = NO_JUMP \<and> lasttarget fs' = pc_of fs \<and> (\<forall>a\<in>set as \<union> set bs. getjump (fs_code fs') a = pc_of fs))"
proof -
  define fs0 where "fs0 = fs\<lparr>lasttarget := pc_of fs\<rparr>"
  have f0: "fs_code fs0 = fs_code fs" "jpc fs0 = jpc fs" "fs_lineinfo fs0 = fs_lineinfo fs" by (simp_all add: fs0_def)
  have run: "luaK_patchtohere list fs = gbind (luaK_concat (jpc fs) list) (\<lambda>j. gmod (\<lambda>fs. fs\<lparr>jpc := j\<rparr>)) fs0"
    by (simp add: luaK_patchtohere_def luaK_getlabel_def gthen_def gbind_def gget_def gmod_def fs0_def)
  from concat_spec [of fs0 "jpc fs" as list bs] assms f0 consider
      (far) "luaK_concat (jpc fs) list fs0 = Some (Inl (SyntaxError ''control structure too long''))"
    | (ok) j c where "luaK_concat (jpc fs) list fs0 = Some (Inr (j, fs0\<lparr>fs_code := c\<rparr>))" "length c = length (fs_code fs)" "jump_list c j (as @ bs)" by auto
  then show ?thesis
  proof cases
    case far
    then show ?thesis by (simp add: gthen_def gbind_def run)
  next
    case ok
    define fs1 where "fs1 = fs0\<lparr>fs_code := c, jpc := j\<rparr>"
    have p: "luaK_patchtohere list fs = Some (Inr ((), fs1))" using ok(1) by (simp add: run gbind_def gmod_def fs1_def)
    have pc: "pc_of fs1 = pc_of fs" "pc_of fs = int (length c)" using ok(2) by (simp_all add: fs1_def pc_of_def)
    have t: "target_of c (pc_of fs) (pc_of fs) a = pc_of fs" for a by (simp add: target_of_def)
    from patchlistaux_spec [OF ok(3), of "pc_of fs" "pc_of fs" NO_REG] consider
        (far) "patchlistaux j (pc_of fs) NO_REG (pc_of fs) c = Some (Inl (SyntaxError ''control structure too long''))"
      | (fine) c' where "patchlistaux j (pc_of fs) NO_REG (pc_of fs) c = Some (Inr c')" "length c' = length c"
          "\<forall>p\<ge>0. code_at p c' = patched (as @ bs) (pc_of fs) NO_REG (pc_of fs) c p" "\<forall>a\<in>set (as @ bs). \<not> too_far a (pc_of fs)"
      unfolding t by blast
    then show ?thesis
    proof cases
      case far
      then show ?thesis using p pc(1) by (simp add: gthen_def gbind_def luaK_code_def dischargejpc_def on_code_def fs1_def)
    next
      case fine
      have "getjump (c' @ [i]) a = pc_of fs" if a: "a \<in> set as \<union> set bs" for a
      proof -
        have r: "0 \<le> a" "a < int (length c')" using jump_list_range [OF ok(3)] a fine(2) by auto
        then have "code_at a (c' @ [i]) = code_at a c'" by (simp add: code_at_def nth_append nat_less_iff)
        moreover have "getjump c' a = target_of c (pc_of fs) (pc_of fs) a"
          using a fine(3,4) r pc(2) fine(2) by (intro patched_target [OF ok(3)]) (auto simp: target_of_def)
        ultimately show ?thesis by (simp add: getjump_def t)
      qed
      moreover have "code_at (pc_of fs) (c' @ [i]) = i" using fine(2) pc(2) by (simp add: code_at_def nth_append)
      ultimately show ?thesis using p pc fine(1,2)
        by (auto simp: gthen_def gbind_def luaK_code_def dischargejpc_def on_code_def gmod_def fs1_def fs0_def pc_of_def)
    qed
  qed
qed

theorem pending_jumps_reach_witness:
  "\<exists>fs'. gthen (luaK_patchtohere 2) (luaK_code 30 7) (sample_state\<lparr>jpc := 1\<rparr>) = Some (Inr (3, fs')) \<and> getjump (fs_code fs') 1 = 3 \<and> getjump (fs_code fs') 2 = 3"
proof -
  have "pc_of (sample_state\<lparr>jpc := 1\<rparr>) = 3" by code_simp
  moreover have "gthen (luaK_patchtohere 2) (luaK_code 30 7) (sample_state\<lparr>jpc := 1\<rparr>) \<notin>
      {Some (Inl (SyntaxError ''control structure too long'')), Some (Inl (RunError ''code size overflow''))}" by code_simp
  ultimately show ?thesis using pending_jumps_reach [of "sample_state\<lparr>jpc := 1\<rparr>" "[1]" 2 "[2]" 30 7] sample_jumps(1,2) by auto
qed

subsection \<open>Constants\<close>

lemma consts_distinct:
  assumes "consts_ok fs" "i < length (fs_k fs)" "j < length (fs_k fs)" "same_const (fs_addr fs) (fs_k fs ! i) (fs_k fs ! j)"
  shows "i = j"
proof -
  have t: "table_ok (fs_h fs)" "int (length (fs_k fs)) \<le> MAXARG_Bx" using assms(1) by (auto simp: consts_ok_def)
  have k: "valid_key (key_of (fs_addr fs) (fs_k fs ! m))" "tget (fs_h fs) (key_of (fs_addr fs) (fs_k fs ! m)) = Some (num_of_int (int m))" if "m < length (fs_k fs)" for m
    using assms(1) that by (auto simp: consts_ok_def)
  have "num_of_int (int i) = num_of_int (int j)" using tget_cong [OF t(1) k(1) k(1)] k(2) assms(2-4) by (force simp: same_const_def)
  moreover have "lua_number2int (num_of_int (int m)) = int m" if "m < length (fs_k fs)" for m
    using t(2) that by (intro num_of_int(1)) (simp_all add: MAXARG_Bx_def field_defs)
  ultimately show ?thesis using assms(2,3) by (metis of_nat_eq_iff)
qed

text \<open>C37: Entering a constant gives an index at which that constant stands; a constant that is there already is shared and not entered again, so that no two
  constants of a function are the same, and the ones before keep their index.  Two zeros of different signs count as the same constant.\<close>

theorem addk_shares:
  assumes "consts_ok fs" "valid_key (key_of (fs_addr fs) v)"
  shows "addk (key_of (fs_addr fs) v) v fs \<in> {Some (Inl (RunError ''table overflow'')), Some (Inl (RunError ''constant table overflow''))} \<or>
    (\<exists>i fs'. addk (key_of (fs_addr fs) v) v fs = Some (Inr (int i, fs')) \<and> i < length (fs_k fs') \<and> same_const (fs_addr fs) (fs_k fs' ! i) v \<and>
       fs_k fs' = (if \<exists>w\<in>set (fs_k fs). same_const (fs_addr fs) w v then fs_k fs else fs_k fs @ [v]) \<and>
       (\<forall>i<length (fs_k fs'). \<forall>j<length (fs_k fs'). same_const (fs_addr fs) (fs_k fs' ! i) (fs_k fs' ! j) \<longrightarrow> i = j) \<and>
       consts_ok fs' \<and> fs_code fs' = fs_code fs \<and> freereg_of fs' = freereg_of fs)"
  using addk_spec [OF assms]
proof
  assume "\<exists>i h ks. addk (key_of (fs_addr fs) v) v fs = Some (Inr (int i, fs\<lparr>fs_h := h, fs_k := ks\<rparr>)) \<and> consts_ok (fs\<lparr>fs_h := h, fs_k := ks\<rparr>) \<and>
       i < length ks \<and> same_const (fs_addr fs) (ks ! i) v \<and>
       (if \<exists>w\<in>set (fs_k fs). same_const (fs_addr fs) w v then ks = fs_k fs else ks = fs_k fs @ [v])"
  then obtain i h ks where r: "addk (key_of (fs_addr fs) v) v fs = Some (Inr (int i, fs\<lparr>fs_h := h, fs_k := ks\<rparr>))" "consts_ok (fs\<lparr>fs_h := h, fs_k := ks\<rparr>)"
       "i < length ks" "same_const (fs_addr fs) (ks ! i) v" "if \<exists>w\<in>set (fs_k fs). same_const (fs_addr fs) w v then ks = fs_k fs else ks = fs_k fs @ [v]" by blast
  have "\<forall>i<length ks. \<forall>j<length ks. same_const (fs_addr fs) (ks ! i) (ks ! j) \<longrightarrow> i = j" using consts_distinct [OF r(2)] by simp
  with r show ?thesis by (intro disjI2 exI [of _ i] exI [of _ "fs\<lparr>fs_h := h, fs_k := ks\<rparr>"]) (simp split: if_splits)
qed auto

theorem addk_shares_witness:
  "\<exists>fs i fs'. open_func 0 1 = Some (Inr fs) \<and>
     (luaK_numberK 0 fs \<in> {Some (Inl (RunError ''table overflow'')), Some (Inl (RunError ''constant table overflow''))} \<or> luaK_numberK 0 fs = Some (Inr (int i, fs')) \<and> fs_k fs' = [KNumber 0])"
proof -
  obtain fs where fs: "open_func 0 1 = Some (Inr fs)" "gen_ok fs" "fs_k fs = []" using open_func_ok [of 0 1] by blast
  have "consts_ok fs" "valid_key (key_of (fs_addr fs) (KNumber 0))" using fs(2) dbl_zero_not_nan [of 0] by (simp_all add: gen_ok_def valid_key_def dbl_zero_def)
  from addk_shares [OF this] fs(3) have "luaK_numberK 0 fs \<in> {Some (Inl (RunError ''table overflow'')), Some (Inl (RunError ''constant table overflow''))} \<or>
    (\<exists>i fs'. luaK_numberK 0 fs = Some (Inr (int i, fs')) \<and> fs_k fs' = [KNumber 0])" by (auto simp: luaK_numberK_def)
  with fs(1) show ?thesis by blast
qed

subsection \<open>Registers to nil\<close>

text \<open>\<^verbatim>\<open>OP_LOADNIL\<close> as the virtual machine runs it, from the last register down to the first, and a sequence of these instructions.\<close>

definition op_loadnil :: "Instruction \<Rightarrow> (int \<Rightarrow> 'v option) \<Rightarrow> int \<Rightarrow> 'v option" where
  "op_loadnil i R = (\<lambda>r. if r = GETARG_B i \<or> GETARG_A i \<le> r \<and> r \<le> GETARG_B i then None else R r)"

definition run_nils :: "Instruction list \<Rightarrow> (int \<Rightarrow> 'v option) \<Rightarrow> int \<Rightarrow> 'v option" where
  "run_nils = fold op_loadnil"

lemma op_loadnil_new:
  assumes "0 \<le> first" "1 \<le> n" "first + n - 1 \<le> MAXARG_A"
  shows "GET_OPCODE (CREATE_ABC OP_LOADNIL first (first + n - 1) 0) = Some OP_LOADNIL"
    "op_loadnil (CREATE_ABC OP_LOADNIL first (first + n - 1) 0) R = (\<lambda>r. if first \<le> r \<and> r \<le> first + n - 1 then None else R r)"
  using CREATE_ABC_fields [of first "first + n - 1" 0 OP_LOADNIL] assms
  by (auto simp: op_loadnil_def fun_eq_iff MAXARG_A_def MAXARG_B_def MAXARG_C_def field_defs)

lemma op_loadnil_more:
  assumes "GETARG_A i \<le> GETARG_B i" "GETARG_A i \<le> first" "first \<le> GETARG_B i + 1" "GETARG_B i < m" "m \<le> MAXARG_B"
  shows "op_loadnil (SETARG_B i m) R = (\<lambda>r. if first \<le> r \<and> r \<le> m then None else op_loadnil i R r)"
  using SETARG_independent [of m i] GETARG_bounds(3) [of i] assms by (auto simp: op_loadnil_def fun_eq_iff)

text \<open>C39: Setting registers to nil right after an instruction that does so, which no jump can reach between them, has the effect of the two instructions, whether
  the code generator widens the first or emits a second: the code before is as it was and every register of the new range is nil, the others as the
  first instruction left them.\<close>

theorem luaK_nil_merges:
  assumes r: "0 \<le> first" "1 \<le> n" "first + n - 1 \<le> MAXARG_A" and fs: "jpc fs = NO_JUMP" "lasttarget fs < pc_of fs" "pc_of fs < MAX_INT" "fs_code fs = cs @ [prev]"
    and prev: "GET_OPCODE prev = Some OP_LOADNIL" "GETARG_A prev \<le> GETARG_B prev"
  shows "\<exists>new fs'. luaK_nil first n fs = Some (Inr ((), fs')) \<and> fs_code fs' = cs @ new \<and> (\<forall>i\<in>set new. GET_OPCODE i = Some OP_LOADNIL) \<and>
    run_nils new R = (\<lambda>r. if first \<le> r \<and> r \<le> first + n - 1 then None else run_nils [prev] R r)"
proof -
  let ?m = "first + n - 1"
  have pc: "pc_of fs = int (length cs) + 1" using fs(4) by (simp add: pc_of_def)
  have pr: "code_at (pc_of fs - 1) (fs_code fs) = prev" using fs(4) pc by (simp add: code_at_def)
  have m: "0 \<le> ?m" "?m \<le> MAXARG_B" using r by (simp_all add: MAXARG_A_def MAXARG_B_def field_defs)
  show ?thesis
  proof (cases "GETARG_A prev \<le> first \<and> first \<le> GETARG_B prev + 1")
    case True
    define new where "new = (if ?m > GETARG_B prev then SETARG_B prev ?m else prev)"
    have "luaK_nil first n fs = Some (Inr ((), fs\<lparr>fs_code := cs @ [new]\<rparr>))"
      using True pr fs pc prev by (simp add: luaK_nil_def nil_merged_def Let_def gbind_def gget_def gmod_def new_def set_code_def)
    moreover have "GET_OPCODE new = Some OP_LOADNIL" using SETARG_independent [OF m, of prev] prev by (simp add: new_def)
    moreover have "run_nils [new] R = (\<lambda>r. if first \<le> r \<and> r \<le> ?m then None else run_nils [prev] R r)"
    proof (cases "?m > GETARG_B prev")
      case more: True
      then show ?thesis using op_loadnil_more [OF prev(2) _ _ more m(2), of first R] True by (simp add: run_nils_def new_def cong: if_cong)
    next
      case False
      then show ?thesis using True by (auto simp: run_nils_def new_def op_loadnil_def)
    qed
    ultimately show ?thesis by (intro exI [of _ "[new]"] exI [of _ "fs\<lparr>fs_code := cs @ [new]\<rparr>"]) simp
  next
    case False
    let ?i = "CREATE_ABC OP_LOADNIL first ?m 0"
    let ?fs = "fs\<lparr>jpc := NO_JUMP, fs_code := cs @ [prev, ?i], fs_lineinfo := fs_lineinfo fs @ [lastline fs]\<rparr>"
    have "nil_merged first n fs = None" using False pr fs(2) pc prev(1) by (auto simp: nil_merged_def Let_def)
    then have "luaK_nil first n fs = Some (Inr ((), ?fs))" using fs
      by (simp add: luaK_nil_def gbind_def gget_def gmod_def gthen_def gret_def luaK_codeABC_def luaK_code_def dischargejpc_def on_code_def
          patchlistaux.simps [of NO_JUMP] pc_of_def)
    then show ?thesis using op_loadnil_new [OF r] prev(1)
      by (intro exI [of _ "[prev, ?i]"] exI [of _ ?fs]) (simp add: run_nils_def cong: if_cong)
  qed
qed

theorem luaK_nil_merges_witness:
  "\<exists>new fs'. luaK_nil 2 3 (sample_state\<lparr>fs_code := [CREATE_ABC OP_LOADNIL 0 1 0]\<rparr>) = Some (Inr ((), fs')) \<and> fs_code fs' = new \<and> run_nils new (\<lambda>r. Some r) 4 = None"
proof -
  let ?fs = "sample_state\<lparr>fs_code := [CREATE_ABC OP_LOADNIL 0 1 0]\<rparr>"
  have "(2 :: int) + 3 - 1 \<le> MAXARG_A" "jpc ?fs = NO_JUMP" "lasttarget ?fs < pc_of ?fs" "pc_of ?fs < MAX_INT" "GET_OPCODE (CREATE_ABC OP_LOADNIL 0 1 0) = Some OP_LOADNIL"
    "GETARG_A (CREATE_ABC OP_LOADNIL 0 1 0) \<le> GETARG_B (CREATE_ABC OP_LOADNIL 0 1 0)" by code_simp+
  from luaK_nil_merges [of 2 3 ?fs "[]", OF _ _ this(1-4) _ this(5,6), of "\<lambda>r. Some r"] show ?thesis by auto
qed

lemma luaK_code_plain:
  assumes "jpc fs = NO_JUMP" "pc_of fs < MAX_INT"
  shows "luaK_code i line fs = Some (Inr (pc_of fs, fs\<lparr>jpc := NO_JUMP, fs_code := fs_code fs @ [i], fs_lineinfo := fs_lineinfo fs @ [line]\<rparr>))"
  using assms by (simp add: luaK_code_def gthen_def gbind_def dischargejpc_def on_code_def gmod_def patchlistaux.simps [of NO_JUMP] pc_of_def)

subsection \<open>Long tables\<close>

definition waiting_jump :: Instruction where "waiting_jump = CREATE_ABx OP_JMP 0 (NO_JUMP + MAXARG_sBx)"

lemma operand_patched:
  "patchtestreg 2 NO_REG [CREATE_ABC OP_SETLIST 0 1 0, 539, waiting_jump] = (True, [CREATE_ABC OP_SETLIST 0 1 0, 26, waiting_jump])"
  "getjump [CREATE_ABC OP_SETLIST 0 1 0, 539, waiting_jump] 2 = NO_JUMP"
  by code_simp+

text \<open>The word that follows the instruction for a table constructor with more than 25550 elements, the number of its batch, is not protected when a
  jump is emitted right after it: patching that jump takes the word for the test that controls it.  For 26901 elements the batch number is 539, which
  reads as a test that sets a register, and it becomes 26, so that the last element is stored at index 1251.\<close>

lemma setlist_operand_overwritten:
  "\<exists>fs fs1 fs2. open_func 0 1 = Some (Inr fs) \<and> luaK_setlist 0 26901 1 fs = Some (Inr ((), fs1)) \<and> fs_code fs1 = [CREATE_ABC OP_SETLIST 0 1 0, 539] \<and>
     gbind luaK_jump (\<lambda>j. gthen (luaK_patchtohere j) (luaK_ret 0 0)) fs1 = Some (Inr ((), fs2)) \<and> fs_code fs2 ! 1 = 26"
proof -
  obtain fs where fs: "open_func 0 1 = Some (Inr fs)" "fs_code fs = []" "jpc fs = NO_JUMP" "lasttarget fs = - 1" using open_func_ok [of 0 1] by blast
  let ?fs1 = "fs\<lparr>jpc := NO_JUMP, fs_code := [CREATE_ABC OP_SETLIST 0 1 0, 539], fs_lineinfo := fs_lineinfo fs @ [lastline fs, lastline fs], freereg_of := 1\<rparr>"
  have s: "luaK_setlist 0 26901 1 fs = Some (Inr ((), ?fs1))"
    using fs by (simp add: luaK_setlist_def gthen_def gbind_def gget_def gmod_def luaK_codeABC_def luaK_code_plain pc_of_def MAX_INT_def LFIELDS_PER_FLUSH_def MAXARG_C_def
      field_defs LUA_MULTRET_def)
  let ?c = "[CREATE_ABC OP_SETLIST 0 1 0, 539, waiting_jump]"
  let ?fs2 = "?fs1\<lparr>fs_code := ?c, fs_lineinfo := fs_lineinfo ?fs1 @ [lastline fs]\<rparr>"
  have j: "luaK_jump ?fs1 = Some (Inr (2, ?fs2))"
    by (simp add: luaK_jump_def gthen_def gbind_def gget_def gmod_def luaK_codeAsBx_def luaK_codeABx_def luaK_code_plain pc_of_def MAX_INT_def luaK_concat_def gret_def waiting_jump_def)
  let ?fs3 = "?fs2\<lparr>lasttarget := 3, jpc := 2\<rparr>"
  have h: "luaK_patchtohere 2 ?fs2 = Some (Inr ((), ?fs3))"
    by (simp add: luaK_patchtohere_def luaK_getlabel_def gthen_def gbind_def gget_def gmod_def pc_of_def luaK_concat_def gret_def NO_JUMP_def)
  have p: "patchlistaux 2 3 NO_REG 3 ?c = Some (Inr (set_code 2 (SETARG_sBx waiting_jump 0) [CREATE_ABC OP_SETLIST 0 1 0, 26, waiting_jump]))"
    by (subst patchlistaux.simps) (simp add: operand_patched Let_def fixjump_cases patchlistaux.simps [of NO_JUMP, unfolded NO_JUMP_def] code_at_def NO_JUMP_def MAXARG_sBx_def MAXARG_Bx_def field_defs)
  have "\<exists>fs4. luaK_ret 0 0 ?fs3 = Some (Inr ((), fs4)) \<and> fs_code fs4 ! 1 = 26"
    using p by (simp add: luaK_ret_def gthen_def gbind_def gget_def gmod_def gret_def luaK_codeABC_def luaK_code_def dischargejpc_def on_code_def pc_of_def MAX_INT_def set_code_def)
  then obtain fs4 where "luaK_ret 0 0 ?fs3 = Some (Inr ((), fs4))" "fs_code fs4 ! 1 = 26" by blast
  with j h have "gbind luaK_jump (\<lambda>j. gthen (luaK_patchtohere j) (luaK_ret 0 0)) ?fs1 = Some (Inr ((), fs4))" by (simp add: gthen_def gbind_def)
  with fs(1) s \<open>fs_code fs4 ! 1 = 26\<close> show ?thesis by (intro exI [of _ fs] exI [of _ ?fs1] exI [of _ fs4]) simp
qed

end
