(* ===== verification/Lua_Parse.thy ===== *)
theory Lua_Parse
  imports Lua_Code_Props Lua_Undump
begin

text \<open>
  \<^verbatim>\<open>src/src/lparser.c\<close>: the parser of Lua, which calls the lexical analyzer for tokens and the code generator for instructions.  Its state has the analyzer, the
  chain of the functions that are open, the innermost first, and the number of nested syntax levels.  A function that changes an expression descriptor through
  a pointer returns it.  Strings are their contents, and anchoring them for the garbage collector is not modelled.  The functions that call each
  other recursively take the two through which all recursion goes, \<open>subexpr\<close> and \<open>chunk\<close>, as arguments.
\<close>

subsection \<open>State\<close>

definition LUAI_MAXVARS :: int where "LUAI_MAXVARS = 200"
definition LUAI_MAXUPVALUES :: int where "LUAI_MAXUPVALUES = 60"
definition SHRT_MAX :: int where "SHRT_MAX = 2 ^ 15 - 1"

record BlockCnt =
  breaklist :: int
  bl_nactvar :: int
  bl_upval :: bool
  isbreakable :: bool

text \<open>A function under construction: what the code generator works on, and the rest of \<open>FuncState\<close> and of its prototype.  The first vector of upvalues holds their
  descriptors, the second their names; \<open>fn_actvar\<close> has the places of the active local variables.\<close>

record Func =
  fn :: FuncState
  fn_linedefined :: int
  fn_lastlinedefined :: int
  fn_numparams :: byte
  fn_is_vararg :: byte
  fn_p :: "Proto list"
  fn_locvars :: "LocVar list"
  fn_actvar :: "nat list"
  fn_bl :: "BlockCnt list"
  fn_upvalues :: "(expkind \<times> int) list"
  fn_upnames :: "TString list"

record Parser =
  p_ls :: "64 word LexState"
  p_format :: "64 word number_format"
  p_fs :: "Func list"
  nCcalls :: nat
  tables :: nat

text \<open>What the parser uses of its environment: that of the analyzer, the arithmetic of constant folding, and the addresses of new tables.\<close>

record par_env =
  par_lex :: "64 word lex_env"
  par_arith :: arithmetic
  par_addr :: "nat \<Rightarrow> 64 word"

definition tstring :: "string \<Rightarrow> TString" where "tstring s = map of_char s"

type_synonym 'a par = "Parser \<Rightarrow> (string + 'a \<times> Parser) option"

definition pret :: "'a \<Rightarrow> 'a par" where "pret x st = Some (Inr (x, st))"
definition pbind :: "'a par \<Rightarrow> ('a \<Rightarrow> 'b par) \<Rightarrow> 'b par" where
  "pbind m f st = (case m st of None \<Rightarrow> None | Some (Inl e) \<Rightarrow> Some (Inl e) | Some (Inr (x, st)) \<Rightarrow> f x st)"
definition pthen :: "'a par \<Rightarrow> 'b par \<Rightarrow> 'b par" where "pthen m n = pbind m (\<lambda>_. n)"
definition pget :: "(Parser \<Rightarrow> 'a) \<Rightarrow> 'a par" where "pget f st = Some (Inr (f st, st))"
definition pmod :: "(Parser \<Rightarrow> Parser) \<Rightarrow> unit par" where "pmod f st = Some (Inr ((), f st))"

lemma pbind_cong [fundef_cong]:
  "m = m' \<Longrightarrow> (\<And>x st st'. m' st = Some (Inr (x, st')) \<Longrightarrow> f x = g x) \<Longrightarrow> pbind m f = pbind m' g"
  by (auto simp: pbind_def fun_eq_iff split: option.splits sum.splits)

lemma pthen_cong [fundef_cong]: "m = m' \<Longrightarrow> n = n' \<Longrightarrow> pthen m n = pthen m' n'"
  by simp

text \<open>A loop whose body gives the next value of its variables, or the result.\<close>

partial_function (option) ploop :: "('a \<Rightarrow> ('a + 'b) par) \<Rightarrow> 'a \<Rightarrow> 'b par" where
  "ploop body x st = (case body x st of
     None \<Rightarrow> None
   | Some (Inl e) \<Rightarrow> Some (Inl e)
   | Some (Inr (Inl y, st)) \<Rightarrow> ploop body y st
   | Some (Inr (Inr z, st)) \<Rightarrow> Some (Inr (z, st)))"

declare ploop.simps [code]

definition again :: "'a \<Rightarrow> ('a + 'b) par" where "again x = pret (Inl x)"
definition finish :: "'b \<Rightarrow> ('a + 'b) par" where "finish x = pret (Inr x)"

text \<open>The message of an error of the code generator.\<close>

fun gen_message :: "Parser \<Rightarrow> gen_error \<Rightarrow> string" where
  "gen_message st (SyntaxError msg) = luaX_syntaxerror (p_format st) (p_ls st) msg"
| "gen_message st (RunError msg) = msg"

text \<open>The innermost function, and the code generator working on it; it reads the last line from the analyzer, and the current token when it raises an error.\<close>

definition top :: "(Func \<Rightarrow> 'a) \<Rightarrow> 'a par" where
  "top g st = (case p_fs st of [] \<Rightarrow> None | f # _ \<Rightarrow> Some (Inr (g f, st)))"

definition on_top :: "(Func \<Rightarrow> Func) \<Rightarrow> unit par" where
  "on_top g st = (case p_fs st of [] \<Rightarrow> None | f # fs \<Rightarrow> Some (Inr ((), st\<lparr>p_fs := g f # fs\<rparr>)))"

definition on_fn :: "'a gen \<Rightarrow> 'a par" where
  "on_fn m st = (case p_fs st of
     [] \<Rightarrow> None
   | f # fs \<Rightarrow> (case m ((fn f)\<lparr>FuncState.lastline := LexState.lastline (p_ls st)\<rparr>) of
        None \<Rightarrow> None
      | Some (Inl e) \<Rightarrow> Some (Inl (gen_message st e))
      | Some (Inr (x, c)) \<Rightarrow> Some (Inr (x, st\<lparr>p_fs := f\<lparr>fn := c\<rparr> # fs\<rparr>))))"

definition freereg_now :: "int par" where "freereg_now = top (\<lambda>f. freereg_of (fn f))"
definition set_freereg :: "int \<Rightarrow> unit par" where "set_freereg r = on_fn (gmod (\<lambda>fs. fs\<lparr>freereg_of := r\<rparr>))"
definition nactvar_now :: "int par" where "nactvar_now = top (\<lambda>f. nactvar (fn f))"

subsection \<open>Tokens and errors\<close>

definition TK_AND :: nat where "TK_AND = 257"
definition TK_BREAK :: nat where "TK_BREAK = 258"
definition TK_DO :: nat where "TK_DO = 259"
definition TK_ELSE :: nat where "TK_ELSE = 260"
definition TK_ELSEIF :: nat where "TK_ELSEIF = 261"
definition TK_END :: nat where "TK_END = 262"
definition TK_FALSE :: nat where "TK_FALSE = 263"
definition TK_FOR :: nat where "TK_FOR = 264"
definition TK_FUNCTION :: nat where "TK_FUNCTION = 265"
definition TK_IF :: nat where "TK_IF = 266"
definition TK_IN :: nat where "TK_IN = 267"
definition TK_LOCAL :: nat where "TK_LOCAL = 268"
definition TK_NIL :: nat where "TK_NIL = 269"
definition TK_NOT :: nat where "TK_NOT = 270"
definition TK_OR :: nat where "TK_OR = 271"
definition TK_REPEAT :: nat where "TK_REPEAT = 272"
definition TK_RETURN :: nat where "TK_RETURN = 273"
definition TK_THEN :: nat where "TK_THEN = 274"
definition TK_TRUE :: nat where "TK_TRUE = 275"
definition TK_UNTIL :: nat where "TK_UNTIL = 276"
definition TK_WHILE :: nat where "TK_WHILE = 277"

text \<open>A token that is a character.\<close>

definition tk :: "char \<Rightarrow> nat" where "tk c = uchar_nat c"

definition token :: "nat par" where "token = pget (\<lambda>st. fst (ls_t (p_ls st)))"
definition line_now :: "int par" where "line_now = pget (\<lambda>st. linenumber (p_ls st))"

text \<open>The string of the current token.\<close>

definition token_string :: "string par" where
  "token_string = pget (\<lambda>st. case snd (ls_t (p_ls st)) of StrInfo s \<Rightarrow> s | _ \<Rightarrow> [])"

definition p_next :: "par_env \<Rightarrow> unit par" where
  "p_next env st = (case luaX_next (par_lex env) (p_ls st) of Inl e \<Rightarrow> Some (Inl e) | Inr ls \<Rightarrow> Some (Inr ((), st\<lparr>p_ls := ls\<rparr>)))"

definition p_lookahead :: "par_env \<Rightarrow> nat par" where
  "p_lookahead env st = (case luaX_lookahead (par_lex env) (p_ls st) of
     Inl e \<Rightarrow> Some (Inl e) | Inr ls \<Rightarrow> Some (Inr (fst (lookahead ls), st\<lparr>p_ls := ls\<rparr>)))"

abbreviation nf_of :: "par_env \<Rightarrow> 64 word number_format" where "nf_of env \<equiv> env_format (par_lex env)"

definition syntax_error :: "par_env \<Rightarrow> string \<Rightarrow> 'a par" where
  "syntax_error env msg st = Some (Inl (luaX_syntaxerror (nf_of env) (p_ls st) msg))"

definition lex_error :: "par_env \<Rightarrow> string \<Rightarrow> 'a par" where
  "lex_error env msg st = Some (Inl (luaX_lexerror (nf_of env) (p_ls st) msg 0))"

definition error_expected :: "par_env \<Rightarrow> nat \<Rightarrow> 'a par" where
  "error_expected env t = syntax_error env
     (luaO_pushfstring (nf_of env) (LUA_QS @ '' expected'') [ArgStr (Some (luaX_token2str (nf_of env) t))])"

definition limit_message :: "par_env \<Rightarrow> Func \<Rightarrow> int \<Rightarrow> string \<Rightarrow> string" where
  "limit_message env f limit what = (if fn_linedefined f = 0
     then luaO_pushfstring (nf_of env) ''main function has more than %d %s'' [ArgInt (of_int limit), ArgStr (Some what)]
     else luaO_pushfstring (nf_of env) ''function at line %d has more than %d %s'' [ArgInt (of_int (fn_linedefined f)), ArgInt (of_int limit), ArgStr (Some what)])"

definition errorlimit :: "par_env \<Rightarrow> int \<Rightarrow> string \<Rightarrow> 'a par" where
  "errorlimit env limit what = pbind (top (\<lambda>f. limit_message env f limit what)) (lex_error env)"

definition luaY_checklimit :: "par_env \<Rightarrow> int \<Rightarrow> int \<Rightarrow> string \<Rightarrow> unit par" where
  "luaY_checklimit env v l m = (if v > l then errorlimit env l m else pret ())"

definition testnext :: "par_env \<Rightarrow> nat \<Rightarrow> bool par" where
  "testnext env c = pbind token (\<lambda>t. if t = c then pthen (p_next env) (pret True) else pret False)"

definition check_token :: "par_env \<Rightarrow> nat \<Rightarrow> unit par" where
  "check_token env c = pbind token (\<lambda>t. if t \<noteq> c then error_expected env c else pret ())"

definition checknext :: "par_env \<Rightarrow> nat \<Rightarrow> unit par" where
  "checknext env c = pthen (check_token env c) (p_next env)"

definition check_condition :: "par_env \<Rightarrow> bool \<Rightarrow> string \<Rightarrow> unit par" where
  "check_condition env c msg = (if \<not> c then syntax_error env msg else pret ())"

definition check_match :: "par_env \<Rightarrow> nat \<Rightarrow> nat \<Rightarrow> int \<Rightarrow> unit par" where
  "check_match env what who line = pbind (testnext env what) (\<lambda>b. if b then pret () else
     pbind line_now (\<lambda>l. if line = l then error_expected env what
       else syntax_error env (luaO_pushfstring (nf_of env) (LUA_QS @ '' expected (to close '' @ LUA_QS @ '' at line %d)'')
         [ArgStr (Some (luaX_token2str (nf_of env) what)), ArgStr (Some (luaX_token2str (nf_of env) who)), ArgInt (of_int line)])))"

definition str_checkname :: "par_env \<Rightarrow> string par" where
  "str_checkname env = pthen (check_token env TK_NAME) (pbind token_string (\<lambda>s. pthen (p_next env) (pret s)))"

subsection \<open>Descriptors\<close>

text \<open>The fields that the C code does not set are not read before they are.\<close>

definition init_exp :: "expkind \<Rightarrow> int \<Rightarrow> expdesc" where
  "init_exp k i = \<lparr>ek = k, info = i, aux = 0, nval = 0, t_list = NO_JUMP, f_list = NO_JUMP\<rparr>"

definition hasmultret :: "expkind \<Rightarrow> bool" where "hasmultret k = (k = VCALL \<or> k = VVARARG)"

definition codestring :: "string \<Rightarrow> expdesc par" where
  "codestring s = pbind (on_fn (luaK_stringK s)) (\<lambda>i. pret (init_exp VK i))"

definition checkname :: "par_env \<Rightarrow> expdesc par" where
  "checkname env = pbind (str_checkname env) codestring"

subsection \<open>Variables\<close>

text \<open>The first instruction of a variable is set when it becomes active.\<close>

definition registerlocalvar :: "TString \<Rightarrow> nat par" where
  "registerlocalvar name = pbind (top (\<lambda>f. length (fn_locvars f))) (\<lambda>n.
     if int n \<ge> SHRT_MAX then (\<lambda>st. Some (Inl ''too many local variables''))
     else pthen (on_top (\<lambda>f. f\<lparr>fn_locvars := fn_locvars f @ [\<lparr>varname = Some name, startpc = 0, endpc = 0\<rparr>]\<rparr>)) (pret n))"

definition new_localvar :: "par_env \<Rightarrow> string \<Rightarrow> nat \<Rightarrow> unit par" where
  "new_localvar env name n = pbind nactvar_now (\<lambda>na.
     pthen (luaY_checklimit env (na + int n + 1) LUAI_MAXVARS ''local variables'')
       (pbind (registerlocalvar (tstring name)) (\<lambda>v. on_top (\<lambda>f. f\<lparr>fn_actvar := (fn_actvar f)[nat (na + int n) := v]\<rparr>))))"

text \<open>A change of the \<open>i\<close>-th active variable.\<close>

definition set_locvar :: "int \<Rightarrow> (LocVar \<Rightarrow> LocVar) \<Rightarrow> Func \<Rightarrow> Func" where
  "set_locvar i g f = (let k = fn_actvar f ! nat i in f\<lparr>fn_locvars := (fn_locvars f)[k := g (fn_locvars f ! k)]\<rparr>)"

definition set_nactvar :: "int \<Rightarrow> Func \<Rightarrow> Func" where
  "set_nactvar n f = f\<lparr>fn := (fn f)\<lparr>nactvar := n\<rparr>\<rparr>"

definition begin_var :: "int \<Rightarrow> Func \<Rightarrow> Func" where
  "begin_var i f = set_locvar i (\<lambda>v. v\<lparr>startpc := of_int (pc_of (fn f))\<rparr>) f"

definition adjustlocalvars :: "nat \<Rightarrow> unit par" where
  "adjustlocalvars nvars = on_top (\<lambda>f. let na = (nactvar (fn f) + int nvars) mod 256 in
     fold begin_var [na - int nvars..na - 1] (set_nactvar na f))"

function removevars :: "int \<Rightarrow> Func \<Rightarrow> Func" where
  "removevars tolevel f = (if nactvar (fn f) > tolevel then
     (let i = nactvar (fn f) - 1 in removevars tolevel (set_locvar i (\<lambda>v. v\<lparr>endpc := of_int (pc_of (fn f))\<rparr>) (set_nactvar i f)))
   else f)"
  by pat_completeness auto
termination
  by (relation "measure (\<lambda>(l, f). nat (nactvar (fn f) - l))") (auto simp: set_locvar_def set_nactvar_def Let_def)

declare removevars.simps [simp del]

fun searchvar_loop :: "Func \<Rightarrow> TString \<Rightarrow> nat \<Rightarrow> int" where
  "searchvar_loop f n 0 = - 1"
| "searchvar_loop f n (Suc i) = (if varname (fn_locvars f ! (fn_actvar f ! i)) = Some n then int i else searchvar_loop f n i)"

definition searchvar :: "Func \<Rightarrow> TString \<Rightarrow> int" where
  "searchvar f n = searchvar_loop f n (nat (nactvar (fn f)))"

text \<open>The index of the upvalue, with the function that may have got a new one, or the message.\<close>

definition indexupvalue :: "par_env \<Rightarrow> 64 word LexState \<Rightarrow> Func \<Rightarrow> TString \<Rightarrow> expdesc \<Rightarrow> string + int \<times> Func" where
  "indexupvalue env ls f name v = (let i = index_of (ek v, info v) (fn_upvalues f) in
     if i < length (fn_upvalues f) then Inr (int i, f)
     else if int (length (fn_upvalues f)) + 1 > LUAI_MAXUPVALUES
     then Inl (luaX_lexerror (nf_of env) ls (limit_message env f LUAI_MAXUPVALUES ''upvalues'') 0)
     else Inr (int (length (fn_upvalues f)), f\<lparr>fn_upvalues := fn_upvalues f @ [(ek v, info v mod 256)], fn_upnames := fn_upnames f @ [name]\<rparr>))"

fun mark_block :: "int \<Rightarrow> BlockCnt list \<Rightarrow> BlockCnt list" where
  "mark_block level [] = []"
| "mark_block level (b # bs) = (if bl_nactvar b > level then b # mark_block level bs else b\<lparr>bl_upval := True\<rparr> # bs)"

definition markupval :: "int \<Rightarrow> Func \<Rightarrow> Func" where
  "markupval level f = f\<lparr>fn_bl := mark_block level (fn_bl f)\<rparr>"

fun singlevaraux :: "par_env \<Rightarrow> 64 word LexState \<Rightarrow> Func list \<Rightarrow> TString \<Rightarrow> bool \<Rightarrow> string + expdesc \<times> Func list" where
  "singlevaraux env ls [] n base = Inr (init_exp VGLOBAL NO_REG, [])"
| "singlevaraux env ls (f # fs) n base = (let v = searchvar f n in
     if v \<ge> 0 then Inr (init_exp VLOCAL v, (if \<not> base then markupval v f else f) # fs)
     else sbind (singlevaraux env ls fs n False) (\<lambda>(var, fs).
       if ek var = VGLOBAL then Inr (var, f # fs)
       else sbind (indexupvalue env ls f n var) (\<lambda>(i, f). Inr (var\<lparr>info := i, ek := VUPVAL\<rparr>, f # fs))))"

definition singlevar :: "par_env \<Rightarrow> expdesc par" where
  "singlevar env = pbind (str_checkname env) (\<lambda>s.
     pbind (\<lambda>st. case singlevaraux env (p_ls st) (p_fs st) (tstring s) True of
         Inl e \<Rightarrow> Some (Inl e) | Inr (var, fs) \<Rightarrow> Some (Inr (var, st\<lparr>p_fs := fs\<rparr>)))
       (\<lambda>var. if ek var = VGLOBAL then pbind (on_fn (luaK_stringK s)) (\<lambda>i. pret (var\<lparr>info := i\<rparr>)) else pret var))"

definition adjust_assign :: "int \<Rightarrow> int \<Rightarrow> expdesc \<Rightarrow> unit par" where
  "adjust_assign nvars nexps e = (let extra = nvars - nexps in
     if hasmultret (ek e) then (let extra = max 0 (extra + 1) in
       pthen (on_fn (luaK_setreturns e extra)) (if extra > 1 then on_fn (luaK_reserveregs (extra - 1)) else pret ()))
     else pthen (if ek e \<noteq> VVOID then pthen (on_fn (luaK_exp2nextreg e)) (pret ()) else pret ())
       (if extra > 0 then pbind freereg_now (\<lambda>reg. pthen (on_fn (luaK_reserveregs extra)) (on_fn (luaK_nil reg extra))) else pret ()))"

subsection \<open>Levels, blocks and functions\<close>

definition enterlevel :: "par_env \<Rightarrow> unit par" where
  "enterlevel env = pthen (pmod (\<lambda>st. st\<lparr>nCcalls := nCcalls st + 1\<rparr>)) (pbind (pget nCcalls) (\<lambda>n.
     if n > LUAI_MAXCCALLS then lex_error env ''chunk has too many syntax levels'' else pret ()))"

definition leavelevel :: "unit par" where "leavelevel = pmod (\<lambda>st. st\<lparr>nCcalls := nCcalls st - 1\<rparr>)"

definition enterblock :: "bool \<Rightarrow> unit par" where
  "enterblock breakable = on_top (\<lambda>f. f\<lparr>fn_bl :=
     \<lparr>breaklist = NO_JUMP, bl_nactvar = nactvar (fn f), bl_upval = False, isbreakable = breakable\<rparr> # fn_bl f\<rparr>)"

definition leaveblock :: "unit par" where
  "leaveblock = pbind (top (\<lambda>f. hd (fn_bl f))) (\<lambda>bl.
     pthen (on_top (\<lambda>f. removevars (bl_nactvar bl) (f\<lparr>fn_bl := tl (fn_bl f)\<rparr>)))
     (pthen (if bl_upval bl then pthen (on_fn (luaK_codeABC OP_CLOSE (bl_nactvar bl) 0 0)) (pret ()) else pret ())
     (pthen (pbind nactvar_now set_freereg)
       (on_fn (luaK_patchtohere (breaklist bl))))))"

text \<open>The prototype that is finished, at the size that its vectors have.\<close>

definition finished_proto :: "string \<Rightarrow> Func \<Rightarrow> Proto" where
  "finished_proto src f = Proto (Some (tstring src)) (of_int (fn_linedefined f)) (of_int (fn_lastlinedefined f)) (of_nat (length (fn_upvalues f))) (fn_numparams f) (fn_is_vararg f)
     (of_int (fs_maxstack (fn f))) (fs_code (fn f)) (fs_k (fn f)) (fn_p f) (map of_int (fs_lineinfo (fn f))) (fn_locvars f) (map Some (fn_upnames f))"

definition source_now :: "string par" where "source_now = pget (\<lambda>st. ls_source (p_ls st))"

text \<open>The instructions after \<open>OP_CLOSURE\<close> say where each upvalue of the new closure comes from.\<close>

fun code_upvalues :: "(expkind \<times> int) list \<Rightarrow> unit par" where
  "code_upvalues [] = pret ()"
| "code_upvalues ((k, i) # us) = pthen (on_fn (luaK_codeABC (if k = VLOCAL then OP_MOVE else OP_GETUPVAL) 0 i 0)) (code_upvalues us)"

definition pushclosure :: "Func \<Rightarrow> expdesc par" where
  "pushclosure func = pbind source_now (\<lambda>src. pbind (top (\<lambda>f. int (length (fn_p f)))) (\<lambda>np.
     if np \<ge> MAXARG_Bx then (\<lambda>st. Some (Inl ''constant table overflow''))
     else pthen (on_top (\<lambda>f. f\<lparr>fn_p := fn_p f @ [finished_proto src func]\<rparr>))
       (pbind (on_fn (luaK_codeABx OP_CLOSURE 0 np)) (\<lambda>pc. pthen (code_upvalues (fn_upvalues func)) (pret (init_exp VRELOCABLE pc))))))"

text \<open>The rest of \<open>open_func\<close>: the new function is the innermost one.\<close>

definition push_func :: "par_env \<Rightarrow> unit par" where
  "push_func env st = (case open_func (par_addr env (tables st)) (LexState.lastline (p_ls st)) of
     None \<Rightarrow> None
   | Some (Inl e) \<Rightarrow> Some (Inl e)
   | Some (Inr c) \<Rightarrow> Some (Inr ((), st\<lparr>tables := tables st + 1, p_fs := \<lparr>fn = c, fn_linedefined = 0, fn_lastlinedefined = 0, fn_numparams = 0,
        fn_is_vararg = 0, fn_p = [], fn_locvars = [], fn_actvar = replicate (nat LUAI_MAXVARS) 0, fn_bl = [], fn_upvalues = [], fn_upnames = []\<rparr> # p_fs st\<rparr>)))"

definition close_func :: "Func par" where
  "close_func = pthen (on_top (removevars 0)) (pthen (on_fn (luaK_ret 0 0))
     (pbind (top (\<lambda>f. f)) (\<lambda>f. pthen (pmod (\<lambda>st. st\<lparr>p_fs := tl (p_fs st)\<rparr>)) (pret f))))"

end
