(* ===== verification/Lua_Grammar.thy ===== *)
theory Lua_Grammar
  imports Lua_Parse
begin

text \<open>
  The grammar rules of \<^verbatim>\<open>src/src/lparser.c\<close>, one function for each; \<open>sub\<close> is \<open>subexpr\<close> and \<open>chk\<close> is \<open>chunk\<close>.  A switch on the current token is a
  chain of conditions, and the loops are \<open>ploop\<close> over their variables.  The two functions themselves are defined at the end, with the number
  of syntax levels that may still be entered as fuel.
\<close>

type_synonym sub = "nat \<Rightarrow> (expdesc \<times> BinOpr) par"

definition expr :: "sub \<Rightarrow> expdesc par" where "expr sub = pbind (sub 0) (\<lambda>(e, op). pret e)"

subsection \<open>Fields and constructors\<close>

definition field :: "par_env \<Rightarrow> expdesc \<Rightarrow> expdesc par" where
  "field env v = pbind (on_fn (luaK_exp2anyreg v)) (\<lambda>v. pthen (p_next env) (pbind (checkname env) (\<lambda>key. on_fn (luaK_indexed v key))))"

definition yindex :: "par_env \<Rightarrow> sub \<Rightarrow> expdesc par" where
  "yindex env sub = pthen (p_next env) (pbind (expr sub) (\<lambda>v. pbind (on_fn (luaK_exp2val v)) (\<lambda>v. pthen (checknext env (tk (CHR '']''))) (pret v))))"

text \<open>\<open>cc_t\<close> is the register of the table, the only part of its descriptor that is used.\<close>

record ConsControl =
  cc_v :: expdesc
  cc_t :: int
  cc_nh :: int
  cc_na :: int
  cc_tostore :: int

definition recfield :: "par_env \<Rightarrow> sub \<Rightarrow> ConsControl \<Rightarrow> ConsControl par" where
  "recfield env sub cc = pbind freereg_now (\<lambda>reg. pbind token (\<lambda>t.
     pbind (if t = TK_NAME then pthen (luaY_checklimit env (cc_nh cc) MAX_INT ''items in a constructor'') (checkname env) else yindex env sub) (\<lambda>key.
     pthen (checknext env (tk (CHR ''='')))
       (pbind (on_fn (luaK_exp2RK key)) (\<lambda>(rkkey, key). pbind (expr sub) (\<lambda>val. pbind (on_fn (luaK_exp2RK val)) (\<lambda>(rkval, val).
         pthen (on_fn (luaK_codeABC OP_SETTABLE (cc_t cc) rkkey rkval)) (pthen (set_freereg reg) (pret (cc\<lparr>cc_nh := cc_nh cc + 1\<rparr>))))))))))"

definition closelistfield :: "ConsControl \<Rightarrow> ConsControl par" where
  "closelistfield cc = (if ek (cc_v cc) = VVOID then pret cc
     else pbind (on_fn (luaK_exp2nextreg (cc_v cc))) (\<lambda>v. let cc = cc\<lparr>cc_v := v\<lparr>ek := VVOID\<rparr>\<rparr> in
       if cc_tostore cc = LFIELDS_PER_FLUSH then pthen (on_fn (luaK_setlist (cc_t cc) (cc_na cc) (cc_tostore cc))) (pret (cc\<lparr>cc_tostore := 0\<rparr>))
       else pret cc))"

definition lastlistfield :: "ConsControl \<Rightarrow> ConsControl par" where
  "lastlistfield cc = (if cc_tostore cc = 0 then pret cc
     else if hasmultret (ek (cc_v cc)) then
       pthen (on_fn (luaK_setmultret (cc_v cc))) (pthen (on_fn (luaK_setlist (cc_t cc) (cc_na cc) LUA_MULTRET)) (pret (cc\<lparr>cc_na := cc_na cc - 1\<rparr>)))
     else pthen (if ek (cc_v cc) \<noteq> VVOID then pthen (on_fn (luaK_exp2nextreg (cc_v cc))) (pret ()) else pret ())
       (pthen (on_fn (luaK_setlist (cc_t cc) (cc_na cc) (cc_tostore cc))) (pret cc)))"

definition listfield :: "par_env \<Rightarrow> sub \<Rightarrow> ConsControl \<Rightarrow> ConsControl par" where
  "listfield env sub cc = pbind (expr sub) (\<lambda>v. pthen (luaY_checklimit env (cc_na cc) MAX_INT ''items in a constructor'')
     (pret (cc\<lparr>cc_v := v, cc_na := cc_na cc + 1, cc_tostore := cc_tostore cc + 1\<rparr>)))"

text \<open>One item, and the loop over them.\<close>

definition cons_item :: "par_env \<Rightarrow> sub \<Rightarrow> ConsControl \<Rightarrow> ConsControl par" where
  "cons_item env sub cc = pbind token (\<lambda>t.
     if t = TK_NAME then pbind (p_lookahead env) (\<lambda>l. if l \<noteq> tk (CHR ''='') then listfield env sub cc else recfield env sub cc)
     else if t = tk (CHR ''['') then recfield env sub cc
     else listfield env sub cc)"

definition cons_body :: "par_env \<Rightarrow> sub \<Rightarrow> ConsControl \<Rightarrow> (ConsControl + ConsControl) par" where
  "cons_body env sub cc = pbind token (\<lambda>t. if t = tk (CHR 0x7D) then finish cc
     else pbind (closelistfield cc) (\<lambda>cc. pbind (cons_item env sub cc) (\<lambda>cc.
       pbind (testnext env (tk (CHR '',''))) (\<lambda>b. pbind (if b then pret True else testnext env (tk (CHR '';''))) (\<lambda>b. if b then again cc else finish cc)))))"

definition constructor :: "par_env \<Rightarrow> sub \<Rightarrow> expdesc par" where
  "constructor env sub = pbind line_now (\<lambda>line. pbind (on_fn (luaK_codeABC OP_NEWTABLE 0 0 0)) (\<lambda>pc.
     pbind (on_fn (luaK_exp2nextreg (init_exp VRELOCABLE pc))) (\<lambda>t. pthen (checknext env (tk (CHR 0x7B)))
       (pbind (ploop (cons_body env sub) \<lparr>cc_v = init_exp VVOID 0, cc_t = info t, cc_nh = 0, cc_na = 0, cc_tostore = 0\<rparr>) (\<lambda>cc.
         pthen (check_match env (tk (CHR 0x7D)) (tk (CHR 0x7B)) line)
           (pbind (lastlistfield cc) (\<lambda>cc.
             pthen (on_fn (gset pc (\<lambda>i. SETARG_B i (sint (luaO_int2fb (of_int (cc_na cc)))))))
               (pthen (on_fn (gset pc (\<lambda>i. SETARG_C i (sint (luaO_int2fb (of_int (cc_nh cc))))))) (pret t)))))))))"

subsection \<open>Functions\<close>

definition set_vararg :: "byte \<Rightarrow> unit par" where "set_vararg v = on_top (\<lambda>f. f\<lparr>fn_is_vararg := v\<rparr>)"

definition parlist_body :: "par_env \<Rightarrow> nat \<Rightarrow> (nat + nat) par" where
  "parlist_body env n = pbind token (\<lambda>t.
     pthen (if t = TK_NAME then pbind (str_checkname env) (\<lambda>s. new_localvar env s n)
       else if t = TK_DOTS then pthen (p_next env) (pthen (new_localvar env ''arg'' n)
         (pthen (set_vararg (VARARG_HASARG OR VARARG_NEEDSARG)) (on_top (\<lambda>f. f\<lparr>fn_is_vararg := fn_is_vararg f OR VARARG_ISVARARG\<rparr>))))
       else syntax_error env (''<name> or '' @ LUA_QL ''...'' @ '' expected''))
     (pbind (top fn_is_vararg) (\<lambda>v. pbind (if v = 0 then testnext env (tk (CHR '','')) else pret False)
       (\<lambda>b. if b then again (n + 1) else finish (n + 1)))))"

definition parlist :: "par_env \<Rightarrow> unit par" where
  "parlist env = pthen (set_vararg 0) (pbind token (\<lambda>t.
     pbind (if t \<noteq> tk (CHR '')'') then ploop (parlist_body env) 0 else pret 0) (\<lambda>nparams.
     pthen (adjustlocalvars nparams)
       (pthen (on_top (\<lambda>f. f\<lparr>fn_numparams := of_int (nactvar (fn f) - uint (fn_is_vararg f AND VARARG_HASARG))\<rparr>))
         (pbind nactvar_now (\<lambda>n. on_fn (luaK_reserveregs n)))))))"

definition body :: "par_env \<Rightarrow> unit par \<Rightarrow> bool \<Rightarrow> int \<Rightarrow> expdesc par" where
  "body env chk needself line = pthen (push_func env) (pthen (on_top (\<lambda>f. f\<lparr>fn_linedefined := line\<rparr>))
     (pthen (checknext env (tk (CHR ''('')))
     (pthen (if needself then pthen (new_localvar env ''self'' 0) (adjustlocalvars 1) else pret ())
     (pthen (parlist env) (pthen (checknext env (tk (CHR '')'')))
     (pthen chk (pthen (pbind line_now (\<lambda>l. on_top (\<lambda>f. f\<lparr>fn_lastlinedefined := l\<rparr>)))
     (pthen (check_match env TK_END TK_FUNCTION line) (pbind close_func pushclosure)))))))))"

text \<open>The number of expressions and the last of them.\<close>

definition explist1 :: "par_env \<Rightarrow> sub \<Rightarrow> (int \<times> expdesc) par" where
  "explist1 env sub = pbind (expr sub) (\<lambda>v. ploop (\<lambda>(n, v). pbind (testnext env (tk (CHR '',''))) (\<lambda>b.
     if b then pthen (on_fn (luaK_exp2nextreg v)) (pbind (expr sub) (\<lambda>v. again (n + 1, v))) else finish (n, v))) (1, v))"

definition callargs :: "par_env \<Rightarrow> sub \<Rightarrow> int \<Rightarrow> expdesc par" where
  "callargs env sub line = pbind token (\<lambda>t.
     if t = tk (CHR ''('') then
       pbind (pget (\<lambda>st. LexState.lastline (p_ls st))) (\<lambda>last.
         pthen (if line \<noteq> last then syntax_error env ''ambiguous syntax (function call x new statement)'' else pret ())
         (pthen (p_next env) (pbind token (\<lambda>t.
           pbind (if t = tk (CHR '')'') then pret (init_exp VVOID 0)
             else pbind (explist1 env sub) (\<lambda>(n, args). pthen (on_fn (luaK_setmultret args)) (pret args)))
           (\<lambda>args. pthen (check_match env (tk (CHR '')'')) (tk (CHR ''('')) line) (pret args))))))
     else if t = tk (CHR 0x7B) then constructor env sub
     else if t = TK_STRING then pbind token_string (\<lambda>s. pbind (codestring s) (\<lambda>args. pthen (p_next env) (pret args)))
     else syntax_error env ''function arguments expected'')"

definition funcargs :: "par_env \<Rightarrow> sub \<Rightarrow> expdesc \<Rightarrow> expdesc par" where
  "funcargs env sub f = pbind line_now (\<lambda>line. pbind (callargs env sub line) (\<lambda>args. let base = info f in
     pbind (if hasmultret (ek args) then pret LUA_MULTRET
       else pthen (if ek args \<noteq> VVOID then pthen (on_fn (luaK_exp2nextreg args)) (pret ()) else pret ())
         (pbind freereg_now (\<lambda>r. pret (r - (base + 1)))))
     (\<lambda>nparams. pbind (on_fn (luaK_codeABC OP_CALL base (nparams + 1) 2)) (\<lambda>pc.
       pthen (on_fn (luaK_fixline line)) (pthen (set_freereg (base + 1)) (pret (init_exp VCALL pc)))))))"

subsection \<open>Expressions\<close>

definition prefixexp :: "par_env \<Rightarrow> sub \<Rightarrow> expdesc par" where
  "prefixexp env sub = pbind token (\<lambda>t.
     if t = tk (CHR ''('') then pbind line_now (\<lambda>line. pthen (p_next env) (pbind (expr sub) (\<lambda>v.
       pthen (check_match env (tk (CHR '')'')) (tk (CHR ''('')) line) (on_fn (luaK_dischargevars v)))))
     else if t = TK_NAME then singlevar env
     else syntax_error env ''unexpected symbol'')"

definition primary_body :: "par_env \<Rightarrow> sub \<Rightarrow> expdesc \<Rightarrow> (expdesc + expdesc) par" where
  "primary_body env sub v = pbind token (\<lambda>t.
     if t = tk (CHR ''.'') then pbind (field env v) again
     else if t = tk (CHR ''['') then
       pbind (on_fn (luaK_exp2anyreg v)) (\<lambda>v. pbind (yindex env sub) (\<lambda>key. pbind (on_fn (luaK_indexed v key)) again))
     else if t = tk (CHR '':'') then
       pthen (p_next env) (pbind (checkname env) (\<lambda>key. pbind (on_fn (luaK_self v key)) (\<lambda>v. pbind (funcargs env sub v) again)))
     else if t = tk (CHR ''('') \<or> t = TK_STRING \<or> t = tk (CHR 0x7B) then
       pbind (on_fn (luaK_exp2nextreg v)) (\<lambda>v. pbind (funcargs env sub v) again)
     else finish v)"

definition primaryexp :: "par_env \<Rightarrow> sub \<Rightarrow> expdesc par" where
  "primaryexp env sub = pbind (prefixexp env sub) (ploop (primary_body env sub))"

definition number_exp :: "expdesc par" where
  "number_exp = pget (\<lambda>st. (init_exp VKNUM 0)\<lparr>nval := (case snd (ls_t (p_ls st)) of NumInfo r \<Rightarrow> r | _ \<Rightarrow> 0)\<rparr>)"

definition vararg_exp :: "par_env \<Rightarrow> expdesc par" where
  "vararg_exp env = pbind (top fn_is_vararg) (\<lambda>v.
     pthen (check_condition env (v \<noteq> 0) (''cannot use '' @ LUA_QL ''...'' @ '' outside a vararg function''))
     (pthen (set_vararg (v AND NOT VARARG_NEEDSARG)) (pbind (on_fn (luaK_codeABC OP_VARARG 0 1 0)) (\<lambda>pc. pret (init_exp VVARARG pc)))))"

definition simpleexp :: "par_env \<Rightarrow> sub \<Rightarrow> unit par \<Rightarrow> expdesc par" where
  "simpleexp env sub chk = (let last = (\<lambda>m. pbind m (\<lambda>e. pthen (p_next env) (pret e))) in pbind token (\<lambda>t.
     if t = TK_NUMBER then last number_exp
     else if t = TK_STRING then last (pbind token_string codestring)
     else if t = TK_NIL then last (pret (init_exp VNIL 0))
     else if t = TK_TRUE then last (pret (init_exp VTRUE 0))
     else if t = TK_FALSE then last (pret (init_exp VFALSE 0))
     else if t = TK_DOTS then last (vararg_exp env)
     else if t = tk (CHR 0x7B) then constructor env sub
     else if t = TK_FUNCTION then pthen (p_next env) (pbind line_now (body env chk False))
     else primaryexp env sub))"

definition getunopr :: "nat \<Rightarrow> UnOpr" where
  "getunopr t = (if t = TK_NOT then OPR_NOT else if t = tk (CHR ''-'') then OPR_MINUS else if t = tk (CHR ''#'') then OPR_LEN else OPR_NOUNOPR)"

definition getbinopr :: "nat \<Rightarrow> BinOpr" where
  "getbinopr t = (
     if t = tk (CHR ''+'') then OPR_ADD else if t = tk (CHR ''-'') then OPR_SUB else if t = tk (CHR ''*'') then OPR_MUL
     else if t = tk (CHR ''/'') then OPR_DIV else if t = tk (CHR ''%'') then OPR_MOD else if t = tk (CHR ''^'') then OPR_POW
     else if t = TK_CONCAT then OPR_CONCAT else if t = TK_NE then OPR_NE else if t = TK_EQ then OPR_EQ
     else if t = tk (CHR ''<'') then OPR_LT else if t = TK_LE then OPR_LE else if t = tk (CHR ''>'') then OPR_GT
     else if t = TK_GE then OPR_GE else if t = TK_AND then OPR_AND else if t = TK_OR then OPR_OR else OPR_NOBINOPR)"

text \<open>The left and the right priority of the binary operators, in the order of their enumeration.\<close>

fun priority :: "BinOpr \<Rightarrow> nat \<times> nat" where
  "priority OPR_ADD = (6, 6)" | "priority OPR_SUB = (6, 6)" | "priority OPR_MUL = (7, 7)" | "priority OPR_DIV = (7, 7)" | "priority OPR_MOD = (7, 7)"
| "priority OPR_POW = (10, 9)" | "priority OPR_CONCAT = (5, 4)"
| "priority OPR_NE = (3, 3)" | "priority OPR_EQ = (3, 3)"
| "priority OPR_LT = (3, 3)" | "priority OPR_LE = (3, 3)" | "priority OPR_GT = (3, 3)" | "priority OPR_GE = (3, 3)"
| "priority OPR_AND = (2, 2)" | "priority OPR_OR = (1, 1)" | "priority OPR_NOBINOPR = (0, 0)"

definition UNARY_PRIORITY :: nat where "UNARY_PRIORITY = 8"

definition binary_body :: "par_env \<Rightarrow> sub \<Rightarrow> nat \<Rightarrow> expdesc \<times> BinOpr \<Rightarrow> (expdesc \<times> BinOpr + expdesc \<times> BinOpr) par" where
  "binary_body env sub limit = (\<lambda>(v, op).
     if op \<noteq> OPR_NOBINOPR \<and> fst (priority op) > limit then
       pthen (p_next env) (pbind (on_fn (luaK_infix op v)) (\<lambda>v. pbind (sub (snd (priority op))) (\<lambda>(v2, nextop).
         pbind (on_fn (luaK_posfix (par_arith env) op v v2)) (\<lambda>v. again (v, nextop)))))
     else finish (v, op))"

definition subexpr_body :: "par_env \<Rightarrow> sub \<Rightarrow> unit par \<Rightarrow> sub" where
  "subexpr_body env sub chk limit = pthen (enterlevel env) (pbind token (\<lambda>t. let uop = getunopr t in
     pbind (if uop \<noteq> OPR_NOUNOPR then pthen (p_next env) (pbind (sub UNARY_PRIORITY) (\<lambda>(v, op). on_fn (luaK_prefix (par_arith env) uop v)))
       else simpleexp env sub chk) (\<lambda>v. pbind token (\<lambda>t. pbind (ploop (binary_body env sub limit) (v, getbinopr t)) (\<lambda>r. pthen leavelevel (pret r))))))"

subsection \<open>Statements\<close>

definition block_follow :: "nat \<Rightarrow> bool" where
  "block_follow t = (t \<in> {TK_ELSE, TK_ELSEIF, TK_END, TK_UNTIL, TK_EOS})"

definition block :: "unit par \<Rightarrow> unit par" where
  "block chk = pthen (enterblock False) (pthen chk leaveblock)"

text \<open>The left-hand sides of an assignment, the last one first: a local variable that is assigned to and used in an earlier one is replaced there by a copy.\<close>

definition redirect :: "int \<Rightarrow> int \<Rightarrow> expdesc \<Rightarrow> expdesc" where
  "redirect v extra lh = (if ek lh = VINDEXED
     then lh\<lparr>info := if info lh = v then extra else info lh, aux := if aux lh = v then extra else aux lh\<rparr> else lh)"

definition conflicts :: "int \<Rightarrow> expdesc \<Rightarrow> bool" where
  "conflicts v lh = (ek lh = VINDEXED \<and> (info lh = v \<or> aux lh = v))"

definition check_conflict :: "expdesc list \<Rightarrow> expdesc \<Rightarrow> expdesc list par" where
  "check_conflict lhs v = pbind freereg_now (\<lambda>extra.
     pthen (if list_ex (conflicts (info v)) lhs then pthen (on_fn (luaK_codeABC OP_MOVE extra (info v) 0)) (on_fn (luaK_reserveregs 1)) else pret ())
       (pret (map (redirect (info v) extra) lhs)))"

definition is_variable :: "expkind \<Rightarrow> bool" where "is_variable k = (k \<in> {VLOCAL, VUPVAL, VGLOBAL, VINDEXED})"

text \<open>The left-hand sides before this one are returned, since a later one may have changed them.\<close>

definition default_assignment :: "expdesc list \<Rightarrow> expdesc list par" where
  "default_assignment lhs = pbind freereg_now (\<lambda>r. pthen (on_fn (luaK_storevar (hd lhs) (init_exp VNONRELOC (r - 1)))) (pret (tl lhs)))"

definition assign_values :: "par_env \<Rightarrow> sub \<Rightarrow> expdesc list \<Rightarrow> int \<Rightarrow> expdesc list par" where
  "assign_values env sub lhs nvars = pthen (checknext env (tk (CHR ''=''))) (pbind (explist1 env sub) (\<lambda>(nexps, e).
     if nexps \<noteq> nvars then
       pthen (adjust_assign nvars nexps e)
         (pthen (if nexps > nvars then pbind freereg_now (\<lambda>r. set_freereg (r - (nexps - nvars))) else pret ()) (default_assignment lhs))
     else pbind (on_fn (luaK_setoneret e)) (\<lambda>e. pthen (on_fn (luaK_storevar (hd lhs) e)) (pret (tl lhs)))))"

function assignment :: "par_env \<Rightarrow> sub \<Rightarrow> expdesc list \<Rightarrow> int \<Rightarrow> expdesc list par" where
  "assignment env sub lhs nvars = pthen (check_condition env (is_variable (ek (hd lhs))) ''syntax error'')
     (pbind (testnext env (tk (CHR '',''))) (\<lambda>b.
       if b then
         pbind (primaryexp env sub) (\<lambda>nv. pbind (if ek nv = VLOCAL then check_conflict lhs nv else pret lhs) (\<lambda>lhs.
         pbind (pget nCcalls) (\<lambda>n. if nvars > int LUAI_MAXCCALLS - int n then errorlimit env (int LUAI_MAXCCALLS - int n) ''variables in assignment''
           else pbind (assignment env sub (nv # lhs) (nvars + 1)) default_assignment)))
       else assign_values env sub lhs nvars))"
  by pat_completeness auto
termination
  by (relation "measure (\<lambda>(env, sub, lhs, n). nat (int LUAI_MAXCCALLS + 1 - n))") auto

declare assignment.simps [simp del]

text \<open>The list of the jumps that leave the statement when the condition is false.\<close>

definition cond :: "sub \<Rightarrow> int par" where
  "cond sub = pbind (expr sub) (\<lambda>v. pbind (on_fn (luaK_goiftrue (if ek v = VNIL then v\<lparr>ek := VFALSE\<rparr> else v))) (\<lambda>v. pret (f_list v)))"

text \<open>The innermost loop among the blocks, and whether a block inside it has upvalues.\<close>

fun enclosing_loop :: "bool \<Rightarrow> BlockCnt list \<Rightarrow> (bool \<times> nat) option" where
  "enclosing_loop u [] = None"
| "enclosing_loop u (b # bs) = (if isbreakable b then Some (u, 0) else map_option (\<lambda>(u, i). (u, Suc i)) (enclosing_loop (u \<or> bl_upval b) bs))"

definition breakstat :: "par_env \<Rightarrow> unit par" where
  "breakstat env = pbind (top fn_bl) (\<lambda>bs. case enclosing_loop False bs of
     None \<Rightarrow> syntax_error env ''no loop to break''
   | Some (u, i) \<Rightarrow>
       pthen (if u then pthen (on_fn (luaK_codeABC OP_CLOSE (bl_nactvar (bs ! i)) 0 0)) (pret ()) else pret ())
         (pbind (on_fn luaK_jump) (\<lambda>j. pbind (on_fn (luaK_concat (breaklist (bs ! i)) j)) (\<lambda>l.
           on_top (\<lambda>f. f\<lparr>fn_bl := (fn_bl f)[i := (fn_bl f ! i)\<lparr>breaklist := l\<rparr>]\<rparr>)))))"

definition whilestat :: "par_env \<Rightarrow> sub \<Rightarrow> unit par \<Rightarrow> int \<Rightarrow> unit par" where
  "whilestat env sub chk line = pthen (p_next env) (pbind (on_fn luaK_getlabel) (\<lambda>whileinit. pbind (cond sub) (\<lambda>condexit.
     pthen (enterblock True) (pthen (checknext env TK_DO) (pthen (block chk)
       (pthen (pbind (on_fn luaK_jump) (\<lambda>j. on_fn (luaK_patchlist j whileinit)))
         (pthen (check_match env TK_END TK_WHILE line) (pthen leaveblock (on_fn (luaK_patchtohere condexit)))))))))) "

definition repeatstat :: "par_env \<Rightarrow> sub \<Rightarrow> unit par \<Rightarrow> int \<Rightarrow> unit par" where
  "repeatstat env sub chk line = pbind (on_fn luaK_getlabel) (\<lambda>repeat_init. pthen (enterblock True) (pthen (enterblock False)
     (pthen (p_next env) (pthen chk (pthen (check_match env TK_UNTIL TK_REPEAT line)
     (pbind (cond sub) (\<lambda>condexit. pbind (top (\<lambda>f. bl_upval (hd (fn_bl f)))) (\<lambda>u.
       pthen (if \<not> u then pthen leaveblock (on_fn (luaK_patchlist condexit repeat_init))
         else pthen (breakstat env) (pthen (on_fn (luaK_patchtohere condexit)) (pthen leaveblock
           (pbind (on_fn luaK_jump) (\<lambda>j. on_fn (luaK_patchlist j repeat_init))))))
       leaveblock))))))))"

definition exp1 :: "sub \<Rightarrow> unit par" where
  "exp1 sub = pbind (expr sub) (\<lambda>e. pthen (on_fn (luaK_exp2nextreg e)) (pret ()))"

definition forbody :: "par_env \<Rightarrow> unit par \<Rightarrow> int \<Rightarrow> int \<Rightarrow> nat \<Rightarrow> bool \<Rightarrow> unit par" where
  "forbody env chk base line nvars isnum = pthen (adjustlocalvars 3) (pthen (checknext env TK_DO)
     (pbind (if isnum then on_fn (luaK_codeAsBx OP_FORPREP base NO_JUMP) else on_fn luaK_jump) (\<lambda>prep.
       pthen (enterblock False) (pthen (adjustlocalvars nvars) (pthen (on_fn (luaK_reserveregs (int nvars))) (pthen (block chk)
         (pthen leaveblock (pthen (on_fn (luaK_patchtohere prep))
           (pbind (if isnum then on_fn (luaK_codeAsBx OP_FORLOOP base NO_JUMP) else on_fn (luaK_codeABC OP_TFORLOOP base 0 (int nvars))) (\<lambda>endfor.
             pthen (on_fn (luaK_fixline line)) (pbind (if isnum then pret endfor else on_fn luaK_jump) (\<lambda>j. on_fn (luaK_patchlist j (prep + 1))))))))))))))"

definition fornum :: "par_env \<Rightarrow> sub \<Rightarrow> unit par \<Rightarrow> string \<Rightarrow> int \<Rightarrow> unit par" where
  "fornum env sub chk name line = pbind freereg_now (\<lambda>base.
     pthen (new_localvar env ''(for index)'' 0) (pthen (new_localvar env ''(for limit)'' 1) (pthen (new_localvar env ''(for step)'' 2)
     (pthen (new_localvar env name 3) (pthen (checknext env (tk (CHR ''=''))) (pthen (exp1 sub) (pthen (checknext env (tk (CHR '','')))
     (pthen (exp1 sub) (pbind (testnext env (tk (CHR '',''))) (\<lambda>b.
       pthen (if b then exp1 sub
         else pbind freereg_now (\<lambda>r. pbind (on_fn (luaK_numberK (num_of_int 1))) (\<lambda>k. pthen (on_fn (luaK_codeABx OP_LOADK r k)) (on_fn (luaK_reserveregs 1)))))
       (forbody env chk base line 1 True)))))))))))"

definition forlist_names :: "par_env \<Rightarrow> nat \<Rightarrow> (nat + nat) par" where
  "forlist_names env n = pbind (testnext env (tk (CHR '',''))) (\<lambda>b.
     if b then pbind (str_checkname env) (\<lambda>s. pthen (new_localvar env s n) (again (n + 1))) else finish n)"

definition forlist :: "par_env \<Rightarrow> sub \<Rightarrow> unit par \<Rightarrow> string \<Rightarrow> unit par" where
  "forlist env sub chk name = pbind freereg_now (\<lambda>base.
     pthen (new_localvar env ''(for generator)'' 0) (pthen (new_localvar env ''(for state)'' 1) (pthen (new_localvar env ''(for control)'' 2)
     (pthen (new_localvar env name 3) (pbind (ploop (forlist_names env) 4) (\<lambda>nvars. pthen (checknext env TK_IN) (pbind line_now (\<lambda>line.
       pbind (explist1 env sub) (\<lambda>(n, e). pthen (adjust_assign 3 n e) (pthen (on_fn (luaK_checkstack 3)) (forbody env chk base line (nvars - 3) False)))))))))))"

definition forstat :: "par_env \<Rightarrow> sub \<Rightarrow> unit par \<Rightarrow> int \<Rightarrow> unit par" where
  "forstat env sub chk line = pthen (enterblock True) (pthen (p_next env) (pbind (str_checkname env) (\<lambda>name. pbind token (\<lambda>t.
     pthen (if t = tk (CHR ''='') then fornum env sub chk name line
       else if t = tk (CHR '','') \<or> t = TK_IN then forlist env sub chk name
       else syntax_error env (LUA_QL ''='' @ '' or '' @ LUA_QL ''in'' @ '' expected''))
     (pthen (check_match env TK_END TK_FOR line) leaveblock)))))"

definition test_then_block :: "par_env \<Rightarrow> sub \<Rightarrow> unit par \<Rightarrow> int par" where
  "test_then_block env sub chk = pthen (p_next env) (pbind (cond sub) (\<lambda>condexit. pthen (checknext env TK_THEN) (pthen (block chk) (pret condexit))))"

text \<open>The end of a part of an \<open>if\<close>: a jump over the rest, and the target of its condition.\<close>

definition escape :: "int \<times> int \<Rightarrow> int par" where
  "escape = (\<lambda>(escapelist, flist). pbind (on_fn luaK_jump) (\<lambda>j. pbind (on_fn (luaK_concat escapelist j)) (\<lambda>l. pthen (on_fn (luaK_patchtohere flist)) (pret l))))"

definition elseif_body :: "par_env \<Rightarrow> sub \<Rightarrow> unit par \<Rightarrow> int \<times> int \<Rightarrow> ((int \<times> int) + (int \<times> int)) par" where
  "elseif_body env sub chk l = pbind token (\<lambda>t.
     if t = TK_ELSEIF then pbind (escape l) (\<lambda>e. pbind (test_then_block env sub chk) (\<lambda>flist. again (e, flist))) else finish l)"

definition ifstat :: "par_env \<Rightarrow> sub \<Rightarrow> unit par \<Rightarrow> int \<Rightarrow> unit par" where
  "ifstat env sub chk line = pbind (test_then_block env sub chk) (\<lambda>flist. pbind (ploop (elseif_body env sub chk) (NO_JUMP, flist)) (\<lambda>l. pbind token (\<lambda>t.
     pbind (if t = TK_ELSE then pbind (escape l) (\<lambda>e. pthen (p_next env) (pthen (block chk) (pret e)))
       else (case l of (escapelist, flist) \<Rightarrow> on_fn (luaK_concat escapelist flist)))
     (\<lambda>e. pthen (on_fn (luaK_patchtohere e)) (check_match env TK_END TK_IF line)))))"

definition localfunc :: "par_env \<Rightarrow> unit par \<Rightarrow> unit par" where
  "localfunc env chk = pthen (pbind (str_checkname env) (\<lambda>s. new_localvar env s 0)) (pbind freereg_now (\<lambda>r.
     pthen (on_fn (luaK_reserveregs 1)) (pthen (adjustlocalvars 1) (pbind line_now (\<lambda>line. pbind (body env chk False line) (\<lambda>b.
       pthen (on_fn (luaK_storevar (init_exp VLOCAL r) b)) (on_top (\<lambda>f. begin_var (nactvar (fn f) - 1) f))))))))"

definition local_names :: "par_env \<Rightarrow> nat \<Rightarrow> (nat + nat) par" where
  "local_names env n = pbind (str_checkname env) (\<lambda>s. pthen (new_localvar env s n)
     (pbind (testnext env (tk (CHR '',''))) (\<lambda>b. if b then again (n + 1) else finish (n + 1))))"

definition localstat :: "par_env \<Rightarrow> sub \<Rightarrow> unit par" where
  "localstat env sub = pbind (ploop (local_names env) 0) (\<lambda>nvars. pbind (testnext env (tk (CHR ''=''))) (\<lambda>b.
     pbind (if b then explist1 env sub else pret (0, init_exp VVOID 0)) (\<lambda>(nexps, e).
       pthen (adjust_assign (int nvars) nexps e) (adjustlocalvars nvars))))"

definition name_body :: "par_env \<Rightarrow> expdesc \<Rightarrow> (expdesc + expdesc) par" where
  "name_body env v = pbind token (\<lambda>t. if t = tk (CHR ''.'') then pbind (field env v) again else finish v)"

definition funcname :: "par_env \<Rightarrow> (bool \<times> expdesc) par" where
  "funcname env = pbind (singlevar env) (\<lambda>v. pbind (ploop (name_body env) v) (\<lambda>v. pbind token (\<lambda>t.
     if t = tk (CHR '':'') then pbind (field env v) (\<lambda>v. pret (True, v)) else pret (False, v))))"

definition funcstat :: "par_env \<Rightarrow> unit par \<Rightarrow> int \<Rightarrow> unit par" where
  "funcstat env chk line = pthen (p_next env) (pbind (funcname env) (\<lambda>(needself, v). pbind (body env chk needself line) (\<lambda>b.
     pthen (on_fn (luaK_storevar v b)) (on_fn (luaK_fixline line)))))"

definition exprstat :: "par_env \<Rightarrow> sub \<Rightarrow> unit par" where
  "exprstat env sub = pbind (primaryexp env sub) (\<lambda>v.
     if ek v = VCALL then on_fn (gset (info v) (\<lambda>i. SETARG_C i 1)) else pthen (assignment env sub [v] 1) (pret ()))"

definition retvalues :: "par_env \<Rightarrow> sub \<Rightarrow> (int \<times> int) par" where
  "retvalues env sub = pbind (explist1 env sub) (\<lambda>(nret, e).
     if hasmultret (ek e) then
       pthen (on_fn (luaK_setmultret e))
         (pthen (if ek e = VCALL \<and> nret = 1 then on_fn (gset (info e) (\<lambda>i. SET_OPCODE i OP_TAILCALL)) else pret ())
           (pbind nactvar_now (\<lambda>n. pret (n, LUA_MULTRET))))
     else if nret = 1 then pbind (on_fn (luaK_exp2anyreg e)) (\<lambda>e. pret (info e, nret))
     else pthen (on_fn (luaK_exp2nextreg e)) (pbind nactvar_now (\<lambda>n. pret (n, nret))))"

definition retstat :: "par_env \<Rightarrow> sub \<Rightarrow> unit par" where
  "retstat env sub = pthen (p_next env) (pbind token (\<lambda>t.
     pbind (if block_follow t \<or> t = tk (CHR '';'') then pret (0, 0) else retvalues env sub) (\<lambda>(first, nret). on_fn (luaK_ret first nret))))"

definition statement :: "par_env \<Rightarrow> sub \<Rightarrow> unit par \<Rightarrow> bool par" where
  "statement env sub chk = (let no = (\<lambda>m. pthen m (pret False)) in pbind line_now (\<lambda>line. pbind token (\<lambda>t.
     if t = TK_IF then no (ifstat env sub chk line)
     else if t = TK_WHILE then no (whilestat env sub chk line)
     else if t = TK_DO then no (pthen (p_next env) (pthen (block chk) (check_match env TK_END TK_DO line)))
     else if t = TK_FOR then no (forstat env sub chk line)
     else if t = TK_REPEAT then no (repeatstat env sub chk line)
     else if t = TK_FUNCTION then no (funcstat env chk line)
     else if t = TK_LOCAL then no (pthen (p_next env) (pbind (testnext env TK_FUNCTION) (\<lambda>b. if b then localfunc env chk else localstat env sub)))
     else if t = TK_RETURN then pthen (retstat env sub) (pret True)
     else if t = TK_BREAK then pthen (p_next env) (pthen (breakstat env) (pret True))
     else no (exprstat env sub))))"

definition statements :: "par_env \<Rightarrow> sub \<Rightarrow> unit par \<Rightarrow> bool \<Rightarrow> (bool + unit) par" where
  "statements env sub chk islast = pbind token (\<lambda>t. if islast \<or> block_follow t then finish ()
     else pbind (statement env sub chk) (\<lambda>islast. pthen (testnext env (tk (CHR '';''))) (pthen (pbind nactvar_now set_freereg) (again islast))))"

definition chunk_body :: "par_env \<Rightarrow> sub \<Rightarrow> unit par \<Rightarrow> unit par" where
  "chunk_body env sub chk = pthen (enterlevel env) (pthen (ploop (statements env sub chk) False) leavelevel)"

subsection \<open>The parser\<close>

text \<open>The fuel is the number of levels that can still be entered; \<open>enterlevel\<close> raises its error before it runs out.\<close>

fun subexpr :: "par_env \<Rightarrow> nat \<Rightarrow> sub" and chunk :: "par_env \<Rightarrow> nat \<Rightarrow> unit par" where
  "subexpr env 0 limit st = None"
| "subexpr env (Suc n) limit st = subexpr_body env (subexpr env n) (chunk env n) limit st"
| "chunk env 0 st = None"
| "chunk env (Suc n) st = chunk_body env (subexpr env n) (chunk env n) st"

definition luaY_parser_with :: "par_env \<Rightarrow> nat \<Rightarrow> nat \<Rightarrow> zio \<Rightarrow> string \<Rightarrow> (string + Proto) option" where
  "luaY_parser_with env fuel calls z name = (case
     pthen (push_func env) (pthen (set_vararg VARARG_ISVARARG) (pthen (p_next env) (pthen (chunk env fuel)
       (pthen (check_token env TK_EOS) (pbind close_func (\<lambda>f. pbind source_now (\<lambda>src. pret (finished_proto src f))))))))
       \<lparr>p_ls = luaX_setinput z (cstr name), p_format = nf_of env, p_fs = [], nCcalls = calls, tables = 0\<rparr> of
     None \<Rightarrow> None | Some (Inl e) \<Rightarrow> Some (Inl e) | Some (Inr (p, st)) \<Rightarrow> Some (Inr p))"

definition luaY_parser :: "par_env \<Rightarrow> nat \<Rightarrow> zio \<Rightarrow> string \<Rightarrow> (string + Proto) option" where
  "luaY_parser env calls = luaY_parser_with env (LUAI_MAXCCALLS + 1) calls"

end
