(* ===== verification/Lua_Parse_Inv.thy ===== *)
theory Lua_Parse_Inv
  imports Lua_Grammar
begin

text \<open>
  What every grammar rule keeps of the functions that are open, and what a function is like when it is closed: it passes the first stage of the
  bytecode verifier.  As in the code generator, an invariant is kept by a rule when it leads from states with it to states with it only;
  invariants here are properties of the chain of functions.
\<close>

named_theorems pkeeps

definition pkeeps :: "(Func list \<Rightarrow> bool) \<Rightarrow> 'a par \<Rightarrow> bool" where
  "pkeeps R m \<longleftrightarrow> (\<forall>st x st'. R (p_fs st) \<longrightarrow> m st = Some (Inr (x, st')) \<longrightarrow> R (p_fs st'))"

lemma pkeepsI: "(\<And>st x st'. R (p_fs st) \<Longrightarrow> m st = Some (Inr (x, st')) \<Longrightarrow> R (p_fs st')) \<Longrightarrow> pkeeps R m"
  by (auto simp: pkeeps_def)

lemma pkeepsD: "pkeeps R m \<Longrightarrow> m st = Some (Inr (x, st')) \<Longrightarrow> R (p_fs st) \<Longrightarrow> R (p_fs st')"
  by (auto simp: pkeeps_def)

lemma pbind_Inr: "pbind m f st = Some (Inr (y, st')) \<longleftrightarrow> (\<exists>x st1. m st = Some (Inr (x, st1)) \<and> f x st1 = Some (Inr (y, st')))"
  by (auto simp: pbind_def split: option.splits sum.splits)

lemma pthen_Inr: "pthen m n st = Some (Inr (y, st')) \<longleftrightarrow> (\<exists>x st1. m st = Some (Inr (x, st1)) \<and> n st1 = Some (Inr (y, st')))"
  by (simp add: pthen_def pbind_Inr)

lemma pkeeps_pret [pkeeps]: "pkeeps R (pret x)" "pkeeps R (again y)" "pkeeps R (finish z)"
  by (auto simp: pkeeps_def pret_def again_def finish_def)

lemma pkeeps_pbind [pkeeps]: "pkeeps R m \<Longrightarrow> (\<And>x. pkeeps R (f x)) \<Longrightarrow> pkeeps R (pbind m f)"
  unfolding pkeeps_def pbind_Inr by blast

lemma pkeeps_pthen [pkeeps]: "pkeeps R m \<Longrightarrow> pkeeps R n \<Longrightarrow> pkeeps R (pthen m n)"
  by (simp add: pthen_def pkeeps_pbind)

lemma pkeeps_if [pkeeps]: "(b \<Longrightarrow> pkeeps R m) \<Longrightarrow> (\<not> b \<Longrightarrow> pkeeps R n) \<Longrightarrow> pkeeps R (if b then m else n)"
  by simp

lemma pkeeps_let [pkeeps]: "(\<And>x. pkeeps R (f x)) \<Longrightarrow> pkeeps R (let x = e in f x)"
  by simp

lemma pkeeps_prod [pkeeps]: "(\<And>a b. pkeeps R (f a b)) \<Longrightarrow> pkeeps R (case p of (a, b) \<Rightarrow> f a b)"
  by (cases p) simp

lemma pkeeps_option [pkeeps]: "pkeeps R m \<Longrightarrow> (\<And>x. pkeeps R (f x)) \<Longrightarrow> pkeeps R (case r of None \<Rightarrow> m | Some x \<Rightarrow> f x)"
  by (cases r) simp_all

text \<open>The invariant of a loop, with its variables.\<close>

lemma ploop_invariant:
  assumes "ploop bd x st = Some (Inr (z, st'))" "I x st"
    and "\<And>x st y st'. I x st \<Longrightarrow> bd x st = Some (Inr (Inl y, st')) \<Longrightarrow> I y st'"
    and "\<And>x st z st'. I x st \<Longrightarrow> bd x st = Some (Inr (Inr z, st')) \<Longrightarrow> J z st'"
  shows "J z st'"
proof -
  have "bd = bd \<longrightarrow> I x st \<longrightarrow> (\<forall>z st'. r = Inr (z, st') \<longrightarrow> J z st')" if "ploop bd x st = Some r" for r
  proof (rule ploop.raw_induct [where P = "\<lambda>bd' x st r. bd' = bd \<longrightarrow> I x st \<longrightarrow> (\<forall>z st'. r = Inr (z, st') \<longrightarrow> J z st')" and xa = "((bd, x), st)" and y = r,
      unfolded prod.case, OF _ that], intro impI allI)
    fix lp bd' x st r z st'
    assume IH: "\<And>b y st r. lp b y st = Some r \<Longrightarrow> b = bd \<longrightarrow> I y st \<longrightarrow> (\<forall>z st'. r = Inr (z, st') \<longrightarrow> J z st')"
      and b: "bd' = bd" and i: "I x st" and r: "r = Inr (z, st')"
      and s: "(case bd' x st of None \<Rightarrow> None | Some (Inl e) \<Rightarrow> Some (Inl e) | Some (Inr (Inl y, st)) \<Rightarrow> lp bd' y st | Some (Inr (Inr z, st)) \<Rightarrow> Some (Inr (z, st))) = Some r"
    from s r b show "J z st'" using assms(3) [OF i] assms(4) [OF i] IH
      by (auto split: option.splits sum.splits)
  qed
  with assms(1,2) show ?thesis by blast
qed

lemma pkeeps_ploop [pkeeps]: "(\<And>x. pkeeps R (bd x)) \<Longrightarrow> pkeeps R (ploop bd x)"
  by (rule pkeepsI, erule ploop_invariant [where I = "\<lambda>x st. R (p_fs st)"]) (auto dest: pkeepsD)

text \<open>Operations that do not touch the functions.\<close>

lemma pkeeps_state [pkeeps]: "pkeeps R (pget g)" "pkeeps R (top h)" "(\<And>st. p_fs (k st) = p_fs st) \<Longrightarrow> pkeeps R (pmod k)"
  by (auto simp: pkeeps_def pget_def top_def pmod_def split: list.splits)

lemma pkeeps_lexer [pkeeps]: "pkeeps R (p_next env)" "pkeeps R (p_lookahead env)" "pkeeps R (syntax_error env msg)" "pkeeps R (lex_error env msg)"
  "pkeeps R (\<lambda>st. Some (Inl e))"
  by (auto simp: pkeeps_def p_next_def p_lookahead_def syntax_error_def lex_error_def split: sum.splits)

lemma pkeeps_tokens [pkeeps]:
  "pkeeps R token" "pkeeps R line_now" "pkeeps R token_string" "pkeeps R source_now" "pkeeps R freereg_now" "pkeeps R nactvar_now"
  "pkeeps R (error_expected env t)" "pkeeps R (errorlimit env l w)" "pkeeps R (luaY_checklimit env v l w)" "pkeeps R number_exp"
  unfolding token_def line_now_def token_string_def source_now_def freereg_now_def nactvar_now_def error_expected_def errorlimit_def luaY_checklimit_def number_exp_def
  by (intro pkeeps)+

lemma pkeeps_tests [pkeeps]:
  "pkeeps R (testnext env c)" "pkeeps R (check_token env c)" "pkeeps R (checknext env c)" "pkeeps R (check_condition env b w)" "pkeeps R (check_match env c d l)"
  "pkeeps R (str_checkname env)" "pkeeps R (enterlevel env)" "pkeeps R leavelevel"
  unfolding testnext_def check_token_def checknext_def check_condition_def check_match_def str_checkname_def enterlevel_def leavelevel_def
  by (intro pkeeps; simp)+

lemma pkeeps_on_top: "(\<And>f fs. R (f # fs) \<Longrightarrow> R (g f # fs)) \<Longrightarrow> pkeeps R (on_top g)"
  by (auto simp: pkeeps_def on_top_def split: list.splits)

lemma pkeeps_on_fn:
  "(\<And>f fs c l x. R (f # fs) \<Longrightarrow> m ((fn f)\<lparr>FuncState.lastline := l\<rparr>) = Some (Inr (x, c)) \<Longrightarrow> R (f\<lparr>fn := c\<rparr> # fs)) \<Longrightarrow> pkeeps R (on_fn m)"
  by (auto simp: pkeeps_def on_fn_def split: list.splits option.splits sum.splits)

subsection \<open>A function under construction\<close>

text \<open>What holds of every function that the parser makes: it passes the first stage of the verifier, every instruction has its line, the stack has at least the
  two registers that are always valid, and the constants can be indexed and are all different.  Whether two constants are the same does not depend on the
  address of the table of constants.\<close>

definition listing_ok :: "Proto \<Rightarrow> bool" where
  "listing_ok p \<longleftrightarrow> length (lineinfo p) = length (code p) \<and> 2 \<le> uint (maxstacksize p) \<and> uint (maxstacksize p) < MAXSTACK \<and> int (length (ks p)) \<le> MAXARG_Bx \<and>
     (\<forall>i<length (ks p). \<forall>j<length (ks p). same_const 0 (ks p ! i) (ks p ! j) \<longrightarrow> i = j)"

definition parsed_ok :: "Proto \<Rightarrow> bool" where "parsed_ok p \<longleftrightarrow> precheck p \<and> listing_ok p"

lemma all_protos_mono: "all_protos P f \<Longrightarrow> (\<And>g. P g \<Longrightarrow> Q g) \<Longrightarrow> all_protos Q f"
proof (induction P f rule: all_protos.induct)
  case (1 P f)
  then show ?case by (subst all_protos.simps) (auto simp: all_protos.simps [of P f])
qed

lemma same_const_addr: "same_const a v w \<longleftrightarrow> same_const b v w"
  by (cases "(a, v)" rule: key_of.cases; cases "(a, w)" rule: key_of.cases) (simp_all add: same_const_def)

definition hasarg :: "Func \<Rightarrow> int" where "hasarg f = uint (fn_is_vararg f AND VARARG_HASARG)"

definition func_ok :: "Func \<Rightarrow> bool" where
  "func_ok f \<longleftrightarrow> code_ok (max 2 (uint (fn_numparams f) + hasarg f)) (fn f) \<and>
     (fn_is_vararg f AND VARARG_NEEDSARG = 0 \<or> fn_is_vararg f AND VARARG_HASARG \<noteq> 0) \<and>
     length (fn_upnames f) = length (fn_upvalues f) \<and> int (length (fn_upvalues f)) \<le> LUAI_MAXUPVALUES \<and> list_all (all_protos parsed_ok) (fn_p f)"

definition stack_ok :: "nat \<Rightarrow> Func list \<Rightarrow> bool" where
  "stack_ok n fs \<longleftrightarrow> length fs = n \<and> list_all func_ok fs"

lemma stack_ok_Cons: "stack_ok n (f # fs) \<longleftrightarrow> func_ok f \<and> stack_ok (n - 1) fs \<and> 0 < n"
  by (auto simp: stack_ok_def)

lemma code_ok_update [simp]:
  "code_ok n (fs\<lparr>FuncState.lastline := l\<rparr>) = code_ok n fs" "code_ok n (fs\<lparr>nactvar := a\<rparr>) = code_ok n fs" "code_ok n (fs\<lparr>freereg_of := r\<rparr>) = code_ok n fs"
  by (simp_all add: code_ok_def consts_ok_def)

lemma func_ok_update [simp]:
  "func_ok (f\<lparr>fn_linedefined := l\<rparr>) = func_ok f" "func_ok (f\<lparr>fn_lastlinedefined := l\<rparr>) = func_ok f" "func_ok (f\<lparr>fn_locvars := v\<rparr>) = func_ok f"
  "func_ok (f\<lparr>fn_actvar := a\<rparr>) = func_ok f" "func_ok (f\<lparr>fn_bl := b\<rparr>) = func_ok f"
  by (simp_all add: func_ok_def hasarg_def)

lemma func_ok_vars [simp]:
  "func_ok (set_locvar i g f) = func_ok f" "func_ok (set_nactvar n f) = func_ok f" "func_ok (begin_var i f) = func_ok f" "func_ok (markupval v f) = func_ok f"
  by (simp_all add: set_locvar_def set_nactvar_def begin_var_def markupval_def Let_def) (simp add: func_ok_def hasarg_def)

lemma func_ok_removevars [simp]: "func_ok (removevars l f) = func_ok f"
  by (induction l f rule: removevars.induct) (subst removevars.simps, simp add: Let_def)

lemma func_ok_begin_vars: "func_ok (fold begin_var is f) = func_ok f"
  by (induction "is" arbitrary: f) simp_all

lemma keeps_line: "keeps (code_ok k) m \<Longrightarrow> m (fs\<lparr>FuncState.lastline := l\<rparr>) = Some (Inr (x, c)) \<Longrightarrow> code_ok k fs \<Longrightarrow> code_ok k c"
  using keepsD [of "code_ok k" m "fs\<lparr>FuncState.lastline := l\<rparr>" x c] by simp

lemma pkeeps_on_fn_ok [pkeeps]: "pkeeps (stack_ok n) (on_fn m)" if "\<And>k. keeps (code_ok k) m"
  by (rule pkeeps_on_fn) (use keeps_line [OF that] in \<open>auto simp: stack_ok_Cons func_ok_def hasarg_def\<close>)

lemma keeps_code_setlist: "keeps (code_ok k) (luaK_setlist base n m)"
  unfolding luaK_setlist_def Let_def by (intro keeps keeps_gmod) simp

lemma pkeeps_top_ok: "(\<And>f. func_ok f \<Longrightarrow> func_ok (g f)) \<Longrightarrow> pkeeps (stack_ok n) (on_top g)"
  by (rule pkeeps_on_top) (simp add: stack_ok_Cons)

lemma keeps_code_mods: "keeps (code_ok k) (gmod (\<lambda>fs. fs\<lparr>freereg_of := r\<rparr>))"
  by (rule keeps_gmod) simp

lemma pkeeps_registers [pkeeps]:
  "pkeeps (stack_ok n) (set_freereg r)" "pkeeps (stack_ok n) (on_fn (luaK_setlist base k m))"
  unfolding set_freereg_def by (intro pkeeps_on_fn_ok keeps_code_mods keeps_code_setlist)+

lemma pkeeps_vars [pkeeps]:
  "pkeeps (stack_ok n) (registerlocalvar name)" "pkeeps (stack_ok n) (new_localvar env s i)" "pkeeps (stack_ok n) (adjustlocalvars k)"
  "pkeeps (stack_ok n) (enterblock b)" "pkeeps (stack_ok n) leaveblock" "pkeeps (stack_ok n) (codestring s)" "pkeeps (stack_ok n) (checkname env)"
proof -
  show r: "pkeeps (stack_ok n) (registerlocalvar name)" for name unfolding registerlocalvar_def by (intro pkeeps pkeeps_top_ok) simp
  show "pkeeps (stack_ok n) (new_localvar env s i)" unfolding new_localvar_def by (intro pkeeps r pkeeps_top_ok) simp
  show "pkeeps (stack_ok n) (adjustlocalvars k)" unfolding adjustlocalvars_def Let_def by (intro pkeeps_top_ok) (simp add: func_ok_begin_vars)
  show "pkeeps (stack_ok n) (enterblock b)" unfolding enterblock_def by (intro pkeeps_top_ok) simp
  show "pkeeps (stack_ok n) leaveblock" unfolding leaveblock_def by (intro pkeeps pkeeps_top_ok keeps) simp
  show c: "pkeeps (stack_ok n) (codestring s)" for s unfolding codestring_def by (intro pkeeps keeps)
  show "pkeeps (stack_ok n) (checkname env)" unfolding checkname_def by (intro pkeeps c)
qed

lemma indexupvalue_ok:
  assumes "indexupvalue env ls f name v = Inr (i, f')" "func_ok f"
  shows "func_ok f'"
  using assms by (auto simp: indexupvalue_def Let_def func_ok_def hasarg_def split: if_splits)

lemma singlevaraux_ok:
  "singlevaraux env ls fs name base = Inr (var, fs') \<Longrightarrow> stack_ok n fs \<Longrightarrow> stack_ok n fs'"
proof (induction env ls fs name base arbitrary: var fs' n rule: singlevaraux.induct)
  case (2 env ls f fs name base)
  show ?case
  proof (cases "searchvar f name \<ge> 0")
    case True
    then show ?thesis using 2(2,3) by (auto simp: Let_def stack_ok_Cons split: if_splits)
  next
    case False
    with 2(2) obtain v fs1 where v: "singlevaraux env ls fs name False = Inr (v, fs1)"
      "(if ek v = VGLOBAL then Inr (v, f # fs1) else sbind (indexupvalue env ls f name v) (\<lambda>(i, f). Inr (v\<lparr>info := i, ek := VUPVAL\<rparr>, f # fs1))) = Inr (var, fs')"
      by (auto simp: Let_def sbind_Inr)
    have "stack_ok (n - 1) fs1" using 2(1) [OF refl False v(1)] 2(3) by (simp add: stack_ok_Cons)
    with v(2) 2(3) show ?thesis by (auto simp: stack_ok_Cons sbind_Inr split: if_splits dest: indexupvalue_ok)
  qed
qed simp

lemma pkeeps_singlevar [pkeeps]: "pkeeps (stack_ok n) (singlevar env)"
proof -
  have "pkeeps (stack_ok n) (\<lambda>st. case singlevaraux env (p_ls st) (p_fs st) s True of
         Inl e \<Rightarrow> Some (Inl e) | Inr (var, fs) \<Rightarrow> Some (Inr (var, st\<lparr>p_fs := fs\<rparr>)))" for s
    by (auto simp: pkeeps_def split: sum.splits dest: singlevaraux_ok)
  then show ?thesis unfolding singlevar_def by (intro pkeeps keeps)
qed

lemma pkeeps_adjust [pkeeps]: "pkeeps (stack_ok n) (adjust_assign a b e)"
  unfolding adjust_assign_def by (intro pkeeps keeps)

lemma vararg_bits: "(v AND NOT VARARG_NEEDSARG) AND VARARG_NEEDSARG = 0" "(v AND NOT VARARG_NEEDSARG) AND VARARG_HASARG = v AND VARARG_HASARG"
proof -
  have "bit VARARG_NEEDSARG n \<longleftrightarrow> n = 2" "bit VARARG_HASARG n \<longleftrightarrow> n = 0" for n
    using bit_exp_iff [of 2 n, where ?'a = "8 word"] by (auto simp: VARARG_NEEDSARG_def VARARG_HASARG_def bit_simps)
  then show "(v AND NOT VARARG_NEEDSARG) AND VARARG_NEEDSARG = 0" "(v AND NOT VARARG_NEEDSARG) AND VARARG_HASARG = v AND VARARG_HASARG"
    by (auto intro!: bit_word_eqI simp: bit_simps)
qed

lemma pkeeps_vararg [pkeeps]: "pkeeps (stack_ok n) (vararg_exp env)"
proof (rule pkeepsI)
  fix st x st' assume ok: "stack_ok n (p_fs st)" and r: "vararg_exp env st = Some (Inr (x, st'))"
  from r obtain f fs where f: "p_fs st = f # fs" by (auto simp: vararg_exp_def pbind_Inr top_def split: list.splits)
  let ?g = "f\<lparr>fn_is_vararg := fn_is_vararg f AND NOT VARARG_NEEDSARG\<rparr>"
  have g: "stack_ok n (?g # fs)" using ok f vararg_bits [of "fn_is_vararg f"] by (auto simp: stack_ok_Cons func_ok_def hasarg_def)
  from r f have "pbind (on_fn (luaK_codeABC OP_VARARG 0 1 0)) (\<lambda>pc. pret (init_exp VVARARG pc)) (st\<lparr>p_fs := ?g # fs\<rparr>) = Some (Inr (x, st'))"
    by (auto simp: vararg_exp_def pbind_Inr pthen_Inr top_def check_condition_def pret_def set_vararg_def on_top_def syntax_error_def split: if_splits)
  moreover have "pkeeps (stack_ok n) (pbind (on_fn (luaK_codeABC OP_VARARG 0 1 0)) (\<lambda>pc. pret (init_exp VVARARG pc)))" by (intro pkeeps keeps)
  ultimately show "stack_ok n (p_fs st')" using g by (auto dest: pkeepsD)
qed

subsection \<open>Closing a function\<close>

text \<open>A function that ends with \<open>OP_RETURN\<close> and is made into a prototype passes the first stage of the verifier, and so do all functions in it.\<close>

lemma uint_maxstack: "code_ok (max 2 k) fs \<Longrightarrow> uint (of_int (fs_maxstack fs) :: byte) = fs_maxstack fs \<and> k \<le> fs_maxstack fs \<and> fs_maxstack fs \<le> MAXSTACK"
  by (auto simp: code_ok_def MAXSTACK_def uint_word_of_int)

lemma proto_of_precheck:
  assumes ok: "func_ok f" and r: "fs_code (fn f) \<noteq> []" "GET_OPCODE (last (fs_code (fn f))) = Some OP_RETURN"
  shows "all_protos parsed_ok (finished_proto src f)"
proof -
  have m: "uint (of_int (fs_maxstack (fn f)) :: byte) = fs_maxstack (fn f)" "uint (fn_numparams f) + hasarg f \<le> fs_maxstack (fn f)" "fs_maxstack (fn f) \<le> MAXSTACK"
    using uint_maxstack [of "uint (fn_numparams f) + hasarg f" "fn f"] ok by (auto simp: func_ok_def)
  have u: "int (length (fn_upnames f)) \<le> uint (of_nat (length (fn_upvalues f)) :: byte)"
    using ok by (simp add: func_ok_def LUAI_MAXUPVALUES_def unsigned_of_nat take_bit_nat_eq_self)
  have c: "code_ok (max 2 (uint (fn_numparams f) + hasarg f)) (fn f)" using ok by (simp add: func_ok_def)
  then have "\<forall>i<length (fs_k (fn f)). \<forall>j<length (fs_k (fn f)). same_const 0 (fs_k (fn f) ! i) (fs_k (fn f) ! j) \<longrightarrow> i = j"
    using consts_distinct [of "fn f"] same_const_addr [of "fs_addr (fn f)" _ _ 0] by (auto simp: code_ok_def)
  with c m(1) have "listing_ok (finished_proto src f)" by (simp add: listing_ok_def finished_proto_def code_ok_def consts_ok_def)
  then have "parsed_ok (finished_proto src f)"
    using ok m u r by (auto simp: parsed_ok_def precheck_def finished_proto_def func_ok_def hasarg_def code_ok_def last_conv_nth)
  moreover have "ps (finished_proto src f) = fn_p f" by (simp add: finished_proto_def)
  ultimately show ?thesis using ok by (simp add: all_protos.simps [of _ "finished_proto src f"] func_ok_def list_all_iff)
qed

lemma luaK_ret_last:
  assumes "luaK_ret 0 0 fs = Some (Inr (x, fs'))"
  shows "fs_code fs' \<noteq> [] \<and> GET_OPCODE (last (fs_code fs')) = Some OP_RETURN"
proof -
  have "GET_OPCODE (CREATE_ABC OP_RETURN 0 1 0) = Some OP_RETURN" using CREATE_ABC_fields [of 0 1 0 OP_RETURN] by (simp add: MAXARG_A_def MAXARG_B_def MAXARG_C_def field_defs)
  with assms show ?thesis
    by (auto simp: luaK_ret_def gthen_def gbind_def luaK_codeABC_def gget_def luaK_code_def gret_def split: option.splits sum.splits if_splits)
qed

lemma close_func_ok:
  assumes "close_func st = Some (Inr (f, st'))" "stack_ok (Suc n) (p_fs st)"
  shows "stack_ok n (p_fs st') \<and> func_ok f \<and> all_protos parsed_ok (finished_proto src f)"
proof -
  from assms(1) obtain st1 st2 st3 x y where s: "on_top (removevars 0) st = Some (Inr (x, st1))" "on_fn (luaK_ret 0 0) st1 = Some (Inr (y, st2))"
    "top (\<lambda>f. f) st2 = Some (Inr (f, st3))" "st' = st3\<lparr>p_fs := tl (p_fs st3)\<rparr>"
    by (auto simp: close_func_def pthen_Inr pbind_Inr pmod_def pret_def)
  then have p: "p_fs st2 = f # p_fs st'" by (auto simp: top_def split: list.splits)
  have k: "pkeeps (stack_ok (Suc n)) (on_top (removevars 0))" "pkeeps (stack_ok (Suc n)) (on_fn (luaK_ret 0 0))"
    by (intro pkeeps_top_ok, simp) (intro pkeeps keeps)
  have "stack_ok (Suc n) (f # p_fs st')" using pkeepsD [OF k(2) s(2) pkeepsD [OF k(1) s(1) assms(2)]] p by simp
  moreover have "fs_code (fn f) \<noteq> [] \<and> GET_OPCODE (last (fs_code (fn f))) = Some OP_RETURN"
    using s(2) p luaK_ret_last by (fastforce simp: on_fn_def split: list.splits option.splits sum.splits)
  ultimately show ?thesis using proto_of_precheck by (simp add: stack_ok_Cons)
qed

lemma pkeeps_pushclosure:
  assumes "\<And>src. all_protos parsed_ok (finished_proto src f)"
  shows "pkeeps (stack_ok n) (pushclosure f)"
proof -
  have u: "pkeeps (stack_ok n) (code_upvalues us)" for us by (induction us rule: code_upvalues.induct) (simp only: code_upvalues.simps, intro pkeeps keeps; assumption)+
  have p: "func_ok g \<Longrightarrow> func_ok (g\<lparr>fn_p := fn_p g @ [finished_proto src f]\<rparr>)" for g src using assms by (simp add: func_ok_def hasarg_def)
  show ?thesis unfolding pushclosure_def by (intro pkeeps keeps pkeeps_top_ok p u)
qed

subsection \<open>Parameters\<close>

text \<open>A function whose parameters are not read yet uses no registers.\<close>

definition starts :: "nat \<Rightarrow> int \<Rightarrow> Func list \<Rightarrow> bool" where
  "starts n k fs \<longleftrightarrow> stack_ok n fs \<and> (case fs of [] \<Rightarrow> False | f # _ \<Rightarrow>
     freereg_of (fn f) = 0 \<and> nactvar (fn f) = k \<and> fn_numparams f = 0 \<and> fn_is_vararg f = 0)"

definition reads :: "nat \<Rightarrow> int \<Rightarrow> nat \<Rightarrow> Func list \<Rightarrow> bool" where
  "reads n k m fs \<longleftrightarrow> stack_ok n fs \<and> k + int m \<le> LUAI_MAXVARS \<and> (case fs of [] \<Rightarrow> False | f # _ \<Rightarrow>
     freereg_of (fn f) = 0 \<and> nactvar (fn f) = k \<and> fn_numparams f = 0 \<and> (fn_is_vararg f = 0 \<or> fn_is_vararg f = 7 \<and> 0 < m))"

lemma starts_push: "stack_ok n (p_fs st) \<Longrightarrow> push_func env st = Some (Inr (x, st')) \<Longrightarrow> starts (Suc n) 0 (p_fs st')"
proof -
  assume ok: "stack_ok n (p_fs st)" and r: "push_func env st = Some (Inr (x, st'))"
  from open_func_ok [of "par_addr env (tables st)" "LexState.lastline (p_ls st)"] obtain c where
    c: "open_func (par_addr env (tables st)) (LexState.lastline (p_ls st)) = Some (Inr c)" "gen_ok c" "freereg_of c = 0" "nactvar c = 0" by blast
  have "fs_maxstack c = 2" using c(1) by (auto simp: open_func_def split: option.splits sum.splits)
  then have "code_ok 2 c" using c(2) by (simp add: gen_ok_def code_ok_def)
  with ok r c show "starts (Suc n) 0 (p_fs st')"
    by (auto simp: push_func_def starts_def stack_ok_Cons func_ok_def hasarg_def LUAI_MAXUPVALUES_def)
qed

lemma starts_local [pkeeps]: "pkeeps (starts n k) (new_localvar env s i)"
proof -
  have t: "pkeeps (starts n k) (on_top (\<lambda>f. f\<lparr>fn_locvars := g f\<rparr>))" "pkeeps (starts n k) (on_top (\<lambda>f. f\<lparr>fn_actvar := h f\<rparr>))" for g h
    by (intro pkeeps_on_top, simp add: starts_def stack_ok_Cons)+
  show ?thesis unfolding new_localvar_def registerlocalvar_def by (intro pkeeps t)
qed

lemma new_localvar_limit:
  assumes "new_localvar env s i st = Some (Inr (x, st'))" "p_fs st = f # fs"
  shows "nactvar (fn f) + int i + 1 \<le> LUAI_MAXVARS"
  using assms by (auto simp: new_localvar_def pbind_Inr pthen_Inr nactvar_now_def top_def luaY_checklimit_def errorlimit_def lex_error_def split: if_splits)

lemma starts_limit:
  assumes "starts n k (p_fs st)" "new_localvar env s i st = Some (Inr (x, st'))"
  shows "starts n k (p_fs st')" "k + int i + 1 \<le> LUAI_MAXVARS"
proof -
  show "starts n k (p_fs st')" using pkeepsD [OF starts_local assms(2,1)] .
  obtain f fs where "p_fs st = f # fs" "nactvar (fn f) = k" using assms(1) by (auto simp: starts_def split: list.splits)
  with new_localvar_limit [OF assms(2)] show "k + int i + 1 \<le> LUAI_MAXVARS" by simp
qed

lemma starts_reads: "starts n k fs \<Longrightarrow> k + int m \<le> LUAI_MAXVARS \<Longrightarrow> reads n k m fs"
  by (auto simp: starts_def reads_def split: list.splits)

lemma set_dots:
  assumes "starts n k (p_fs st)" "k + int (Suc m) \<le> LUAI_MAXVARS"
    and "pthen (set_vararg (VARARG_HASARG OR VARARG_NEEDSARG)) (on_top (\<lambda>f. f\<lparr>fn_is_vararg := fn_is_vararg f OR VARARG_ISVARARG\<rparr>)) st = Some (Inr (x, st'))"
  shows "reads n k (Suc m) (p_fs st') \<and> fn_is_vararg (hd (p_fs st')) \<noteq> 0"
proof -
  obtain f fs where f: "p_fs st = f # fs" "func_ok f" "fn_numparams f = 0" "fn_is_vararg f = 0" "freereg_of (fn f) = 0" "nactvar (fn f) = k" "stack_ok (n - 1) fs" "0 < n"
    using assms(1) by (auto simp: starts_def stack_ok_Cons split: list.splits)
  have v: "(VARARG_HASARG OR VARARG_NEEDSARG) OR VARARG_ISVARARG = 7" "(7 :: byte) AND VARARG_HASARG = 1" by code_simp+
  have "p_fs st' = f\<lparr>fn_is_vararg := 7\<rparr> # fs" using assms(3) f(1) v(1) by (auto simp: pthen_Inr set_vararg_def on_top_def)
  then show ?thesis using f assms(2) v(2) by (auto simp: reads_def stack_ok_Cons func_ok_def hasarg_def)
qed

lemma parlist_body_reads:
  assumes s: "starts n k (p_fs st)" and run: "parlist_body env m st = Some (Inr (z, st'))"
  shows "(z = Inl (m + 1) \<and> starts n k (p_fs st') \<or> z = Inr (m + 1) \<and> reads n k (m + 1) (p_fs st')) \<and> k + int (m + 1) \<le> LUAI_MAXVARS"
proof -
  have same: "p_fs st2 = p_fs st1" if "m st1 = Some (Inr (x, st2))" "\<And>R. pkeeps R m" for m :: "'a par" and st1 x st2
    using pkeepsD [OF that(2) that(1), of "\<lambda>fs. fs = p_fs st1"] by simp
  obtain st1 x where item: "(if fst (ls_t (p_ls st)) = TK_NAME then pbind (str_checkname env) (\<lambda>s. new_localvar env s m)
       else if fst (ls_t (p_ls st)) = TK_DOTS then pthen (p_next env) (pthen (new_localvar env ''arg'' m)
         (pthen (set_vararg (VARARG_HASARG OR VARARG_NEEDSARG)) (on_top (\<lambda>f. f\<lparr>fn_is_vararg := fn_is_vararg f OR VARARG_ISVARARG\<rparr>))))
       else syntax_error env (''<name> or '' @ LUA_QL ''...'' @ '' expected'')) st = Some (Inr (x, st1))"
    and tail: "pbind (top fn_is_vararg) (\<lambda>v. pbind (if v = 0 then testnext env (tk (CHR '','')) else pret False)
       (\<lambda>b. if b then again (m + 1) else finish (m + 1))) st1 = Some (Inr (z, st'))"
    using run by (auto simp: parlist_body_def token_def pbind_Inr pthen_Inr pget_def)
  have tl: "p_fs st' = p_fs st1" "z = Inl (m + 1) \<or> z = Inr (m + 1)" "z = Inl (m + 1) \<Longrightarrow> fn_is_vararg (hd (p_fs st1)) = 0"
  proof -
    have "pkeeps R (pbind (top fn_is_vararg) (\<lambda>v. pbind (if v = 0 then testnext env (tk (CHR '','')) else pret False)
       (\<lambda>b. if b then again (m + 1) else finish (m + 1))))" for R :: "Func list \<Rightarrow> bool" by (intro pkeeps)
    from pkeepsD [OF this tail, of "\<lambda>fs. fs = p_fs st1"] show "p_fs st' = p_fs st1" by simp
    show "z = Inl (m + 1) \<or> z = Inr (m + 1)" "z = Inl (m + 1) \<Longrightarrow> fn_is_vararg (hd (p_fs st1)) = 0"
      using tail by (auto simp: pbind_Inr top_def again_def finish_def pret_def split: list.splits if_splits)
  qed
  show ?thesis
  proof (cases "fst (ls_t (p_ls st)) = TK_NAME")
    case True
    then obtain nm st2 where l: "str_checkname env st = Some (Inr (nm, st2))" "new_localvar env nm m st2 = Some (Inr (x, st1))" using item by (auto simp: pbind_Inr)
    have "starts n k (p_fs st2)" using pkeepsD [OF pkeeps_tests(6) l(1)] s by blast
    from starts_limit [OF this l(2)] starts_reads [of n k "p_fs st1" "m + 1"] tl show ?thesis by auto
  next
    case False
    with item have d: "fst (ls_t (p_ls st)) = TK_DOTS" by (auto simp: syntax_error_def split: if_splits)
    with item False obtain y st2 u st3 where l: "p_next env st = Some (Inr (y, st2))" "new_localvar env ''arg'' m st2 = Some (Inr (u, st3))"
      "pthen (set_vararg (VARARG_HASARG OR VARARG_NEEDSARG)) (on_top (\<lambda>f. f\<lparr>fn_is_vararg := fn_is_vararg f OR VARARG_ISVARARG\<rparr>)) st3 = Some (Inr (x, st1))"
      by (auto simp: pthen_Inr)
    have "starts n k (p_fs st2)" using pkeepsD [OF pkeeps_lexer(1) l(1)] s by blast
    note sl = starts_limit [OF this l(2)]
    have "reads n k (Suc m) (p_fs st1) \<and> fn_is_vararg (hd (p_fs st1)) \<noteq> 0" using set_dots [OF sl(1) _ l(3), of m] sl(2) by simp
    with tl sl(2) show ?thesis by auto
  qed
qed

lemma parlist_ok:
  assumes s: "starts n k (p_fs st)" "0 \<le> k" "k \<le> 1" and run: "parlist env st = Some (Inr (x, st'))"
  shows "stack_ok n (p_fs st')"
proof -
  let ?set = "on_top (\<lambda>f. f\<lparr>fn_numparams := of_int (nactvar (fn f) - uint (fn_is_vararg f AND VARARG_HASARG))\<rparr>)"
  from run obtain st1 u m st2 where p: "set_vararg 0 st = Some (Inr (u, st1))"
    "(if fst (ls_t (p_ls st1)) \<noteq> tk (CHR '')'') then ploop (parlist_body env) 0 else pret 0) st1 = Some (Inr (m, st2))"
    and tail: "pthen (adjustlocalvars m) (pthen ?set (pbind nactvar_now (\<lambda>n. on_fn (luaK_reserveregs n)))) st2 = Some (Inr (x, st'))"
    by (auto simp: parlist_def pthen_Inr pbind_Inr token_def pget_def)
  have s1: "starts n k (p_fs st1)" using p(1) s(1) by (auto simp: set_vararg_def on_top_def starts_def stack_ok_Cons func_ok_def hasarg_def split: list.splits)
  have r: "reads n k m (p_fs st2)"
  proof (cases "fst (ls_t (p_ls st1)) \<noteq> tk (CHR '')'')")
    case True
    then have "ploop (parlist_body env) 0 st1 = Some (Inr (m, st2))" using p(2) by simp
    then show ?thesis
    proof (rule ploop_invariant [where I = "\<lambda>m st. starts n k (p_fs st)"])
      show "starts n k (p_fs st1)" by (rule s1)
    qed (use parlist_body_reads in blast)+
  next
    case False
    then show ?thesis using p(2) s1 s(3) starts_reads [OF s1, of 0] by (simp add: pret_def LUAI_MAXVARS_def)
  qed
  then obtain f fs where f: "p_fs st2 = f # fs" "func_ok f" "stack_ok (n - 1) fs" "0 < n" "freereg_of (fn f) = 0" "nactvar (fn f) = k" "fn_numparams f = 0"
    "fn_is_vararg f = 0 \<or> fn_is_vararg f = 7 \<and> 0 < m" "k + int m \<le> 200" by (auto simp: reads_def stack_ok_Cons LUAI_MAXVARS_def split: list.splits)
  define g where "g = fold begin_var [(k + int m) mod 256 - int m..(k + int m) mod 256 - 1] (set_nactvar ((k + int m) mod 256) f)"
  have gk: "func_ok g" using f(2) by (simp add: g_def func_ok_begin_vars)
  have gs: "fn (begin_var i h) = fn h" "fn_is_vararg (begin_var i h) = fn_is_vararg h" "fn_numparams (begin_var i h) = fn_numparams h" for i h
    by (simp_all add: begin_var_def set_locvar_def Let_def)
  have fg: "fn (fold begin_var is h) = fn h \<and> fn_is_vararg (fold begin_var is h) = fn_is_vararg h \<and> fn_numparams (fold begin_var is h) = fn_numparams h" for "is" h
    by (induction "is" arbitrary: h) (simp_all add: gs)
  have g: "fn g = (fn f)\<lparr>nactvar := k + int m\<rparr>" "fn_is_vararg g = fn_is_vararg f" "fn_numparams g = 0"
    using fg f(7,9) s(2) by (simp_all add: g_def set_nactvar_def)
  have v: "(7 :: byte) AND VARARG_HASARG = 1" by code_simp
  have h: "hasarg g = 0 \<or> hasarg g = 1 \<and> 0 < m" using f(8) g(2) v by (auto simp: hasarg_def)
  define p where "p = k + int m - hasarg g"
  have p: "0 \<le> p" "p + hasarg g = k + int m" "p < 256" using h s(2) f(9) by (auto simp: p_def)
  let ?h = "g\<lparr>fn_numparams := of_int p\<rparr>"
  from tail f(1) obtain c l where c: "luaK_reserveregs (k + int m) ((fn ?h)\<lparr>FuncState.lastline := l\<rparr>) = Some (Inr (x, c))" "p_fs st' = ?h\<lparr>fn := c\<rparr> # fs"
    using f(6) g(1) by (auto simp: pthen_Inr pbind_Inr adjustlocalvars_def on_top_def Let_def g_def [symmetric] nactvar_now_def top_def on_fn_def p_def hasarg_def
      split: option.splits sum.splits)
  have "code_ok 2 (fn ?h)" using gk by (simp add: func_ok_def code_ok_def)
  then have c2: "code_ok 2 c" using keeps_line [OF code_ok.keeps_regs(2) c(1)] by blast
  have "k + int m \<le> fs_maxstack c" using c(1) f(5) g(1)
    by (auto simp: luaK_reserveregs_def gthen_def gbind_def luaK_checkstack_def gmod_def Let_def split: if_splits)
  with c2 have "code_ok (max 2 (k + int m)) c" by (auto simp: code_ok_def)
  moreover have "uint (of_int p :: byte) = p" using p by (simp add: uint_word_of_int)
  ultimately show ?thesis using c(2) f(3,4) gk p(2) by (auto simp: stack_ok_Cons func_ok_def hasarg_def)
qed

lemma starts_self:
  assumes "starts n 0 (p_fs st)" "adjustlocalvars 1 st = Some (Inr (x, st'))"
  shows "starts n 1 (p_fs st')"
  using assms by (auto simp: starts_def adjustlocalvars_def on_top_def Let_def stack_ok_Cons set_nactvar_def begin_var_def set_locvar_def func_ok_def hasarg_def split: list.splits)

lemma starts_line: "pkeeps (starts n k) (on_top (\<lambda>f. f\<lparr>fn_linedefined := l\<rparr>))"
  by (rule pkeeps_on_top) (simp add: starts_def stack_ok_Cons)

lemma body_ok:
  assumes chk: "\<And>n. pkeeps (stack_ok n) chk"
  shows "pkeeps (stack_ok n) (body env chk needself line)"
proof (rule pkeepsI)
  fix st x st' assume ok: "stack_ok n (p_fs st)" and r: "body env chk needself line st = Some (Inr (x, st'))"
  let ?self = "if needself then pthen (new_localvar env ''self'' 0) (adjustlocalvars 1) else pret ()"
  from r obtain x1 st1 x2 st2 x3 st3 x4 st4 x5 st5 x6 st6 x7 st7 l st8 x9 st9 x10 st10 f st11 where run: "push_func env st = Some (Inr (x1, st1))"
    "on_top (\<lambda>f. f\<lparr>fn_linedefined := line\<rparr>) st1 = Some (Inr (x2, st2))" "checknext env (tk (CHR ''('')) st2 = Some (Inr (x3, st3))"
    "?self st3 = Some (Inr (x4, st4))" "parlist env st4 = Some (Inr (x5, st5))" "checknext env (tk (CHR '')'')) st5 = Some (Inr (x6, st6))"
    "chk st6 = Some (Inr (x7, st7))" "line_now st7 = Some (Inr (l, st8))" "on_top (\<lambda>f. f\<lparr>fn_lastlinedefined := l\<rparr>) st8 = Some (Inr (x9, st9))"
    "check_match env TK_END TK_FUNCTION line st9 = Some (Inr (x10, st10))" "close_func st10 = Some (Inr (f, st11))" "pushclosure f st11 = Some (Inr (x, st'))"
    unfolding body_def pthen_Inr pbind_Inr by - (elim exE conjE, rule that)
  note ks = pkeepsD [where R = "starts (Suc n) 0"] and ko = pkeepsD [where R = "stack_ok (Suc n)"]
  have s3: "starts (Suc n) 0 (p_fs st3)" by (rule ks [OF pkeeps_tests(3) run(3)], rule ks [OF starts_line run(2)], rule starts_push [OF ok run(1)])
  have "\<exists>k. starts (Suc n) k (p_fs st4) \<and> 0 \<le> k \<and> k \<le> 1"
  proof (cases needself)
    case True
    then obtain y st where "new_localvar env ''self'' 0 st3 = Some (Inr (y, st))" "adjustlocalvars 1 st = Some (Inr (x4, st4))" using run(4) by (auto simp: pthen_Inr)
    with starts_self ks [OF starts_local _ s3] have "starts (Suc n) 1 (p_fs st4)" by blast
    then show ?thesis by (intro exI [of _ 1]) simp
  next
    case False
    then show ?thesis using run(4) s3 by (intro exI [of _ 0]) (simp add: pret_def)
  qed
  then have s5: "stack_ok (Suc n) (p_fs st5)" using parlist_ok run(5) by blast
  have "pkeeps (stack_ok (Suc n)) (on_top (\<lambda>f. f\<lparr>fn_lastlinedefined := l\<rparr>))" by (intro pkeeps_top_ok) simp
  from ko [OF this run(9) ko [OF pkeeps_tokens(2) run(8) ko [OF chk run(7) ko [OF pkeeps_tests(3) run(6) s5]]]]
  have "stack_ok (Suc n) (p_fs st9)" .
  from ko [OF pkeeps_tests(5) run(10) this] have "stack_ok (Suc n) (p_fs st10)" .
  note c = close_func_ok [OF run(11) this]
  from pkeepsD [where R = "stack_ok n", OF pkeeps_pushclosure run(12)] c show "stack_ok n (p_fs st')" by blast
qed

subsection \<open>The grammar\<close>

text \<open>What the rules rely on: the two functions through which they call each other keep the invariant.\<close>

locale grammar =
  fixes sub :: sub and chk :: "unit par"
  assumes sub: "\<And>n l. pkeeps (stack_ok n) (sub l)" and chk: "\<And>n. pkeeps (stack_ok n) chk"
begin

lemma expr [pkeeps]: "pkeeps (stack_ok n) (expr sub)" "pkeeps (stack_ok n) (explist1 env sub)" "pkeeps (stack_ok n) (yindex env sub)" "pkeeps (stack_ok n) (cond sub)"
  "pkeeps (stack_ok n) (exp1 sub)"
proof -
  show e: "pkeeps (stack_ok n) (expr sub)" unfolding expr_def by (intro pkeeps sub)
  show "pkeeps (stack_ok n) (explist1 env sub)" unfolding explist1_def by (intro pkeeps keeps e)
  show "pkeeps (stack_ok n) (yindex env sub)" unfolding yindex_def by (intro pkeeps keeps e)
  show "pkeeps (stack_ok n) (cond sub)" unfolding cond_def by (intro pkeeps keeps e)
  show "pkeeps (stack_ok n) (exp1 sub)" unfolding exp1_def by (intro pkeeps keeps e)
qed

lemma field [pkeeps]: "pkeeps (stack_ok n) (field env v)"
  unfolding field_def by (intro pkeeps keeps)

lemma constructor [pkeeps]: "pkeeps (stack_ok n) (constructor env sub)"
proof -
  have r: "pkeeps (stack_ok n) (recfield env sub cc)" for cc unfolding recfield_def by (intro pkeeps keeps)
  have l: "pkeeps (stack_ok n) (listfield env sub cc)" for cc unfolding listfield_def by (intro pkeeps keeps)
  have c: "pkeeps (stack_ok n) (closelistfield cc)" for cc unfolding closelistfield_def by (intro pkeeps keeps)
  have e: "pkeeps (stack_ok n) (lastlistfield cc)" for cc unfolding lastlistfield_def by (intro pkeeps keeps)
  have "pkeeps (stack_ok n) (cons_body env sub cc)" for cc unfolding cons_body_def cons_item_def by (intro pkeeps keeps r l c)
  then show ?thesis unfolding constructor_def by (intro pkeeps keeps e)
qed

lemma calls [pkeeps]: "pkeeps (stack_ok n) (funcargs env sub f)"
  unfolding funcargs_def callargs_def Let_def by (intro pkeeps keeps)

lemma primaryexp [pkeeps]: "pkeeps (stack_ok n) (primaryexp env sub)"
  unfolding primaryexp_def prefixexp_def primary_body_def by (intro pkeeps keeps)

lemma func_body [pkeeps]: "pkeeps (stack_ok n) (body env chk needself line)"
  by (intro body_ok chk)

lemma subexpr_body: "pkeeps (stack_ok n) (subexpr_body env sub chk l)"
  unfolding subexpr_body_def binary_body_def simpleexp_def Let_def by (intro pkeeps keeps sub)

lemma block [pkeeps]: "pkeeps (stack_ok n) (block chk)" "pkeeps (stack_ok n) chk"
  unfolding block_def by (intro pkeeps chk)+

lemma check_conflict [pkeeps]: "pkeeps (stack_ok n) (check_conflict lhs v)"
  unfolding check_conflict_def by (intro pkeeps keeps)

lemma assignment [pkeeps]: "pkeeps (stack_ok n) (assignment env sub lhs nvars)"
proof (induction "nat (int LUAI_MAXCCALLS + 1 - nvars)" arbitrary: lhs nvars rule: less_induct)
  case less
  have d: "pkeeps (stack_ok n) (default_assignment lhs)" for lhs unfolding default_assignment_def by (intro pkeeps keeps)
  have v: "pkeeps (stack_ok n) (assign_values env sub lhs nvars)" for lhs unfolding assign_values_def by (intro pkeeps keeps d)
  show ?case unfolding assignment.simps [of env sub lhs nvars] by (intro pkeeps d v less) simp
qed

lemma breakstat [pkeeps]: "pkeeps (stack_ok n) (breakstat env)"
  unfolding breakstat_def by (intro pkeeps keeps pkeeps_top_ok) simp

lemma loops [pkeeps]: "pkeeps (stack_ok n) (whilestat env sub chk line)" "pkeeps (stack_ok n) (repeatstat env sub chk line)" "pkeeps (stack_ok n) (forstat env sub chk line)"
proof -
  show "pkeeps (stack_ok n) (whilestat env sub chk line)" unfolding whilestat_def by (intro pkeeps keeps)
  show "pkeeps (stack_ok n) (repeatstat env sub chk line)" unfolding repeatstat_def by (intro pkeeps keeps)
  have b: "pkeeps (stack_ok n) (forbody env chk base line k isnum)" for base line k isnum unfolding forbody_def by (intro pkeeps keeps)
  have "pkeeps (stack_ok n) (fornum env sub chk s line)" for s unfolding fornum_def by (intro pkeeps keeps b)
  moreover have "pkeeps (stack_ok n) (forlist env sub chk s)" for s unfolding forlist_def forlist_names_def by (intro pkeeps keeps b)
  ultimately show "pkeeps (stack_ok n) (forstat env sub chk line)" unfolding forstat_def by (intro pkeeps)
qed

lemma ifstat [pkeeps]: "pkeeps (stack_ok n) (ifstat env sub chk line)"
  unfolding ifstat_def elseif_body_def test_then_block_def escape_def by (intro pkeeps keeps)

lemma locals [pkeeps]: "pkeeps (stack_ok n) (localfunc env chk)" "pkeeps (stack_ok n) (localstat env sub)"
proof -
  show "pkeeps (stack_ok n) (localfunc env chk)" unfolding localfunc_def by (intro pkeeps keeps pkeeps_top_ok) simp
  show "pkeeps (stack_ok n) (localstat env sub)" unfolding localstat_def local_names_def by (intro pkeeps keeps)
qed

lemma others [pkeeps]: "pkeeps (stack_ok n) (funcstat env chk line)" "pkeeps (stack_ok n) (exprstat env sub)" "pkeeps (stack_ok n) (retstat env sub)"
proof -
  show "pkeeps (stack_ok n) (funcstat env chk line)" unfolding funcstat_def funcname_def name_body_def by (intro pkeeps keeps)
  show "pkeeps (stack_ok n) (exprstat env sub)" unfolding exprstat_def by (intro pkeeps keeps)
  show "pkeeps (stack_ok n) (retstat env sub)" unfolding retstat_def retvalues_def by (intro pkeeps keeps)
qed

lemma chunk_body: "pkeeps (stack_ok n) (chunk_body env sub chk)"
  unfolding chunk_body_def statements_def statement_def Let_def by (intro pkeeps keeps)

end

lemma parser_keeps: "pkeeps (stack_ok n) (subexpr env k l)" "pkeeps (stack_ok n) (chunk env k)"
proof (induction k arbitrary: n l)
  case 0
  { case 1 show ?case by (simp add: pkeeps_def) next case 2 show ?case by (simp add: pkeeps_def) }
next
  case (Suc k)
  have g: "grammar (subexpr env k) (chunk env k)" by (rule grammar.intro) (rule Suc)+
  { case 1 show ?case using grammar.subexpr_body [OF g, of n env l] by (simp add: pkeeps_def)
  next case 2 show ?case using grammar.chunk_body [OF g, of n env] by (simp add: pkeeps_def) }
qed

interpretation parser: grammar "subexpr env k" "chunk env k" for env k
  by unfold_locales (rule parser_keeps)+

end
