(* ===== verification/Lua_Levels.thy ===== *)
theory Lua_Levels
  imports Lua_Grammar
begin

text \<open>
  The nesting of the parser: every rule leaves the number of syntax levels as it was, and its result depends only on what the two recursive functions do
  at the level at which it is called.  Since entering a level fails beyond the limit, the fuel of the parser never runs out.
\<close>

named_theorems agree

definition agree :: "nat \<Rightarrow> 'a par \<Rightarrow> 'a par \<Rightarrow> bool" where
  "agree i m m' \<longleftrightarrow> (\<forall>st. nCcalls st = i \<longrightarrow> m st = m' st \<and> (\<forall>x st'. m st = Some (Inr (x, st')) \<longrightarrow> nCcalls st' = i))"

lemma agreeD: "agree i m m' \<Longrightarrow> nCcalls st = i \<Longrightarrow> m st = m' st"
  "agree i m m' \<Longrightarrow> nCcalls st = i \<Longrightarrow> m st = Some (Inr (x, st')) \<Longrightarrow> nCcalls st' = i"
  unfolding agree_def by blast+

lemma agree_sym: "agree i m m' \<Longrightarrow> agree i m' m"
  unfolding agree_def by metis

lemma agree_same: "(\<And>st x st'. m st = Some (Inr (x, st')) \<Longrightarrow> nCcalls st' = nCcalls st) \<Longrightarrow> agree i m m"
  unfolding agree_def by blast

lemma agree_simple [agree]:
  "agree i (pret x) (pret x)" "agree i (again y) (again y)" "agree i (finish z) (finish z)" "agree i (pget g) (pget g)" "agree i (top h) (top h)"
  "agree i (on_top u) (on_top u)" "agree i (on_fn m) (on_fn m)" "agree i (p_next env) (p_next env)" "agree i (p_lookahead env) (p_lookahead env)"
  "agree i (syntax_error env s) (syntax_error env s)" "agree i (lex_error env s) (lex_error env s)" "agree i (\<lambda>st. Some (Inl e)) (\<lambda>st. Some (Inl e))"
  by (auto intro!: agree_same simp: pret_def again_def finish_def pget_def top_def on_top_def on_fn_def p_next_def p_lookahead_def syntax_error_def lex_error_def
      split: list.splits option.splits sum.splits)

lemma agree_pbind [agree]: "agree i m m' \<Longrightarrow> (\<And>x. agree i (f x) (f' x)) \<Longrightarrow> agree i (pbind m f) (pbind m' f')"
proof -
  assume m: "agree i m m'" and f: "\<And>x. agree i (f x) (f' x)"
  show "agree i (pbind m f) (pbind m' f')" unfolding agree_def
  proof (intro allI impI)
    fix st :: Parser assume i: "nCcalls st = i"
    have e: "m' st = m st" using agreeD(1) [OF m i] by simp
    show "pbind m f st = pbind m' f' st \<and> (\<forall>x st'. pbind m f st = Some (Inr (x, st')) \<longrightarrow> nCcalls st' = i)"
    proof (cases "\<exists>x st1. m st = Some (Inr (x, st1))")
      case True
      then obtain x st1 where r: "m st = Some (Inr (x, st1))" by blast
      from agreeD(2) [OF m i r] have j: "nCcalls st1 = i" .
      from agreeD(1) [OF f j] agreeD(2) [OF f j] show ?thesis by (simp add: pbind_def e r)
    next
      case False
      then show ?thesis by (auto simp: pbind_def e split: option.splits sum.splits)
    qed
  qed
qed

lemma agree_pthen [agree]: "agree i m m' \<Longrightarrow> agree i n n' \<Longrightarrow> agree i (pthen m n) (pthen m' n')"
  by (simp add: pthen_def agree_pbind)

lemma agree_if [agree]: "(b \<Longrightarrow> agree i m m') \<Longrightarrow> (\<not> b \<Longrightarrow> agree i n n') \<Longrightarrow> agree i (if b then m else n) (if b then m' else n')"
  by simp

lemma agree_let [agree]: "(\<And>x. agree i (f x) (f' x)) \<Longrightarrow> agree i (let x = e in f x) (let x = e in f' x)"
  by simp

lemma agree_prod [agree]: "(\<And>a b. agree i (f a b) (f' a b)) \<Longrightarrow> agree i (case p of (a, b) \<Rightarrow> f a b) (case p of (a, b) \<Rightarrow> f' a b)"
  by (cases p) simp

lemma agree_option [agree]: "agree i m m' \<Longrightarrow> (\<And>x. agree i (f x) (f' x)) \<Longrightarrow> agree i (case r of None \<Rightarrow> m | Some x \<Rightarrow> f x) (case r of None \<Rightarrow> m' | Some x \<Rightarrow> f' x)"
  by (cases r) simp_all

lemma ploop_agrees:
  assumes b: "\<And>x. agree i (b x) (b' x)" and r: "ploop b x st = Some r" and i: "nCcalls st = i"
  shows "ploop b' x st = Some r \<and> (\<forall>z st'. r = Inr (z, st') \<longrightarrow> nCcalls st' = i)"
proof -
  have "c = b \<longrightarrow> nCcalls st = i \<longrightarrow> ploop b' x st = Some r \<and> (\<forall>z st'. r = Inr (z, st') \<longrightarrow> nCcalls st' = i)" if "ploop c x st = Some r" for c
  proof (rule ploop.raw_induct [where P = "\<lambda>c x st r. c = b \<longrightarrow> nCcalls st = i \<longrightarrow> ploop b' x st = Some r \<and> (\<forall>z st'. r = Inr (z, st') \<longrightarrow> nCcalls st' = i)"
      and xa = "((c, x), st)" and y = r, unfolded prod.case, OF _ that], intro impI)
    fix lp c x st r
    assume IH: "\<And>c y st r. lp c y st = Some r \<Longrightarrow>
        c = b \<longrightarrow> nCcalls st = i \<longrightarrow> ploop b' y st = Some r \<and> (\<forall>z st'. r = Inr (z, st') \<longrightarrow> nCcalls st' = i)"
      and c: "c = b" and i: "nCcalls st = i"
      and s: "(case c x st of None \<Rightarrow> None | Some (Inl e) \<Rightarrow> Some (Inl e) | Some (Inr (Inl y, st)) \<Rightarrow> lp c y st | Some (Inr (Inr z, st)) \<Rightarrow> Some (Inr (z, st))) = Some r"
    have e: "b' x st = b x st" using agreeD(1) [OF b i] by simp
    show "ploop b' x st = Some r \<and> (\<forall>z st'. r = Inr (z, st') \<longrightarrow> nCcalls st' = i)"
      using s c agreeD(2) [OF b i] IH unfolding ploop.simps [of b' x st] e by (auto split: option.splits sum.splits)
  qed
  with r i show ?thesis by blast
qed

lemma agree_ploop [agree]:
  assumes b: "\<And>x. agree i (b x) (b' x)"
  shows "agree i (ploop b x) (ploop b' x)"
  unfolding agree_def
proof (intro allI impI)
  fix st :: Parser assume i: "nCcalls st = i"
  note one = ploop_agrees [where b = b and b' = b' and x = x, OF b _ i]
  note two = ploop_agrees [where b = b' and b' = b and x = x, OF agree_sym [OF b] _ i]
  have "ploop b x st = ploop b' x st"
  proof (cases "ploop b x st")
    case None
    then show ?thesis using two by (cases "ploop b' x st") auto
  next
    case (Some r)
    then show ?thesis using one by auto
  qed
  then show "ploop b x st = ploop b' x st \<and> (\<forall>z st'. ploop b x st = Some (Inr (z, st')) \<longrightarrow> nCcalls st' = i)" using one by blast
qed

subsection \<open>Rules without recursion\<close>

lemma agree_tokens [agree]:
  "agree i token token" "agree i line_now line_now" "agree i token_string token_string" "agree i source_now source_now" "agree i freereg_now freereg_now"
  "agree i nactvar_now nactvar_now" "agree i number_exp number_exp" "agree i (set_freereg r) (set_freereg r)" "agree i (set_vararg v) (set_vararg v)"
  unfolding token_def line_now_def token_string_def source_now_def freereg_now_def nactvar_now_def number_exp_def set_freereg_def set_vararg_def by (intro agree)+

lemma agree_errors [agree]: "agree i (error_expected env t) (error_expected env t)" "agree i (errorlimit env l w) (errorlimit env l w)"
  "agree i (luaY_checklimit env v l w) (luaY_checklimit env v l w)" "agree i (check_condition env b w) (check_condition env b w)"
  unfolding error_expected_def errorlimit_def luaY_checklimit_def check_condition_def by (intro agree)+

lemma agree_tests [agree]:
  "agree i (testnext env c) (testnext env c)" "agree i (checknext env c) (checknext env c)" "agree i (check_token env c) (check_token env c)"
  "agree i (check_match env c d l) (check_match env c d l)" "agree i (str_checkname env) (str_checkname env)"
  unfolding testnext_def check_token_def checknext_def check_match_def str_checkname_def by (intro agree)+

lemma agree_vars [agree]: "agree i (new_localvar env s n) (new_localvar env s n)" "agree i (adjustlocalvars n) (adjustlocalvars n)"
  "agree i (singlevar env) (singlevar env)" "agree i (codestring s) (codestring s)" "agree i (checkname env) (checkname env)"
  "agree i (adjust_assign a b e) (adjust_assign a b e)"
proof -
  have v: "agree i (\<lambda>st. case singlevaraux env (p_ls st) (p_fs st) s True of Inl e \<Rightarrow> Some (Inl e) | Inr (var, fs) \<Rightarrow> Some (Inr (var, st\<lparr>p_fs := fs\<rparr>)))
      (\<lambda>st. case singlevaraux env (p_ls st) (p_fs st) s True of Inl e \<Rightarrow> Some (Inl e) | Inr (var, fs) \<Rightarrow> Some (Inr (var, st\<lparr>p_fs := fs\<rparr>)))" for s
    by (rule agree_same) (auto split: sum.splits)
  show "agree i (new_localvar env s n) (new_localvar env s n)" unfolding new_localvar_def registerlocalvar_def by (intro agree)
  show "agree i (adjustlocalvars n) (adjustlocalvars n)" unfolding adjustlocalvars_def by (intro agree)
  show "agree i (singlevar env) (singlevar env)" unfolding singlevar_def by (intro agree v)
  show c: "agree i (codestring s) (codestring s)" for s unfolding codestring_def by (intro agree)
  show "agree i (checkname env) (checkname env)" unfolding checkname_def by (intro agree c)
  show "agree i (adjust_assign a b e) (adjust_assign a b e)" unfolding adjust_assign_def by (intro agree)
qed

lemma agree_blocks [agree]: "agree i (enterblock b) (enterblock b)" "agree i leaveblock leaveblock" "agree i (push_func env) (push_func env)"
  "agree i close_func close_func" "agree i (pushclosure f) (pushclosure f)" "agree i (breakstat env) (breakstat env)"
proof -
  show "agree i (enterblock b) (enterblock b)" unfolding enterblock_def by (intro agree)
  show "agree i leaveblock leaveblock" unfolding leaveblock_def by (intro agree)
  show "agree i (push_func env) (push_func env)" by (rule agree_same) (auto simp: push_func_def split: option.splits sum.splits)
  have "agree i (pmod (\<lambda>st. st\<lparr>p_fs := tl (p_fs st)\<rparr>)) (pmod (\<lambda>st. st\<lparr>p_fs := tl (p_fs st)\<rparr>))" by (rule agree_same) (auto simp: pmod_def)
  then show "agree i close_func close_func" unfolding close_func_def by (intro agree)
  have "agree i (code_upvalues us) (code_upvalues us)" for us by (induction us rule: code_upvalues.induct) (simp only: code_upvalues.simps, intro agree; assumption)+
  then show "agree i (pushclosure f) (pushclosure f)" unfolding pushclosure_def by (intro agree)
  show "agree i (breakstat env) (breakstat env)" unfolding breakstat_def by (intro agree)
qed

lemma agree_field [agree]: "agree i (field env v) (field env v)" "agree i (funcname env) (funcname env)" "agree i (parlist env) (parlist env)"
  "agree i (vararg_exp env) (vararg_exp env)" "agree i (escape l) (escape l)"
proof -
  show f: "agree i (field env v) (field env v)" for v unfolding field_def by (intro agree)
  show "agree i (funcname env) (funcname env)" unfolding funcname_def name_body_def by (intro agree f)
  show "agree i (parlist env) (parlist env)" unfolding parlist_def parlist_body_def by (intro agree)
  show "agree i (vararg_exp env) (vararg_exp env)" unfolding vararg_exp_def by (intro agree)
  show "agree i (escape l) (escape l)" unfolding escape_def by (intro agree)
qed

subsection \<open>The grammar\<close>

locale same_level =
  fixes i :: nat and sub sub' :: sub and chk chk' :: "unit par"
  assumes sub: "\<And>l. agree i (sub l) (sub' l)" and chk: "agree i chk chk'"
begin

lemma expr [agree]: "agree i (expr sub) (expr sub')" "agree i (explist1 env sub) (explist1 env sub')" "agree i (yindex env sub) (yindex env sub')"
  "agree i (cond sub) (cond sub')" "agree i (exp1 sub) (exp1 sub')"
proof -
  show e: "agree i (expr sub) (expr sub')" unfolding expr_def by (intro agree sub)
  show "agree i (explist1 env sub) (explist1 env sub')" unfolding explist1_def by (intro agree e)
  show "agree i (yindex env sub) (yindex env sub')" unfolding yindex_def by (intro agree e)
  show "agree i (cond sub) (cond sub')" unfolding cond_def by (intro agree e)
  show "agree i (exp1 sub) (exp1 sub')" unfolding exp1_def by (intro agree e)
qed

lemma constructor [agree]: "agree i (constructor env sub) (constructor env sub')"
proof -
  have r: "agree i (recfield env sub cc) (recfield env sub' cc)" for cc unfolding recfield_def by (intro agree)
  have l: "agree i (listfield env sub cc) (listfield env sub' cc)" for cc unfolding listfield_def by (intro agree)
  have c: "agree i (closelistfield cc) (closelistfield cc)" for cc unfolding closelistfield_def by (intro agree)
  have e: "agree i (lastlistfield cc) (lastlistfield cc)" for cc unfolding lastlistfield_def by (intro agree)
  have "agree i (cons_body env sub cc) (cons_body env sub' cc)" for cc unfolding cons_body_def cons_item_def by (intro agree r l c)
  then show ?thesis unfolding constructor_def by (intro agree e)
qed

lemma calls [agree]: "agree i (funcargs env sub f) (funcargs env sub' f)"
  unfolding funcargs_def callargs_def Let_def by (intro agree)

lemma primaryexp [agree]: "agree i (primaryexp env sub) (primaryexp env sub')"
  unfolding primaryexp_def prefixexp_def primary_body_def by (intro agree)

lemma block [agree]: "agree i (block chk) (block chk')" "agree i chk chk'" "agree i (body env chk b line) (body env chk' b line)"
  unfolding block_def body_def by (intro agree chk)+

lemma simpleexp [agree]: "agree i (simpleexp env sub chk) (simpleexp env sub' chk')"
  unfolding simpleexp_def Let_def by (intro agree)

lemma assignment [agree]: "agree i (assignment env sub lhs nvars) (assignment env sub' lhs nvars)"
proof (induction "nat (int LUAI_MAXCCALLS + 1 - nvars)" arbitrary: lhs nvars rule: less_induct)
  case less
  have d: "agree i (default_assignment lhs) (default_assignment lhs)" for lhs unfolding default_assignment_def by (intro agree)
  have v: "agree i (assign_values env sub lhs nvars) (assign_values env sub' lhs nvars)" for lhs unfolding assign_values_def by (intro agree d)
  have c: "agree i (check_conflict lhs v) (check_conflict lhs v)" for v unfolding check_conflict_def by (intro agree)
  show ?case unfolding assignment.simps [of env sub lhs nvars] assignment.simps [of env sub' lhs nvars] by (intro agree d v c less) simp
qed

lemma loops [agree]: "agree i (whilestat env sub chk line) (whilestat env sub' chk' line)" "agree i (repeatstat env sub chk line) (repeatstat env sub' chk' line)"
  "agree i (forstat env sub chk line) (forstat env sub' chk' line)"
proof -
  show "agree i (whilestat env sub chk line) (whilestat env sub' chk' line)" unfolding whilestat_def by (intro agree)
  show "agree i (repeatstat env sub chk line) (repeatstat env sub' chk' line)" unfolding repeatstat_def by (intro agree)
  have b: "agree i (forbody env chk base line k isnum) (forbody env chk' base line k isnum)" for base line k isnum unfolding forbody_def by (intro agree)
  have "agree i (fornum env sub chk s line) (fornum env sub' chk' s line)" for s unfolding fornum_def by (intro agree b)
  moreover have "agree i (forlist env sub chk s) (forlist env sub' chk' s)" for s unfolding forlist_def forlist_names_def by (intro agree b)
  ultimately show "agree i (forstat env sub chk line) (forstat env sub' chk' line)" unfolding forstat_def by (intro agree)
qed

lemma ifstat [agree]: "agree i (ifstat env sub chk line) (ifstat env sub' chk' line)"
  unfolding ifstat_def elseif_body_def test_then_block_def by (intro agree)

lemma others [agree]: "agree i (localfunc env chk) (localfunc env chk')" "agree i (localstat env sub) (localstat env sub')"
  "agree i (funcstat env chk line) (funcstat env chk' line)" "agree i (exprstat env sub) (exprstat env sub')" "agree i (retstat env sub) (retstat env sub')"
proof -
  show "agree i (localfunc env chk) (localfunc env chk')" unfolding localfunc_def by (intro agree)
  show "agree i (localstat env sub) (localstat env sub')" unfolding localstat_def local_names_def by (intro agree)
  show "agree i (funcstat env chk line) (funcstat env chk' line)" unfolding funcstat_def by (intro agree)
  show "agree i (exprstat env sub) (exprstat env sub')" unfolding exprstat_def by (intro agree)
  show "agree i (retstat env sub) (retstat env sub')" unfolding retstat_def retvalues_def by (intro agree)
qed

lemma statements [agree]: "agree i (statements env sub chk b) (statements env sub' chk' b)"
  unfolding statements_def statement_def Let_def by (intro agree)

lemma binary [agree]: "agree i (binary_body env sub l v) (binary_body env sub' l v)"
  unfolding binary_body_def by (intro agree sub)

end

subsection \<open>Levels\<close>

text \<open>The rest of a rule that has entered a level leaves it.\<close>

definition leaves :: "nat \<Rightarrow> 'a par \<Rightarrow> 'a par \<Rightarrow> bool" where
  "leaves i m m' \<longleftrightarrow> (\<forall>st. nCcalls st = Suc i \<longrightarrow> m st = m' st \<and> (\<forall>x st'. m st = Some (Inr (x, st')) \<longrightarrow> nCcalls st' = i))"

lemma leavesD: "leaves i m m' \<Longrightarrow> nCcalls st = Suc i \<Longrightarrow> m st = m' st"
  "leaves i m m' \<Longrightarrow> nCcalls st = Suc i \<Longrightarrow> m st = Some (Inr (x, st')) \<Longrightarrow> nCcalls st' = i"
  unfolding leaves_def by blast+

lemma leaves_leavelevel: "leaves i (pthen leavelevel (pret x)) (pthen leavelevel (pret x))" "leaves i leavelevel leavelevel"
  by (auto simp: leaves_def leavelevel_def pthen_def pbind_def pmod_def pret_def)

lemma leaves_pbind: 
  assumes m: "agree (Suc i) m m'" and f: "\<And>x. leaves i (f x) (f' x)"
  shows "leaves i (pbind m f) (pbind m' f')"
  unfolding leaves_def
proof (intro allI impI)
  fix st :: Parser assume i: "nCcalls st = Suc i"
  have e: "m' st = m st" using agreeD(1) [OF m i] by simp
  show "pbind m f st = pbind m' f' st \<and> (\<forall>x st'. pbind m f st = Some (Inr (x, st')) \<longrightarrow> nCcalls st' = i)"
  proof (cases "\<exists>x st1. m st = Some (Inr (x, st1))")
    case True
    then obtain x st1 where r: "m st = Some (Inr (x, st1))" by blast
    from agreeD(2) [OF m i r] have j: "nCcalls st1 = Suc i" .
    from leavesD(1) [OF f j] leavesD(2) [OF f j] show ?thesis by (simp add: pbind_def e r)
  next
    case False
    then show ?thesis by (auto simp: pbind_def e split: option.splits sum.splits)
  qed
qed

lemma leaves_pthen: "agree (Suc i) m m' \<Longrightarrow> leaves i n n' \<Longrightarrow> leaves i (pthen m n) (pthen m' n')"
  by (simp add: pthen_def leaves_pbind)

lemma agree_enterlevel:
  assumes "Suc i \<le> LUAI_MAXCCALLS \<Longrightarrow> leaves i m m'"
  shows "agree i (pthen (enterlevel env) m) (pthen (enterlevel env) m')"
proof (cases "Suc i \<le> LUAI_MAXCCALLS")
  case True
  with assms have l: "leaves i m m'" .
  show ?thesis unfolding agree_def
  proof (intro allI impI)
    fix st :: Parser assume i: "nCcalls st = i"
    let ?st = "st\<lparr>nCcalls := Suc i\<rparr>"
    have "pthen (enterlevel env) n st = n ?st" for n :: "'a par"
      using i True by (simp add: enterlevel_def pthen_def pbind_def pmod_def pget_def pret_def)
    moreover have "nCcalls ?st = Suc i" by simp
    note leavesD(1) [OF l this] leavesD(2) [OF l this]
    ultimately show "pthen (enterlevel env) m st = pthen (enterlevel env) m' st \<and> (\<forall>x st'. pthen (enterlevel env) m st = Some (Inr (x, st')) \<longrightarrow> nCcalls st' = i)"
      by simp
  qed
next
  case False
  then have "pthen (enterlevel env) n st = lex_error env ''chunk has too many syntax levels'' (st\<lparr>nCcalls := Suc i\<rparr>)" if "nCcalls st = i" for n :: "'a par" and st
    using that by (simp add: enterlevel_def pthen_def pbind_def pmod_def pget_def lex_error_def)
  then show ?thesis by (simp add: agree_def lex_error_def)
qed

lemma parser_agrees:
  assumes "LUAI_MAXCCALLS < k + i" "LUAI_MAXCCALLS < k' + i" "0 < k" "0 < k'"
  shows "(\<forall>l. agree i (subexpr env k l) (subexpr env k' l)) \<and> agree i (chunk env k) (chunk env k')"
  using assms
proof (induction k arbitrary: k' i)
  case (Suc k)
  then obtain n where n: "k' = Suc n" by (cases k') auto
  have level: "same_level (Suc i) (subexpr env k) (subexpr env n) (chunk env k) (chunk env n)" if "Suc i \<le> LUAI_MAXCCALLS"
    using Suc.IH [of "Suc i" n] Suc.prems n that by (intro same_level.intro) auto
  have "agree i (subexpr_body env (subexpr env k) (chunk env k) l) (subexpr_body env (subexpr env n) (chunk env n) l)" for l
    unfolding subexpr_body_def Let_def
    by (intro agree_enterlevel leaves_pbind leaves_leavelevel agree same_level.sub [OF level] same_level.simpleexp [OF level] same_level.binary [OF level])
  moreover have "agree i (chunk_body env (subexpr env k) (chunk env k)) (chunk_body env (subexpr env n) (chunk env n))"
    unfolding chunk_body_def by (intro agree_enterlevel leaves_pthen leaves_leavelevel agree same_level.statements [OF level])
  moreover have "subexpr env (Suc j) l = subexpr_body env (subexpr env j) (chunk env j) l" "chunk env (Suc j) = chunk_body env (subexpr env j) (chunk env j)" for j l
    by (intro ext, simp)+
  ultimately show ?case by (simp only: n) blast
qed simp

text \<open>The parser with more fuel than it needs is at the same level as the parser with just enough.\<close>

interpretation level: same_level i "subexpr env (LUAI_MAXCCALLS + 1 + d)" "subexpr env (LUAI_MAXCCALLS + 1)" "chunk env (LUAI_MAXCCALLS + 1 + d)" "chunk env (LUAI_MAXCCALLS + 1)"
  for i env d
  using parser_agrees [of "LUAI_MAXCCALLS + 1 + d" i "LUAI_MAXCCALLS + 1" env] by (intro same_level.intro) simp_all

end
