(* ===== verification/Lua_Parse_Props.thy ===== *)
theory Lua_Parse_Props
  imports Lua_Parse_Inv Lua_Levels
begin

text \<open>
  What the parser promises: the functions it makes pass the first stage of the bytecode verifier, and a name means its innermost declaration.
\<close>

subsection \<open>Functions\<close>

lemma parser_run:
  assumes "luaY_parser_with env fuel calls z name = Some (Inr p)"
  shows "all_protos parsed_ok p"
proof -
  from assms obtain x1 st1 x2 st2 x3 st3 x4 st4 x5 st5 f st6 src where run: "push_func env \<lparr>p_ls = luaX_setinput z (cstr name), p_format = nf_of env, p_fs = [], nCcalls = calls, tables = 0\<rparr> = Some (Inr (x1, st1))"
    "set_vararg VARARG_ISVARARG st1 = Some (Inr (x2, st2))" "p_next env st2 = Some (Inr (x3, st3))" "chunk env fuel st3 = Some (Inr (x4, st4))"
    "check_token env TK_EOS st4 = Some (Inr (x5, st5))" "close_func st5 = Some (Inr (f, st6))" "p = finished_proto src f"
    by (auto simp: luaY_parser_with_def pthen_Inr pbind_Inr source_now_def pget_def pret_def split: option.splits sum.splits)
  have "stack_ok 0 (p_fs \<lparr>p_ls = luaX_setinput z (cstr name), p_format = nf_of env, p_fs = [], nCcalls = calls, tables = 0\<rparr>)" by (simp add: stack_ok_def)
  from starts_push [OF this run(1)] have s1: "starts (Suc 0) 0 (p_fs st1)" .
  have v: "VARARG_ISVARARG AND VARARG_NEEDSARG = 0" "VARARG_ISVARARG AND VARARG_HASARG = 0" by code_simp+
  have s2: "stack_ok (Suc 0) (p_fs st2)"
    using s1 run(2) v by (auto simp: starts_def set_vararg_def on_top_def stack_ok_Cons func_ok_def hasarg_def split: list.splits)
  note k = pkeepsD [where R = "stack_ok (Suc 0)"]
  from k [OF pkeeps_tests(2) run(5) k [OF parser_keeps(2) run(4) k [OF pkeeps_lexer(1) run(3) s2]]] have "stack_ok (Suc 0) (p_fs st5)" .
  from close_func_ok [OF run(6) this] run(7) show ?thesis by simp
qed

lemma parser_parsed: "luaY_parser env calls z name = Some (Inr p) \<Longrightarrow> all_protos parsed_ok p"
  unfolding luaY_parser_def by (rule parser_run)

text \<open>C32: Every function that the parser makes, and every function inside it, passes the first stage of the bytecode verifier: the stack is within the limit and
  has room for the parameters, the flags for variable arguments are consistent, there are not more names of upvalues than upvalues, every instruction
  has its line, and the last instruction is a return.\<close>

theorem parser_precheck:
  assumes "luaY_parser env calls z name = Some (Inr p)"
  shows "all_protos precheck p"
  by (rule all_protos_mono [OF parser_parsed [OF assms]]) (simp add: parsed_ok_def)

definition double_env :: "64 word lex_env" where
  "double_env = \<lparr>env_format = \<lparr>number2str = (\<lambda>n. replicate (unat n) (CHR ''1'')), cast_num = (\<lambda>c. num_of_int (sint c)), pointer2str = (\<lambda>_. ''0'')\<rparr>,
     env_strtod = (\<lambda>s. (0, 0)), env_strtoul = (\<lambda>s. (0, 0)), env_decimal_point = None\<rparr>"

definition sample_env :: par_env where
  "sample_env = \<lparr>par_lex = double_env, par_arith = (\<lambda>op x y. x), par_addr = (\<lambda>n. of_nat n)\<rparr>"

lemma empty_chunk: "\<exists>p. luaY_parser sample_env 0 (luaZ_init []) ''=empty'' = Some (Inr p) \<and> length (code p) = 1"
proof -
  define ls :: "64 word LexState" where "ls = luaX_setinput (luaZ_init []) (cstr ''=empty'')"
  have l: "current ls = None" "linenumber ls = 1" "LexState.lastline ls = 1" "lookahead ls = (TK_EOS, NoInfo)" "buff ls = []"
    by (simp_all add: ls_def luaX_setinput_def lex_next_def zgetc_def luaZ_fill_def luaZ_init_def)
  have same: "ls\<lparr>LexState.lastline := 1, buff := []\<rparr> = ls" using l by simp
  have "llex env (ls\<lparr>LexState.lastline := 1\<rparr>) = Inr (ls, (TK_EOS, NoInfo))" for env
    unfolding llex_def same by (subst llex_loop.simps) (simp add: llex_step_eof l(1))
  then have e: "luaX_next env ls = Inr (ls\<lparr>ls_t := (TK_EOS, NoInfo)\<rparr>)" for env by (simp add: luaX_next_def l(2,4))
  obtain c where c: "open_func 0 1 = Some (Inr c)" "fs_code c = []" "jpc c = NO_JUMP" "lasttarget c = - 1" "freereg_of c = 0" "nactvar c = 0"
    using open_func_ok [of 0 1] by blast
  have a: "par_addr sample_env 0 = 0" by (simp add: sample_env_def)
  have run: "chunk_body env sub chk st = Some (Inr ((), st))" if "fst (ls_t (p_ls st)) = TK_EOS" "nCcalls st = 0" for st env sub chk
  proof -
    have "block_follow TK_EOS" by (simp add: block_follow_def)
    then have "ploop (statements env sub chk) False st = Some (Inr ((), st))" if "fst (ls_t (p_ls st)) = TK_EOS" for sub chk st
      using that by (simp add: ploop.simps [of _ False] statements_def token_def pget_def pbind_def finish_def pret_def)
    then show ?thesis using that by (simp add: chunk_body_def enterlevel_def leavelevel_def pthen_def pbind_def pmod_def pget_def pret_def LUAI_MAXCCALLS_def)
  qed
  show ?thesis
    unfolding luaY_parser_def luaY_parser_with_def ls_def [symmetric]
    using c l(3)
    by (simp add: pthen_def pbind_def push_func_def a set_vararg_def on_top_def p_next_def e run check_token_def token_def pget_def pret_def close_func_def
        removevars.simps [of 0] on_fn_def luaK_ret_def gthen_def gbind_def luaK_codeABC_def gget_def luaK_code_plain pc_of_def MAX_INT_def gret_def top_def pmod_def
        source_now_def finished_proto_def)
qed

theorem parser_precheck_witness:
  "\<exists>p. luaY_parser sample_env 0 (luaZ_init []) ''=empty'' = Some (Inr p) \<and> length (code p) = 1 \<and> precheck p"
  using empty_chunk parser_precheck by (metis all_protos.simps)

text \<open>C38: In every function that the parser makes, and every function inside it, each instruction has exactly one line, the stack has the two registers that are always
  valid and stays below the limit, and the constants are all different and few enough to be indexed by an instruction.\<close>

theorem parsed_listing:
  assumes "luaY_parser env calls z name = Some (Inr p)"
  shows "all_protos (\<lambda>f. length (lineinfo f) = length (code f) \<and> 2 \<le> uint (maxstacksize f) \<and> uint (maxstacksize f) < MAXSTACK \<and> int (length (ks f)) \<le> MAXARG_Bx \<and>
    (\<forall>i<length (ks f). \<forall>j<length (ks f). same_const 0 (ks f ! i) (ks f ! j) \<longrightarrow> i = j)) p"
  by (rule all_protos_mono [OF parser_parsed [OF assms]]) (simp add: parsed_ok_def listing_ok_def)

theorem parsed_listing_witness:
  "\<exists>p. luaY_parser sample_env 0 (luaZ_init []) ''=empty'' = Some (Inr p) \<and> length (code p) = 1 \<and> length (lineinfo p) = 1 \<and> 2 \<le> uint (maxstacksize p)"
proof -
  obtain p where p: "luaY_parser sample_env 0 (luaZ_init []) ''=empty'' = Some (Inr p)" "length (code p) = 1" using empty_chunk by blast
  from parsed_listing [OF p(1)] p show ?thesis by (intro exI [of _ p]) (simp add: all_protos.simps [of _ p])
qed

text \<open>C34: The parser never runs out of fuel: with one level more than the limit of nested calls, every larger amount gives the same result on every input, since
  entering a level too many is reported as the error that the chunk has too many syntax levels.\<close>

theorem parser_fuel:
  assumes "LUAI_MAXCCALLS < fuel"
  shows "luaY_parser_with env fuel calls z name = luaY_parser env calls z name"
proof -
  let ?run = "\<lambda>c. pthen (push_func env) (pthen (set_vararg VARARG_ISVARARG) (pthen (p_next env) (pthen c
       (pthen (check_token env TK_EOS) (pbind close_func (\<lambda>f. pbind source_now (\<lambda>src. pret (finished_proto src f))))))))"
  let ?st = "\<lparr>p_ls = luaX_setinput z (cstr name), p_format = nf_of env, p_fs = [], nCcalls = calls, tables = 0\<rparr>"
  have "agree calls (chunk env fuel) (chunk env (LUAI_MAXCCALLS + 1))" using level.chk [of calls env "fuel - (LUAI_MAXCCALLS + 1)"] assms by simp
  then have "agree calls (?run (chunk env fuel)) (?run (chunk env (LUAI_MAXCCALLS + 1)))" by (intro agree)
  from agreeD(1) [OF this, of ?st] show ?thesis by (simp add: luaY_parser_with_def luaY_parser_def)
qed

theorem parser_fuel_witness:
  "luaY_parser_with sample_env 1000 0 (luaZ_init []) ''=empty'' = luaY_parser sample_env 0 (luaZ_init []) ''=empty''"
  by (rule parser_fuel) (simp add: LUAI_MAXCCALLS_def)

subsection \<open>Names\<close>

text \<open>The declarations of a name that are active in a function, and the innermost one in a chain of functions: how many functions out, and its index there.\<close>

definition declared :: "Func \<Rightarrow> TString \<Rightarrow> nat list" where
  "declared f n = filter (\<lambda>i. varname (fn_locvars f ! (fn_actvar f ! i)) = Some n) [0..<nat (nactvar (fn f))]"

fun innermost :: "Func list \<Rightarrow> TString \<Rightarrow> (nat \<times> int) option" where
  "innermost [] n = None"
| "innermost (f # fs) n = (if declared f n \<noteq> [] then Some (0, int (last (declared f n))) else map_option (\<lambda>(k, i). (Suc k, i)) (innermost fs n))"

text \<open>The variable that a local variable or an upvalue of the first function stands for, following the descriptors of upvalues outwards.\<close>

fun denotes :: "Func list \<Rightarrow> expkind \<Rightarrow> int \<Rightarrow> (nat \<times> int) option" where
  "denotes [] k i = None"
| "denotes (f # fs) k i = (if k = VLOCAL then Some (0, i)
     else if k = VUPVAL \<and> 0 \<le> i \<and> i < int (length (fn_upvalues f)) then
       (case fn_upvalues f ! nat i of (k, j) \<Rightarrow> map_option (\<lambda>(l, j). (Suc l, j)) (denotes fs k j))
     else None)"

lemma searchvar_declared: "searchvar f n = (if declared f n = [] then - 1 else int (last (declared f n)))"
proof -
  have "searchvar_loop f n m = (let is = filter (\<lambda>i. varname (fn_locvars f ! (fn_actvar f ! i)) = Some n) [0..<m] in if is = [] then - 1 else int (last is))" for m
    by (induction m) (simp_all add: Let_def)
  then show ?thesis by (simp add: searchvar_def declared_def Let_def)
qed

lemma declared_bound: "i \<in> set (declared f n) \<Longrightarrow> int i < nactvar (fn f)"
  by (auto simp: declared_def)

text \<open>Functions whose local variables and upvalues can be numbered by a byte.\<close>

definition numbered :: "Func \<Rightarrow> bool" where
  "numbered f \<longleftrightarrow> nactvar (fn f) \<le> LUAI_MAXVARS \<and> int (length (fn_upvalues f)) \<le> LUAI_MAXUPVALUES"

lemma index_of_found: "index_of x xs < length xs \<Longrightarrow> xs ! index_of x xs = x"
  by (induction x xs rule: index_of.induct) (auto split: if_splits)

lemma indexupvalue_denotes:
  assumes "indexupvalue env ls f name v = Inr (i, f')" "0 \<le> info v" "info v < 256" "numbered f"
  shows "fn f' = fn f \<and> 0 \<le> i \<and> i < int (length (fn_upvalues f')) \<and> i < LUAI_MAXUPVALUES \<and> fn_upvalues f' ! nat i = (ek v, info v) \<and> (\<exists>us. fn_upvalues f' = fn_upvalues f @ us)"
  using assms index_of_found [of "(ek v, info v)" "fn_upvalues f"]
  by (auto simp: indexupvalue_def Let_def numbered_def split: if_splits)

lemma denotes_markupval: "denotes (markupval v f # fs) k i = denotes (f # fs) k i"
  by (simp add: markupval_def)

lemma denotes_extend:
  assumes "\<And>k i p. denotes fs k i = Some p \<Longrightarrow> denotes fs' k i = Some p" "fn_upvalues f' = fn_upvalues f @ us" "denotes (f # fs) k i = Some p"
  shows "denotes (f' # fs') k i = Some p"
  using assms(2,3) assms(1) by (auto simp: nth_append nat_less_iff split: if_splits prod.splits)

text \<open>C33: A name in the source stands for its innermost declaration: a local variable of the current function, or else an upvalue whose descriptors lead, function by
  function, to the local variable that is declared last in the nearest function that declares the name; only a name that no function declares is
  global.  Upvalues that were there before keep their index and their meaning.\<close>

theorem names_resolved:
  assumes "singlevaraux env ls fs n base = Inr (var, fs')" "\<forall>f\<in>set fs. numbered f"
  shows "(case innermost fs n of None \<Rightarrow> ek var = VGLOBAL \<and> fs' = fs
     | Some p \<Rightarrow> ek var \<in> {VLOCAL, VUPVAL} \<and> denotes fs' (ek var) (info var) = Some p \<and> 0 \<le> info var \<and> info var < 256) \<and>
    (\<forall>k i p. denotes fs k i = Some p \<longrightarrow> denotes fs' k i = Some p)"
  using assms
proof (induction fs arbitrary: base var fs')
  case Nil
  then show ?case by (auto simp: init_exp_def)
next
  case (Cons f fs)
  show ?case
  proof (cases "declared f n = []")
    case False
    then have v: "searchvar f n = int (last (declared f n))" by (simp add: searchvar_declared)
    have "int (last (declared f n)) < 256" using declared_bound [OF last_in_set [OF False]] Cons.prems(2) by (simp add: numbered_def LUAI_MAXVARS_def)
    moreover have "var = init_exp VLOCAL (int (last (declared f n)))" "fs' = (if \<not> base then markupval (int (last (declared f n))) f else f) # fs"
      using Cons.prems(1) v by (auto simp: Let_def)
    ultimately show ?thesis using False denotes_markupval [of _ f fs] by (auto simp: init_exp_def simp del: denotes.simps(2)) simp_all
  next
    case True
    then have "searchvar f n = - 1" by (simp add: searchvar_declared)
    then obtain v fs1 where v: "singlevaraux env ls fs n False = Inr (v, fs1)"
      "(if ek v = VGLOBAL then Inr (v, f # fs1) else sbind (indexupvalue env ls f n v) (\<lambda>(i, f). Inr (v\<lparr>info := i, ek := VUPVAL\<rparr>, f # fs1))) = Inr (var, fs')"
      using Cons.prems(1) by (auto simp: Let_def sbind_Inr)
    have num: "numbered f" "\<forall>f\<in>set fs. numbered f" using Cons.prems(2) by simp_all
    note IH = Cons.IH [OF v(1) num(2)]
    show ?thesis
    proof (cases "innermost fs n")
      case None
      then have "ek v = VGLOBAL" "fs1 = fs" using IH by auto
      then show ?thesis using v(2) None True by auto
    next
      case (Some p)
      then have p: "ek v \<in> {VLOCAL, VUPVAL}" "denotes fs1 (ek v) (info v) = Some p" "0 \<le> info v" "info v < 256" using IH by auto
      then obtain i f' where i: "indexupvalue env ls f n v = Inr (i, f')" "var = v\<lparr>info := i, ek := VUPVAL\<rparr>" "fs' = f' # fs1"
        using v(2) by (auto simp: sbind_Inr)
      from indexupvalue_denotes [OF i(1) p(3,4) num(1)] obtain us where d: "0 \<le> i" "i < int (length (fn_upvalues f'))" "i < LUAI_MAXUPVALUES"
        "fn_upvalues f' ! nat i = (ek v, info v)" "fn_upvalues f' = fn_upvalues f @ us" by blast
      have "denotes fs' k j = Some q" if "denotes (f # fs) k j = Some q" for k j q
        unfolding i(3) by (rule denotes_extend [OF _ d(5) that]) (use IH in blast)
      moreover have "denotes fs' (ek var) (info var) = map_option (\<lambda>(l, j). (Suc l, j)) (Some p)" using d(1,2,4) p(2) i(2,3) by simp
      ultimately show ?thesis using Some True d(1,3) i(2) by (simp add: LUAI_MAXUPVALUES_def split: prod.splits)
    qed
  qed
qed

text \<open>A function with the given local variables.\<close>

definition sample_func :: "string list \<Rightarrow> Func" where
  "sample_func names = \<lparr>fn = sample_state\<lparr>nactvar := int (length names)\<rparr>, fn_linedefined = 1, fn_lastlinedefined = 1, fn_numparams = 0, fn_is_vararg = 0, fn_p = [],
     fn_locvars = map (\<lambda>s. \<lparr>varname = Some (tstring s), startpc = 0, endpc = 0\<rparr>) names, fn_actvar = [0..<length names], fn_bl = [], fn_upvalues = [], fn_upnames = []\<rparr>"

theorem names_resolved_witness:
  "\<exists>var fs'. singlevaraux sample_env (luaX_setinput (luaZ_init []) []) [sample_func [''a''], sample_func [''x'', ''y'', ''x'']] (tstring ''x'') True = Inr (var, fs') \<and>
     ek var = VUPVAL \<and> denotes fs' (ek var) (info var) = Some (1, 2)"
proof -
  let ?fs = "[sample_func [''a''], sample_func [''x'', ''y'', ''x'']]" and ?ls = "luaX_setinput (luaZ_init []) [] :: 64 word LexState"
  have n: "\<forall>f\<in>set ?fs. numbered f" by (simp add: sample_func_def numbered_def LUAI_MAXVARS_def LUAI_MAXUPVALUES_def)
  have i: "innermost ?fs (tstring ''x'') = Some (1, 2)" by code_simp
  have "case singlevaraux sample_env ?ls ?fs (tstring ''x'') True of Inr (var, fs') \<Rightarrow> ek var = VUPVAL | _ \<Rightarrow> False" by code_simp
  then obtain var fs' where r: "singlevaraux sample_env ?ls ?fs (tstring ''x'') True = Inr (var, fs')" "ek var = VUPVAL" by (auto split: sum.splits)
  from names_resolved [OF r(1) n] i r show ?thesis by simp
qed

end
