(* ===== verification/Spec2Isabelle.thy ===== *)
theory Spec2Isabelle
  imports Main_Props Lua_Rule_Props Tools Lua_Undump Lua_Strlib_Props Lua_Tablib Lua_Lex_Props Lua_Parse_Props
begin

text \<open>
  GTK Sudoku, a puzzle solving aid: a GTK program in C around a solver written in Lua, which the program runs with an
  embedded copy of the Lua 5.1 interpreter.

  \<^bold>\<open>The program.\<close>  The user types commands into an entry of the main window (\<^verbatim>\<open>src/src/gtksudoku.c\<close>).  A command line is split into words by
  \<^verbatim>\<open>src/src/interp.c\<close> and handed to the function \<open>eval\<close> of \<^verbatim>\<open>src/src/sudoku.lua\<close>, which keeps the current board and a
  history of boards, applies a solving rule or another command, and calls back into C to show the board in the widget
  (\<^verbatim>\<open>src/src/sudokuboard.c\<close>, \<^verbatim>\<open>src/src/sudokucell.c\<close>).  The editor dialog (\<^verbatim>\<open>src/src/sudokuedit.c\<close>) exchanges boards as
  strings (\<^verbatim>\<open>src/src/board.c\<close>).  At build time \<^verbatim>\<open>src/src/luac.c\<close> compiles the script, \<^verbatim>\<open>src/src/bin2c.c\<close> turns the result into a C array
  and \<^verbatim>\<open>src/src/u2d.c\<close> prepares text files; at run time the loader of Lua reads the array back.

  \<^bold>\<open>Theories.\<close>
  \<^item> \<open>Prelude\<close>: C integers and characters, counted loops, lemmas on lists.
  \<^item> \<open>Lua_Cell\<close>, \<open>Lua_Board\<close>, \<open>Lua_Rules\<close>, \<open>Lua_Session\<close>: \<^verbatim>\<open>sudoku.lua\<close> from cells to the command table.  A cell is the
    record of its nine flags, a board the list of its 81 cells in the order of the nested tables, the session is the record of \<open>it\<close>, \<open>history\<close> and \<open>details\<close>.
    A method that changes a board returns its result or error together with the changed board, since the changes stay when it raises an error.
  \<^item> \<open>Lua_Refine\<close>, \<open>Lua_Determine\<close>, \<open>Lua_Sound\<close>, \<open>Lua_Read\<close>, \<open>Lua_Rule_Props\<close>, \<open>Lua_Session_Props\<close>: their correctness.  The abstract specification is the set of
    grids that solve a board; the locale \<open>board_rule\<close> states what every rule promises (candidates only disappear, no solution is lost, the answer tells
    whether something was eliminated), and its lemmas carry over to rules that are repeated, tried in turn, or tried on all units.
  \<^item> \<open>Board_Chars\<close>, \<open>Widget_Cell\<close>, \<open>Widget_Board\<close>, \<open>Widget_Edit\<close>: the widgets.  Values are sets of digits as 32-bit words, drawing is the list of cairo calls,
    the locale \<open>cell_store\<close> is the interface of the board widget.
  \<^item> \<open>Interp\<close>, \<open>Main_Window\<close>, \<open>Main_Props\<close>: the glue and the window.  Events of the main loop are a step relation on windows; the invariant of all
    reachable states says that the widget shows the current board of the script.
  \<^item> \<open>Tools\<close>: \<^verbatim>\<open>bin2c.c\<close> and \<^verbatim>\<open>u2d.c\<close>.
  \<^item> \<open>Lua_Opcodes\<close>, \<open>Lua_Proto\<close>, \<open>Lua_Zio\<close>, \<open>Lua_Check\<close>, \<open>Lua_Dump\<close>, \<open>Lua_Undump\<close>: precompiled chunks.  Instructions are 32-bit words accessed by the macros
    of \<^verbatim>\<open>lopcodes.h\<close> (locale \<open>bitfield\<close>), prototypes are trees, streams (\<^verbatim>\<open>lzio.c\<close>) are the blocks that a reader returns, the bytecode verifier of
    \<^verbatim>\<open>ldebug.c\<close> is proved against a specification of the control flow of the virtual machine, and the locale \<open>codec\<close> relates every function of
    \<^verbatim>\<open>ldump.c\<close> with its inverse in \<^verbatim>\<open>lundump.c\<close>.
  \<^item> \<open>Lua_Object\<close>, \<open>Lua_Lex\<close>, \<open>Lua_Lex_Props\<close>: \<^verbatim>\<open>lobject.c\<close> and the lexical analyzer \<^verbatim>\<open>llex.c\<close>, whose state is the record of the fields of \<open>LexState\<close>.
  \<^item> \<open>Lua_Strlib\<close>, \<open>Lua_Strlib_Props\<close>, \<open>Lua_Tablib\<close>: the libraries of Lua that the solver uses, \<^verbatim>\<open>lstrlib.c\<close> with its pattern matcher and
    \<^verbatim>\<open>ltablib.c\<close> with \<open>table.sort\<close>, \<open>insert\<close> and \<open>remove\<close>.
  \<^item> \<open>Lua_String\<close>: the string table of \<^verbatim>\<open>lstring.c\<close>, a list of chains.
  \<^item> \<open>Lua_Table\<close>, \<open>Lua_Key\<close>, \<open>Lua_Scatter\<close>, \<open>Lua_Table_Props\<close>, \<open>Lua_Table_Put\<close>, \<open>Lua_Rehash\<close>, \<open>Lua_Table_Main\<close>, \<open>Lua_Table_Spec\<close>: the tables of \<^verbatim>\<open>ltable.c\<close>, an
    array part and a vector of nodes that are chained by their indices.  A pointer to a value is a slot.  \<open>Lua_Key\<close> holds the equality of keys and the numbers that
    are integers, \<open>Lua_Scatter\<close> the chains of a hash vector, the next theories insertion with Brent's variation, resizing and rehashing, and the last one the contract:
    the locale \<open>key_store\<close>, a finite map from keys to values, interpreted by the tables.
  \<^item> \<open>Lua_Code\<close>, \<open>Lua_Jump\<close>, \<open>Lua_Gen\<close>, \<open>Lua_Code_Props\<close>: the code generator \<^verbatim>\<open>lcode.c\<close>.  A function that is being generated is the record \<open>FuncState\<close>, an operation
    returns an error or a result with the next state.  \<open>Lua_Jump\<close> relates the jumps that are linked through their own instructions with lists of addresses,
    \<open>Lua_Gen\<close> has the invariant that every operation keeps; the locale \<open>gen_invariant\<close> carries a property from single instructions to all operations.
  \<^item> \<open>Lua_Parse\<close>, \<open>Lua_Grammar\<close>, \<open>Lua_Parse_Inv\<close>, \<open>Lua_Levels\<close>, \<open>Lua_Parse_Props\<close>: the parser \<^verbatim>\<open>lparser.c\<close>, which calls the lexical analyzer and the code generator.
    \<open>Lua_Parse\<close> has its state, the chain of open functions with their blocks, variables and upvalues, \<open>Lua_Grammar\<close> one function for every rule of the grammar.  All recursion
    goes through \<open>subexpr\<close> and \<open>chunk\<close>, which the other rules take as arguments; the locale \<open>grammar\<close> shows for every rule that it keeps the invariant of the chain when these two do, and
    the locale \<open>same_level\<close> that two parsers agree when they agree one level further down.

  \<^bold>\<open>What the theorems show.\<close>
  \<^item> Solver: every rule keeps exactly the solutions of the board, \<open>solve\<close> ends and has exhausted all rules, the effect of the elimination rules
    is the one that their help texts promise.
  \<^item> Session: commands keep boards well formed and keep solutions, a rule answers \<open>yes\<close> and has eliminated something, or \<open>no\<close> and has changed no candidate, or that the board is
    inconsistent when it has no solution; commands can be undone, and loading what was saved gives the same puzzle, also what happens to a board without a solution.
  \<^item> Window: the widget always shows the current board; what a cell draws; words of a command line; files that cannot be read or written.
  \<^item> Editor: equivalent to editing the text of the board; leaving it unchanged changes nothing.
  \<^item> Chunks: reading back a dumped function gives it back, truncated chunks are refused, whatever loads has passed the verifier, and code that passed
    it cannot leave its bounds, with one exception that is proved too; of the call frame of \<open>OP_TFORLOOP\<close> only the part that the verifier checks is covered.
  \<^item> Lexical analyzer: it terminates and makes progress, reads names and reserved words to their end, and undoes the quoting of \<open>%q\<close>.
  \<^item> Libraries: matches stay inside their subject, plain search is pattern search, the \<open>gsub\<close> call of the solver does what the model of the solver assumes,
    \<open>table.sort\<close> sorts.
  \<^item> Tables: a table is a finite map in which 0 and -0 are one key; setting a key always returns, through collisions and rehashing, \<open>next\<close> visits every pair once, the length
    is a boundary, and rehashing makes the array part as large as it may be.
  \<^item> Code generator: jumps reach their targets and nothing but jumps and the tests that set a register for them changes, constants are shared and never entered twice, merged
    instructions do what the separate ones would have done; a lemma shows the exception, the operand word of a long table constructor.
  \<^item> Parser: the functions it makes pass the first stage of the bytecode verifier, each instruction in them has its line and their constants are different, a name means its innermost declaration and the descriptors of upvalues lead to it, and the levels of
    recursion that the parser allows itself are enough.

  \<^bold>\<open>Fuel and bounds.\<close>  Loops of \<^verbatim>\<open>sudoku.lua\<close> that run until nothing changes get the number of candidates of the board plus one as fuel;
  that it never runs out is part of the contract \<open>board_rule\<close>.  \<open>determine\<close> recurses at most once per cell.  \<open>table.sort\<close> takes the depth of recursion as fuel, and as many levels as
  elements are proved to be enough.  \<open>subexpr\<close> and \<open>chunk\<close> take the
  number of syntax levels that can still be entered; one more than the limit of nested calls is enough, because entering a level beyond the limit is an error.  The loops of the parser, each of
  which consumes a token or ends, are partial functions without a value when they do not end.  Inserting
  into a full table sets the key again after rehashing; one repetition is enough, because the new table is proved to have room.  The walks of the code generator over its lists of jumps
  have no value on a cyclic list and are proved to end on all others.  The loops of the pattern matcher, of the analyzer, of streams and of the verifier are total functions with a measure.
  Integers are words where the code can wrap and mathematical integers where it checks bounds first.

  \<^bold>\<open>Not modelled.\<close>  GTK, cairo, the C library and floating point arithmetic: what the code uses of them is an argument of the definitions (key bindings, file contents,
  \<open>strtod\<close>, \<open>fwrite\<close>, the folding of constants) or an effect in their result.  The virtual machine, the garbage collector and the stack interface of
  Lua: the models of the script and of the libraries work on the values that these implement.  Keys that the collector has marked dead and metatables.  Libraries of Lua that only call the operating
  system, and the parts of \<^verbatim>\<open>string.format\<close> that are \<open>sprintf\<close>.
\<close>

end
